(* ===== verification/Prelude.thy ===== *)
theory Prelude
  imports Main "HOL-Library.Word" "HOL-Library.AList"
begin

text \<open>
  Shared vocabulary of the development: the machine integers of
  \<^verbatim>\<open>include/types.h\<close>, byte buffers and little-endian fields (the
  \<^verbatim>\<open>memcpy\<close> idiom of the storage and log code), C++ strings as character lists,
  associative containers as association lists, and the generic lemmas on them that the
  component theories share.
\<close>

unbundle bit_operations_syntax

named_theorems codec_simps \<open>rewrite rules for byte encoders and decoders\<close>
named_theorems model_defs \<open>definitions that the component proofs unfold\<close>

type_synonym u8 = "8 word"
type_synonym u16 = "16 word"
type_synonym u32 = "32 word"
type_synonym u64 = "64 word"
type_synonym bytes = "8 word list"

text \<open>The identifier types of \<^verbatim>\<open>include/types.h\<close>.\<close>

type_synonym PageId = "64 word"
type_synonym TableId = "32 word"
type_synonym IndexId = "32 word"
type_synonym TransactionId = "64 word"
type_synonym ColumnId = "16 word"
type_synonym RecordId = "64 word"
type_synonym LogSequenceNumber = "64 word"

definition INVALID_PAGE_ID :: PageId where
  "INVALID_PAGE_ID = -1"

definition INVALID_COLUMN_ID :: ColumnId where
  "INVALID_COLUMN_ID = -1"

section \<open>Little-endian fields\<close>

text \<open>
  \<open>le_bytes n w\<close> is what \<^verbatim>\<open>memcpy(buffer, &w, n)\<close> leaves in the buffer on the
  little-endian hosts the program is built for, \<open>of_le\<close> is the value
  \<^verbatim>\<open>memcpy(&w, buffer, n)\<close> reads back.
\<close>

fun le_bytes :: "nat \<Rightarrow> 'a::len word \<Rightarrow> bytes" where
  "le_bytes 0 w = []"
| "le_bytes (Suc n) w = ucast w # le_bytes n (drop_bit 8 w)"

fun of_le :: "bytes \<Rightarrow> 'a::len word" where
  "of_le [] = 0"
| "of_le (b # bs) = ucast b OR push_bit 8 (of_le bs)"

lemma length_le_bytes [simp, codec_simps]: "length (le_bytes n w) = n"
  by (induction n w rule: le_bytes.induct) auto

lemma le_bytes_2: "le_bytes 2 w = [ucast w, ucast (drop_bit 8 w)]"
  by (simp add: numeral_2_eq_2)

lemma of_le_le_bytes_take_bit: "of_le (le_bytes n w) = take_bit (8 * n) w"
proof (induction n w rule: le_bytes.induct)
  case (1 w)
  show ?case by simp
next
  case (2 n w)
  show ?case
    by (rule bit_word_eqI)
      (auto simp: "2.IH" bit_simps of_le.simps le_bytes.simps)
qed

lemma of_le_le_bytes [simp, codec_simps]:
  fixes w :: "'a::len word"
  assumes "LENGTH('a) \<le> 8 * n"
  shows "of_le (le_bytes n w) = w"
  using assms by (simp add: of_le_le_bytes_take_bit take_bit_word_eq_self)

lemma le_bytes_inj:
  fixes v w :: "'a::len word"
  assumes "LENGTH('a) \<le> 8 * n" and "le_bytes n v = le_bytes n w"
  shows "v = w"
  using assms of_le_le_bytes [OF assms(1), of v] of_le_le_bytes [OF assms(1), of w] by metis

lemma bit_of_le: "bit (of_le bs :: 'a::len word) n \<Longrightarrow> n < 8 * length bs"
proof (induction bs arbitrary: n)
  case (Cons b bs)
  then consider "bit b n" | "8 \<le> n" "bit (of_le bs :: 'a word) (n - 8)"
    by (auto simp: bit_simps)
  then show ?case
  proof cases
    case 1
    then show ?thesis using bit_imp_le_length by fastforce
  next
    case 2
    then show ?thesis using Cons.IH [of "n - 8"] by simp
  qed
qed simp

lemma le_bytes_of_le:
  "8 * length bs \<le> LENGTH('a::len) \<Longrightarrow> le_bytes (length bs) (of_le bs :: 'a word) = bs"
proof (induction bs)
  case (Cons b bs)
  let ?w = "of_le bs :: 'a word"
  have b: "ucast (of_le (b # bs) :: 'a word) = b"
    using Cons.prems by (intro bit_word_eqI) (auto simp: bit_simps)
  have "drop_bit 8 (of_le (b # bs)) = ?w"
  proof (rule bit_word_eqI)
    fix n
    have "\<not> bit b (8 + n)" using bit_imp_le_length [of b "8 + n"] by auto
    moreover have "8 + n < LENGTH('a)" if "bit ?w n"
      using bit_of_le [OF that] Cons.prems by simp
    ultimately show "bit (drop_bit 8 (of_le (b # bs)) :: 'a word) n \<longleftrightarrow> bit ?w n"
      by (auto simp: bit_simps)
  qed
  with b Cons show ?case by simp
qed simp

lemma of_le_inj:
  assumes "(of_le as :: 'a::len word) = of_le bs" and "length as = length bs"
    and "8 * length bs \<le> LENGTH('a)"
  shows "as = bs"
  using le_bytes_of_le [of "as", where ?'a = 'a] le_bytes_of_le [of bs, where ?'a = 'a] assms by metis

lemma unat_ucast_up [simp]:
  fixes w :: "'a::len word"
  assumes "LENGTH('a) \<le> LENGTH('b::len)"
  shows "unat (ucast w :: 'b word) = unat w"
proof -
  have "unat w < 2 ^ LENGTH('a)" by (rule unsigned_less)
  also have "\<dots> \<le> 2 ^ LENGTH('b)" using assms by (intro power_increasing) auto
  finally show ?thesis by (simp add: unsigned_ucast_eq take_bit_nat_eq_self)
qed

lemma unat_of_nat_u16: "n < 2 ^ 16 \<Longrightarrow> unat (of_nat n :: u16) = n"
  by (simp add: unat_of_nat)

lemma unat_plus_one:
  fixes w :: "'a::len word"
  assumes "w \<noteq> - 1"
  shows "unat (w + 1) = unat w + 1"
proof -
  have "unat w \<noteq> 2 ^ LENGTH('a) - 1"
    using assms by (simp add: word_unat_eq_iff unsigned_minus_1_eq_mask mask_eq_exp_minus_1)
  moreover have "unat w < 2 ^ LENGTH('a)" by (rule unsigned_less)
  ultimately have "unat w + 1 < 2 ^ LENGTH('a)" by linarith
  then show ?thesis by (simp add: unat_word_ariths(1) mod_less)
qed

lemma less_plus_one_iff:
  fixes w :: "'a::len word"
  assumes "w \<noteq> - 1"
  shows "v < w + 1 \<longleftrightarrow> v \<le> w"
  using unat_plus_one [OF assms] by (simp add: word_less_nat_alt word_le_nat_alt less_Suc_eq_le)

section \<open>Strings\<close>

text \<open>The bytes of a \<^verbatim>\<open>std::string\<close>.\<close>

definition byte_of_char :: "char \<Rightarrow> u8" where
  "byte_of_char c = of_nat (of_char c)"

definition char_of_byte :: "u8 \<Rightarrow> char" where
  "char_of_byte b = char_of (unat b)"

lemma char_of_byte_of_char [simp, codec_simps]: "char_of_byte (byte_of_char c) = c"
proof -
  have "of_char c < (256 :: nat)" by (rule nat_of_char_less_256)
  then have "unat (of_nat (of_char c) :: u8) = of_char c"
    by (simp add: unat_of_nat)
  then show ?thesis by (simp add: char_of_byte_def byte_of_char_def)
qed

lemma char_byte_comp [simp, codec_simps]: "char_of_byte \<circ> byte_of_char = id"
  by (rule ext) simp

lemma byte_of_char_of_byte [simp, codec_simps]: "byte_of_char (char_of_byte b) = b"
proof -
  have "unat b < 256" using unsigned_less [of b, where ?'a = nat] by simp
  then show ?thesis by (simp add: char_of_byte_def byte_of_char_def)
qed

abbreviation bytes_of_string :: "string \<Rightarrow> bytes" where
  "bytes_of_string s \<equiv> map byte_of_char s"

abbreviation string_of_bytes :: "bytes \<Rightarrow> string" where
  "string_of_bytes bs \<equiv> map char_of_byte bs"

lemma string_of_bytes_of_string [simp, codec_simps]: "string_of_bytes (bytes_of_string s) = s"
  by (induction s) simp_all

section \<open>Byte buffers\<close>

text \<open>
  Reads and writes of a fixed buffer. An access outside the buffer is undefined behaviour
  in C++; the model makes it the value \<^const>\<open>None\<close>.
\<close>

definition read_at :: "nat \<Rightarrow> nat \<Rightarrow> bytes \<Rightarrow> bytes option" where
  "read_at i n buf = (if i + n \<le> length buf then Some (take n (drop i buf)) else None)"

definition write_at :: "nat \<Rightarrow> bytes \<Rightarrow> bytes \<Rightarrow> bytes option" where
  "write_at i bs buf =
     (if i + length bs \<le> length buf
      then Some (take i buf @ bs @ drop (i + length bs) buf) else None)"

lemma write_at_Some_iff: "(\<exists>buf'. write_at i bs buf = Some buf') \<longleftrightarrow> i + length bs \<le> length buf"
  by (simp add: write_at_def)

lemma length_write_at: "write_at i bs buf = Some buf' \<Longrightarrow> length buf' = length buf"
  by (auto simp: write_at_def split: if_splits)

lemma read_write_same:
  assumes "write_at i bs buf = Some buf'"
  shows "read_at i (length bs) buf' = Some bs"
  using assms by (auto simp: read_at_def write_at_def split: if_splits)

lemma drop_take_append_disjoint:
  assumes "j + n \<le> i" and "i \<le> length buf"
  shows "take n (drop j (take i buf @ xs)) = take n (drop j buf)"
proof -
  have "take n (drop j (take i buf @ xs)) = drop j (take (n + j) (take i buf @ xs))"
    by (rule take_drop)
  also have "take (n + j) (take i buf @ xs) = take (n + j) buf"
    using assms by simp
  finally show ?thesis by (simp only: take_drop)
qed

lemma read_write_disjoint:
  assumes w: "write_at i bs buf = Some buf'"
    and d: "j + n \<le> i \<or> i + length bs \<le> j"
  shows "read_at j n buf' = read_at j n buf"
proof -
  from w have b: "i + length bs \<le> length buf"
    and buf': "buf' = take i buf @ bs @ drop (i + length bs) buf"
    by (auto simp: write_at_def split: if_splits)
  have len: "length buf' = length buf" using b buf' by simp
  from d show ?thesis
  proof
    assume l: "j + n \<le> i"
    then have "take n (drop j buf') = take n (drop j buf)"
      unfolding buf' using b by (intro drop_take_append_disjoint) auto
    then show ?thesis by (simp add: read_at_def len)
  next
    assume r: "i + length bs \<le> j"
    have "drop j buf' = drop (j - i - length bs) (drop (i + length bs) buf)"
      unfolding buf' using b r by simp
    also have "\<dots> = drop j buf" using r by simp
    finally show ?thesis by (simp add: read_at_def len)
  qed
qed

section \<open>Associative containers\<close>

text \<open>
  A \<^verbatim>\<open>std::unordered_map\<close> whose size or iteration the code uses is an association
  list with distinct keys; the order of the list is the iteration order.
\<close>

abbreviation keys_of :: "('k \<times> 'v) list \<Rightarrow> 'k list" where
  "keys_of m \<equiv> map fst m"

definition wf_map :: "('k \<times> 'v) list \<Rightarrow> bool" where
  "wf_map m \<longleftrightarrow> distinct (keys_of m)"

lemma wf_map_Nil [simp]: "wf_map []"
  by (simp add: wf_map_def)

lemma wf_map_update [simp]: "wf_map m \<Longrightarrow> wf_map (AList.update k v m)"
  by (simp add: wf_map_def distinct_update)

lemma wf_map_delete [simp]: "wf_map m \<Longrightarrow> wf_map (AList.delete k m)"
  by (simp add: wf_map_def distinct_delete)

lemma map_of_update [simp]: "map_of (AList.update k v m) = (map_of m)(k \<mapsto> v)"
  by (rule update_conv')

lemma map_of_delete [simp]: "map_of (AList.delete k m) = (map_of m)(k := None)"
  by (rule delete_conv')

lemma set_keys_delete [simp]: "set (keys_of (AList.delete k m)) = set (keys_of m) - {k}"
  by (simp add: dom_map_of_conv_image_fst [symmetric])

lemma map_of_filter_key: "map_of (filter (\<lambda>(k, v). P k) m) k = (if P k then map_of m k else None)"
  by (induction m) auto

lemma wf_map_filter [simp]: "wf_map m \<Longrightarrow> wf_map (filter P m)"
  by (simp add: wf_map_def distinct_map_filter)

lemma wf_map_member: "wf_map m \<Longrightarrow> (k, v) \<in> set m \<longleftrightarrow> map_of m k = Some v"
  by (metis map_of_SomeD map_of_is_SomeI wf_map_def)

lemma map_of_filter_map:
  assumes "wf_map m"
  shows "map_of (filter (\<lambda>(k, v). P v) (map (\<lambda>(k, v). (k, f v)) m)) k
    = (case map_of m k of None \<Rightarrow> None | Some v \<Rightarrow> if P (f v) then Some (f v) else None)"
  using assms
proof (induction m)
  case (Cons a m)
  obtain k' v where a: "a = (k', v)" by (cases a)
  have "k' \<notin> set (keys_of m)" "wf_map m" using Cons.prems a by (simp_all add: wf_map_def)
  then have "map_of m k' = None" by (simp add: map_of_eq_None_iff)
  with Cons.IH [OF \<open>wf_map m\<close>] a show ?case by auto
qed simp

lemma wf_map_map_values [simp]: "wf_map m \<Longrightarrow> wf_map (map (\<lambda>(k, v). (k, f v)) m)"
  by (simp add: wf_map_def case_prod_beta comp_def)

lemma set_update_subset: "set (AList.update k v m) \<subseteq> insert (k, v) (set m)"
  by (induction m) auto

lemma alist_length_update: "length (AList.update k v m) = (if k \<in> set (keys_of m) then length m else Suc (length m))"
  by (induction m) auto

section \<open>How a call ends\<close>

text \<open>
  How a call ends: it returns, it waits forever for a mutex its own thread holds, or it does
  what the language leaves undefined, such as a use of memory that is not there.
\<close>

datatype 'a outcome = Finished 'a | Hangs | Undef

primrec and_then :: "'a outcome \<Rightarrow> ('a \<Rightarrow> 'b outcome) \<Rightarrow> 'b outcome" where
  "and_then (Finished x) f = f x"
| "and_then Hangs f = Hangs"
| "and_then Undef f = Undef"

lemma and_then_Finished: "and_then m f = Finished y \<longleftrightarrow> (\<exists>x. m = Finished x \<and> f x = Finished y)"
  by (cases m) auto

end
