(* ===== verification/Status.thy ===== *)
theory Status
  imports Prelude
begin

text \<open>
  \<^verbatim>\<open>include/status.h\<close>: the status codes every component returns, the
  \<^verbatim>\<open>Status\<close> class (a code with a message) and its queries and rendering.
\<close>

datatype StatusCode =
    OK | DONE | NOT_FOUND | ALREADY_EXISTS
  | ERROR | NOT_IMPLEMENTED | UNSUPPORTED | INVALID_ARGUMENT | OUT_OF_RANGE
  | IO_ERROR | CORRUPTED_DATA | NO_SPACE | PAGE_NOT_FOUND
  | TRANSACTION_ERROR | DEADLOCK | SERIALIZATION | LOCK_TIMEOUT | TRANSACTION_ABORTED
  | CONSTRAINT_VIOLATION | UNIQUE_VIOLATION | FOREIGN_KEY_VIOLATION | CHECK_VIOLATION
  | NOT_NULL_VIOLATION
  | PERMISSION_DENIED | UNAUTHORIZED
  | OUT_OF_MEMORY | OUT_OF_DISK | TOO_MANY_CONNECTIONS
  | CONNECTION_ERROR | TIMEOUT
  | SYNTAX_ERROR | SEMANTIC_ERROR
  | INDEX_ERROR | DUPLICATE_KEY | KEY_NOT_FOUND

primrec status_number :: "StatusCode \<Rightarrow> nat" where
  "status_number OK = 0"
| "status_number DONE = 1"
| "status_number NOT_FOUND = 2"
| "status_number ALREADY_EXISTS = 3"
| "status_number ERROR = 100"
| "status_number NOT_IMPLEMENTED = 101"
| "status_number UNSUPPORTED = 102"
| "status_number INVALID_ARGUMENT = 103"
| "status_number OUT_OF_RANGE = 104"
| "status_number IO_ERROR = 200"
| "status_number CORRUPTED_DATA = 201"
| "status_number NO_SPACE = 202"
| "status_number PAGE_NOT_FOUND = 203"
| "status_number TRANSACTION_ERROR = 300"
| "status_number DEADLOCK = 301"
| "status_number SERIALIZATION = 302"
| "status_number LOCK_TIMEOUT = 303"
| "status_number TRANSACTION_ABORTED = 304"
| "status_number CONSTRAINT_VIOLATION = 400"
| "status_number UNIQUE_VIOLATION = 401"
| "status_number FOREIGN_KEY_VIOLATION = 402"
| "status_number CHECK_VIOLATION = 403"
| "status_number NOT_NULL_VIOLATION = 404"
| "status_number PERMISSION_DENIED = 500"
| "status_number UNAUTHORIZED = 501"
| "status_number OUT_OF_MEMORY = 600"
| "status_number OUT_OF_DISK = 601"
| "status_number TOO_MANY_CONNECTIONS = 602"
| "status_number CONNECTION_ERROR = 700"
| "status_number TIMEOUT = 701"
| "status_number SYNTAX_ERROR = 800"
| "status_number SEMANTIC_ERROR = 801"
| "status_number INDEX_ERROR = 900"
| "status_number DUPLICATE_KEY = 901"
| "status_number KEY_NOT_FOUND = 902"

primrec codeToString :: "StatusCode \<Rightarrow> string" where
  "codeToString OK = ''OK''"
| "codeToString DONE = ''DONE''"
| "codeToString NOT_FOUND = ''NOT_FOUND''"
| "codeToString ALREADY_EXISTS = ''ALREADY_EXISTS''"
| "codeToString ERROR = ''ERROR''"
| "codeToString NOT_IMPLEMENTED = ''NOT_IMPLEMENTED''"
| "codeToString UNSUPPORTED = ''UNSUPPORTED''"
| "codeToString INVALID_ARGUMENT = ''INVALID_ARGUMENT''"
| "codeToString OUT_OF_RANGE = ''OUT_OF_RANGE''"
| "codeToString IO_ERROR = ''IO_ERROR''"
| "codeToString CORRUPTED_DATA = ''CORRUPTED_DATA''"
| "codeToString NO_SPACE = ''NO_SPACE''"
| "codeToString PAGE_NOT_FOUND = ''PAGE_NOT_FOUND''"
| "codeToString TRANSACTION_ERROR = ''TRANSACTION_ERROR''"
| "codeToString DEADLOCK = ''DEADLOCK''"
| "codeToString SERIALIZATION = ''SERIALIZATION''"
| "codeToString LOCK_TIMEOUT = ''LOCK_TIMEOUT''"
| "codeToString TRANSACTION_ABORTED = ''TRANSACTION_ABORTED''"
| "codeToString CONSTRAINT_VIOLATION = ''CONSTRAINT_VIOLATION''"
| "codeToString UNIQUE_VIOLATION = ''UNIQUE_VIOLATION''"
| "codeToString FOREIGN_KEY_VIOLATION = ''FOREIGN_KEY_VIOLATION''"
| "codeToString CHECK_VIOLATION = ''CHECK_VIOLATION''"
| "codeToString NOT_NULL_VIOLATION = ''NOT_NULL_VIOLATION''"
| "codeToString PERMISSION_DENIED = ''PERMISSION_DENIED''"
| "codeToString UNAUTHORIZED = ''UNAUTHORIZED''"
| "codeToString OUT_OF_MEMORY = ''OUT_OF_MEMORY''"
| "codeToString OUT_OF_DISK = ''OUT_OF_DISK''"
| "codeToString TOO_MANY_CONNECTIONS = ''TOO_MANY_CONNECTIONS''"
| "codeToString CONNECTION_ERROR = ''CONNECTION_ERROR''"
| "codeToString TIMEOUT = ''TIMEOUT''"
| "codeToString SYNTAX_ERROR = ''SYNTAX_ERROR''"
| "codeToString SEMANTIC_ERROR = ''SEMANTIC_ERROR''"
| "codeToString INDEX_ERROR = ''INDEX_ERROR''"
| "codeToString DUPLICATE_KEY = ''DUPLICATE_KEY''"
| "codeToString KEY_NOT_FOUND = ''KEY_NOT_FOUND''"

record Status =
  code :: StatusCode
  message :: string

definition status_ok :: "Status \<Rightarrow> bool" where
  "status_ok s \<longleftrightarrow> code s = OK"

definition isError :: "Status \<Rightarrow> bool" where
  "isError s \<longleftrightarrow> \<not> status_ok s"

definition isConstraintViolation :: "Status \<Rightarrow> bool" where
  "isConstraintViolation s \<longleftrightarrow>
     code s = CONSTRAINT_VIOLATION \<or> code s = UNIQUE_VIOLATION \<or>
     code s = FOREIGN_KEY_VIOLATION \<or> code s = CHECK_VIOLATION \<or>
     code s = NOT_NULL_VIOLATION"

definition status_eq :: "Status \<Rightarrow> Status \<Rightarrow> bool" where
  "status_eq s t \<longleftrightarrow> code s = code t"

definition status_toString :: "Status \<Rightarrow> string" where
  "status_toString s =
     codeToString (code s) @ (if message s \<noteq> [] then '': '' @ message s else [])"

definition all_codes :: "StatusCode list" where
  "all_codes =
     [OK, DONE, NOT_FOUND, ALREADY_EXISTS, ERROR, NOT_IMPLEMENTED, UNSUPPORTED,
      INVALID_ARGUMENT, OUT_OF_RANGE, IO_ERROR, CORRUPTED_DATA, NO_SPACE, PAGE_NOT_FOUND,
      TRANSACTION_ERROR, DEADLOCK, SERIALIZATION, LOCK_TIMEOUT, TRANSACTION_ABORTED,
      CONSTRAINT_VIOLATION, UNIQUE_VIOLATION, FOREIGN_KEY_VIOLATION, CHECK_VIOLATION,
      NOT_NULL_VIOLATION, PERMISSION_DENIED, UNAUTHORIZED, OUT_OF_MEMORY, OUT_OF_DISK,
      TOO_MANY_CONNECTIONS, CONNECTION_ERROR, TIMEOUT, SYNTAX_ERROR, SEMANTIC_ERROR,
      INDEX_ERROR, DUPLICATE_KEY, KEY_NOT_FOUND]"

lemma all_codes_complete: "c \<in> set all_codes"
  by (cases c) (simp_all add: all_codes_def)

lemma inj_by_all_codes: "distinct (map f all_codes) \<Longrightarrow> f c = f d \<Longrightarrow> c = d"
  using all_codes_complete [of c] all_codes_complete [of d]
  by (auto simp: distinct_map inj_on_def)

lemma status_number_inj: "status_number c = status_number d \<Longrightarrow> c = d"
  by (rule inj_by_all_codes [of status_number]) (simp_all add: all_codes_def)

lemma codeToString_inj: "codeToString c = codeToString d \<Longrightarrow> c = d"
  by (rule inj_by_all_codes [of codeToString]) (simp_all add: all_codes_def)

lemma codeToString_no_colon: "CHR '':'' \<notin> set (codeToString c)"
  by (cases c) simp_all

lemma isConstraintViolation_range:
  "isConstraintViolation s \<longleftrightarrow> 400 \<le> status_number (code s) \<and> status_number (code s) < 500"
  by (cases "code s") (simp_all add: isConstraintViolation_def)

end
