(* ===== verification/Types.thy ===== *)
theory Types
  imports Status "HOL-Library.Char_ord" "HOL-Library.List_Lexorder"
begin

text \<open>
  \<^verbatim>\<open>include/types.h\<close>: data types, the tagged \<^verbatim>\<open>Value\<close> with its union of
  scalars, the comparison operators, and the column and table schemas with record
  validation. The anonymous union is kept as its 64 bits: \<open>int_val\<close>, \<open>bool_val\<close>
  and the other members read the low bits of it, whatever the tag says, as the code does.
\<close>

section \<open>Data types\<close>

text \<open>
  \<^verbatim>\<open>static_cast<DataType>\<close> of a stored byte may name no enumerator;
  \<open>DT_RAW n\<close> is the raw value \<open>18 + n\<close>.
\<close>

datatype DataType =
    UNKNOWN | INTEGER | BIGINT | SMALLINT | VARCHAR | CHAR_T | TEXT | BOOLEAN | DATE | TIME
  | TIMESTAMP | DECIMAL | FLOAT | DOUBLE | BLOB | JSON | UUID | NULL_TYPE | DT_RAW nat

primrec dt_code :: "DataType \<Rightarrow> nat" where
  "dt_code UNKNOWN = 0"
| "dt_code INTEGER = 1"
| "dt_code BIGINT = 2"
| "dt_code SMALLINT = 3"
| "dt_code VARCHAR = 4"
| "dt_code CHAR_T = 5"
| "dt_code TEXT = 6"
| "dt_code BOOLEAN = 7"
| "dt_code DATE = 8"
| "dt_code TIME = 9"
| "dt_code TIMESTAMP = 10"
| "dt_code DECIMAL = 11"
| "dt_code FLOAT = 12"
| "dt_code DOUBLE = 13"
| "dt_code BLOB = 14"
| "dt_code JSON = 15"
| "dt_code UUID = 16"
| "dt_code NULL_TYPE = 17"
| "dt_code (DT_RAW n) = 18 + n"

definition dt_enumerators :: "DataType list" where
  "dt_enumerators = [UNKNOWN, INTEGER, BIGINT, SMALLINT, VARCHAR, CHAR_T, TEXT, BOOLEAN, DATE,
     TIME, TIMESTAMP, DECIMAL, FLOAT, DOUBLE, BLOB, JSON, UUID, NULL_TYPE]"

definition dt_of_code :: "nat \<Rightarrow> DataType" where
  "dt_of_code n = (if n < 18 then dt_enumerators ! n else DT_RAW (n - 18))"

lemma dt_of_code_code [simp, codec_simps]: "dt_of_code (dt_code t) = t"
  by (cases t) (simp_all add: dt_of_code_def dt_enumerators_def)

lemma dt_code_inj [simp]: "dt_code s = dt_code t \<longleftrightarrow> s = t"
  by (metis dt_of_code_code)

instantiation DataType :: linorder
begin

definition less_eq_DataType :: "DataType \<Rightarrow> DataType \<Rightarrow> bool" where
  "less_eq_DataType s t \<longleftrightarrow> dt_code s \<le> dt_code t"

definition less_DataType :: "DataType \<Rightarrow> DataType \<Rightarrow> bool" where
  "less_DataType s t \<longleftrightarrow> dt_code s < dt_code t"

instance
  by standard (auto simp: less_eq_DataType_def less_DataType_def)

end

section \<open>Values\<close>

text \<open>
  The union is kept as its eight bytes. A constructor writes one member and leaves the bytes after it
  indeterminate; \<open>set_bytes\<close> says how many bytes have a value (the others are zero in \<open>data\<close>, but code
  that reads them has no defined result). Reading a member other than the one that was written gives
  the bytes, as the compilers define it.
\<close>

record Value =
  vtype :: DataType
  data :: "64 word"
  set_bytes :: nat
  str_val :: string
  blob_val :: bytes

definition int_val :: "Value \<Rightarrow> 32 word" where
  "int_val v = ucast (data v)"

definition bigint_val :: "Value \<Rightarrow> 64 word" where
  "bigint_val v = data v"

definition smallint_val :: "Value \<Rightarrow> 16 word" where
  "smallint_val v = ucast (data v)"

definition bool_val :: "Value \<Rightarrow> bool" where
  "bool_val v \<longleftrightarrow> (ucast (data v) :: u8) \<noteq> 0"

definition float_val :: "Value \<Rightarrow> 32 word" where
  "float_val v = ucast (data v)"

definition double_val :: "Value \<Rightarrow> 64 word" where
  "double_val v = data v"

definition Value_null :: Value where
  "Value_null = \<lparr>vtype = NULL_TYPE, data = 0, set_bytes = 4, str_val = [], blob_val = []\<rparr>"

definition Value_int :: "32 word \<Rightarrow> Value" where
  "Value_int i = \<lparr>vtype = INTEGER, data = ucast i, set_bytes = 4, str_val = [], blob_val = []\<rparr>"

definition Value_bigint :: "64 word \<Rightarrow> Value" where
  "Value_bigint i = \<lparr>vtype = BIGINT, data = i, set_bytes = 8, str_val = [], blob_val = []\<rparr>"

definition Value_smallint :: "16 word \<Rightarrow> Value" where
  "Value_smallint i = \<lparr>vtype = SMALLINT, data = ucast i, set_bytes = 2, str_val = [], blob_val = []\<rparr>"

definition Value_bool :: "bool \<Rightarrow> Value" where
  "Value_bool b = \<lparr>vtype = BOOLEAN, data = of_bool b, set_bytes = 1, str_val = [], blob_val = []\<rparr>"

definition Value_double :: "64 word \<Rightarrow> Value" where
  "Value_double d = \<lparr>vtype = DOUBLE, data = d, set_bytes = 8, str_val = [], blob_val = []\<rparr>"

definition Value_float :: "32 word \<Rightarrow> Value" where
  "Value_float f = \<lparr>vtype = FLOAT, data = ucast f, set_bytes = 4, str_val = [], blob_val = []\<rparr>"

definition Value_string :: "string \<Rightarrow> Value" where
  "Value_string s = \<lparr>vtype = VARCHAR, data = 0, set_bytes = 0, str_val = s, blob_val = []\<rparr>"

definition Value_blob :: "bytes \<Rightarrow> Value" where
  "Value_blob b = \<lparr>vtype = BLOB, data = 0, set_bytes = 0, str_val = [], blob_val = b\<rparr>"

lemmas value_constructors [model_defs] =
  Value_null_def Value_int_def Value_bigint_def Value_smallint_def Value_bool_def
  Value_double_def Value_float_def Value_string_def Value_blob_def

lemmas value_readers [model_defs] =
  int_val_def bigint_val_def smallint_val_def bool_val_def float_val_def double_val_def

text \<open>
  Reading a member whatever the type of the value is, as the executor does: bytes without a value and
  a Boolean other than 0 and 1 have no defined result.
\<close>

definition read_int :: "Value \<Rightarrow> int outcome" where
  "read_int v = (if 4 \<le> set_bytes v then Finished (sint (int_val v)) else Undef)"

definition read_bool :: "Value \<Rightarrow> bool outcome" where
  "read_bool v = (if 1 \<le> set_bytes v \<and> (ucast (data v) :: u8) \<le> 1 then Finished (bool_val v) else Undef)"

definition isNull :: "Value \<Rightarrow> bool" where
  "isNull v \<longleftrightarrow> vtype v = NULL_TYPE"

text \<open>
  IEEE 754 comparison on bit patterns, \<open>m\<close> mantissa and \<open>e\<close> exponent bits: a NaN is
  unordered, otherwise patterns compare as sign and magnitude (so both zeros are equal).
\<close>

definition fp_nan :: "nat \<Rightarrow> nat \<Rightarrow> 'a::len word \<Rightarrow> bool" where
  "fp_nan m e w \<longleftrightarrow> take_bit m w \<noteq> 0 \<and> take_bit e (drop_bit m w) = mask e"

definition fp_key :: "nat \<Rightarrow> nat \<Rightarrow> 'a::len word \<Rightarrow> int" where
  "fp_key m e w = (if bit w (m + e) then - uint (take_bit (m + e) w)
                   else uint (take_bit (m + e) w))"

definition fp_eq :: "nat \<Rightarrow> nat \<Rightarrow> 'a::len word \<Rightarrow> 'a word \<Rightarrow> bool" where
  "fp_eq m e v w \<longleftrightarrow> \<not> fp_nan m e v \<and> \<not> fp_nan m e w \<and> fp_key m e v = fp_key m e w"

definition fp_less :: "nat \<Rightarrow> nat \<Rightarrow> 'a::len word \<Rightarrow> 'a word \<Rightarrow> bool" where
  "fp_less m e v w \<longleftrightarrow> \<not> fp_nan m e v \<and> \<not> fp_nan m e w \<and> fp_key m e v < fp_key m e w"

definition value_eq :: "Value \<Rightarrow> Value \<Rightarrow> bool" where
  "value_eq a b =
     (if vtype a \<noteq> vtype b then False
      else case vtype a of
          INTEGER \<Rightarrow> int_val a = int_val b
        | BIGINT \<Rightarrow> bigint_val a = bigint_val b
        | SMALLINT \<Rightarrow> smallint_val a = smallint_val b
        | BOOLEAN \<Rightarrow> bool_val a = bool_val b
        | DOUBLE \<Rightarrow> fp_eq 52 11 (double_val a) (double_val b)
        | FLOAT \<Rightarrow> fp_eq 23 8 (float_val a) (float_val b)
        | VARCHAR \<Rightarrow> str_val a = str_val b
        | CHAR_T \<Rightarrow> str_val a = str_val b
        | TEXT \<Rightarrow> str_val a = str_val b
        | BLOB \<Rightarrow> blob_val a = blob_val b
        | NULL_TYPE \<Rightarrow> True
        | _ \<Rightarrow> False)"

definition value_less :: "Value \<Rightarrow> Value \<Rightarrow> bool" where
  "value_less a b =
     (if vtype a \<noteq> vtype b then dt_code (vtype a) < dt_code (vtype b)
      else case vtype a of
          INTEGER \<Rightarrow> sint (int_val a) < sint (int_val b)
        | BIGINT \<Rightarrow> sint (bigint_val a) < sint (bigint_val b)
        | SMALLINT \<Rightarrow> sint (smallint_val a) < sint (smallint_val b)
        | BOOLEAN \<Rightarrow> \<not> bool_val a \<and> bool_val b
        | DOUBLE \<Rightarrow> fp_less 52 11 (double_val a) (double_val b)
        | FLOAT \<Rightarrow> fp_less 23 8 (float_val a) (float_val b)
        | VARCHAR \<Rightarrow> str_val a < str_val b
        | CHAR_T \<Rightarrow> str_val a < str_val b
        | TEXT \<Rightarrow> str_val a < str_val b
        | _ \<Rightarrow> False)"

definition value_le :: "Value \<Rightarrow> Value \<Rightarrow> bool" where
  "value_le a b \<longleftrightarrow> value_less a b \<or> value_eq a b"

definition value_gt :: "Value \<Rightarrow> Value \<Rightarrow> bool" where
  "value_gt a b \<longleftrightarrow> \<not> value_le a b"

definition value_ge :: "Value \<Rightarrow> Value \<Rightarrow> bool" where
  "value_ge a b \<longleftrightarrow> \<not> value_less a b"

text \<open>
  \<^verbatim>\<open>Value::hash\<close>, over the standard library's hash functions.
\<close>

record std_hash =
  h_int32 :: "32 word \<Rightarrow> 64 word"
  h_int64 :: "64 word \<Rightarrow> 64 word"
  h_int16 :: "16 word \<Rightarrow> 64 word"
  h_bool :: "bool \<Rightarrow> 64 word"
  h_double :: "64 word \<Rightarrow> 64 word"
  h_float :: "32 word \<Rightarrow> 64 word"
  h_string :: "string \<Rightarrow> 64 word"
  h_uint8 :: "u8 \<Rightarrow> 64 word"

definition value_hash :: "std_hash \<Rightarrow> Value \<Rightarrow> 64 word" where
  "value_hash H v =
     (let h = of_nat (dt_code (vtype v)) in
      case vtype v of
          INTEGER \<Rightarrow> h XOR h_int32 H (int_val v)
        | BIGINT \<Rightarrow> h XOR h_int64 H (bigint_val v)
        | SMALLINT \<Rightarrow> h XOR h_int16 H (smallint_val v)
        | BOOLEAN \<Rightarrow> h XOR h_bool H (bool_val v)
        | DOUBLE \<Rightarrow> h XOR h_double H (double_val v)
        | FLOAT \<Rightarrow> h XOR h_float H (float_val v)
        | VARCHAR \<Rightarrow> h XOR h_string H (str_val v)
        | CHAR_T \<Rightarrow> h XOR h_string H (str_val v)
        | TEXT \<Rightarrow> h XOR h_string H (str_val v)
        | BLOB \<Rightarrow> fold (\<lambda>byte h. h XOR h_uint8 H byte) (blob_val v) h
        | _ \<Rightarrow> h)"

section \<open>Schemas\<close>

record ColumnSchema =
  col_id :: ColumnId
  col_name :: string
  col_type :: DataType
  col_length :: u32
  col_precision :: int
  col_scale :: int
  nullable :: bool
  is_primary_key :: bool
  is_unique :: bool
  is_auto_increment :: bool
  default_value :: string
  col_comment :: string

definition ColumnSchema_default :: ColumnSchema where
  "ColumnSchema_default =
     \<lparr>col_id = 0, col_name = [], col_type = INTEGER, col_length = 0, col_precision = 10,
      col_scale = 0, nullable = True, is_primary_key = False, is_unique = False,
      is_auto_increment = False, default_value = [], col_comment = []\<rparr>"

record TableSchema =
  tab_id :: TableId
  tab_name :: string
  columns :: "ColumnSchema list"
  primary_key :: "ColumnId list"
  indexes :: "(string \<times> IndexId) list"
  options :: "(string \<times> string) list"

text \<open>The sum is computed in \<^verbatim>\<open>uint32_t\<close>: \<open>length + 4\<close> wraps before it widens.\<close>

definition getSizeInBytes :: "ColumnSchema \<Rightarrow> u64" where
  "getSizeInBytes c =
     (case col_type c of
        INTEGER \<Rightarrow> 4 | BIGINT \<Rightarrow> 8 | SMALLINT \<Rightarrow> 2 | BOOLEAN \<Rightarrow> 1 | DOUBLE \<Rightarrow> 8 | FLOAT \<Rightarrow> 4
      | VARCHAR \<Rightarrow> ucast (col_length c + 4)
      | CHAR_T \<Rightarrow> ucast (col_length c + 4)
      | TEXT \<Rightarrow> ucast (col_length c + 4)
      | _ \<Rightarrow> 8)"

fun getColumnId_loop :: "ColumnSchema list \<Rightarrow> string \<Rightarrow> ColumnId" where
  "getColumnId_loop [] n = INVALID_COLUMN_ID"
| "getColumnId_loop (c # cs) n = (if col_name c = n then col_id c else getColumnId_loop cs n)"

definition getColumnId :: "TableSchema \<Rightarrow> string \<Rightarrow> ColumnId" where
  "getColumnId s n = getColumnId_loop (columns s) n"

fun getColumnIndex_loop :: "ColumnSchema list \<Rightarrow> u64 \<Rightarrow> string \<Rightarrow> u64" where
  "getColumnIndex_loop [] i n = -1"
| "getColumnIndex_loop (c # cs) i n = (if col_name c = n then i else getColumnIndex_loop cs (i + 1) n)"

definition getColumnIndex :: "TableSchema \<Rightarrow> string \<Rightarrow> u64" where
  "getColumnIndex s n = getColumnIndex_loop (columns s) 0 n"

definition hasColumn :: "TableSchema \<Rightarrow> string \<Rightarrow> bool" where
  "hasColumn s n \<longleftrightarrow> getColumnIndex s n \<noteq> -1"

definition getRecordSize :: "TableSchema \<Rightarrow> u64" where
  "getRecordSize s = fold (\<lambda>c size. size + getSizeInBytes c) (columns s) 0"

fun validate_loop :: "ColumnSchema list \<Rightarrow> Value list \<Rightarrow> bool" where
  "validate_loop (c # cs) (v # vs) =
     (if isNull v \<and> \<not> nullable c then False
      else if \<not> isNull v \<and> vtype v \<noteq> col_type c then False
      else if \<not> isNull v \<and> (col_type c = VARCHAR \<or> col_type c = CHAR_T) \<and>
              length (str_val v) > unat (col_length c) then False
      else validate_loop cs vs)"
| "validate_loop _ _ = True"

definition validateRecord :: "TableSchema \<Rightarrow> Value list \<Rightarrow> bool" where
  "validateRecord s r =
     (if length r \<noteq> length (columns s) then False else validate_loop (columns s) r)"

section \<open>Order and equality of values\<close>

text \<open>The values on which the operators behave as one total order.\<close>

definition comparable :: "Value \<Rightarrow> bool" where
  "comparable v \<longleftrightarrow>
     vtype v \<in> {INTEGER, BIGINT, SMALLINT, BOOLEAN, VARCHAR, CHAR_T, TEXT, NULL_TYPE} \<or>
     vtype v = DOUBLE \<and> \<not> fp_nan 52 11 (double_val v) \<or>
     vtype v = FLOAT \<and> \<not> fp_nan 23 8 (float_val v)"

lemma value_less_irrefl [simp]: "\<not> value_less a a"
  by (cases "vtype a") (auto simp: value_less_def fp_less_def)

lemma value_less_type: "value_less a b \<Longrightarrow> dt_code (vtype a) \<le> dt_code (vtype b)"
  by (auto simp: value_less_def split: if_splits)

lemma value_less_trans_same:
  assumes "vtype a = vtype b" "vtype b = vtype c" "value_less a b" "value_less b c"
  shows "value_less a c"
  using assms by (cases "vtype c") (auto simp: value_less_def fp_less_def)

lemma value_less_trans:
  assumes "value_less a b" "value_less b c"
  shows "value_less a c"
proof (cases "vtype a = vtype b \<and> vtype b = vtype c")
  case True
  with assms show ?thesis using value_less_trans_same by blast
next
  case False
  have le: "dt_code (vtype a) \<le> dt_code (vtype b)" "dt_code (vtype b) \<le> dt_code (vtype c)"
    using assms by (auto dest: value_less_type)
  with False have "dt_code (vtype a) < dt_code (vtype c)"
    by (metis dt_code_inj le_neq_implies_less le_less_trans less_le_trans)
  then show ?thesis by (auto simp: value_less_def)
qed

lemma value_eq_sym: "value_eq a b = value_eq b a"
  by (cases "vtype a") (auto simp: value_eq_def fp_eq_def)

lemma value_eq_not_less: "value_eq a b \<Longrightarrow> \<not> value_less a b"
  by (cases "vtype b") (auto simp: value_eq_def value_less_def fp_eq_def fp_less_def split: if_splits)

lemma sint_trichotomy:
  fixes v w :: "'a::len word"
  shows "sint v < sint w \<or> v = w \<or> sint w < sint v"
  using signed_word_eqI [of v w] by (metis linorder_less_linear)

lemma value_trichotomy_same:
  assumes "comparable a" "comparable b" "vtype a = vtype b"
  shows "value_less a b \<or> value_eq a b \<or> value_less b a"
  using assms sint_trichotomy [of "int_val a" "int_val b"]
    sint_trichotomy [of "bigint_val a" "bigint_val b"]
    sint_trichotomy [of "smallint_val a" "smallint_val b"]
  by (cases "vtype b")
    (auto simp: comparable_def value_less_def value_eq_def fp_less_def fp_eq_def)

lemma value_trichotomy:
  assumes "comparable a" "comparable b"
  shows "value_less a b \<or> value_eq a b \<or> value_less b a"
proof (cases "vtype a = vtype b")
  case True
  with assms show ?thesis by (rule value_trichotomy_same)
next
  case False
  then have "dt_code (vtype a) \<noteq> dt_code (vtype b)" by simp
  with False show ?thesis by (auto simp: value_less_def)
qed

section \<open>Properties of values and schemas\<close>

text \<open>
  The comparison operators order values: \<open><\<close> is irreflexive and transitive on all
  values, and on the comparable ones (every type with a comparison rule, no NaN) exactly one
  of \<open><\<close>, \<open>==\<close>, \<open>>\<close> holds, where \<open>>\<close> is the reverse of \<open><\<close>.
\<close>

lemma value_order:
  "\<not> value_less a a \<and> (value_less a b \<and> value_less b c \<longrightarrow> value_less a c) \<and>
   (comparable a \<and> comparable b \<longrightarrow>
      (value_gt a b \<longleftrightarrow> value_less b a) \<and> (value_ge a b \<longleftrightarrow> value_gt a b \<or> value_eq a b) \<and>
      (value_eq a b \<longleftrightarrow> \<not> value_less a b \<and> \<not> value_gt a b))"
proof (intro conjI impI)
  show "value_less a c" if "value_less a b \<and> value_less b c"
    using that value_less_trans by blast
  assume c: "comparable a \<and> comparable b"
  note t = value_trichotomy [of a b] value_eq_not_less [of a b] value_eq_not_less [of b a]
    value_eq_sym [of a b] value_less_trans [of a b a]
  show "value_gt a b \<longleftrightarrow> value_less b a"
    and "value_ge a b \<longleftrightarrow> value_gt a b \<or> value_eq a b"
    and "value_eq a b \<longleftrightarrow> \<not> value_less a b \<and> \<not> value_gt a b"
    using t c by (auto simp: value_gt_def value_le_def value_ge_def)
qed simp

text \<open>
  Values of the types without a comparison rule (dates, times, decimals, JSON, UUIDs and
  unknown types) are greater than themselves.
\<close>

lemma unordered_types_greater_than_self:
  assumes "vtype v \<in> {UNKNOWN, DATE, TIME, TIMESTAMP, DECIMAL, JSON, UUID}"
  shows "value_gt v v \<and> \<not> value_eq v v"
  using assms by (auto simp: value_gt_def value_le_def value_eq_def)

text \<open>
  Equal values have equal hashes, when the standard library's hashes of floating-point
  numbers agree on numbers that compare equal (it promises equal hashes for equal arguments).
\<close>

lemma value_hash_respects_eq:
  assumes double_hash: "\<And>x y. fp_eq 52 11 x y \<Longrightarrow> h_double H x = h_double H y"
    and float_hash: "\<And>x y. fp_eq 23 8 x y \<Longrightarrow> h_float H x = h_float H y"
    and eq: "value_eq a b"
  shows "value_hash H a = value_hash H b"
  using eq by (cases "vtype b")
    (auto simp: value_eq_def value_hash_def dest: double_hash float_hash split: if_splits)

definition zero_hash :: std_hash where
  "zero_hash = \<lparr>h_int32 = (\<lambda>_. 0), h_int64 = (\<lambda>_. 0), h_int16 = (\<lambda>_. 0), h_bool = (\<lambda>_. 0),
     h_double = (\<lambda>_. 0), h_float = (\<lambda>_. 0), h_string = (\<lambda>_. 0), h_uint8 = (\<lambda>_. 0)\<rparr>"

lemma validate_loop_iff:
  "length r = length cs \<Longrightarrow> validate_loop cs r \<longleftrightarrow>
   (\<forall>i < length cs. if isNull (r ! i) then nullable (cs ! i)
      else vtype (r ! i) = col_type (cs ! i) \<and>
        (col_type (cs ! i) \<in> {VARCHAR, CHAR_T} \<longrightarrow> length (str_val (r ! i)) \<le> unat (col_length (cs ! i))))"
proof (induction cs r rule: validate_loop.induct)
  case (1 c cs v vs)
  then show ?case by (auto simp: less_Suc_eq_0_disj not_less)
qed auto

text \<open>
  C40: \<^verbatim>\<open>validateRecord\<close> accepts exactly the records with one value per column where
  a null is in a nullable column and every other value has the column's type and, for VARCHAR
  and CHAR, at most the declared length.
\<close>

theorem validateRecord_iff:
  "validateRecord s r \<longleftrightarrow> length r = length (columns s) \<and>
   (\<forall>i < length (columns s). if isNull (r ! i) then nullable (columns s ! i)
      else vtype (r ! i) = col_type (columns s ! i) \<and>
        (if col_type (columns s ! i) \<in> {VARCHAR, CHAR_T}
         then length (str_val (r ! i)) \<le> unat (col_length (columns s ! i)) else True))"
  using validate_loop_iff [of r "columns s"] by (auto simp: validateRecord_def)

theorem validateRecord_iff_witness:
  "\<not> validateRecord \<lparr>tab_id = 1, tab_name = ''t'', columns = [ColumnSchema_default\<lparr>nullable := False\<rparr>],
      primary_key = [], indexes = [], options = []\<rparr> [Value_null]"
  using validateRecord_iff [of "\<lparr>tab_id = 1, tab_name = ''t'',
      columns = [ColumnSchema_default\<lparr>nullable := False\<rparr>], primary_key = [], indexes = [],
      options = []\<rparr>" "[Value_null]"]
  by (simp add: isNull_def Value_null_def)

end
