(* ===== verification/ValueCodec.thy ===== *)
theory ValueCodec
  imports Types
begin

text \<open>
  The two tagged encodings of a single \<^verbatim>\<open>Value\<close>: the one of a data page
  (\<^verbatim>\<open>storage/page.cpp\<close>: \<^verbatim>\<open>serializeValue\<close>, \<^verbatim>\<open>deserializeValue\<close>,
  \<^verbatim>\<open>getValueSize\<close>) and the one of the write-ahead log
  (\<^verbatim>\<open>transaction/wal.cpp\<close>: \<^verbatim>\<open>serializeRecord\<close>,
  \<^verbatim>\<open>deserializeRecord\<close>). The locale \<open>field_codec\<close> states what a reader relies
  on, and proves once that a run of encoded fields decodes to the fields.
\<close>

section \<open>The contract of a self-delimiting field codec\<close>

locale field_codec =
  fixes enc :: "'v \<Rightarrow> bytes"
    and dec :: "bytes \<Rightarrow> ('v \<times> nat) option"
    and ok :: "'v \<Rightarrow> bool"
    and image :: "'v \<Rightarrow> 'v"
  assumes dec_enc: "ok v \<Longrightarrow> dec (enc v @ rest) = Some (image v, length (enc v))"
    and enc_nonempty: "enc v \<noteq> []"
begin

fun dec_fields :: "nat \<Rightarrow> bytes \<Rightarrow> ('v list \<times> bytes) option" where
  "dec_fields 0 bs = Some ([], bs)"
| "dec_fields (Suc n) bs =
     (case dec bs of None \<Rightarrow> None
      | Some (v, k) \<Rightarrow>
          (case dec_fields n (drop k bs) of None \<Rightarrow> None
           | Some (vs, rest) \<Rightarrow> Some (v # vs, rest)))"

lemma dec_fields_enc:
  "list_all ok vs \<Longrightarrow> dec_fields (length vs) (concat (map enc vs) @ rest) = Some (map image vs, rest)"
  by (induction vs) (simp_all add: dec_enc)

lemma enc_injective:
  assumes "ok v" and "ok w" and "enc v = enc w"
  shows "image v = image w"
  using dec_enc [OF assms(1), of "[]"] dec_enc [OF assms(2), of "[]"] assms(3) by simp

lemma enc_prefix_free:
  assumes "ok v" and "ok w" and "enc v @ r = enc w @ s"
  shows "image v = image w \<and> r = s"
proof -
  have e: "Some (image v, length (enc v)) = Some (image w, length (enc w))"
    using dec_enc [OF assms(1), of r] dec_enc [OF assms(2), of s] assms(3) by simp
  then have "length (enc v) = length (enc w)" by simp
  with e assms(3) show ?thesis by simp
qed

lemma records_injective:
  assumes "list_all ok vs" and "list_all ok ws"
    and "concat (map enc vs) @ r = concat (map enc ws) @ s" and "length vs = length ws"
  shows "map image vs = map image ws"
proof -
  have "Some (map image vs, r) = dec_fields (length vs) (concat (map enc vs) @ r)"
    by (rule dec_fields_enc [OF assms(1), symmetric])
  also have "\<dots> = dec_fields (length ws) (concat (map enc ws) @ s)"
    by (simp only: assms(3,4))
  also have "\<dots> = Some (map image ws, s)" by (rule dec_fields_enc [OF assms(2)])
  finally show ?thesis by simp
qed

lemma length_concat_enc: "length vs \<le> length (concat (map enc vs))"
proof (induction vs)
  case (Cons v vs)
  have "1 \<le> length (enc v)" using enc_nonempty [of v] by (cases "enc v") simp_all
  from add_mono [OF this Cons.IH] show ?case by simp
qed simp

end

section \<open>Page fields\<close>

definition getValueSize :: "Value \<Rightarrow> nat" where
  "getValueSize v =
     1 + (case vtype v of
            INTEGER \<Rightarrow> 4
          | BIGINT \<Rightarrow> 8
          | BOOLEAN \<Rightarrow> 1
          | VARCHAR \<Rightarrow> 4 + length (str_val v)
          | _ \<Rightarrow> 0)"

text \<open>The length field is a \<^verbatim>\<open>uint32_t\<close>, and so is the number of bytes copied.\<close>

definition string_field :: "string \<Rightarrow> bytes" where
  "string_field s =
     (let len = (of_nat (length s) :: u32)
      in le_bytes 4 len @ take (unat len) (bytes_of_string s))"

definition type_byte :: "Value \<Rightarrow> u8" where
  "type_byte v = of_nat (dt_code (vtype v))"

definition serializeValue :: "Value \<Rightarrow> bytes" where
  "serializeValue v =
     type_byte v #
       (case vtype v of
          INTEGER \<Rightarrow> le_bytes 4 (int_val v)
        | BIGINT \<Rightarrow> le_bytes 8 (bigint_val v)
        | BOOLEAN \<Rightarrow> [ucast (data v)]
        | VARCHAR \<Rightarrow> string_field (str_val v)
        | _ \<Rightarrow> [])"

text \<open>
  The reader is given the buffer from its pointer on; reading past the end of the buffer is
  undefined and gives \<^const>\<open>None\<close>.
\<close>

definition deserializeValue :: "bytes \<Rightarrow> (Value \<times> nat) option" where
  "deserializeValue buf =
     (case buf of
        [] \<Rightarrow> None
      | t # rest \<Rightarrow>
          let ty = dt_of_code (unat t); val = Value_null\<lparr>vtype := ty\<rparr> in
          (case ty of
             INTEGER \<Rightarrow>
               (if length rest < 4 then None
                else Some (val\<lparr>data := ucast (of_le (take 4 rest) :: 32 word)\<rparr>, 5))
           | BIGINT \<Rightarrow>
               (if length rest < 8 then None
                else Some (val\<lparr>data := of_le (take 8 rest), set_bytes := 8\<rparr>, 9))
           | BOOLEAN \<Rightarrow>
               (case rest of [] \<Rightarrow> None | b # _ \<Rightarrow> Some (val\<lparr>data := ucast b\<rparr>, 2))
           | VARCHAR \<Rightarrow>
               (if length rest < 4 then None
                else let len = unat (of_le (take 4 rest) :: u32) in
                  if length rest < 4 + len then None
                  else Some (val\<lparr>str_val := string_of_bytes (take len (drop 4 rest))\<rparr>, 5 + len))
           | _ \<Rightarrow> Some (val, 1)))"

text \<open>
  The values a page can take: the type code fits into its byte, the length of a string into its
  field, and the bytes of the union that are written have a value. What comes back: the type, and
  the value for the four types the page code writes; the payload of the other types is dropped.
\<close>

definition storable :: "Value \<Rightarrow> bool" where
  "storable v \<longleftrightarrow> dt_code (vtype v) < 256 \<and>
     (case vtype v of
        INTEGER \<Rightarrow> 4 \<le> set_bytes v
      | BIGINT \<Rightarrow> 8 \<le> set_bytes v
      | BOOLEAN \<Rightarrow> 1 \<le> set_bytes v
      | VARCHAR \<Rightarrow> length (str_val v) < 2 ^ 32
      | _ \<Rightarrow> True)"

definition read_back :: "Value \<Rightarrow> Value" where
  "read_back v =
     (case vtype v of
        INTEGER \<Rightarrow> Value_int (int_val v)
      | BIGINT \<Rightarrow> Value_bigint (bigint_val v)
      | BOOLEAN \<Rightarrow> Value_null\<lparr>vtype := BOOLEAN, data := ucast (ucast (data v) :: u8)\<rparr>
      | VARCHAR \<Rightarrow> Value_null\<lparr>vtype := VARCHAR, str_val := str_val v\<rparr>
      | t \<Rightarrow> Value_null\<lparr>vtype := t\<rparr>)"

lemma type_byte_code:
  "dt_code (vtype v) < 256 \<Longrightarrow> dt_of_code (unat (type_byte v)) = vtype v"
  by (simp add: type_byte_def unat_of_nat)

lemma length_string_field:
  "length s < 2 ^ 32 \<Longrightarrow> length (string_field s) = 4 + length s"
  by (simp add: string_field_def unat_of_nat Let_def)

lemma string_field_parts:
  assumes "length s < 2 ^ 32"
  shows "string_field s = le_bytes 4 (of_nat (length s) :: u32) @ bytes_of_string s"
  using assms by (simp add: string_field_def Let_def unat_of_nat)

lemma length_serializeValue:
  assumes "vtype v = VARCHAR \<longrightarrow> length (str_val v) < 2 ^ 32"
  shows "length (serializeValue v) = getValueSize v"
  using assms
  by (cases "vtype v") (simp_all add: serializeValue_def getValueSize_def length_string_field)

lemma getValueSize_pos [simp]: "0 < getValueSize v"
  by (simp add: getValueSize_def)

lemma deserializeValue_pos: "deserializeValue bs = Some (v, n) \<Longrightarrow> 0 < n"
  by (auto simp: deserializeValue_def Let_def split: list.splits DataType.splits if_splits)

lemma deserialize_serialize:
  assumes "storable v"
  shows "deserializeValue (serializeValue v @ rest) = Some (read_back v, getValueSize v)"
proof -
  have t: "dt_of_code (unat (type_byte v)) = vtype v"
    using assms by (intro type_byte_code) (simp add: storable_def)
  have "length (str_val v) < 2 ^ 32" if "vtype v = VARCHAR" using assms that by (simp add: storable_def)
  then show ?thesis using t
    by (cases "vtype v")
      (simp_all add: serializeValue_def deserializeValue_def getValueSize_def read_back_def value_constructors
        string_field_parts unat_of_nat Let_def bigint_val_def)
qed

lemma storable_string_length:
  "storable v \<Longrightarrow> vtype v = VARCHAR \<longrightarrow> length (str_val v) < 2 ^ 32"
  by (auto simp: storable_def)

interpretation page_field: field_codec serializeValue deserializeValue storable read_back
proof
  show "deserializeValue (serializeValue v @ rest) = Some (read_back v, length (serializeValue v))"
    if "storable v" for v rest
    using deserialize_serialize [OF that]
    by (simp add: length_serializeValue [OF storable_string_length [OF that]])
  show "serializeValue v \<noteq> []" for v by (simp add: serializeValue_def)
qed

end
