(* ===== verification/Page.thy ===== *)
theory Page
  imports ValueCodec
begin

text \<open>
  \<^verbatim>\<open>storage/page.h\<close> and \<^verbatim>\<open>storage/page.cpp\<close>: the 4096-byte slotted page. The
  header is a record, the 4032 bytes after it are kept as bytes: the slot array grows from
  their start, the records grow from their end, and both live in the same buffer as in the
  code. An operation that would access memory outside the buffer gives \<^const>\<open>None\<close>.
\<close>

section \<open>Layout\<close>

datatype PageType = DATA_PAGE | INDEX_PAGE | OVERFLOW_PAGE | SYSTEM_PAGE

definition PAGE_SIZE :: nat where "PAGE_SIZE = 4096"
definition HEADER_SIZE :: nat where "HEADER_SIZE = 64"
definition SLOT_SIZE :: nat where "SLOT_SIZE = 8"
definition MAX_SLOTS :: nat where "MAX_SLOTS = (PAGE_SIZE - HEADER_SIZE) div SLOT_SIZE"
definition DATA_SIZE :: nat where "DATA_SIZE = PAGE_SIZE - HEADER_SIZE - MAX_SLOTS * SLOT_SIZE"

lemmas page_sizes = PAGE_SIZE_def HEADER_SIZE_def SLOT_SIZE_def MAX_SLOTS_def DATA_SIZE_def

record PageHeader =
  page_id :: PageId
  table_id :: TableId
  ptype :: PageType
  free_space_offset :: u16
  free_space_end :: u16
  record_count :: u16
  slot_count :: u16
  next_page_id :: PageId
  prev_page_id :: PageId
  parent_page_id :: PageId
  checksum :: u32
  page_lsn :: u32
  is_dirty :: bool
  is_locked :: bool

record PageSlot =
  slot_offset :: u16
  slot_length :: u16
  slot_flags :: u16
  slot_next :: u16

record Page =
  header :: PageHeader
  pdata :: bytes

fun page_type_code :: "PageType \<Rightarrow> u32" where
  "page_type_code DATA_PAGE = 0"
| "page_type_code INDEX_PAGE = 1"
| "page_type_code OVERFLOW_PAGE = 2"
| "page_type_code SYSTEM_PAGE = 3"

text \<open>
  The object representation of the header: fields in declaration order at their natural
  alignment, the padding bytes zero.
\<close>

definition header_bytes :: "PageHeader \<Rightarrow> bytes" where
  "header_bytes h =
     le_bytes 8 (page_id h) @ le_bytes 4 (table_id h) @ le_bytes 4 (page_type_code (ptype h)) @
     le_bytes 2 (free_space_offset h) @ le_bytes 2 (free_space_end h) @
     le_bytes 2 (record_count h) @ le_bytes 2 (slot_count h) @
     le_bytes 8 (next_page_id h) @ le_bytes 8 (prev_page_id h) @ le_bytes 8 (parent_page_id h) @
     le_bytes 4 (checksum h) @ le_bytes 4 (page_lsn h) @
     [of_bool (is_dirty h), of_bool (is_locked h)] @ replicate 6 0"

definition page_bytes :: "Page \<Rightarrow> bytes" where
  "page_bytes p = header_bytes (header p) @ pdata p"

fun words_of :: "bytes \<Rightarrow> u32 list" where
  "words_of (a # b # c # d # bs) = of_le [a, b, c, d] # words_of bs"
| "words_of _ = []"

definition calculateChecksum :: "Page \<Rightarrow> u32" where
  "calculateChecksum p = fold (\<lambda>w c. c XOR w) (take (PAGE_SIZE div 4) (words_of (page_bytes p))) 0"

definition verifyChecksum :: "Page \<Rightarrow> bool" where
  "verifyChecksum p \<longleftrightarrow>
     checksum (header p) = calculateChecksum (p\<lparr>header := (header p)\<lparr>checksum := 0\<rparr>\<rparr>)"

definition Page_zeroed :: "PageId \<Rightarrow> TableId \<Rightarrow> Page" where
  "Page_zeroed i t =
     \<lparr>header = \<lparr>page_id = i, table_id = t, ptype = DATA_PAGE,
        free_space_offset = of_nat (HEADER_SIZE + MAX_SLOTS * SLOT_SIZE),
        free_space_end = of_nat PAGE_SIZE, record_count = 0, slot_count = 0,
        next_page_id = INVALID_PAGE_ID, prev_page_id = INVALID_PAGE_ID,
        parent_page_id = INVALID_PAGE_ID, checksum = 0, page_lsn = 0,
        is_dirty = False, is_locked = False\<rparr>,
      pdata = replicate (PAGE_SIZE - HEADER_SIZE) 0\<rparr>"

definition Page_new :: "PageId \<Rightarrow> TableId \<Rightarrow> Page" where
  "Page_new i t =
     (let p = Page_zeroed i t
      in p\<lparr>header := (header p)\<lparr>checksum := calculateChecksum p\<rparr>\<rparr>)"

definition markDirty :: "Page \<Rightarrow> Page" where
  "markDirty p = p\<lparr>header := (header p)\<lparr>is_dirty := True\<rparr>\<rparr>"

definition clearDirty :: "Page \<Rightarrow> Page" where
  "clearDirty p = p\<lparr>header := (header p)\<lparr>is_dirty := False\<rparr>\<rparr>"

definition setType :: "PageType \<Rightarrow> Page \<Rightarrow> Page" where
  "setType t p = markDirty (p\<lparr>header := (header p)\<lparr>ptype := t\<rparr>\<rparr>)"

definition setNextPage :: "PageId \<Rightarrow> Page \<Rightarrow> Page" where
  "setNextPage i p = markDirty (p\<lparr>header := (header p)\<lparr>next_page_id := i\<rparr>\<rparr>)"

definition setPrevPage :: "PageId \<Rightarrow> Page \<Rightarrow> Page" where
  "setPrevPage i p = markDirty (p\<lparr>header := (header p)\<lparr>prev_page_id := i\<rparr>\<rparr>)"

definition getNextPage :: "Page \<Rightarrow> PageId" where
  "getNextPage p = next_page_id (header p)"

definition getPageId :: "Page \<Rightarrow> PageId" where
  "getPageId p = page_id (header p)"

section \<open>Slots\<close>

definition slot_bytes :: "PageSlot \<Rightarrow> bytes" where
  "slot_bytes s = le_bytes 2 (slot_offset s) @ le_bytes 2 (slot_length s) @
     le_bytes 2 (slot_flags s) @ le_bytes 2 (slot_next s)"

definition slot_of_bytes :: "bytes \<Rightarrow> PageSlot" where
  "slot_of_bytes bs =
     \<lparr>slot_offset = of_le (take 2 bs), slot_length = of_le (take 2 (drop 2 bs)),
      slot_flags = of_le (take 2 (drop 4 bs)), slot_next = of_le (take 2 (drop 6 bs))\<rparr>"

definition read_slot :: "nat \<Rightarrow> bytes \<Rightarrow> PageSlot option" where
  "read_slot i buf = map_option slot_of_bytes (read_at (SLOT_SIZE * i) SLOT_SIZE buf)"

definition write_slot :: "nat \<Rightarrow> PageSlot \<Rightarrow> bytes \<Rightarrow> bytes option" where
  "write_slot i s buf = write_at (SLOT_SIZE * i) (slot_bytes s) buf"

text \<open>\<^verbatim>\<open>getRecordData\<close>: the index in the buffer of a page offset.\<close>

definition record_index :: "u16 \<Rightarrow> nat option" where
  "record_index off = (if HEADER_SIZE \<le> unat off then Some (unat off - HEADER_SIZE) else None)"

definition slot_deleted :: "PageSlot \<Rightarrow> bool" where
  "slot_deleted s \<longleftrightarrow> slot_flags s AND 1 \<noteq> 0"

section \<open>Record operations\<close>

text \<open>
  The difference is computed in \<^verbatim>\<open>int\<close> and compared as \<^verbatim>\<open>size_t\<close>: a negative
  difference becomes a huge one, which is subtraction on 64-bit words.
\<close>

definition getFreeSpace :: "Page \<Rightarrow> u64" where
  "getFreeSpace p = ucast (free_space_end (header p)) - ucast (free_space_offset (header p))"

definition hasSpaceFor :: "Page \<Rightarrow> nat \<Rightarrow> bool" where
  "hasSpaceFor p record_size \<longleftrightarrow> getFreeSpace p \<ge> of_nat record_size + of_nat SLOT_SIZE"

definition isFull :: "Page \<Rightarrow> bool" where
  "isFull p \<longleftrightarrow> getFreeSpace p < 64"

definition insert_size :: "Value list \<Rightarrow> nat" where
  "insert_size r = sum_list (map (\<lambda>v. 2 + getValueSize v) r)"

definition make_rid :: "PageId \<Rightarrow> u16 \<Rightarrow> RecordId" where
  "make_rid pid s = push_bit 32 pid OR ucast s"

text \<open>
  \<open>Some (Some rid, p')\<close>: inserted; \<open>Some (None, p)\<close>: the function returned false.
\<close>

definition insertRecord :: "Page \<Rightarrow> Value list \<Rightarrow> (RecordId option \<times> Page) option" where
  "insertRecord p r =
     (let h = header p; record_size = insert_size r in
      if \<not> hasSpaceFor p record_size then Some (None, p)
      else
        let slot_pos = record_count h;
            record_offset = (ucast (ucast (free_space_end h) - of_nat record_size :: u64) :: u16);
            slot = \<lparr>slot_offset = record_offset, slot_length = of_nat record_size,
                    slot_flags = 0, slot_next = 0\<rparr>
        in
        case record_index record_offset of None \<Rightarrow> None
        | Some i \<Rightarrow>
          (case write_at i (concat (map serializeValue r)) (pdata p) of None \<Rightarrow> None
           | Some d1 \<Rightarrow>
             (case write_slot (unat slot_pos) slot d1 of None \<Rightarrow> None
              | Some d2 \<Rightarrow>
                  Some (Some (make_rid (page_id h) slot_pos),
                    p\<lparr>header := h\<lparr>record_count := record_count h + 1,
                         free_space_end := record_offset,
                         free_space_offset := free_space_offset h + of_nat SLOT_SIZE,
                         is_dirty := True, page_lsn := 0\<rparr>,
                      pdata := d2\<rparr>))))"

text \<open>The loop of \<^verbatim>\<open>getRecord\<close>: decode values while the pointer is before the end.\<close>

function read_values :: "bytes \<Rightarrow> nat \<Rightarrow> nat \<Rightarrow> Value list option" where
  "read_values buf i e =
     (if i < e then
        (case deserializeValue (drop i buf) of None \<Rightarrow> None
         | Some (v, n) \<Rightarrow> map_option ((#) v) (read_values buf (i + n) e))
      else Some [])"
  by pat_completeness auto
termination
  by (relation "measure (\<lambda>(buf, i, e). e - i)") (auto dest: deserializeValue_pos)

declare read_values.simps [simp del]

definition rid_slot :: "RecordId \<Rightarrow> u16" where
  "rid_slot rid = ucast rid"

definition getRecord :: "Page \<Rightarrow> RecordId \<Rightarrow> Value list option option" where
  "getRecord p rid =
     (let slot_pos = rid_slot rid in
      if slot_pos \<ge> record_count (header p) then Some None
      else
        case read_slot (unat slot_pos) (pdata p) of None \<Rightarrow> None
        | Some s \<Rightarrow>
            if slot_length s = 0 \<or> slot_deleted s then Some None
            else
              (case record_index (slot_offset s) of None \<Rightarrow> None
               | Some i \<Rightarrow> map_option Some (read_values (pdata p) i (i + unat (slot_length s)))))"

definition deleteRecord :: "Page \<Rightarrow> RecordId \<Rightarrow> (bool \<times> Page) option" where
  "deleteRecord p rid =
     (let slot_pos = rid_slot rid in
      if slot_pos \<ge> record_count (header p) then Some (False, p)
      else
        case read_slot (unat slot_pos) (pdata p) of None \<Rightarrow> None
        | Some s \<Rightarrow>
            (case write_slot (unat slot_pos) (s\<lparr>slot_flags := slot_flags s OR 1, slot_next := 0\<rparr>)
                    (pdata p) of None \<Rightarrow> None
             | Some d \<Rightarrow> Some (True, markDirty (p\<lparr>pdata := d\<rparr>))))"

definition updateRecord :: "Page \<Rightarrow> RecordId \<Rightarrow> Value list \<Rightarrow> (bool \<times> Page) option" where
  "updateRecord p rid r =
     (case getRecord p rid of
        None \<Rightarrow> None
      | Some None \<Rightarrow> Some (False, p)
      | Some (Some old_record) \<Rightarrow>
          (case deleteRecord p rid of
             None \<Rightarrow> None
           | Some (False, p1) \<Rightarrow> Some (False, p1)
           | Some (True, p1) \<Rightarrow>
               (case insertRecord p1 r of
                  None \<Rightarrow> None
                | Some (new_rid, p2) \<Rightarrow> Some (new_rid \<noteq> None, p2))))"

fun insertRecords :: "Page \<Rightarrow> Value list list \<Rightarrow> RecordId list \<Rightarrow> nat \<Rightarrow>
    (nat \<times> RecordId list \<times> Page) option" where
  "insertRecords p [] rids inserted = Some (inserted, rids, p)"
| "insertRecords p (r # rs) rids inserted =
     (case insertRecord p r of
        None \<Rightarrow> None
      | Some (None, p') \<Rightarrow> Some (inserted, rids, p')
      | Some (Some rid, p') \<Rightarrow> insertRecords p' rs (rids @ [rid]) (inserted + 1))"

fun deleteRecords :: "Page \<Rightarrow> RecordId list \<Rightarrow> nat \<Rightarrow> (nat \<times> Page) option" where
  "deleteRecords p [] deleted = Some (deleted, p)"
| "deleteRecords p (rid # rids) deleted =
     (case deleteRecord p rid of
        None \<Rightarrow> None
      | Some (b, p') \<Rightarrow> deleteRecords p' rids (if b then deleted + 1 else deleted))"

definition slot_live :: "PageSlot \<Rightarrow> bool" where
  "slot_live s \<longleftrightarrow> slot_length s > 0 \<and> \<not> slot_deleted s"

text \<open>
  A slot that holds a record is read through \<^verbatim>\<open>getRecord\<close>, whose result is pushed
  whatever it returned.
\<close>

fun getRecords_loop :: "Page \<Rightarrow> nat list \<Rightarrow> Value list list option" where
  "getRecords_loop p [] = Some []"
| "getRecords_loop p (i # is) =
     (case read_slot i (pdata p) of None \<Rightarrow> None
      | Some s \<Rightarrow>
          if slot_live s then
            (case getRecord p (make_rid (page_id (header p)) (of_nat i)) of None \<Rightarrow> None
             | Some r \<Rightarrow> map_option ((#) (case r of None \<Rightarrow> [] | Some vs \<Rightarrow> vs)) (getRecords_loop p is))
          else getRecords_loop p is)"

definition getRecords :: "Page \<Rightarrow> Value list list option" where
  "getRecords p = getRecords_loop p [0..<unat (record_count (header p))]"

text \<open>
  Compaction copies the live records to a temporary buffer of \<open>DATA_SIZE\<close> bytes and from
  there to the start of the record area.
\<close>

fun compact_loop :: "nat list \<Rightarrow> bytes \<Rightarrow> bytes \<Rightarrow> nat \<Rightarrow> (bytes \<times> bytes \<times> nat) option" where
  "compact_loop [] d temp temp_offset = Some (d, temp, temp_offset)"
| "compact_loop (i # is) d temp temp_offset =
     (case read_slot i d of None \<Rightarrow> None
      | Some s \<Rightarrow>
          if slot_live s then
            (case record_index (slot_offset s) of None \<Rightarrow> None
             | Some k \<Rightarrow>
               (case read_at k (unat (slot_length s)) d of None \<Rightarrow> None
                | Some rec \<Rightarrow>
                  (case write_at temp_offset rec temp of None \<Rightarrow> None
                   | Some temp' \<Rightarrow>
                     (case write_slot i (s\<lparr>slot_offset :=
                              of_nat (HEADER_SIZE + MAX_SLOTS * SLOT_SIZE + temp_offset)\<rparr>) d of
                        None \<Rightarrow> None
                      | Some d' \<Rightarrow> compact_loop is d' temp' (temp_offset + unat (slot_length s))))))
          else compact_loop is d temp temp_offset)"

definition compactify :: "Page \<Rightarrow> Page option" where
  "compactify p =
     (case compact_loop [0..<unat (record_count (header p))] (pdata p) (replicate DATA_SIZE 0) 0 of
        None \<Rightarrow> None
      | Some (d, temp, temp_offset) \<Rightarrow>
          (case write_at (MAX_SLOTS * SLOT_SIZE) (take temp_offset temp) d of None \<Rightarrow> None
           | Some d' \<Rightarrow>
               Some (p\<lparr>header := (header p)\<lparr>
                   free_space_offset := of_nat (HEADER_SIZE + MAX_SLOTS * SLOT_SIZE + temp_offset),
                   free_space_end := of_nat PAGE_SIZE, is_dirty := True\<rparr>,
                 pdata := d'\<rparr>)))"

section \<open>Serialisation\<close>

definition page_serialize :: "Page \<Rightarrow> bytes" where
  "page_serialize p = take PAGE_SIZE (page_bytes p)"

definition page_type_of_code :: "u32 \<Rightarrow> PageType option" where
  "page_type_of_code w =
     (if w = 0 then Some DATA_PAGE else if w = 1 then Some INDEX_PAGE
      else if w = 2 then Some OVERFLOW_PAGE else if w = 3 then Some SYSTEM_PAGE else None)"

definition header_of_bytes :: "bytes \<Rightarrow> PageHeader option" where
  "header_of_bytes b =
     (case page_type_of_code (of_le (take 4 (drop 12 b))) of None \<Rightarrow> None
      | Some t \<Rightarrow>
     Some \<lparr>page_id = of_le (take 8 b), table_id = of_le (take 4 (drop 8 b)), ptype = t,
      free_space_offset = of_le (take 2 (drop 16 b)), free_space_end = of_le (take 2 (drop 18 b)),
      record_count = of_le (take 2 (drop 20 b)), slot_count = of_le (take 2 (drop 22 b)),
      next_page_id = of_le (take 8 (drop 24 b)), prev_page_id = of_le (take 8 (drop 32 b)),
      parent_page_id = of_le (take 8 (drop 40 b)),
      checksum = of_le (take 4 (drop 48 b)), page_lsn = of_le (take 4 (drop 52 b)),
      is_dirty = (b ! 56 \<noteq> 0), is_locked = (b ! 57 \<noteq> 0)\<rparr>)"

text \<open>
  A buffer whose page type names no enumerator gives \<^const>\<open>None\<close>: the code would keep
  the raw value, which no operation of this class distinguishes.
\<close>

definition page_deserialize :: "bytes \<Rightarrow> Page option" where
  "page_deserialize buf =
     (if length buf < PAGE_SIZE then None
      else case header_of_bytes (take HEADER_SIZE buf) of None \<Rightarrow> None
      | Some h \<Rightarrow> Some \<lparr>header = h\<lparr>is_dirty := False\<rparr>,
                        pdata = take (PAGE_SIZE - HEADER_SIZE) (drop HEADER_SIZE buf)\<rparr>)"

section \<open>Well-formed pages\<close>

text \<open>
  The layout the operations rely on: the slot array lies before the free space, the free
  space before the records, and every slot points into the record area.
\<close>

definition slot_in_area :: "nat \<Rightarrow> PageSlot \<Rightarrow> bool" where
  "slot_in_area e s \<longleftrightarrow>
     e \<le> unat (slot_offset s) \<and> unat (slot_offset s) + unat (slot_length s) \<le> PAGE_SIZE"

definition wf_page :: "Page \<Rightarrow> bool" where
  "wf_page p \<longleftrightarrow>
     length (pdata p) = PAGE_SIZE - HEADER_SIZE \<and>
     HEADER_SIZE + SLOT_SIZE * unat (record_count (header p)) \<le> unat (free_space_offset (header p)) \<and>
     unat (free_space_offset (header p)) \<le> unat (free_space_end (header p)) \<and>
     unat (free_space_end (header p)) \<le> PAGE_SIZE \<and>
     list_all (\<lambda>i. case read_slot i (pdata p) of None \<Rightarrow> False
                 | Some s \<Rightarrow> slot_in_area (unat (free_space_end (header p))) s)
       [0..<unat (record_count (header p))]"

text \<open>The bytes between the slot array and the records are zero.\<close>

definition free_zero :: "Page \<Rightarrow> bool" where
  "free_zero p \<longleftrightarrow>
     read_at (unat (free_space_offset (header p)) - HEADER_SIZE)
       (unat (free_space_end (header p)) - unat (free_space_offset (header p))) (pdata p)
     = Some (replicate (unat (free_space_end (header p)) - unat (free_space_offset (header p))) 0)"

lemma wf_pageD:
  assumes "wf_page p"
  shows "length (pdata p) = 4032"
    and "64 + 8 * unat (record_count (header p)) \<le> unat (free_space_offset (header p))"
    and "unat (free_space_offset (header p)) \<le> unat (free_space_end (header p))"
    and "unat (free_space_end (header p)) \<le> 4096"
  using assms by (simp_all add: wf_page_def page_sizes)

lemma wf_page_slot:
  assumes "wf_page p" and "i < unat (record_count (header p))"
  obtains s where "read_slot i (pdata p) = Some s"
    and "slot_in_area (unat (free_space_end (header p))) s"
proof -
  have "case read_slot i (pdata p) of None \<Rightarrow> False
        | Some s \<Rightarrow> slot_in_area (unat (free_space_end (header p))) s"
    using assms by (simp add: wf_page_def list_all_iff)
  then show thesis using that by (auto split: option.splits)
qed

lemma unat_free_space:
  assumes "wf_page p"
  shows "unat (getFreeSpace p) = unat (free_space_end (header p)) - unat (free_space_offset (header p))"
proof -
  have "unat (ucast (free_space_offset (header p)) :: u64) \<le> unat (ucast (free_space_end (header p)) :: u64)"
    using wf_pageD(3) [OF assms] by simp
  then show ?thesis
    unfolding getFreeSpace_def by (simp add: unat_sub word_le_nat_alt)
qed

lemma hasSpaceFor_iff:
  assumes "wf_page p" and "n + 8 < 2 ^ 64"
  shows "hasSpaceFor p n \<longleftrightarrow>
    n + 8 \<le> unat (free_space_end (header p)) - unat (free_space_offset (header p))"
proof -
  have "unat (of_nat n + of_nat SLOT_SIZE :: u64) = n + 8"
    using assms(2) by (simp add: unat_word_ariths unat_of_nat page_sizes)
  then show ?thesis
    unfolding hasSpaceFor_def by (simp add: word_le_nat_alt unat_free_space [OF assms(1)])
qed

section \<open>Slots and record bytes\<close>

lemma length_slot_bytes [simp]: "length (slot_bytes s) = 8"
  by (simp add: slot_bytes_def)

lemma slot_of_bytes_bytes [simp, codec_simps]: "slot_of_bytes (slot_bytes s) = s"
  by (simp add: slot_of_bytes_def slot_bytes_def)

lemma read_write_slot_same:
  "write_slot i s buf = Some buf' \<Longrightarrow> read_slot i buf' = Some s"
  using read_write_same [of "SLOT_SIZE * i" "slot_bytes s" buf buf']
  by (simp add: read_slot_def write_slot_def page_sizes)

lemma read_write_slot_other:
  assumes "write_slot i s buf = Some buf'" and "i \<noteq> j"
  shows "read_slot j buf' = read_slot j buf"
proof -
  have "8 * j + 8 \<le> 8 * i \<or> 8 * i + 8 \<le> 8 * j" using assms(2) by arith
  then show ?thesis
    using read_write_disjoint [of "SLOT_SIZE * i" "slot_bytes s" buf buf' "SLOT_SIZE * j" SLOT_SIZE]
      assms(1) by (simp add: read_slot_def write_slot_def page_sizes)
qed

lemma read_values_end [simp]: "e \<le> i \<Longrightarrow> read_values buf i e = Some []"
  by (simp add: read_values.simps)

lemma read_values_step:
  assumes "i < e" and "deserializeValue (drop i buf) = Some (v, n)"
  shows "read_values buf i e = map_option ((#) v) (read_values buf (i + n) e)"
  using assms by (subst read_values.simps) simp

text \<open>A zero byte decodes to a payload-free value of type \<open>UNKNOWN\<close>.\<close>

definition Value_unknown :: Value where
  "Value_unknown = Value_null\<lparr>vtype := UNKNOWN\<rparr>"

lemma deserializeValue_zero: "deserializeValue (0 # bs) = Some (Value_unknown, 1)"
  by (simp add: deserializeValue_def dt_of_code_def dt_enumerators_def Value_unknown_def read_back_def)

lemma read_values_zero:
  "drop i buf = replicate k 0 @ rest \<Longrightarrow>
   read_values buf i (i + k) = Some (replicate k Value_unknown)"
proof (induction k arbitrary: i)
  case (Suc k)
  have "drop (i + 1) buf = drop 1 (drop i buf)" by simp
  then have "drop (i + 1) buf = replicate k 0 @ rest" using Suc.prems by simp
  from Suc.IH [OF this]
  show ?case using Suc.prems
    by (subst read_values_step [where v = Value_unknown and n = 1])
      (simp_all add: deserializeValue_zero)
qed simp

lemma read_values_fields:
  "list_all storable r \<Longrightarrow>
   drop i buf = concat (map serializeValue r) @ replicate k 0 @ rest \<Longrightarrow>
   e = i + length (concat (map serializeValue r)) + k \<Longrightarrow>
   read_values buf i e = Some (map read_back r @ replicate k Value_unknown)"
proof (induction r arbitrary: i)
  case Nil
  then show ?case using read_values_zero [of i buf k rest] by simp
next
  case (Cons v r)
  let ?n = "length (serializeValue v)"
  have v: "storable v" and r: "list_all storable r" using Cons.prems(1) by simp_all
  have d: "deserializeValue (drop i buf) = Some (read_back v, ?n)"
    using page_field.dec_enc [OF v] Cons.prems(2) by simp
  have n: "0 < ?n" using page_field.enc_nonempty [of v] by simp
  have "drop (i + ?n) buf = drop ?n (drop i buf)" by (simp add: add.commute)
  also have "\<dots> = concat (map serializeValue r) @ replicate k 0 @ rest"
    using Cons.prems(2) by simp
  finally have "drop (i + ?n) buf = concat (map serializeValue r) @ replicate k 0 @ rest" .
  then have "read_values buf (i + ?n) e = Some (map read_back r @ replicate k Value_unknown)"
    by (rule Cons.IH [OF r]) (simp add: Cons.prems(3))
  moreover have "i < e" using Cons.prems(3) n by simp
  ultimately show ?case by (simp add: read_values_step [OF _ d])
qed

section \<open>Insertion\<close>

definition fits :: "Page \<Rightarrow> Value list \<Rightarrow> bool" where
  "fits p r \<longleftrightarrow>
     insert_size r + SLOT_SIZE
     \<le> unat (free_space_end (header p)) - unat (free_space_offset (header p))"

lemma insert_size_Cons: "insert_size (v # r) = 2 + getValueSize v + insert_size r"
  by (simp add: insert_size_def)

lemma length_concat_serialize:
  "insert_size r < 2 ^ 32 \<Longrightarrow>
   length (concat (map serializeValue r)) + 2 * length r = insert_size r"
proof (induction r)
  case Nil
  then show ?case by (simp add: insert_size_def)
next
  case (Cons v r)
  have "length (str_val v) < 2 ^ 32" if "vtype v = VARCHAR"
    using Cons.prems that by (simp add: insert_size_Cons getValueSize_def)
  then have "length (serializeValue v) = getValueSize v" by (intro length_serializeValue) blast
  with Cons show ?case by (simp add: insert_size_Cons)
qed

lemma record_offset_exact:
  fixes e :: u16
  assumes "n \<le> unat e"
  shows "(ucast (ucast e - of_nat n :: u64) :: u16) = of_nat (unat e - n)"
proof -
  have "unat e < 2 ^ 16" using unsigned_less [of e, where ?'a = nat] by simp
  then have n: "unat e - n < 2 ^ 16" by simp
  have "(ucast e :: u64) = of_nat (unat e)" by simp
  then have "(ucast e - of_nat n :: u64) = of_nat (unat e - n)"
    using assms by (simp only: of_nat_diff)
  moreover have "unat (of_nat (unat e - n) :: u64) = unat e - n"
    using n by (simp add: unat_of_nat)
  ultimately have "unat (ucast (ucast e - of_nat n :: u64) :: u16) = unat e - n"
    using n by (simp add: unsigned_ucast_eq take_bit_nat_eq_self)
  then show ?thesis by (simp only: word_unat_eq_iff unat_of_nat_u16 [OF n])
qed

lemma insertRecord_full:
  assumes "wf_page p" and "insert_size r + 8 < 2 ^ 64" and "\<not> fits p r"
  shows "insertRecord p r = Some (None, p)"
  using assms by (simp add: insertRecord_def Let_def hasSpaceFor_iff fits_def page_sizes)

abbreviation new_slot :: "Page \<Rightarrow> Value list \<Rightarrow> PageSlot" where
  "new_slot p r \<equiv>
     \<lparr>slot_offset = of_nat (unat (free_space_end (header p)) - insert_size r),
      slot_length = of_nat (insert_size r), slot_flags = 0, slot_next = 0\<rparr>"

abbreviation grown_header :: "Page \<Rightarrow> Value list \<Rightarrow> PageHeader" where
  "grown_header p r \<equiv>
     (header p)\<lparr>record_count := record_count (header p) + 1,
        free_space_end := of_nat (unat (free_space_end (header p)) - insert_size r),
        free_space_offset := free_space_offset (header p) + of_nat SLOT_SIZE,
        is_dirty := True, page_lsn := 0\<rparr>"

abbreviation record_start :: "Page \<Rightarrow> Value list \<Rightarrow> nat" where
  "record_start p r \<equiv> unat (free_space_end (header p)) - insert_size r - HEADER_SIZE"

lemma insertRecord_fits:
  assumes wf: "wf_page p" and f: "fits p r"
  obtains d1 d2 where
    "write_at (record_start p r) (concat (map serializeValue r)) (pdata p) = Some d1"
    "write_slot (unat (record_count (header p))) (new_slot p r) d1 = Some d2"
    "insertRecord p r = Some (Some (make_rid (page_id (header p)) (record_count (header p))),
       p\<lparr>header := grown_header p r, pdata := d2\<rparr>)"
proof -
  let ?e = "unat (free_space_end (header p))" and ?o = "unat (free_space_offset (header p))"
  let ?n = "insert_size r" and ?rc = "unat (record_count (header p))"
  note w = wf_pageD [OF wf]
  have n: "?n + 8 \<le> ?e - ?o" using f by (simp add: fits_def page_sizes)
  then have small: "?n < 2 ^ 32" and le: "?n \<le> ?e" using w(4) by simp_all
  have space: "hasSpaceFor p ?n" using n w(4) by (simp add: hasSpaceFor_iff [OF wf])
  have off: "unat (of_nat (?e - ?n) :: u16) = ?e - ?n"
    using w(4) by (intro unat_of_nat_u16) simp
  have idx: "record_index (of_nat (?e - ?n)) = Some (record_start p r)"
    unfolding record_index_def off using n w by (simp add: page_sizes)
  have "record_start p r + length (concat (map serializeValue r)) \<le> length (pdata p)"
    using length_concat_serialize [OF small] w n by (simp add: page_sizes)
  then obtain d1 where d1: "write_at (record_start p r) (concat (map serializeValue r)) (pdata p) = Some d1"
    using write_at_Some_iff by blast
  have "8 * ?rc + 8 \<le> length d1"
    using length_write_at [OF d1] w n by simp
  then obtain d2 where d2: "write_slot ?rc (new_slot p r) d1 = Some d2"
    unfolding write_slot_def using write_at_Some_iff [of "SLOT_SIZE * ?rc" "slot_bytes (new_slot p r)" d1]
    by (auto simp: page_sizes)
  have "insertRecord p r = Some (Some (make_rid (page_id (header p)) (record_count (header p))),
       p\<lparr>header := grown_header p r, pdata := d2\<rparr>)"
    unfolding insertRecord_def Let_def record_offset_exact [OF le] idx
    using space d1 d2 by (simp del: diff_diff_left)
  with d1 d2 that show thesis by blast
qed

lemma insertRecord_no_ub:
  assumes "wf_page p" and "insert_size r + 8 < 2 ^ 64"
  shows "\<exists>res. insertRecord p r = Some res"
  using assms by (cases "fits p r") (auto elim: insertRecord_fits simp: insertRecord_full)

text \<open>What an insertion leaves of the rest of the page.\<close>

lemma insertRecord_frame:
  assumes wf: "wf_page p" and ins: "insertRecord p r = Some (Some rid, p')"
    and big: "insert_size r + 8 < 2 ^ 64"
  shows "fits p r" and "header p' = grown_header p r"
    and "rid = make_rid (page_id (header p)) (record_count (header p))"
    and "length (pdata p') = 4032"
    and "read_slot (unat (record_count (header p))) (pdata p') = Some (new_slot p r)"
    and "i < unat (record_count (header p)) \<Longrightarrow> read_slot i (pdata p') = read_slot i (pdata p)"
    and "unat (free_space_end (header p)) - 64 \<le> j \<Longrightarrow> read_at j k (pdata p') = read_at j k (pdata p)"
    and "8 * unat (record_count (header p)) + 8 \<le> j \<Longrightarrow> j + k \<le> record_start p r \<Longrightarrow>
           read_at j k (pdata p') = read_at j k (pdata p)"
    and "read_at (record_start p r) (length (concat (map serializeValue r))) (pdata p')
           = Some (concat (map serializeValue r))"
    and "record_start p r + length (concat (map serializeValue r)) \<le> j \<Longrightarrow>
           read_at j k (pdata p') = read_at j k (pdata p)"
proof -
  show f: "fits p r" using insertRecord_full [OF wf big] ins by auto
  obtain d1 d2 where
    d1: "write_at (record_start p r) (concat (map serializeValue r)) (pdata p) = Some d1" and
    d2: "write_slot (unat (record_count (header p))) (new_slot p r) d1 = Some d2" and
    i: "insertRecord p r = Some (Some (make_rid (page_id (header p)) (record_count (header p))),
       p\<lparr>header := grown_header p r, pdata := d2\<rparr>)"
    using insertRecord_fits [OF wf f] .
  from i ins have p': "p' = p\<lparr>header := grown_header p r, pdata := d2\<rparr>" by simp
  show "rid = make_rid (page_id (header p)) (record_count (header p))" using i ins by simp
  show "header p' = grown_header p r" by (simp add: p')
  note w = wf_pageD [OF wf]
  have n: "insert_size r + 8 \<le> unat (free_space_end (header p)) - unat (free_space_offset (header p))"
    using f by (simp add: fits_def page_sizes)
  have len: "length (concat (map serializeValue r)) + 2 * length r = insert_size r"
    using n w by (intro length_concat_serialize) simp
  have d2': "write_at (8 * unat (record_count (header p))) (slot_bytes (new_slot p r)) d1 = Some d2"
    using d2 by (simp add: write_slot_def page_sizes)
  show "length (pdata p') = 4032"
    using length_write_at [OF d1] length_write_at [OF d2'] w by (simp add: p')
  show "read_slot (unat (record_count (header p))) (pdata p') = Some (new_slot p r)"
    using read_write_slot_same [OF d2] by (simp add: p')
  show "read_slot i (pdata p') = read_slot i (pdata p)" if "i < unat (record_count (header p))"
  proof -
    have "read_slot i d2 = read_slot i d1" using d2 that by (intro read_write_slot_other) auto
    also have "read_at (SLOT_SIZE * i) SLOT_SIZE d1 = read_at (SLOT_SIZE * i) SLOT_SIZE (pdata p)"
      using d1 that w n by (intro read_write_disjoint) (auto simp: page_sizes)
    then have "read_slot i d1 = read_slot i (pdata p)" by (simp add: read_slot_def)
    finally show ?thesis by (simp add: p')
  qed
  have slot: "read_at j k d2 = read_at j k d1" if "8 * unat (record_count (header p)) + 8 \<le> j" for j k
    using that by (intro read_write_disjoint [OF d2']) simp
  show "read_at j k (pdata p') = read_at j k (pdata p)"
    if "unat (free_space_end (header p)) - 64 \<le> j"
  proof -
    have "record_start p r + length (concat (map serializeValue r)) \<le> j"
      using len that w n unfolding page_sizes by arith
    then have "read_at j k d1 = read_at j k (pdata p)" by (intro read_write_disjoint [OF d1]) simp
    then show ?thesis using slot [of j k] that w n by (simp add: p')
  qed
  show "read_at j k (pdata p') = read_at j k (pdata p)"
    if "8 * unat (record_count (header p)) + 8 \<le> j" "j + k \<le> record_start p r"
    using slot that read_write_disjoint [OF d1, of j k] by (simp add: p')
  show "read_at (record_start p r) (length (concat (map serializeValue r))) (pdata p')
           = Some (concat (map serializeValue r))"
    using slot [of "record_start p r"] read_write_same [OF d1] w n by (simp add: p' page_sizes)
  show "read_at j k (pdata p') = read_at j k (pdata p)"
    if "record_start p r + length (concat (map serializeValue r)) \<le> j"
    using slot [of j k] read_write_disjoint [OF d1, of j k] that w n by (simp add: p' page_sizes)
qed

lemma read_at_replicate_sub:
  assumes "read_at i n buf = Some (replicate n c)" and "i \<le> j" and "j + k \<le> i + n"
  shows "read_at j k buf = Some (replicate k c)"
proof -
  from assms(1) have b: "i + n \<le> length buf" and t: "take n (drop i buf) = replicate n c"
    by (auto simp: read_at_def split: if_splits)
  have "take k (drop j buf) = take k (drop (j - i) (drop i buf))" using assms(2) by simp
  also have "\<dots> = take k (drop (j - i) (take n (drop i buf)))"
    using assms(2,3) by (simp add: drop_take min_def)
  also have "\<dots> = replicate k c" using assms(2,3) by (simp add: t drop_replicate)
  finally show ?thesis using b assms(3) by (simp add: read_at_def)
qed

lemma grown_header_bounds:
  assumes "wf_page p" and "fits p r"
  shows "unat (free_space_end (grown_header p r)) = unat (free_space_end (header p)) - insert_size r"
    and "unat (free_space_offset (grown_header p r)) = unat (free_space_offset (header p)) + 8"
    and "unat (record_count (grown_header p r)) = unat (record_count (header p)) + 1"
proof -
  note w = wf_pageD [OF assms(1)]
  have n: "insert_size r + 8 \<le> unat (free_space_end (header p)) - unat (free_space_offset (header p))"
    using assms(2) by (simp add: fits_def page_sizes)
  have "unat (of_nat (unat (free_space_end (header p)) - insert_size r) :: u16)
      = unat (free_space_end (header p)) - insert_size r"
    using w by (intro unat_of_nat_u16) simp
  then show "unat (free_space_end (grown_header p r)) = unat (free_space_end (header p)) - insert_size r"
    by (simp del: of_nat_diff_if)
  show "unat (free_space_offset (grown_header p r)) = unat (free_space_offset (header p)) + 8"
    using w n by (simp add: unat_word_ariths page_sizes)
  show "unat (record_count (grown_header p r)) = unat (record_count (header p)) + 1"
    using w by (simp add: unat_word_ariths)
qed

lemma insertRecord_wf:
  assumes wf: "wf_page p" and ins: "insertRecord p r = Some (Some rid, p')"
    and big: "insert_size r + 8 < 2 ^ 64"
  shows "wf_page p'"
proof -
  note fr = insertRecord_frame [OF wf ins big]
  note b = grown_header_bounds [OF wf fr(1)]
  note w = wf_pageD [OF wf]
  let ?e = "unat (free_space_end (header p))" and ?rc = "unat (record_count (header p))"
  have n: "insert_size r + 8 \<le> ?e - unat (free_space_offset (header p))"
    using fr(1) by (simp add: fits_def page_sizes)
  have off: "unat (of_nat (?e - insert_size r) :: u16) = ?e - insert_size r"
    and len: "unat (of_nat (insert_size r) :: u16) = insert_size r"
    using w n by (intro unat_of_nat_u16; simp)+
  have "slot_in_area (?e - insert_size r) (new_slot p r)"
    unfolding slot_in_area_def using off len w n by (simp del: of_nat_diff_if add: page_sizes)
  moreover have "case read_slot i (pdata p') of None \<Rightarrow> False
      | Some s \<Rightarrow> slot_in_area (?e - insert_size r) s" if "i < ?rc" for i
    using that by (rule wf_page_slot [OF wf]) (use that fr(6) in \<open>auto simp: slot_in_area_def\<close>)
  ultimately have "list_all (\<lambda>i. case read_slot i (pdata p') of None \<Rightarrow> False
      | Some s \<Rightarrow> slot_in_area (?e - insert_size r) s) [0..<?rc + 1]"
    using fr(5) by (simp add: list_all_iff)
  then show ?thesis
    unfolding wf_page_def fr(2) b
    unfolding page_sizes using w n fr(4) by (intro conjI) (simp_all, arith?)
qed

lemma insertRecord_free_zero:
  assumes wf: "wf_page p" and ins: "insertRecord p r = Some (Some rid, p')"
    and big: "insert_size r + 8 < 2 ^ 64" and z: "free_zero p"
  shows "free_zero p'"
proof -
  note fr = insertRecord_frame [OF wf ins big]
  note b = grown_header_bounds [OF wf fr(1)]
  note w = wf_pageD [OF wf]
  let ?e = "unat (free_space_end (header p))" and ?o = "unat (free_space_offset (header p))"
  have n: "insert_size r + 8 \<le> ?e - ?o"
    using fr(1) by (simp add: fits_def page_sizes)
  have "read_at (?o + 8 - 64) (?e - insert_size r - (?o + 8)) (pdata p')
      = read_at (?o + 8 - 64) (?e - insert_size r - (?o + 8)) (pdata p)"
    using w n by (intro fr(8)) (simp_all add: page_sizes)
  also have "\<dots> = Some (replicate (?e - insert_size r - (?o + 8)) 0)"
    using z w n unfolding free_zero_def by (elim read_at_replicate_sub) (simp_all add: page_sizes)
  finally show ?thesis
    unfolding free_zero_def fr(2) b by (simp only: page_sizes)
qed

section \<open>Lookup\<close>

lemma read_values_cong: "drop i buf = drop i buf' \<Longrightarrow> read_values buf i e = read_values buf' i e"
proof (induction buf i e rule: read_values.induct)
  case (1 buf i e)
  show ?case
  proof (cases "i < e")
    case True
    have "read_values buf (i + n) e = read_values buf' (i + n) e"
      if "deserializeValue (drop i buf) = Some (v, n)" for v n
    proof -
      have "drop n (drop i buf) = drop n (drop i buf')" using "1.prems" by simp
      then show ?thesis using "1.IH" [OF True that refl] by (simp add: add.commute)
    qed
    then show ?thesis
      using True "1.prems" by (subst (1 2) read_values.simps) (simp split: option.split)
  qed simp
qed

lemma rid_slot_make_rid [simp]: "rid_slot (make_rid pid s) = s"
  unfolding rid_slot_def make_rid_def by (rule bit_word_eqI) (auto simp: bit_simps)

lemma record_index_Some: "64 \<le> unat off \<Longrightarrow> record_index off = Some (unat off - 64)"
  by (simp add: record_index_def page_sizes)

lemma getRecord_live:
  assumes "rid_slot rid < record_count (header p)" and "read_slot (unat (rid_slot rid)) (pdata p) = Some s"
    and "slot_live s" and "64 \<le> unat (slot_offset s)"
  shows "getRecord p rid = map_option Some (read_values (pdata p) (unat (slot_offset s) - 64)
           (unat (slot_offset s) - 64 + unat (slot_length s)))"
  using assms by (simp add: getRecord_def Let_def record_index_Some slot_live_def not_le word_gt_0)

lemma getRecord_dead:
  assumes "read_slot (unat (rid_slot rid)) (pdata p) = Some s" and "\<not> slot_live s"
  shows "getRecord p rid = Some None"
  using assms by (auto simp: getRecord_def Let_def slot_live_def word_gt_0)

lemma getRecord_out: "record_count (header p) \<le> rid_slot rid \<Longrightarrow> getRecord p rid = Some None"
  by (simp add: getRecord_def)

lemma getRecord_cong:
  assumes wf: "wf_page p" and rc: "rid_slot rid < record_count (header p)"
    and rc': "rid_slot rid < record_count (header p')"
    and s: "read_slot (unat (rid_slot rid)) (pdata p') = read_slot (unat (rid_slot rid)) (pdata p)"
    and d: "drop (unat (free_space_end (header p)) - 64) (pdata p')
          = drop (unat (free_space_end (header p)) - 64) (pdata p)"
  shows "getRecord p' rid = getRecord p rid"
proof -
  let ?e = "unat (free_space_end (header p))"
  have i: "unat (rid_slot rid) < unat (record_count (header p))"
    using rc by (simp add: word_less_nat_alt)
  obtain sl where sl: "read_slot (unat (rid_slot rid)) (pdata p) = Some sl"
      and a: "slot_in_area ?e sl"
    using wf_page_slot [OF wf i] .
  show ?thesis
  proof (cases "slot_live sl")
    case True
    have o: "?e \<le> unat (slot_offset sl)" using a by (simp add: slot_in_area_def)
    have h: "64 \<le> unat (slot_offset sl)" using o wf_pageD [OF wf] by linarith
    let ?i = "unat (slot_offset sl) - 64"
    have "drop (?i - (?e - 64)) (drop (?e - 64) (pdata p')) = drop (?i - (?e - 64)) (drop (?e - 64) (pdata p))"
      by (simp only: d)
    moreover have "?i - (?e - 64) + (?e - 64) = ?i" using o by arith
    ultimately have "drop ?i (pdata p') = drop ?i (pdata p)" by (simp only: drop_drop)
    from read_values_cong [OF this] show ?thesis
      using getRecord_live [OF rc sl True h] getRecord_live [OF rc' _ True h] s sl by simp
  next
    case False
    then show ?thesis using getRecord_dead [OF sl] getRecord_dead [of rid p' sl] s sl by simp
  qed
qed

lemma read_at_drop:
  assumes "read_at i n buf = Some xs"
  shows "drop i buf = xs @ drop (i + n) buf"
proof -
  have "xs = take n (drop i buf)" using assms by (simp add: read_at_def split: if_splits)
  then show ?thesis using append_take_drop_id [of n "drop i buf"] by (simp add: add.commute)
qed

lemma insertRecord_get_new:
  assumes wf: "wf_page p" and z: "free_zero p" and st: "list_all storable r" and ne: "r \<noteq> []"
    and big: "insert_size r + 8 < 2 ^ 64" and ins: "insertRecord p r = Some (Some rid, p')"
  shows "getRecord p' rid = Some (Some (map read_back r @ replicate (2 * length r) Value_unknown))"
proof -
  note fr = insertRecord_frame [OF wf ins big]
  note b = grown_header_bounds [OF wf fr(1)]
  note w = wf_pageD [OF wf]
  let ?e = "unat (free_space_end (header p))" and ?o = "unat (free_space_offset (header p))"
  let ?k = "record_start p r" and ?ser = "concat (map serializeValue r)"
  let ?g = "2 * length r" and ?n = "insert_size r"
  have n: "?n + 8 \<le> ?e - ?o" using fr(1) by (simp add: fits_def page_sizes)
  have len: "length ?ser + ?g = ?n" using n w by (intro length_concat_serialize) simp
  have off: "unat (of_nat (?e - ?n) :: u16) = ?e - ?n" and lw: "unat (of_nat ?n :: u16) = ?n"
    using w n by (intro unat_of_nat_u16; simp)+
  have k: "?k + length ?ser + ?g = ?e - 64" "?o \<le> ?k + 64"
    using n w len unfolding page_sizes by arith+
  have gap: "read_at (?k + length ?ser) ?g (pdata p') = Some (replicate ?g 0)"
  proof -
    have "read_at (?k + length ?ser) ?g (pdata p') = read_at (?k + length ?ser) ?g (pdata p)"
      by (rule fr(10)) simp
    also have "\<dots> = Some (replicate ?g 0)"
      by (rule read_at_replicate_sub [OF z [unfolded free_zero_def]]) (use k w page_sizes in arith)+
    finally show ?thesis .
  qed
  have "drop ?k (pdata p') = ?ser @ replicate ?g 0 @ drop (?k + length ?ser + ?g) (pdata p')"
    using read_at_drop [OF fr(9)] read_at_drop [OF gap] by simp
  then have rv: "read_values (pdata p') ?k (?k + ?n) = Some (map read_back r @ replicate ?g Value_unknown)"
    using len by (intro read_values_fields [OF st]) (simp_all add: add.assoc)
  have live: "slot_live (new_slot p r)"
  proof -
    have "0 < ?n" using ne by (cases r) (simp_all add: insert_size_Cons)
    then show ?thesis using lw by (simp add: slot_live_def slot_deleted_def word_gt_0 word_unat_eq_iff)
  qed
  have rid: "rid_slot rid = record_count (header p)" using fr(3) by simp
  have "rid_slot rid < record_count (header p')"
    using b(3) fr(2) rid by (simp only: word_less_nat_alt)
  moreover have "64 \<le> unat (slot_offset (new_slot p r))"
    using off n w by (simp del: of_nat_diff_if)
  ultimately have "getRecord p' rid = map_option Some (read_values (pdata p')
      (unat (slot_offset (new_slot p r)) - 64)
      (unat (slot_offset (new_slot p r)) - 64 + unat (slot_length (new_slot p r))))"
    using fr(5) rid live by (intro getRecord_live) simp_all
  also have "\<dots> = map_option Some (read_values (pdata p') ?k (?k + ?n))"
    using off lw by (simp only: PageSlot.select_convs page_sizes)
  finally show ?thesis by (simp only: rv option.map)
qed

lemma drop_eq_of_read_at:
  assumes "length a = length b" and "\<And>n. read_at j n a = read_at j n b"
  shows "drop j a = drop j b"
proof (cases "j \<le> length b")
  case True
  then show ?thesis using assms(2) [of "length b - j"] assms(1) by (simp add: read_at_def)
qed (use assms(1) in simp)

lemma insertRecord_get_other:
  assumes wf: "wf_page p" and big: "insert_size r + 8 < 2 ^ 64"
    and ins: "insertRecord p r = Some (Some rid, p')"
    and o: "rid_slot rid' < record_count (header p)"
  shows "getRecord p' rid' = getRecord p rid'" and "rid_slot rid' < record_count (header p')"
proof -
  note fr = insertRecord_frame [OF wf ins big]
  show *: "rid_slot rid' < record_count (header p')"
    using o grown_header_bounds(3) [OF wf fr(1)] fr(2) by (simp add: word_less_nat_alt)
  show "getRecord p' rid' = getRecord p rid'"
  proof (rule getRecord_cong [OF wf o *])
    show "read_slot (unat (rid_slot rid')) (pdata p') = read_slot (unat (rid_slot rid')) (pdata p)"
      using o by (intro fr(6)) (simp add: word_less_nat_alt)
    show "drop (unat (free_space_end (header p)) - 64) (pdata p')
        = drop (unat (free_space_end (header p)) - 64) (pdata p)"
      using fr(4,7) wf_pageD(1) [OF wf] by (intro drop_eq_of_read_at) simp_all
  qed
qed

section \<open>A store with stable identifiers\<close>

text \<open>
  What a client of a page relies on: an insertion that succeeds gives a fresh identifier
  under which the stored image is found, and leaves what the identifiers in use name;
  one that fails changes nothing. Batch insertion is proved from these laws alone.
\<close>

locale record_store =
  fixes wf :: "'s \<Rightarrow> bool"
    and ins :: "'s \<Rightarrow> 'r \<Rightarrow> ('id option \<times> 's) option"
    and get :: "'s \<Rightarrow> 'id \<Rightarrow> 'r option option"
    and used :: "'s \<Rightarrow> 'id \<Rightarrow> bool"
    and ok :: "'r \<Rightarrow> bool"
    and image :: "'r \<Rightarrow> 'r"
  assumes ins_defined: "wf s \<Longrightarrow> ok r \<Longrightarrow> \<exists>res. ins s r = Some res"
    and ins_wf: "wf s \<Longrightarrow> ok r \<Longrightarrow> ins s r = Some (Some i, s') \<Longrightarrow> wf s'"
    and ins_fresh: "wf s \<Longrightarrow> ok r \<Longrightarrow> ins s r = Some (Some i, s') \<Longrightarrow> \<not> used s i \<and> used s' i"
    and ins_get: "wf s \<Longrightarrow> ok r \<Longrightarrow> ins s r = Some (Some i, s') \<Longrightarrow> get s' i = Some (Some (image r))"
    and ins_keep: "wf s \<Longrightarrow> ok r \<Longrightarrow> ins s r = Some (Some i, s') \<Longrightarrow> used s j \<Longrightarrow>
          used s' j \<and> get s' j = get s j"
    and ins_fail: "wf s \<Longrightarrow> ok r \<Longrightarrow> ins s r = Some (None, s') \<Longrightarrow> s' = s"
begin

fun ins_all :: "'s \<Rightarrow> 'r list \<Rightarrow> ('id list \<times> 's) option" where
  "ins_all s [] = Some ([], s)"
| "ins_all s (r # rs) =
     (case ins s r of
        None \<Rightarrow> None
      | Some (None, s') \<Rightarrow> Some ([], s')
      | Some (Some i, s') \<Rightarrow> map_option (apfst ((#) i)) (ins_all s' rs))"

lemma ins_all_defined: "wf s \<Longrightarrow> list_all ok rs \<Longrightarrow> \<exists>res. ins_all s rs = Some res"
proof (induction rs arbitrary: s)
  case (Cons r rs)
  then obtain o' s' where i: "ins s r = Some (o', s')"
    using ins_defined [of s r] by auto
  show ?case
  proof (cases o')
    case (Some j)
    then have "wf s'" using Cons.prems i ins_wf by auto
    then show ?thesis using Cons i Some by fastforce
  qed (simp add: i)
qed simp

lemma ins_all_correct:
  assumes "wf s" and "list_all ok rs" and "ins_all s rs = Some (ids, s')"
  shows "wf s' \<and> length ids \<le> length rs \<and> distinct ids \<and>
    (\<forall>i \<in> set ids. \<not> used s i \<and> used s' i) \<and>
    (\<forall>k < length ids. get s' (ids ! k) = Some (Some (image (rs ! k)))) \<and>
    (\<forall>j. used s j \<longrightarrow> used s' j \<and> get s' j = get s j) \<and>
    (length ids < length rs \<longrightarrow> ins s' (rs ! length ids) = Some (None, s'))"
  using assms
proof (induction rs arbitrary: s ids)
  case (Cons r rs)
  obtain o' s1 where i: "ins s r = Some (o', s1)"
    using Cons.prems ins_defined [of s r] by auto
  show ?case
  proof (cases o')
    case None
    then have "s1 = s" using Cons.prems i ins_fail by auto
    with None Cons.prems i show ?thesis by auto
  next
    case (Some j)
    with Cons.prems i obtain ids' where rest: "ins_all s1 rs = Some (ids', s')" "ids = j # ids'"
      by (auto simp: map_option_case split: option.splits)
    have ok: "ok r" "list_all ok rs" using Cons.prems by simp_all
    have i': "ins s r = Some (Some j, s1)" using i Some by simp
    note ins_wf [OF Cons.prems(1) ok(1) i'] ins_fresh [OF Cons.prems(1) ok(1) i']
      ins_get [OF Cons.prems(1) ok(1) i'] ins_keep [OF Cons.prems(1) ok(1) i']
    moreover note Cons.IH [OF this(1) ok(2) rest(1)]
    ultimately show ?thesis
      unfolding rest(2) by (auto simp: nth_Cons split: nat.splits)
  qed
qed simp

end

section \<open>The page is such a store\<close>

definition page_ok :: "Page \<Rightarrow> bool" where
  "page_ok p \<longleftrightarrow> wf_page p \<and> free_zero p"

definition record_ok :: "Value list \<Rightarrow> bool" where
  "record_ok r \<longleftrightarrow> r \<noteq> [] \<and> list_all storable r \<and> insert_size r + SLOT_SIZE < 2 ^ 64"

definition slot_used :: "Page \<Rightarrow> RecordId \<Rightarrow> bool" where
  "slot_used p rid \<longleftrightarrow> rid_slot rid < record_count (header p)"

text \<open>
  What comes back for a record: two bytes per field are reserved and never written, and
  \<^verbatim>\<open>getRecord\<close> decodes them as fields of their own.
\<close>

definition stored_image :: "Value list \<Rightarrow> Value list" where
  "stored_image r = map read_back r @ replicate (2 * length r) Value_unknown"

lemma record_ok_size: "record_ok r \<Longrightarrow> insert_size r + 8 < 2 ^ 64"
  by (simp add: record_ok_def page_sizes)

interpretation page_store: record_store page_ok insertRecord getRecord slot_used record_ok stored_image
proof
  fix p r rid p'
  assume p: "page_ok p" and r: "record_ok r"
  have wf: "wf_page p" and z: "free_zero p" using p by (simp_all add: page_ok_def)
  note big = record_ok_size [OF r]
  show "\<exists>res. insertRecord p r = Some res" by (rule insertRecord_no_ub [OF wf big])
  show "p' = p" if "insertRecord p r = Some (None, p')"
    using that insertRecord_full [OF wf big] insertRecord_fits [OF wf, of r]
    by (cases "fits p r") auto
  assume ins: "insertRecord p r = Some (Some rid, p')"
  note fr = insertRecord_frame [OF wf ins big]
  show "page_ok p'"
    using insertRecord_wf [OF wf ins big] insertRecord_free_zero [OF wf ins big z]
    by (simp add: page_ok_def)
  have "rid_slot rid = record_count (header p)" using fr(3) by simp
  then show "\<not> slot_used p rid \<and> slot_used p' rid"
    using grown_header_bounds(3) [OF wf fr(1)] fr(2)
    by (simp add: slot_used_def word_less_nat_alt)
  show "getRecord p' rid = Some (Some (stored_image r))"
    using insertRecord_get_new [OF wf z _ _ big ins] r by (simp add: record_ok_def stored_image_def)
  show "slot_used p' j \<and> getRecord p' j = getRecord p j" if "slot_used p j" for j
    using insertRecord_get_other [OF wf big ins, of j] that by (simp add: slot_used_def)
qed

lemma insertRecords_ins_all:
  "insertRecords p rs rids k =
   map_option (\<lambda>(ids, p'). (k + length ids, rids @ ids, p')) (page_store.ins_all p rs)"
proof (induction rs arbitrary: p rids k)
  case (Cons r rs)
  show ?case
    by (simp add: Cons.IH split: option.splits prod.splits) (auto simp: map_option_case split: option.splits)
qed simp

section \<open>Deletion and update\<close>

lemma slot_deleted_or_1 [simp]: "slot_deleted (s\<lparr>slot_flags := f OR 1, slot_next := n\<rparr>)"
proof -
  have "bit ((f OR 1) AND 1) 0" by (simp add: bit_simps)
  then show ?thesis unfolding slot_deleted_def by (auto simp del: bit_0)
qed

lemma slot_not_live [simp]: "\<not> slot_live (s\<lparr>slot_flags := f OR 1, slot_next := n\<rparr>)"
  by (simp add: slot_live_def)

lemma header_markDirty: "header (markDirty p) = (header p)\<lparr>is_dirty := True\<rparr>"
  and pdata_markDirty: "pdata (markDirty p) = pdata p"
  by (simp_all add: markDirty_def)

lemma deleteRecord_effect:
  assumes p: "page_ok p" and u: "slot_used p rid"
  obtains p' where "deleteRecord p rid = Some (True, p')" and "page_ok p'"
    and "header p' = (header p)\<lparr>is_dirty := True\<rparr>"
    and "getRecord p' rid = Some None"
    and "\<And>j. rid_slot j \<noteq> rid_slot rid \<Longrightarrow> getRecord p' j = getRecord p j"
proof -
  have wf: "wf_page p" and z: "free_zero p" using p by (simp_all add: page_ok_def)
  note w = wf_pageD [OF wf]
  let ?i = "unat (rid_slot rid)" and ?rc = "unat (record_count (header p))"
  let ?e = "unat (free_space_end (header p))"
  have i: "?i < ?rc" using u by (simp add: slot_used_def word_less_nat_alt)
  obtain s where s: "read_slot ?i (pdata p) = Some s" and a: "slot_in_area ?e s"
    using wf_page_slot [OF wf i] .
  let ?s = "s\<lparr>slot_flags := slot_flags s OR 1, slot_next := 0\<rparr>"
  have "SLOT_SIZE * ?i + length (slot_bytes ?s) \<le> length (pdata p)"
    using i w by (simp add: page_sizes)
  then obtain d where d: "write_slot ?i ?s (pdata p) = Some d"
    unfolding write_slot_def using write_at_Some_iff by blast
  let ?p = "markDirty (p\<lparr>pdata := d\<rparr>)"
  have wat: "write_at (8 * ?i) (slot_bytes ?s) (pdata p) = Some d"
    using d by (simp add: write_slot_def page_sizes)
  have len: "length d = 4032" using length_write_at [OF wat] w by simp
  have far: "read_at j n d = read_at j n (pdata p)" if "8 * ?rc \<le> j" for j n
    using that i by (intro read_write_disjoint [OF wat]) simp
  note other = read_write_slot_other [OF d]
  have same: "read_slot ?i d = Some ?s" by (rule read_write_slot_same [OF d])
  have slots: "case read_slot j d of None \<Rightarrow> False | Some s \<Rightarrow> slot_in_area ?e s" if "j < ?rc" for j
  proof (cases "j = ?i")
    case True
    then show ?thesis using same a by (simp add: slot_in_area_def)
  next
    case False
    then show ?thesis using wf_page_slot [OF wf that] other [of j] by (metis option.simps(5))
  qed
  show thesis
  proof (rule that [of ?p])
    show "deleteRecord p rid = Some (True, ?p)"
      using u s d by (simp add: deleteRecord_def Let_def slot_used_def not_le)
    show "header ?p = (header p)\<lparr>is_dirty := True\<rparr>" by (simp add: markDirty_def)
    have e: "free_space_end (header ?p) = free_space_end (header p)" by (simp add: header_markDirty)
    have "wf_page ?p"
      unfolding wf_page_def e using w len slots
      by (simp add: header_markDirty pdata_markDirty page_sizes list_all_iff)
    moreover have "free_zero ?p"
      using z far w by (simp add: free_zero_def markDirty_def page_sizes)
    ultimately show "page_ok ?p" by (simp add: page_ok_def)
    show "getRecord ?p rid = Some None"
      using same by (intro getRecord_dead [where s = ?s]) (simp_all add: pdata_markDirty)
    show "getRecord ?p j = getRecord p j" if "rid_slot j \<noteq> rid_slot rid" for j
    proof (cases "slot_used p j")
      case True
      show ?thesis
      proof (rule getRecord_cong [OF wf])
        show "drop (?e - 64) (pdata ?p) = drop (?e - 64) (pdata p)"
          using far w len by (intro drop_eq_of_read_at) (simp_all add: pdata_markDirty)
        show "read_slot (unat (rid_slot j)) (pdata ?p) = read_slot (unat (rid_slot j)) (pdata p)"
          using that by (simp add: pdata_markDirty) (intro other, simp add: word_unat_eq_iff)
      qed (use True in \<open>simp_all add: slot_used_def header_markDirty\<close>)
    qed (simp add: slot_used_def not_less getRecord_out header_markDirty)
  qed
qed

lemma getRecord_used: "getRecord p rid = Some (Some r) \<Longrightarrow> slot_used p rid"
  by (simp add: getRecord_def slot_used_def Let_def split: if_splits)

lemma fits_cong:
  "free_space_end (header q) = free_space_end (header p) \<Longrightarrow>
   free_space_offset (header q) = free_space_offset (header p) \<Longrightarrow> fits q r = fits p r"
  by (simp add: fits_def)

lemma updateRecord_effect:
  assumes p: "page_ok p" and g: "getRecord p rid = Some (Some old)" and r: "record_ok r"
  obtains p' where "updateRecord p rid r = Some (fits p r, p')" and "page_ok p'"
    and "getRecord p' rid = Some None"
    and "\<And>j. slot_used p j \<Longrightarrow> rid_slot j \<noteq> rid_slot rid \<Longrightarrow> getRecord p' j = getRecord p j"
    and "fits p r \<Longrightarrow> getRecord p' (make_rid (page_id (header p)) (record_count (header p)))
           = Some (Some (stored_image r))"
proof -
  note u = getRecord_used [OF g] and big = record_ok_size [OF r]
  obtain p1 where p1: "deleteRecord p rid = Some (True, p1)" "page_ok p1"
      "header p1 = (header p)\<lparr>is_dirty := True\<rparr>" "getRecord p1 rid = Some None"
      "\<And>j. rid_slot j \<noteq> rid_slot rid \<Longrightarrow> getRecord p1 j = getRecord p j"
    using deleteRecord_effect [OF p u] by blast
  have used: "slot_used p1 j = slot_used p j" for j using p1(3) by (simp add: slot_used_def)
  have f: "fits p1 r = fits p r" using p1(3) by (intro fits_cong) simp_all
  have wf1: "wf_page p1" using p1(2) by (simp add: page_ok_def)
  show thesis
  proof (cases "fits p r")
    case False
    then have "insertRecord p1 r = Some (None, p1)" using insertRecord_full [OF wf1 big] f by simp
    then show thesis using that [of p1] p1 g False by (simp add: updateRecord_def)
  next
    case True
    then have f1: "fits p1 r" using f by simp
    obtain p2 where p2: "insertRecord p1 r = Some (Some (make_rid (page_id (header p1)) (record_count (header p1))), p2)"
      using insertRecord_fits [OF wf1 f1] by blast
    note st = page_store.ins_wf [OF p1(2) r p2] page_store.ins_get [OF p1(2) r p2]
      page_store.ins_keep [OF p1(2) r p2]
    show thesis
      using that [of p2] True p1 g p2 st used u by (simp add: updateRecord_def)
  qed
qed

section \<open>Compaction\<close>

lemma compact_loop_live:
  assumes "list_all (\<lambda>i. \<exists>s. read_slot i d = Some s) is"
  shows "compact_loop is d [] 0 =
    (if \<exists>i \<in> set is. \<exists>s. read_slot i d = Some s \<and> slot_live s then None else Some (d, [], 0))"
  using assms
proof (induction "is")
  case (Cons i "is")
  then obtain s where s: "read_slot i d = Some s" by auto
  have "write_at 0 rec [] = None" if "slot_live s" "read_at k (unat (slot_length s)) d = Some rec" for k rec
    using that by (auto simp: write_at_def read_at_def slot_live_def word_gt_0 word_unat_eq_iff split: if_splits)
  then show ?case using Cons s by (auto split: option.split)
qed simp

section \<open>Serialisation\<close>

lemma length_header_bytes [simp]: "length (header_bytes h) = 64"
  by (simp add: header_bytes_def)

lemma page_type_of_code_code [simp]: "page_type_of_code (page_type_code t) = Some t"
  by (cases t) (simp_all add: page_type_of_code_def)

lemma header_of_bytes_bytes: "header_of_bytes (header_bytes h) = Some h"
  by (simp add: header_of_bytes_def header_bytes_def nth_append)

lemma page_deserialize_serialize:
  assumes "length (pdata p) = PAGE_SIZE - HEADER_SIZE"
  shows "page_deserialize (page_serialize p) = Some (clearDirty p)"
  using assms
  by (simp add: page_deserialize_def page_serialize_def page_bytes_def clearDirty_def page_sizes
      header_of_bytes_bytes)

section \<open>Checksum\<close>

definition xor_all :: "u32 list \<Rightarrow> u32" where
  "xor_all ws = fold (\<lambda>w c. c XOR w) ws 0"

lemma fold_xor: "fold (\<lambda>w c. c XOR w) ws (a::u32) = a XOR xor_all ws"
  unfolding xor_all_def
proof (induction ws arbitrary: a)
  case (Cons w ws)
  show ?case
    unfolding fold_simps comp_def Cons.IH [of "a XOR w"] Cons.IH [of "0 XOR w"] by (simp add: xor.assoc)
qed simp

lemma xor_all_Cons [simp]: "xor_all (w # ws) = w XOR xor_all ws"
  using fold_xor [of ws w] by (simp add: xor_all_def)

lemma length_words_of: "length (words_of bs) = length bs div 4"
  by (induction bs rule: words_of.induct) simp_all

lemma xor_cancel: "a XOR (b::u32) = a XOR c \<longleftrightarrow> b = c"
  by (metis xor.assoc xor_self_eq xor.left_neutral)

lemma xor_cancel_right: "b XOR (a::u32) = c XOR a \<longleftrightarrow> b = c"
  by (metis xor_cancel xor.commute)

lemma le4_inj:
  "(of_le [a, b, c, d] :: u32) = of_le [a', b', c', d'] \<longleftrightarrow> [a, b, c, d] = [a', b', c', d']"
proof
  assume e: "(of_le [a, b, c, d] :: u32) = of_le [a', b', c', d']"
  show "[a, b, c, d] = [a', b', c', d']" by (rule of_le_inj [OF e]) simp_all
qed simp

lemma xor_words_update:
  "4 dvd length bs \<Longrightarrow> k < length bs \<Longrightarrow> b \<noteq> bs ! k \<Longrightarrow>
   xor_all (words_of (bs[k := b])) \<noteq> xor_all (words_of bs)"
proof (induction bs arbitrary: k rule: words_of.induct)
  case (1 a a' a'' a''' bs)
  have d: "4 dvd length bs" using "1.prems"(1) by (simp add: dvd_def) presburger
  have "k = 0 \<or> k = 1 \<or> k = 2 \<or> k = 3 \<or> k = Suc (Suc (Suc (Suc (k - 4))))" by arith
  then consider "k = 0" | "k = 1" | "k = 2" | "k = 3"
    | j where "k = Suc (Suc (Suc (Suc j)))" by blast
  then show ?case
  proof cases
    case (5 j)
    then show ?thesis using "1.IH" [OF d, of j] "1.prems" by (simp add: xor_cancel del: of_le.simps)
  qed (use "1.prems" in \<open>simp_all add: xor_cancel_right le4_inj del: of_le.simps\<close>)
qed (simp_all add: dvd_def, presburger+)

lemma verifyChecksum_xor:
  assumes "length (pdata p) = 4032"
  shows "verifyChecksum p \<longleftrightarrow>
    checksum (header p) = xor_all (words_of (header_bytes ((header p)\<lparr>checksum := 0\<rparr>) @ pdata p))"
  using assms
  by (simp add: verifyChecksum_def calculateChecksum_def xor_all_def page_bytes_def page_sizes
      length_words_of)

section \<open>Properties of the page\<close>

text \<open>
  A page with one record, \<open>(TRUE)\<close>, for the examples: the slot array directly follows the
  header, as the constructor of \<^verbatim>\<open>PageHeader\<close> lays it out.
\<close>

definition example_page :: Page where
  "example_page =
     \<lparr>header = \<lparr>page_id = 7, table_id = 3, ptype = DATA_PAGE, free_space_offset = 72,
        free_space_end = 4092, record_count = 1, slot_count = 0,
        next_page_id = INVALID_PAGE_ID, prev_page_id = INVALID_PAGE_ID,
        parent_page_id = INVALID_PAGE_ID, checksum = 0, page_lsn = 0,
        is_dirty = False, is_locked = False\<rparr>,
      pdata = slot_bytes \<lparr>slot_offset = 4092, slot_length = 4, slot_flags = 0, slot_next = 0\<rparr>
        @ replicate 4020 0 @ serializeValue (Value_bool True) @ [0, 0]\<rparr>"

abbreviation example_record :: "Value list" where
  "example_record \<equiv> [Value_int 42, Value_string ''ab'']"

lemma example_page_ok: "page_ok example_page"
  by (simp add: page_ok_def wf_page_def free_zero_def example_page_def page_sizes read_slot_def
      read_at_def slot_in_area_def serializeValue_def value_constructors drop_replicate)

lemma example_record_ok: "record_ok example_record"
  by (simp add: record_ok_def storable_def insert_size_def getValueSize_def page_sizes
      value_constructors value_readers)

lemma example_big_ok: "record_ok [Value_string (replicate 5000 CHR ''x'')]"
  by (simp add: record_ok_def storable_def insert_size_def getValueSize_def page_sizes
      value_constructors value_readers)

lemma example_fits: "fits example_page example_record"
  by (simp add: fits_def insert_size_def getValueSize_def page_sizes example_page_def
      value_constructors)

lemma example_get: "getRecord example_page (make_rid 7 0) = Some (Some [read_back (Value_bool True), Value_unknown, Value_unknown])"
  by (simp add: getRecord_def example_page_def read_slot_def read_at_def page_sizes
     slot_deleted_def record_index_def read_values.simps deserializeValue_def
     serializeValue_def value_constructors type_byte_def dt_of_code_def dt_enumerators_def Value_unknown_def read_back_def)

text \<open>
  C2: On a well-formed page whose free bytes are zero, \<^verbatim>\<open>insertRecord\<close> of a non-empty record
  never leaves the buffer. (The strings are shorter than 4 GiB, the type codes fit into a byte and
  the unions of the values are initialised.) It succeeds
  exactly when the record and its slot fit into the free space; then the page is well formed
  again, every record stored before reads as before, and \<^verbatim>\<open>getRecord\<close> of the new
  identifier gives the fields as \<open>read_back\<close> describes them, the value for an integer, a big
  integer, a Boolean and a \<^verbatim>\<open>VARCHAR\<close>, and for every other type the type alone, followed by two
  \<open>UNKNOWN\<close> values per field (the reserved bytes that are never written). When it does not fit the
  page is unchanged.
\<close>

theorem insertRecord_correct:
  assumes "page_ok p" and "record_ok r"
  shows "if fits p r then
      \<exists>p'. insertRecord p r = Some (Some (make_rid (page_id (header p)) (record_count (header p))), p') \<and>
        page_ok p' \<and>
        getRecord p' (make_rid (page_id (header p)) (record_count (header p)))
          = Some (Some (map read_back r @ replicate (2 * length r) Value_unknown)) \<and>
        (\<forall>j. slot_used p j \<longrightarrow> getRecord p' j = getRecord p j)
    else insertRecord p r = Some (None, p)"
proof (cases "fits p r")
  case True
  have wf: "wf_page p" using assms(1) by (simp add: page_ok_def)
  obtain p' where p': "insertRecord p r
      = Some (Some (make_rid (page_id (header p)) (record_count (header p))), p')"
    using insertRecord_fits [OF wf True] by blast
  note page_store.ins_wf [OF assms p'] page_store.ins_get [OF assms p'] page_store.ins_keep [OF assms p']
  then show ?thesis using True p' by (simp add: stored_image_def)
next
  case False
  then show ?thesis
    using insertRecord_full [OF _ record_ok_size [OF assms(2)] False] assms(1)
    by (simp add: page_ok_def)
qed

theorem insertRecord_correct_witness:
  "\<exists>p'. insertRecord example_page example_record = Some (Some (make_rid 7 1), p') \<and>
     getRecord p' (make_rid 7 1) = Some (Some (map read_back example_record @ replicate 4 Value_unknown)) \<and>
     getRecord p' (make_rid 7 0) = Some (Some [read_back (Value_bool True), Value_unknown, Value_unknown])"
proof -
  have "slot_used example_page (make_rid 7 0)" by (simp add: slot_used_def example_page_def)
  moreover have "page_id (header example_page) = 7" "record_count (header example_page) = 1"
    by (simp_all add: example_page_def)
  ultimately show ?thesis
    using insertRecord_correct [OF example_page_ok example_record_ok] example_fits example_get
    by (auto simp: numeral_eq_Suc)
qed

text \<open>
  \<^verbatim>\<open>insertRecords\<close> on a well-formed page inserts a prefix of the batch and
  reports its length and its identifiers; the identifiers are distinct and new, every
  inserted record is found under its identifier, older records read as before, and the batch
  is cut short only at a record that does not fit.
\<close>

lemma insertRecords_correct:
  assumes "page_ok p" and "list_all record_ok rs"
  shows "\<exists>ids p'. insertRecords p rs [] 0 = Some (length ids, ids, p') \<and> page_ok p' \<and>
    length ids \<le> length rs \<and> distinct ids \<and> (\<forall>i \<in> set ids. \<not> slot_used p i) \<and>
    (\<forall>k < length ids. getRecord p' (ids ! k) = Some (Some (stored_image (rs ! k)))) \<and>
    (\<forall>j. slot_used p j \<longrightarrow> getRecord p' j = getRecord p j) \<and>
    (length ids < length rs \<longrightarrow> insertRecord p' (rs ! length ids) = Some (None, p'))"
proof -
  obtain ids p' where i: "page_store.ins_all p rs = Some (ids, p')"
    using page_store.ins_all_defined [OF assms] by auto
  show ?thesis
    using page_store.ins_all_correct [OF assms i] i
    by (intro exI [of _ ids] exI [of _ p']) (simp add: insertRecords_ins_all)
qed

text \<open>
  C25: \<^verbatim>\<open>deleteRecord\<close> of a slot in use returns true, makes the record unreadable,
  keeps the page well formed and leaves every other slot's record alone; of any other
  identifier it returns false and changes nothing.
\<close>

theorem deleteRecord_correct:
  assumes "page_ok p"
  shows "if slot_used p rid then
      \<exists>p'. deleteRecord p rid = Some (True, p') \<and> page_ok p' \<and> getRecord p' rid = Some None \<and>
        (\<forall>j. rid_slot j \<noteq> rid_slot rid \<longrightarrow> getRecord p' j = getRecord p j)
    else deleteRecord p rid = Some (False, p)"
proof (cases "slot_used p rid")
  case True
  then show ?thesis using deleteRecord_effect [OF assms True] by (metis (no_types))
qed (simp add: slot_used_def deleteRecord_def Let_def not_less)

theorem deleteRecord_correct_witness:
  "\<exists>p'. deleteRecord example_page (make_rid 7 0) = Some (True, p') \<and>
     getRecord p' (make_rid 7 0) = Some None"
  using deleteRecord_correct [OF example_page_ok, of "make_rid 7 0"]
  by (auto simp: slot_used_def example_page_def)

text \<open>
  C29: \<^verbatim>\<open>updateRecord\<close> of a stored record always makes the record unreadable under
  its identifier. It returns true exactly when the new record fits into the remaining free
  space, and then stores it under the next slot; when it returns false the old record is
  lost, because the deletion is not undone.
\<close>

theorem updateRecord_moves_or_loses:
  assumes "page_ok p" and "getRecord p rid = Some (Some old)" and "record_ok r"
  shows "\<exists>p'. updateRecord p rid r = Some (fits p r, p') \<and> page_ok p' \<and>
    getRecord p' rid = Some None \<and>
    (\<forall>j. slot_used p j \<and> rid_slot j \<noteq> rid_slot rid \<longrightarrow> getRecord p' j = getRecord p j) \<and>
    (fits p r \<longrightarrow> getRecord p' (make_rid (page_id (header p)) (record_count (header p)))
       = Some (Some (stored_image r)))"
  using updateRecord_effect [OF assms] by metis

theorem updateRecord_moves_or_loses_witness:
  "\<exists>p'. updateRecord example_page (make_rid 7 0) [Value_string (replicate 5000 CHR ''x'')]
      = Some (False, p') \<and> getRecord p' (make_rid 7 0) = Some None"
proof -
  have "\<not> fits example_page [Value_string (replicate 5000 CHR ''x'')]"
    by (simp add: fits_def insert_size_def getValueSize_def page_sizes example_page_def
        value_constructors)
  then show ?thesis
    using updateRecord_moves_or_loses [OF example_page_ok example_get example_big_ok] by auto
qed

text \<open>
  The slot array of a page as the constructor builds it takes the whole page, so a new
  page refuses every record.
\<close>

lemma new_page_rejects:
  assumes "insert_size r + SLOT_SIZE < 2 ^ 64"
  shows "wf_page (Page_new i t) \<and> insertRecord (Page_new i t) r = Some (None, Page_new i t)"
proof -
  have wf: "wf_page (Page_new i t)"
    by (simp add: wf_page_def Page_new_def Page_zeroed_def Let_def page_sizes)
  moreover have "\<not> fits (Page_new i t) r"
    by (simp add: fits_def Page_new_def Page_zeroed_def Let_def page_sizes)
  ultimately show ?thesis
    using insertRecord_full [OF wf] assms by (simp add: page_sizes)
qed

text \<open>
  \<^verbatim>\<open>compactify\<close> on a well-formed page stays inside its buffers only when the page
  has no live record: its temporary buffer has \<open>DATA_SIZE\<close> bytes, which is zero.
\<close>

lemma compactify_defined_iff:
  assumes "wf_page p"
  shows "compactify p \<noteq> None \<longleftrightarrow>
    (\<forall>i < unat (record_count (header p)). \<forall>s. read_slot i (pdata p) = Some s \<longrightarrow> \<not> slot_live s)"
proof -
  let ?is = "[0..<unat (record_count (header p))]"
  have "list_all (\<lambda>i. \<exists>s. read_slot i (pdata p) = Some s) ?is"
    using wf_page_slot [OF assms] by (fastforce simp: list_all_iff)
  from compact_loop_live [OF this] have "compactify p \<noteq> None \<longleftrightarrow>
      \<not> (\<exists>i \<in> set ?is. \<exists>s. read_slot i (pdata p) = Some s \<and> slot_live s)"
    using wf_pageD(1) [OF assms] by (simp add: compactify_def page_sizes write_at_def)
  then show ?thesis by auto
qed

text \<open>
  C28: Writing a page to a buffer and reading it back gives the same page, marked clean.
\<close>

theorem page_roundtrip:
  assumes "length (pdata p) = PAGE_SIZE - HEADER_SIZE"
  shows "page_deserialize (page_serialize p) = Some (clearDirty p)"
  by (rule page_deserialize_serialize [OF assms])

theorem page_roundtrip_witness:
  "page_deserialize (page_serialize example_page) = Some (clearDirty example_page)"
  using page_roundtrip [of example_page] wf_pageD(1) example_page_ok
  by (simp add: page_ok_def page_sizes)

text \<open>
  The checksum detects every change of one byte of a page's data.
\<close>

lemma checksum_detects_byte:
  assumes "length (pdata p) = PAGE_SIZE - HEADER_SIZE" and "verifyChecksum p"
    and "k < length (pdata p)" and "b \<noteq> pdata p ! k"
  shows "\<not> verifyChecksum (p\<lparr>pdata := (pdata p)[k := b]\<rparr>)"
proof -
  let ?h = "header_bytes ((header p)\<lparr>checksum := 0\<rparr>)"
  have len: "length (?h @ pdata p) = 4096" using assms(1) by (simp add: page_sizes)
  have up: "?h @ (pdata p)[k := b] = (?h @ pdata p)[64 + k := b]" by (simp add: list_update_append)
  have "xor_all (words_of ((?h @ pdata p)[64 + k := b])) \<noteq> xor_all (words_of (?h @ pdata p))"
    using len assms(1,3,4) by (intro xor_words_update) (simp_all add: nth_append page_sizes)
  then show ?thesis
    using assms(1,2) up by (simp add: verifyChecksum_xor page_sizes)
qed

end
