(* ===== verification/StdText.thy ===== *)
theory StdText
  imports Prelude "HOL-Library.Sublist"
begin

text \<open>
  The number and text conversions of the C++ standard library that the program calls:
  \<^verbatim>\<open>std::to_string\<close> on integers and \<^verbatim>\<open>std::stoi\<close>, \<^verbatim>\<open>std::stoll\<close>
  with their two exceptions.
\<close>

definition digit_char :: "nat \<Rightarrow> char" where
  "digit_char d = char_of (48 + d)"

definition is_digit :: "char \<Rightarrow> bool" where
  "is_digit c \<longleftrightarrow> 48 \<le> (of_char c :: nat) \<and> (of_char c :: nat) \<le> 57"

definition digit_value :: "char \<Rightarrow> nat" where
  "digit_value c = of_char c - 48"

fun dec_nat :: "nat \<Rightarrow> string" where
  "dec_nat n = (if n < 10 then [digit_char n] else dec_nat (n div 10) @ [digit_char (n mod 10)])"

declare dec_nat.simps [simp del]

definition dec_string :: "int \<Rightarrow> string" where
  "dec_string i = (if i < 0 then CHR ''-'' # dec_nat (nat (- i)) else dec_nat (nat i))"

definition is_space :: "char \<Rightarrow> bool" where
  "is_space c \<longleftrightarrow> (of_char c :: nat) = 32 \<or> (9 \<le> (of_char c :: nat) \<and> (of_char c :: nat) \<le> 13)"

definition parse_nat :: "string \<Rightarrow> nat" where
  "parse_nat s = fold (\<lambda>c a. 10 * a + digit_value c) s 0"

datatype conv_error = invalid_argument | out_of_range

text \<open>
  White space, an optional sign, the longest run of digits; what follows is ignored.
\<close>

definition parse_sign :: "string \<Rightarrow> bool \<times> string" where
  "parse_sign s =
     (case s of [] \<Rightarrow> (False, [])
      | c # cs \<Rightarrow> if c = CHR ''-'' then (True, cs) else if c = CHR ''+'' then (False, cs) else (False, s))"

definition parse_int :: "int \<Rightarrow> int \<Rightarrow> string \<Rightarrow> conv_error + int" where
  "parse_int lo hi s =
     (let (neg, t) = parse_sign (dropWhile is_space s); ds = takeWhile is_digit t in
      if ds = [] then Inl invalid_argument
      else let i = (if neg then - int (parse_nat ds) else int (parse_nat ds)) in
        if i < lo \<or> hi < i then Inl out_of_range else Inr i)"

definition stoi :: "string \<Rightarrow> conv_error + int" where
  "stoi = parse_int (- (2 ^ 31)) (2 ^ 31 - 1)"

definition stoll :: "string \<Rightarrow> conv_error + int" where
  "stoll = parse_int (- (2 ^ 63)) (2 ^ 63 - 1)"

text \<open>The character classes of the C locale.\<close>

definition is_upper :: "char \<Rightarrow> bool" where
  "is_upper c \<longleftrightarrow> 65 \<le> (of_char c :: nat) \<and> (of_char c :: nat) \<le> 90"

definition is_lower :: "char \<Rightarrow> bool" where
  "is_lower c \<longleftrightarrow> 97 \<le> (of_char c :: nat) \<and> (of_char c :: nat) \<le> 122"

definition is_alpha :: "char \<Rightarrow> bool" where
  "is_alpha c \<longleftrightarrow> is_upper c \<or> is_lower c"

definition is_alnum :: "char \<Rightarrow> bool" where
  "is_alnum c \<longleftrightarrow> is_alpha c \<or> is_digit c"

definition to_upper :: "char \<Rightarrow> char" where
  "to_upper c = (if is_lower c then char_of (of_char c - 32 :: nat) else c)"

text \<open>\<^verbatim>\<open>s.find(from, p)\<close>\<close>

definition find_sub :: "string \<Rightarrow> string \<Rightarrow> nat \<Rightarrow> nat option" where
  "find_sub from s p = find (\<lambda>i. prefix from (drop i s)) [p..<Suc (length s)]"

section \<open>Printing and parsing are inverse\<close>

lemma of_char_digit [simp]: "d < 10 \<Longrightarrow> (of_char (digit_char d) :: nat) = 48 + d"
  by (simp add: digit_char_def)

lemma is_digit_digit_char [simp]: "d < 10 \<Longrightarrow> is_digit (digit_char d)"
  and digit_value_digit_char [simp]: "d < 10 \<Longrightarrow> digit_value (digit_char d) = d"
  by (simp_all add: is_digit_def digit_value_def)

lemma dec_nat_digits: "list_all is_digit (dec_nat n)"
proof (induction n rule: dec_nat.induct)
  case (1 n)
  then show ?case by (cases "n < 10") (simp_all add: dec_nat.simps [of n])
qed

lemma dec_nat_not_Nil [simp]: "dec_nat n \<noteq> []"
  by (simp add: dec_nat.simps [of n])

lemma parse_nat_dec_nat [simp]: "parse_nat (dec_nat n) = n"
proof (induction n rule: dec_nat.induct)
  case (1 n)
  then show ?case
    by (cases "n < 10") (simp_all add: dec_nat.simps [of n] parse_nat_def)
qed

lemma takeWhile_dec_nat: "takeWhile is_digit (dec_nat n) = dec_nat n"
  using dec_nat_digits [of n] by (simp add: list_all_iff)

lemma hd_dec_nat_digit: "is_digit (hd (dec_nat n))"
  using dec_nat_digits [of n] by (cases "dec_nat n") simp_all

lemma parse_sign_dec_nat: "parse_sign (dropWhile is_space (dec_nat n)) = (False, dec_nat n)"
proof -
  obtain c cs where c: "dec_nat n = c # cs" by (cases "dec_nat n") auto
  then have "is_digit c" using hd_dec_nat_digit [of n] by simp
  then have "\<not> is_space c" "c \<noteq> CHR ''-''" "c \<noteq> CHR ''+''"
    by (auto simp: is_digit_def is_space_def)
  then show ?thesis by (simp add: c parse_sign_def)
qed

lemma parse_int_dec_string:
  assumes "lo \<le> i" and "i \<le> hi"
  shows "parse_int lo hi (dec_string i) = Inr i"
proof (cases "i < 0")
  case True
  have "\<not> is_space CHR ''-''" by (simp add: is_space_def)
  with True assms show ?thesis
    by (simp add: parse_int_def dec_string_def parse_sign_def takeWhile_dec_nat)
next
  case False
  with assms show ?thesis
    by (simp add: parse_int_def dec_string_def parse_sign_dec_nat takeWhile_dec_nat)
qed

lemma stoi_dec_string: "stoi (dec_string (sint (w :: 32 word))) = Inr (sint w)"
  unfolding stoi_def
  using sint_ge [of w] sint_lt [of w] by (intro parse_int_dec_string) simp_all

lemma stoll_dec_string: "stoll (dec_string (sint (w :: 64 word))) = Inr (sint w)"
  unfolding stoll_def
  using sint_ge [of w] sint_lt [of w] by (intro parse_int_dec_string) simp_all

end
