(* ===== verification/Records.thy ===== *)
theory Records
  imports ValueCodec StdText
begin

text \<open>
  \<^verbatim>\<open>storage/record.cpp\<close>: the record format with an offset table, comparison of
  values, aggregation, and conversion of values to and from text.
\<close>

section \<open>Record format\<close>

definition field_size :: "Value \<Rightarrow> nat" where
  "field_size v =
     (case vtype v of
        INTEGER \<Rightarrow> 4 | BIGINT \<Rightarrow> 8 | BOOLEAN \<Rightarrow> 1 | VARCHAR \<Rightarrow> 4 + length (str_val v) | _ \<Rightarrow> 0)"

definition field_bytes :: "Value \<Rightarrow> bytes" where
  "field_bytes v =
     (case vtype v of
        INTEGER \<Rightarrow> le_bytes 4 (int_val v)
      | BIGINT \<Rightarrow> le_bytes 8 (bigint_val v)
      | BOOLEAN \<Rightarrow> [ucast (data v)]
      | VARCHAR \<Rightarrow> string_field (str_val v)
      | _ \<Rightarrow> [])"

text \<open>The offsets are computed as \<^verbatim>\<open>size_t\<close> and stored as \<^verbatim>\<open>uint16_t\<close>.\<close>

fun field_offsets :: "nat \<Rightarrow> Value list \<Rightarrow> u16 list" where
  "field_offsets current_offset [] = []"
| "field_offsets current_offset (v # vs) =
     of_nat current_offset # field_offsets (current_offset + field_size v) vs"

definition serializeRecord :: "Value list \<Rightarrow> bytes" where
  "serializeRecord r =
     (let field_count = (of_nat (length r) :: u16);
          fields = take (unat field_count) r
      in le_bytes 2 field_count
         @ concat (map (le_bytes 2) (field_offsets (2 * (unat field_count + 1)) fields))
         @ concat (map field_bytes fields))"

text \<open>
  A field's type is guessed from its size. The size of the last field is taken from the
  position after the offset table, not from the end of the data. The buffer is the one
  \<^verbatim>\<open>serializeRecord\<close> wrote; reading outside it gives \<^const>\<open>None\<close>.
\<close>

definition read_field :: "bytes \<Rightarrow> u16 \<Rightarrow> u64 \<Rightarrow> Value option" where
  "read_field buf off fsize =
     (if fsize = 4 then
        map_option (\<lambda>bs. Value_int (of_le bs)) (read_at (unat off) 4 buf)
      else if fsize = 8 then
        map_option (\<lambda>bs. Value_bigint (of_le bs)) (read_at (unat off) 8 buf)
      else if fsize = 1 then
        map_option (\<lambda>bs. Value_null\<lparr>vtype := BOOLEAN, data := ucast (hd bs)\<rparr>) (read_at (unat off) 1 buf)
      else
        case read_at (unat off) 4 buf of None \<Rightarrow> None
        | Some bs \<Rightarrow>
            map_option (\<lambda>cs. Value_null\<lparr>vtype := VARCHAR, str_val := string_of_bytes cs\<rparr>)
              (read_at (unat off + 4) (unat (of_le bs :: u32)) buf))"

fun read_fields :: "bytes \<Rightarrow> u64 \<Rightarrow> u16 list \<Rightarrow> Value list option" where
  "read_fields buf table_end [] = Some []"
| "read_fields buf table_end (off # offs) =
     (let next_offset = (case offs of [] \<Rightarrow> table_end | o' # _ \<Rightarrow> ucast o') in
      case read_field buf off (next_offset - ucast off) of None \<Rightarrow> None
      | Some v \<Rightarrow> map_option ((#) v) (read_fields buf table_end offs))"

fun u16s_of :: "nat \<Rightarrow> bytes \<Rightarrow> u16 list" where
  "u16s_of 0 bs = []"
| "u16s_of (Suc n) bs = of_le (take 2 bs) # u16s_of n (drop 2 bs)"

definition deserializeRecord :: "bytes \<Rightarrow> (Value list \<times> nat) option" where
  "deserializeRecord buf =
     (case read_at 0 2 buf of None \<Rightarrow> None
      | Some cb \<Rightarrow>
          let field_count = unat (of_le cb :: u16) in
          case read_at 2 (2 * field_count) buf of None \<Rightarrow> None
          | Some ob \<Rightarrow>
              map_option (\<lambda>r. (r, 2 + 2 * field_count))
                (read_fields buf (of_nat (2 + 2 * field_count)) (u16s_of field_count ob)))"

definition record_getRecordSize :: "Value list \<Rightarrow> nat" where
  "record_getRecordSize r = 2 + sum_list (map (\<lambda>v. 2 + field_size v) r)"

section \<open>Comparison and aggregation\<close>

definition compareValues :: "Value \<Rightarrow> Value \<Rightarrow> bool" where
  "compareValues a b =
     (if vtype a \<noteq> vtype b then False
      else case vtype a of
          INTEGER \<Rightarrow> int_val a = int_val b
        | BIGINT \<Rightarrow> bigint_val a = bigint_val b
        | BOOLEAN \<Rightarrow> bool_val a = bool_val b
        | VARCHAR \<Rightarrow> str_val a = str_val b
        | _ \<Rightarrow> False)"

text \<open>Three-way comparison; of \<^verbatim>\<open>std::string::compare\<close> only the sign is specified.\<close>

definition cmp3 :: "'a::linorder \<Rightarrow> 'a \<Rightarrow> int" where
  "cmp3 a b = (if a < b then -1 else if b < a then 1 else 0)"

definition compareValuesOrdered :: "Value \<Rightarrow> Value \<Rightarrow> int" where
  "compareValuesOrdered a b =
     (if vtype a \<noteq> vtype b then int (dt_code (vtype a)) - int (dt_code (vtype b))
      else case vtype a of
          INTEGER \<Rightarrow> cmp3 (sint (int_val a)) (sint (int_val b))
        | BIGINT \<Rightarrow> cmp3 (sint (bigint_val a)) (sint (bigint_val b))
        | BOOLEAN \<Rightarrow> cmp3 (bool_val a) (bool_val b)
        | VARCHAR \<Rightarrow> cmp3 (str_val a) (str_val b)
        | _ \<Rightarrow> 0)"

datatype AggregateFunction = COUNT_AGG | SUM_AGG | AVG_AGG | MIN_AGG | MAX_AGG | GROUP_CONCAT | STDDEV | VARIANCE

text \<open>
  The sum is an \<^verbatim>\<open>int64_t\<close>. The division by \<^verbatim>\<open>values.size()\<close> is carried out on
  unsigned 64-bit numbers, since the divisor is a \<^verbatim>\<open>size_t\<close>.
\<close>

definition sum_int64 :: "Value list \<Rightarrow> 64 word" where
  "sum_int64 vs = fold (\<lambda>v s. s + scast (int_val v)) vs 0"

definition aggregate_min :: "Value list \<Rightarrow> Value \<Rightarrow> Value" where
  "aggregate_min = fold (\<lambda>v result. if compareValuesOrdered v result < 0 then v else result)"

definition aggregate_max :: "Value list \<Rightarrow> Value \<Rightarrow> Value" where
  "aggregate_max = fold (\<lambda>v result. if compareValuesOrdered v result > 0 then v else result)"

definition aggregateValues :: "Value list \<Rightarrow> AggregateFunction \<Rightarrow> Value" where
  "aggregateValues vals func =
     (case vals of
        [] \<Rightarrow> Value_null
      | v # vs \<Rightarrow>
          (case func of
             COUNT_AGG \<Rightarrow> Value_int (of_nat (length vals))
           | SUM_AGG \<Rightarrow> (if vtype v = INTEGER then Value_int (ucast (sum_int64 vals)) else v)
           | AVG_AGG \<Rightarrow>
               (if vtype v = INTEGER
                then Value_int (ucast (sum_int64 vals div of_nat (length vals))) else v)
           | MIN_AGG \<Rightarrow> aggregate_min vs v
           | MAX_AGG \<Rightarrow> aggregate_max vs v
           | _ \<Rightarrow> v))"

section \<open>Text\<close>

definition valueToString :: "Value \<Rightarrow> string" where
  "valueToString v =
     (case vtype v of
        INTEGER \<Rightarrow> dec_string (sint (int_val v))
      | BIGINT \<Rightarrow> dec_string (sint (bigint_val v))
      | BOOLEAN \<Rightarrow> (if bool_val v then ''true'' else ''false'')
      | VARCHAR \<Rightarrow> str_val v
      | _ \<Rightarrow> ''NULL'')"

text \<open>\<^const>\<open>Inl\<close>: the exception that \<^verbatim>\<open>std::stoi\<close> or \<^verbatim>\<open>std::stoll\<close> throws.\<close>

definition stringToValue :: "string \<Rightarrow> DataType \<Rightarrow> conv_error + Value" where
  "stringToValue s t =
     (let val = Value_null\<lparr>vtype := t\<rparr> in
      case t of
        INTEGER \<Rightarrow> map_sum id (\<lambda>i. val\<lparr>data := ucast (word_of_int i :: 32 word)\<rparr>) (stoi s)
      | BIGINT \<Rightarrow> map_sum id (\<lambda>i. val\<lparr>data := word_of_int i, set_bytes := 8\<rparr>) (stoll s)
      | BOOLEAN \<Rightarrow> Inr (val\<lparr>data := of_bool (s = ''true'' \<or> s = ''1'')\<rparr>)
      | VARCHAR \<Rightarrow> Inr (val\<lparr>str_val := s\<rparr>)
      | _ \<Rightarrow> Inr val)"

section \<open>Sizes\<close>

lemma length_field_bytes:
  assumes "vtype v = VARCHAR \<longrightarrow> length (str_val v) < 2 ^ 32"
  shows "length (field_bytes v) = field_size v"
  using assms by (cases "vtype v") (simp_all add: field_bytes_def field_size_def length_string_field)

lemma length_field_offsets [simp]: "length (field_offsets k vs) = length vs"
  by (induction vs arbitrary: k) simp_all

lemma length_concat_le2: "length (concat (map (le_bytes 2) ws)) = 2 * length ws"
  by (induction ws) simp_all

lemma length_serializeRecord:
  assumes "length r < 2 ^ 16" and "list_all (\<lambda>v. length (str_val v) < 2 ^ 32) r"
  shows "length (serializeRecord r) = record_getRecordSize r"
proof -
  have "length (concat (map field_bytes r)) = sum_list (map field_size r)"
    using assms(2) by (induction r) (simp_all add: length_field_bytes)
  moreover have "sum_list (map (\<lambda>v. 2 + field_size v) r) = 2 * length r + sum_list (map field_size r)"
    by (induction r) simp_all
  ultimately show ?thesis
    using assms(1)
    by (simp add: serializeRecord_def record_getRecordSize_def Let_def unat_of_nat length_concat_le2)
qed

section \<open>Order\<close>

lemma cmp3_sign [simp]:
  "cmp3 a b < 0 \<longleftrightarrow> a < b" "0 < cmp3 a b \<longleftrightarrow> b < a" "cmp3 a b = 0 \<longleftrightarrow> a = b"
  "cmp3 a b \<le> 0 \<longleftrightarrow> a \<le> b"
  by (auto simp: cmp3_def)

lemma compareValuesOrdered_swap: "compareValuesOrdered b a = - compareValuesOrdered a b"
  by (cases "vtype a = vtype b"; cases "vtype b") (auto simp: compareValuesOrdered_def cmp3_def)

lemma compareValuesOrdered_trans:
  assumes "compareValuesOrdered a b \<le> 0" and "compareValuesOrdered b c \<le> 0"
  shows "compareValuesOrdered a c \<le> 0"
proof (cases "vtype a = vtype b \<and> vtype b = vtype c")
  case True
  with assms show ?thesis
    by (cases "vtype c") (auto simp: compareValuesOrdered_def)
next
  case False
  have le: "dt_code (vtype x) \<le> dt_code (vtype y)" if "compareValuesOrdered x y \<le> 0" for x y
    using that by (cases "vtype x = vtype y") (simp_all add: compareValuesOrdered_def)
  have "dt_code (vtype a) < dt_code (vtype c)"
    using le [OF assms(1)] le [OF assms(2)] False by (metis dt_code_inj le_neq_implies_less le_trans antisym)
  then have "vtype a \<noteq> vtype c" by auto
  with \<open>dt_code (vtype a) < dt_code (vtype c)\<close> show ?thesis by (simp add: compareValuesOrdered_def)
qed

text \<open>
  The two folds are one: the element kept so far is never worse than any seen before.
\<close>

lemma fold_best:
  fixes better :: "'a \<Rightarrow> 'a \<Rightarrow> bool"
  assumes total: "\<And>x y. \<not> better x y \<Longrightarrow> best x y" and asym: "\<And>x y. better x y \<Longrightarrow> best y x"
    and trans: "\<And>x y z. best x y \<Longrightarrow> best y z \<Longrightarrow> best x z" and refl: "\<And>x. best x x"
  defines "pick \<equiv> fold (\<lambda>v r. if better v r then v else r)"
  shows "pick vs r \<in> insert r (set vs) \<and> (\<forall>w \<in> insert r (set vs). best w (pick vs r))"
  unfolding pick_def
proof (induction vs arbitrary: r)
  case (Cons v vs)
  show ?case using Cons.IH [of "if better v r then v else r"] total asym trans by auto blast+
qed (simp add: refl)

lemma aggregate_min_best:
  "aggregate_min vs v \<in> insert v (set vs) \<and>
   (\<forall>w \<in> insert v (set vs). compareValuesOrdered (aggregate_min vs v) w \<le> 0)"
  unfolding aggregate_min_def
proof (rule fold_best [where better = "\<lambda>v r. compareValuesOrdered v r < 0"
      and best = "\<lambda>w r. compareValuesOrdered r w \<le> 0"])
  fix x y z
  show "compareValuesOrdered y x \<le> 0" if "\<not> compareValuesOrdered x y < 0"
    using that compareValuesOrdered_swap [of x y] by simp
  show "compareValuesOrdered x y \<le> 0" if "compareValuesOrdered x y < 0"
    using that by simp
  show "compareValuesOrdered z x \<le> 0" if "compareValuesOrdered y x \<le> 0" "compareValuesOrdered z y \<le> 0"
    using compareValuesOrdered_trans that by blast
  show "compareValuesOrdered x x \<le> 0" using compareValuesOrdered_swap [of x x] by simp
qed

lemma aggregate_max_best:
  "aggregate_max vs v \<in> insert v (set vs) \<and>
   (\<forall>w \<in> insert v (set vs). compareValuesOrdered w (aggregate_max vs v) \<le> 0)"
  unfolding aggregate_max_def
proof (rule fold_best [where better = "\<lambda>v r. compareValuesOrdered v r > 0"
      and best = "\<lambda>w r. compareValuesOrdered w r \<le> 0"])
  fix x y z
  show "compareValuesOrdered x y \<le> 0" if "\<not> compareValuesOrdered x y > 0" using that by simp
  show "compareValuesOrdered y x \<le> 0" if "compareValuesOrdered x y > 0"
    using that compareValuesOrdered_swap [of x y] by simp
  show "compareValuesOrdered x z \<le> 0" if "compareValuesOrdered x y \<le> 0" "compareValuesOrdered y z \<le> 0"
    using compareValuesOrdered_trans that by blast
  show "compareValuesOrdered x x \<le> 0" using compareValuesOrdered_swap [of x x] by simp
qed

section \<open>Sums\<close>

definition int_sum :: "Value list \<Rightarrow> int" where
  "int_sum vs = sum_list (map (\<lambda>v. sint (int_val v)) vs)"

lemma sum_int64_word: "sum_int64 vs = word_of_int (int_sum vs)"
proof -
  have "fold (\<lambda>v s. s + scast (int_val v)) vs (word_of_int a :: 64 word) = word_of_int (a + int_sum vs)" for a
  proof (induction vs arbitrary: a)
    case (Cons v vs)
    have "(scast (int_val v) :: 64 word) = word_of_int (sint (int_val v))" by simp
    then show ?case
      using Cons.IH [of "a + sint (int_val v)"] by (simp add: int_sum_def add.assoc)
  qed (simp add: int_sum_def)
  from this [of 0] show ?thesis by (simp add: sum_int64_def)
qed

lemma int_sum_bound: "int_sum vs \<le> (2 ^ 31 - 1) * int (length vs)"
proof (induction vs)
  case (Cons v vs)
  have "sint (int_val v) < 2 ^ 31" using sint_lt [of "int_val v"] by simp
  with Cons show ?case by (simp add: int_sum_def algebra_simps)
qed (simp add: int_sum_def)

lemma ucast_word_of_int: "(ucast (word_of_int i :: 64 word) :: 32 word) = word_of_int i"
  by (rule bit_word_eqI) (simp add: bit_simps)

lemma sint_word_of_int_32:
  assumes "- (2 ^ 31) \<le> i" and "i < 2 ^ 31"
  shows "sint (word_of_int i :: 32 word) = i"
  using assms by (simp add: signed_take_bit_int_eq_self sint_sbintrunc')

lemma int_val_Value_int [simp]: "int_val (Value_int w) = w"
  by (simp add: int_val_def Value_int_def ucast_down_ucast_id is_down)

lemma vtype_Value_int [simp]: "vtype (Value_int w) = INTEGER"
  by (simp add: Value_int_def)

section \<open>Properties of records\<close>

text \<open>
  A record of one INTEGER does not survive the offset-table format: the field's size is
  computed against the end of the offset table, so the four bytes are taken for a string
  length. Zero reads back as the empty string, any other number makes the reader leave the
  buffer.
\<close>

lemma single_integer_misread:
  "deserializeRecord (serializeRecord [Value_int i])
   = (if i = 0 then Some ([Value_null\<lparr>vtype := VARCHAR, str_val := []\<rparr>], 4) else None)"
proof -
  have ser: "serializeRecord [Value_int i] = [1, 0, 4, 0] @ le_bytes 4 i"
    by (simp add: serializeRecord_def field_size_def field_bytes_def le_bytes_2
        Value_int_def int_val_def ucast_down_ucast_id is_down)
  have len: "unat i = 0 \<longleftrightarrow> i = 0" by (simp add: unat_eq_0)
  show ?thesis unfolding ser
    by (simp add: deserializeRecord_def read_at_def read_field_def len)
qed

text \<open>
  \<^verbatim>\<open>compareValuesOrdered\<close> is a total preorder (antisymmetric in sign,
  transitive), and on the four stored types it says equal exactly when
  \<^verbatim>\<open>compareValues\<close> does.
\<close>

lemma compareValuesOrdered_preorder:
  "compareValuesOrdered b a = - compareValuesOrdered a b \<and>
   (compareValuesOrdered a b \<le> 0 \<and> compareValuesOrdered b c \<le> 0 \<longrightarrow> compareValuesOrdered a c \<le> 0) \<and>
   (vtype a \<in> {INTEGER, BIGINT, BOOLEAN, VARCHAR} \<longrightarrow>
      (compareValuesOrdered a b = 0 \<longleftrightarrow> compareValues a b))"
proof (intro conjI impI)
  show "compareValuesOrdered b a = - compareValuesOrdered a b" by (rule compareValuesOrdered_swap)
  show "compareValuesOrdered a c \<le> 0" if "compareValuesOrdered a b \<le> 0 \<and> compareValuesOrdered b c \<le> 0"
    using that compareValuesOrdered_trans by blast
  assume "vtype a \<in> {INTEGER, BIGINT, BOOLEAN, VARCHAR}"
  then show "compareValuesOrdered a b = 0 \<longleftrightarrow> compareValues a b"
    by (auto simp: compareValuesOrdered_def compareValues_def signed_word_eqI)
qed

text \<open>
  MIN and MAX of a non-empty list give one of its values, which no value of the list is
  below, respectively above.
\<close>

lemma aggregate_min_max_correct:
  assumes "vals \<noteq> []"
  shows "aggregateValues vals MIN_AGG \<in> set vals \<and>
    (\<forall>w \<in> set vals. compareValuesOrdered (aggregateValues vals MIN_AGG) w \<le> 0) \<and>
    aggregateValues vals MAX_AGG \<in> set vals \<and>
    (\<forall>w \<in> set vals. compareValuesOrdered w (aggregateValues vals MAX_AGG) \<le> 0)"
proof -
  obtain v vs where "vals = v # vs" using assms by (cases vals) auto
  then show ?thesis
    using aggregate_min_best [of vs v] aggregate_max_best [of vs v]
    by (simp add: aggregateValues_def)
qed

text \<open>
  For INTEGER values SUM is exact whenever the mathematical sum fits into 32 bits, and
  AVG is the truncated quotient whenever the sum is not negative, for lists shorter than
  \<open>2^31\<close>.
\<close>

lemma aggregate_sum_avg_exact:
  assumes "vals \<noteq> []" and "list_all (\<lambda>v. vtype v = INTEGER) vals" and "length vals < 2 ^ 31"
  shows "(- (2 ^ 31) \<le> int_sum vals \<and> int_sum vals < 2 ^ 31 \<longrightarrow>
      sint (int_val (aggregateValues vals SUM_AGG)) = int_sum vals) \<and>
    (0 \<le> int_sum vals \<longrightarrow>
      sint (int_val (aggregateValues vals AVG_AGG)) = int_sum vals div int (length vals))"
proof (intro conjI impI)
  obtain v vs where vals: "vals = v # vs" "vtype v = INTEGER" using assms by (cases vals) auto
  show "sint (int_val (aggregateValues vals SUM_AGG)) = int_sum vals"
    if "- (2 ^ 31) \<le> int_sum vals \<and> int_sum vals < 2 ^ 31"
    using that vals by (simp add: aggregateValues_def sum_int64_word ucast_word_of_int sint_word_of_int_32)
  assume nn: "0 \<le> int_sum vals"
  let ?n = "int (length vals)"
  have n: "0 < ?n" "?n < 2 ^ 31" using vals assms(3) by simp_all
  have le: "int_sum vals \<le> (2 ^ 31 - 1) * ?n" by (rule int_sum_bound)
  then have lt: "int_sum vals < 2 ^ 64" using n by simp
  have s: "uint (sum_int64 vals) = int_sum vals"
    using nn lt by (simp add: sum_int64_word uint_word_of_int_eq take_bit_int_eq_self)
  have "uint (sum_int64 vals div of_nat (length vals)) = int_sum vals div ?n"
    using n by (simp add: uint_div s unsigned_of_nat take_bit_nat_eq_self)
  then have q: "sum_int64 vals div of_nat (length vals) = word_of_int (int_sum vals div ?n)"
    by (metis word_of_int_uint)
  have "int_sum vals div ?n \<le> 2 ^ 31 - 1"
    using zdiv_mono1 [OF le n(1)] n by simp
  moreover have "0 \<le> int_sum vals div ?n" using nn n by (simp add: pos_imp_zdiv_nonneg_iff)
  ultimately show "sint (int_val (aggregateValues vals AVG_AGG)) = int_sum vals div ?n"
    using vals q by (simp add: aggregateValues_def ucast_word_of_int sint_word_of_int_32)
qed

text \<open>
  AVG divides as unsigned: the average of three times \<open>-3\<close> is \<open>1431655762\<close>.
\<close>

lemma aggregate_avg_negative:
  "aggregateValues [Value_int (-3), Value_int (-3), Value_int (-3)] AVG_AGG = Value_int 1431655762"
  by (simp add: aggregateValues_def sum_int64_word int_sum_def) (simp add: Value_int_def)

text \<open>
  Printing a value of one of the four stored types and parsing the text at that type
  gives the value back, up to the bytes of the union that no member uses.
\<close>

lemma value_text_roundtrip:
  assumes "vtype v \<in> {INTEGER, BIGINT, BOOLEAN, VARCHAR}" and "vtype v = BOOLEAN \<longrightarrow> data v \<in> {0, 1}"
  shows "stringToValue (valueToString v) (vtype v) = Inr (read_back v)"
proof -
  consider "vtype v = INTEGER" | "vtype v = BIGINT" | "vtype v = BOOLEAN" "data v \<in> {0, 1}" | "vtype v = VARCHAR"
    using assms by auto
  then show ?thesis
  proof cases
    case 3
    then show ?thesis by (auto simp: stringToValue_def valueToString_def read_back_def value_constructors bool_val_def)
  qed (simp_all add: stringToValue_def valueToString_def read_back_def value_constructors stoi_dec_string stoll_dec_string bigint_val_def)
qed

end
