(* ===== verification/LogManager.thy ===== *)
theory LogManager
  imports Status "HOL-Library.Signed_Division"
begin

text \<open>
  \<^verbatim>\<open>transaction/log_manager.h\<close> and \<^verbatim>\<open>transaction/log_manager.cpp\<close>: the
  in-memory log, its write buffer and its file. Appending copies the payload of a record
  (the class declares it as a \<^verbatim>\<open>unique_ptr\<close>). The clock is an argument of the
  operations that read it, and the bytes of the log file with its position are part of the
  state. The optional sync thread only calls \<^verbatim>\<open>flushAll\<close> and takes the same mutex,
  so its steps are interleaved calls of \<open>flushAll\<close>.
\<close>

section \<open>Data\<close>

text \<open>
  An object of the enumeration type can hold any 32-bit number; \<open>OTHER_TYPE\<close> is a number that
  belongs to no enumerator.
\<close>

datatype LogRecordType =
    BEGIN | COMMIT | ABORT | CHECKPOINT | SAVEPOINT | ROLLBACK_SAVEPOINT
  | INSERT | UPDATE | DELETE | COMPENSATION | CLR | OTHER_TYPE u32

datatype LogMode = LOG_NORMAL | LOG_ASYNC | LOG_NO_LOG

datatype TransactionState = ACTIVE | PREPARED | COMMITTED | ABORTED | ROLLBACK

text \<open>The time stamp is a count of nanoseconds, as \<^verbatim>\<open>system_clock\<close> keeps it.\<close>

record LogRecord =
  lsn :: LogSequenceNumber
  lr_type :: LogRecordType
  transaction_id :: TransactionId
  lr_page_id :: PageId
  page_offset :: u32
  data_length :: u16
  lr_data :: "bytes option"
  timestamp :: "64 word"
  prev_lsn :: LogSequenceNumber

record LogStats =
  total_records :: nat
  bytes_written :: nat
  flushes :: nat
  checkpoints :: nat
  recovery_time_ms :: nat

record LogManager =
  log_mode :: LogMode
  recovery_mode :: bool
  current_lsn :: LogSequenceNumber
  last_checkpoint :: LogSequenceNumber
  log_buffer :: "(LogSequenceNumber \<times> LogRecord) list"
  last_tx_lsn :: "(TransactionId \<times> LogSequenceNumber) list"
  write_buffer :: bytes
  log_file :: bytes
  file_pos :: nat
  log_stats :: LogStats

definition LogRecord_new :: LogRecord where
  "LogRecord_new = \<lparr>lsn = 0, lr_type = BEGIN, transaction_id = 0, lr_page_id = INVALID_PAGE_ID,
     page_offset = 0, data_length = 0, lr_data = None, timestamp = 0, prev_lsn = 0\<rparr>"

definition LogStats_new :: LogStats where
  "LogStats_new = \<lparr>total_records = 0, bytes_written = 0, flushes = 0, checkpoints = 0,
     recovery_time_ms = 0\<rparr>"

definition LogManager_new :: LogManager where
  "LogManager_new = \<lparr>log_mode = LOG_NORMAL, recovery_mode = False, current_lsn = 1,
     last_checkpoint = 0, log_buffer = [], last_tx_lsn = [], write_buffer = [], log_file = [],
     file_pos = 0, log_stats = LogStats_new\<rparr>"

definition WRITE_BUFFER_SIZE :: nat where "WRITE_BUFFER_SIZE = 1024 * 1024"

text \<open>\<^verbatim>\<open>sizeof(LogRecord)\<close> with its padding and its pointer.\<close>

definition LOG_RECORD_SIZE :: nat where "LOG_RECORD_SIZE = 64"

section \<open>Serialisation\<close>

fun log_type_code :: "LogRecordType \<Rightarrow> u32" where
  "log_type_code BEGIN = 0"
| "log_type_code COMMIT = 1"
| "log_type_code ABORT = 2"
| "log_type_code CHECKPOINT = 3"
| "log_type_code SAVEPOINT = 4"
| "log_type_code ROLLBACK_SAVEPOINT = 5"
| "log_type_code INSERT = 6"
| "log_type_code UPDATE = 7"
| "log_type_code DELETE = 8"
| "log_type_code COMPENSATION = 9"
| "log_type_code CLR = 10"
| "log_type_code (OTHER_TYPE w) = w"

definition log_types :: "LogRecordType list" where
  "log_types = [BEGIN, COMMIT, ABORT, CHECKPOINT, SAVEPOINT, ROLLBACK_SAVEPOINT, INSERT, UPDATE,
     DELETE, COMPENSATION, CLR]"

definition log_type_of_code :: "u32 \<Rightarrow> LogRecordType" where
  "log_type_of_code w = (if unat w < 11 then log_types ! unat w else OTHER_TYPE w)"

definition to_time_t :: "64 word \<Rightarrow> 64 word" where
  "to_time_t t = word_of_int (sint t sdiv 1000000000)"

definition from_time_t :: "64 word \<Rightarrow> 64 word" where
  "from_time_t s = s * 1000000000"

definition log_payload :: "LogRecord \<Rightarrow> bytes" where
  "log_payload r =
     (case lr_data r of
        Some d \<Rightarrow> (if data_length r > 0 then take (unat (data_length r)) d else [])
      | None \<Rightarrow> [])"

definition log_serializeRecord :: "LogRecord \<Rightarrow> bytes" where
  "log_serializeRecord r =
     le_bytes 8 (lsn r) @ le_bytes 4 (log_type_code (lr_type r)) @ le_bytes 8 (transaction_id r) @
     le_bytes 8 (lr_page_id r) @ le_bytes 4 (page_offset r) @ le_bytes 2 (data_length r) @
     le_bytes 8 (prev_lsn r) @ le_bytes 8 (to_time_t (timestamp r)) @ log_payload r"

text \<open>
  \<^const>\<open>None\<close>: the payload lies outside the buffer.
\<close>

definition log_deserializeRecord :: "bytes \<Rightarrow> (LogRecord \<times> nat) option" where
  "log_deserializeRecord b =
     (let len = (of_le (take 2 (drop 32 b)) :: u16) in
      if length b < 50 + unat len then None
      else
          Some (\<lparr>lsn = of_le (take 8 b), lr_type = log_type_of_code (of_le (take 4 (drop 8 b))),
             transaction_id = of_le (take 8 (drop 12 b)), lr_page_id = of_le (take 8 (drop 20 b)),
             page_offset = of_le (take 4 (drop 28 b)), data_length = len,
             lr_data = (if len > 0 then Some (take (unat len) (drop 50 b)) else None),
             timestamp = from_time_t (of_le (take 8 (drop 42 b))),
             prev_lsn = of_le (take 8 (drop 34 b))\<rparr>, 50 + unat len))"

section \<open>Writing\<close>

text \<open>A write to the file at its position.\<close>

definition file_write :: "nat \<Rightarrow> bytes \<Rightarrow> bytes \<Rightarrow> bytes" where
  "file_write pos bs f = take pos f @ replicate (pos - length f) 0 @ bs @ drop (pos + length bs) f"

definition flushBuffer :: "LogManager \<Rightarrow> LogManager" where
  "flushBuffer s =
     (if write_buffer s \<noteq> []
      then s\<lparr>log_file := file_write (file_pos s) (write_buffer s) (log_file s),
             file_pos := file_pos s + length (write_buffer s),
             write_buffer := [],
             log_stats := (log_stats s)\<lparr>flushes := flushes (log_stats s) + 1\<rparr>\<rparr>
      else s)"

definition appendLogRecord :: "64 word \<Rightarrow> LogRecord \<Rightarrow> LogManager \<Rightarrow> LogSequenceNumber \<times> LogManager" where
  "appendLogRecord now r s =
     (let n = current_lsn s;
          s = s\<lparr>current_lsn := current_lsn s + 1\<rparr>;
          copy = r\<lparr>lsn := n, timestamp := now\<rparr>;
          copy = (case map_of (last_tx_lsn s) (transaction_id r) of
                    Some p \<Rightarrow> copy\<lparr>prev_lsn := p\<rparr> | None \<Rightarrow> copy);
          s = s\<lparr>last_tx_lsn := AList.update (transaction_id r) n (last_tx_lsn s)\<rparr>;
          s = s\<lparr>log_buffer := AList.update n copy (log_buffer s)\<rparr>;
          record_size = LOG_RECORD_SIZE + unat (data_length r);
          s = (if log_mode s \<noteq> LOG_NO_LOG
               then let s = (if length (write_buffer s) + record_size > WRITE_BUFFER_SIZE
                             then flushBuffer s else s)
                    in s\<lparr>write_buffer := write_buffer s @ log_serializeRecord copy\<rparr>
               else s)
      in (n, s\<lparr>log_stats := (log_stats s)\<lparr>
                 total_records := total_records (log_stats s) + 1,
                 bytes_written := bytes_written (log_stats s) + record_size\<rparr>\<rparr>))"

text \<open>The overload that builds the record; the length is cut to 16 bits.\<close>

definition appendLog :: "64 word \<Rightarrow> LogRecordType \<Rightarrow> TransactionId \<Rightarrow> PageId \<Rightarrow> bytes \<Rightarrow> LogManager \<Rightarrow>
    LogSequenceNumber \<times> LogManager" where
  "appendLog now t tx pid d s =
     (let r = LogRecord_new\<lparr>lr_type := t, transaction_id := tx, lr_page_id := pid\<rparr>;
          r = (if d \<noteq> [] then r\<lparr>data_length := of_nat (length d), lr_data := Some d\<rparr> else r)
      in appendLogRecord now r s)"

definition log_flush :: "LogManager \<Rightarrow> LogManager" where
  "log_flush s =
     (let s = (if write_buffer s \<noteq> [] then flushBuffer s else s)
      in s\<lparr>log_stats := (log_stats s)\<lparr>flushes := flushes (log_stats s) + 1\<rparr>\<rparr>)"

definition log_flushAll :: "LogManager \<Rightarrow> LogManager" where
  "log_flushAll s = log_flush s"

section \<open>Reading and maintenance\<close>

definition getLogsSince :: "LogSequenceNumber \<Rightarrow> LogManager \<Rightarrow> LogRecord list" where
  "getLogsSince n s = sort_key lsn (map snd (filter (\<lambda>(l, r). l > n) (log_buffer s)))"

definition getLogsForTransaction :: "TransactionId \<Rightarrow> LogManager \<Rightarrow> LogRecord list" where
  "getLogsForTransaction tx s =
     sort_key lsn (map snd (filter (\<lambda>(l, r). transaction_id r = tx) (log_buffer s)))"

definition log_truncate :: "LogSequenceNumber \<Rightarrow> LogManager \<Rightarrow> LogManager" where
  "log_truncate n s = s\<lparr>log_buffer := filter (\<lambda>(l, r). \<not> l < n) (log_buffer s)\<rparr>"

definition setCheckpoint :: "LogSequenceNumber \<Rightarrow> LogManager \<Rightarrow> LogManager" where
  "setCheckpoint n s =
     s\<lparr>last_checkpoint := n,
       log_stats := (log_stats s)\<lparr>checkpoints := checkpoints (log_stats s) + 1\<rparr>\<rparr>"

definition resetStats :: "LogManager \<Rightarrow> LogManager" where
  "resetStats s = s\<lparr>log_stats := LogStats_new\<rparr>"

definition setLogMode :: "LogMode \<Rightarrow> LogManager \<Rightarrow> LogManager" where
  "setLogMode m s = s\<lparr>log_mode := m\<rparr>"

text \<open>
  A record that is not in memory is looked for in the file as if every record took
  \<open>LOG_RECORD_SIZE\<close> bytes; \<open>Some LogRecord_new\<close> when there is no file.
  The payload is read from the file after the fixed part.
\<close>

definition getLogRecord :: "LogSequenceNumber \<Rightarrow> LogManager \<Rightarrow> LogRecord option" where
  "getLogRecord n s =
     (case map_of (log_buffer s) n of
        Some r \<Rightarrow> Some r
      | None \<Rightarrow>
          let pos = 48 + unat (n * of_nat LOG_RECORD_SIZE);
              buf = take LOG_RECORD_SIZE (drop pos (log_file s)) in
          if length buf < LOG_RECORD_SIZE then None
          else case log_deserializeRecord buf of None \<Rightarrow> None
          | Some (r, k) \<Rightarrow>
              if data_length r > 0
              then if length (log_file s) < pos + LOG_RECORD_SIZE + unat (data_length r) then None
                   else Some (r\<lparr>lr_data := Some (take (unat (data_length r))
                             (drop (pos + LOG_RECORD_SIZE) (log_file s)))\<rparr>)
              else Some r)"

text \<open>
  Recovery classifies the transactions and finds the last checkpoint; the redo and undo
  passes walk the log without an effect.
\<close>

definition log_analysis :: "(LogSequenceNumber \<times> LogRecord) list \<Rightarrow>
    (TransactionId \<times> TransactionState) list \<times> LogSequenceNumber" where
  "log_analysis logs =
     fold (\<lambda>(l, r) (tx_states, redo_lsn).
       case lr_type r of
         BEGIN \<Rightarrow> (AList.update (transaction_id r) ACTIVE tx_states, redo_lsn)
       | COMMIT \<Rightarrow> (AList.update (transaction_id r) COMMITTED tx_states, redo_lsn)
       | ABORT \<Rightarrow> (AList.update (transaction_id r) ABORTED tx_states, redo_lsn)
       | CHECKPOINT \<Rightarrow> (tx_states, l)
       | _ \<Rightarrow> (tx_states, redo_lsn)) logs ([], 0)"

definition log_recover :: "nat \<Rightarrow> LogManager \<Rightarrow> StatusCode \<times> LogManager" where
  "log_recover elapsed s =
     (let (tx_states, redo_lsn) = log_analysis (log_buffer s)
      in (OK, s\<lparr>recovery_mode := False,
                log_stats := (log_stats s)\<lparr>recovery_time_ms := elapsed\<rparr>\<rparr>))"

section \<open>Start-up\<close>

text \<open>
  The file header; its last field is never initialised and is an argument.
\<close>

definition log_header_bytes :: "LogSequenceNumber \<Rightarrow> u32 \<Rightarrow> bytes" where
  "log_header_bytes start garbage =
     le_bytes 4 (0x4F524C47 :: u32) @ le_bytes 4 (1 :: u32) @ le_bytes 8 start @
     le_bytes 8 (1 :: u64) @ le_bytes 8 (0 :: u64) @ le_bytes 8 (4096 :: u64) @
     le_bytes 4 garbage @ replicate 4 0"

function init_loop :: "nat \<Rightarrow> LogManager \<Rightarrow> LogManager option" where
  "init_loop pos s =
     (if pos + LOG_RECORD_SIZE \<le> length (log_file s) then
        (case log_deserializeRecord (take LOG_RECORD_SIZE (drop pos (log_file s))) of
           None \<Rightarrow> None
         | Some (r, k) \<Rightarrow>
             init_loop (pos + LOG_RECORD_SIZE + unat (data_length r))
               (let s = s\<lparr>file_pos := pos + LOG_RECORD_SIZE\<rparr> in
                if lsn r > 0
                then s\<lparr>current_lsn := lsn r + 1, log_buffer := AList.update (lsn r) r (log_buffer s)\<rparr>
                else s))
      else Some s)"
  by pat_completeness auto
termination
  by (relation "measure (\<lambda>(pos, s). length (log_file s) - pos)")
    (auto simp: LOG_RECORD_SIZE_def Let_def)

declare init_loop.simps [simp del]

definition log_init :: "bytes option \<Rightarrow> u32 \<Rightarrow> LogManager option" where
  "log_init file garbage =
     (case file of
        None \<Rightarrow> Some (LogManager_new\<lparr>log_file := log_header_bytes 1 garbage, file_pos := 0\<rparr>)
      | Some f \<Rightarrow>
          let s = LogManager_new\<lparr>log_file := f, file_pos := length f\<rparr> in
          if length f > 48 then init_loop 48 s else Some s)"

section \<open>Serialised records\<close>

lemma length_log_payload: "length (log_payload r) \<le> unat (data_length r)"
  by (auto simp: log_payload_def split: option.splits)

lemma length_log_serializeRecord: "length (log_serializeRecord r) = 50 + length (log_payload r)"
  by (simp add: log_serializeRecord_def)

definition log_type_ok :: "LogRecordType \<Rightarrow> bool" where
  "log_type_ok t \<longleftrightarrow> (case t of OTHER_TYPE w \<Rightarrow> 11 \<le> unat w | _ \<Rightarrow> True)"

lemma log_type_of_code_code [simp]: "log_type_ok t \<Longrightarrow> log_type_of_code (log_type_code t) = t"
  by (cases t) (simp_all add: log_type_of_code_def log_types_def log_type_ok_def)
text \<open>
  The payload field and the length field agree, an empty payload is absent, and the type has one
  representation.
\<close>

definition log_record_ok :: "LogRecord \<Rightarrow> bool" where
  "log_record_ok r \<longleftrightarrow> log_type_ok (lr_type r) \<and>
     (case lr_data r of None \<Rightarrow> data_length r = 0
      | Some d \<Rightarrow> d \<noteq> [] \<and> length d = unat (data_length r))"

lemma log_deserialize_serialize:
  assumes "log_record_ok r"
  shows "log_deserializeRecord (log_serializeRecord r @ rest)
    = Some (r\<lparr>timestamp := from_time_t (to_time_t (timestamp r))\<rparr>, length (log_serializeRecord r))"
proof (cases "lr_data r")
  case None
  with assms show ?thesis
    by (simp add: log_record_ok_def log_deserializeRecord_def log_serializeRecord_def log_payload_def)
next
  case (Some d)
  then have d: "length d = unat (data_length r)" "d \<noteq> []" using assms by (simp_all add: log_record_ok_def)
  then have "0 < data_length r" by (cases "data_length r = 0") (simp_all add: word_gt_0)
  moreover have "log_type_ok (lr_type r)" using assms by (simp add: log_record_ok_def)
  ultimately show ?thesis using Some d
    by (auto simp: log_deserializeRecord_def log_serializeRecord_def log_payload_def Let_def
        intro!: LogRecord.equality)
qed

section \<open>The byte stream\<close>

text \<open>
  What the log has accepted for the disk: the file up to its position, then the buffer.
  Flushing moves bytes from the second part to the first and never reorders or drops any.
\<close>

definition log_stream :: "LogManager \<Rightarrow> bytes" where
  "log_stream s = take (file_pos s) (log_file s) @ write_buffer s"

definition buffers_ok :: "LogManager \<Rightarrow> bool" where
  "buffers_ok s \<longleftrightarrow> file_pos s \<le> length (log_file s) \<and> length (write_buffer s) \<le> WRITE_BUFFER_SIZE"

lemma file_write_take:
  "pos \<le> length f \<Longrightarrow> take (pos + length bs) (file_write pos bs f) = take pos f @ bs"
  and length_file_write: "pos \<le> length f \<Longrightarrow> pos + length bs \<le> length (file_write pos bs f)"
  by (simp_all add: file_write_def)

lemma flushBuffer_stream:
  assumes "buffers_ok s"
  shows "log_stream (flushBuffer s) = log_stream s" and "write_buffer (flushBuffer s) = []"
    and "buffers_ok (flushBuffer s)"
    and "current_lsn (flushBuffer s) = current_lsn s" and "log_buffer (flushBuffer s) = log_buffer s"
    and "last_tx_lsn (flushBuffer s) = last_tx_lsn s" and "log_mode (flushBuffer s) = log_mode s"
  using assms
  by (auto simp: flushBuffer_def log_stream_def buffers_ok_def file_write_take length_file_write)

text \<open>The copy of a record that an append stores.\<close>

definition logged :: "64 word \<Rightarrow> LogRecord \<Rightarrow> LogManager \<Rightarrow> LogRecord" where
  "logged now r s =
     (case map_of (last_tx_lsn s) (transaction_id r) of
        Some p \<Rightarrow> r\<lparr>lsn := current_lsn s, timestamp := now, prev_lsn := p\<rparr>
      | None \<Rightarrow> r\<lparr>lsn := current_lsn s, timestamp := now\<rparr>)"

lemma logged_fields [simp]:
  "lsn (logged now r s) = current_lsn s" "transaction_id (logged now r s) = transaction_id r"
  "data_length (logged now r s) = data_length r" "lr_data (logged now r s) = lr_data r"
  by (simp_all add: logged_def split: option.split)

lemma appendLogRecord_effect:
  fixes now r s
  assumes ok: "buffers_ok s"
  defines "s' \<equiv> snd (appendLogRecord now r s)"
  shows "fst (appendLogRecord now r s) = current_lsn s"
    and "current_lsn s' = current_lsn s + 1"
    and "log_buffer s' = AList.update (current_lsn s) (logged now r s) (log_buffer s)"
    and "last_tx_lsn s' = AList.update (transaction_id r) (current_lsn s) (last_tx_lsn s)"
    and "log_mode s' = log_mode s"
    and "buffers_ok s'"
    and "log_stream s' = log_stream s @
           (if log_mode s = LOG_NO_LOG then [] else log_serializeRecord (logged now r s))"
proof -
  let ?s = "s\<lparr>current_lsn := current_lsn s + 1,
      last_tx_lsn := AList.update (transaction_id r) (current_lsn s) (last_tx_lsn s),
      log_buffer := AList.update (current_lsn s) (logged now r s) (log_buffer s)\<rparr>"
  let ?size = "LOG_RECORD_SIZE + unat (data_length r)"
  let ?f = "if length (write_buffer s) + ?size > WRITE_BUFFER_SIZE then flushBuffer ?s else ?s"
  have ok': "buffers_ok ?s" using ok by (simp add: buffers_ok_def)
  note fl = flushBuffer_stream [OF ok']
  have copy: "(case map_of (last_tx_lsn s) (transaction_id r) of
        Some p \<Rightarrow> r\<lparr>lsn := current_lsn s, timestamp := now\<rparr>\<lparr>prev_lsn := p\<rparr>
      | None \<Rightarrow> r\<lparr>lsn := current_lsn s, timestamp := now\<rparr>) = logged now r s"
    by (simp add: logged_def split: option.split)
  have app: "appendLogRecord now r s = (current_lsn s,
      let t = (if log_mode s \<noteq> LOG_NO_LOG
               then ?f\<lparr>write_buffer := write_buffer ?f @ log_serializeRecord (logged now r s)\<rparr> else ?s)
      in t\<lparr>log_stats := (log_stats t)\<lparr>total_records := total_records (log_stats t) + 1,
                 bytes_written := bytes_written (log_stats t) + ?size\<rparr>\<rparr>)"
    unfolding appendLogRecord_def Let_def copy [symmetric] by simp
  show "fst (appendLogRecord now r s) = current_lsn s" by (simp add: app)
  show "current_lsn s' = current_lsn s + 1"
    and "log_buffer s' = AList.update (current_lsn s) (logged now r s) (log_buffer s)"
    and "last_tx_lsn s' = AList.update (transaction_id r) (current_lsn s) (last_tx_lsn s)"
    and "log_mode s' = log_mode s"
    unfolding s'_def app by (simp_all add: Let_def fl)
  have len: "length (log_serializeRecord (logged now r s)) \<le> ?size"
    using length_log_payload [of "logged now r s"]
    by (simp add: length_log_serializeRecord LOG_RECORD_SIZE_def)
  have small: "?size \<le> WRITE_BUFFER_SIZE"
    using unsigned_less [of "data_length r", where ?'a = nat]
    by (simp add: LOG_RECORD_SIZE_def WRITE_BUFFER_SIZE_def)
  show "buffers_ok s'"
    unfolding s'_def app using ok fl(2,3) len small by (simp add: Let_def buffers_ok_def)
  show "log_stream s' = log_stream s @
           (if log_mode s = LOG_NO_LOG then [] else log_serializeRecord (logged now r s))"
    unfolding s'_def app using fl(1,2) by (simp add: Let_def log_stream_def)
qed

section \<open>Reachable logs\<close>

text \<open>
  A log that was started on a new file, changed by the operations in any order. The counter is
  assumed not to reach its last value. A log started on an existing file is not covered:
  \<^verbatim>\<open>init\<close> reads the records but does not rebuild the last number of each transaction.
\<close>

inductive log_step :: "LogManager \<Rightarrow> LogManager \<Rightarrow> bool" where
  append: "current_lsn s \<noteq> - 1 \<Longrightarrow> log_step s (snd (appendLog now t tx pid d s))"
| flush: "log_step s (log_flush s)"
| truncate: "log_step s (log_truncate n s)"
| checkpoint: "log_step s (setCheckpoint n s)"
| reset: "log_step s (resetStats s)"
| mode: "log_step s (setLogMode m s)"
| recover: "log_step s (snd (log_recover e s))"

inductive log_reachable :: "LogManager \<Rightarrow> bool" where
  init: "log_init None g = Some s \<Longrightarrow> log_reachable s"
| step: "log_reachable s \<Longrightarrow> log_step s s' \<Longrightarrow> log_reachable s'"

abbreviation logs_of :: "LogManager \<Rightarrow> LogSequenceNumber \<Rightarrow> LogRecord option" where
  "logs_of s \<equiv> map_of (log_buffer s)"

abbreviation last_of :: "LogManager \<Rightarrow> TransactionId \<Rightarrow> LogSequenceNumber option" where
  "last_of s \<equiv> map_of (last_tx_lsn s)"

text \<open>
  The invariant: the sequence numbers in memory are a final segment of those given out, each
  entry is stored under its own number, \<open>last_tx_lsn\<close> is an upper bound for the records of a
  transaction and names one of them, and so does the back link of every record.
\<close>

definition log_inv :: "LogManager \<Rightarrow> bool" where
  "log_inv s \<longleftrightarrow>
     wf_map (log_buffer s) \<and> wf_map (last_tx_lsn s) \<and> buffers_ok s \<and> 1 \<le> current_lsn s \<and>
     (\<exists>t \<ge> 1. dom (logs_of s) = {t..<current_lsn s}) \<and>
     (\<forall>l r. logs_of s l = Some r \<longrightarrow> lsn r = l \<and> (\<exists>p \<ge> l. last_of s (transaction_id r) = Some p)) \<and>
     (\<forall>tx p. last_of s tx = Some p \<longrightarrow>
        p < current_lsn s \<and> (\<forall>r. logs_of s p = Some r \<longrightarrow> transaction_id r = tx)) \<and>
     (\<forall>l r. logs_of s l = Some r \<longrightarrow> prev_lsn r < l \<and>
        (\<forall>r'. logs_of s (prev_lsn r) = Some r' \<longrightarrow> transaction_id r' = transaction_id r) \<and>
        (\<forall>l' r'. logs_of s l' = Some r' \<and> l' < l \<and> transaction_id r' = transaction_id r
            \<longrightarrow> l' \<le> prev_lsn r))"

lemma log_invD:
  assumes "log_inv s"
  shows "wf_map (log_buffer s)" "wf_map (last_tx_lsn s)" "buffers_ok s" "1 \<le> current_lsn s"
    and "\<exists>t \<ge> 1. dom (logs_of s) = {t..<current_lsn s}"
    and "logs_of s l = Some r \<Longrightarrow> lsn r = l"
    and "logs_of s l = Some r \<Longrightarrow> l < current_lsn s \<and> 1 \<le> l"
    and "logs_of s l = Some r \<Longrightarrow> \<exists>p \<ge> l. last_of s (transaction_id r) = Some p"
    and "last_of s tx = Some p \<Longrightarrow> p < current_lsn s"
    and "last_of s tx = Some p \<Longrightarrow> logs_of s p = Some r \<Longrightarrow> transaction_id r = tx"
    and "logs_of s l = Some r \<Longrightarrow> prev_lsn r < l"
    and "logs_of s l = Some r \<Longrightarrow> logs_of s (prev_lsn r) = Some r' \<Longrightarrow> transaction_id r' = transaction_id r"
    and "logs_of s l = Some r \<Longrightarrow> logs_of s l' = Some r' \<Longrightarrow> l' < l \<Longrightarrow>
           transaction_id r' = transaction_id r \<Longrightarrow> l' \<le> prev_lsn r"
proof -
  obtain t where "1 \<le> t" "dom (logs_of s) = {t..<current_lsn s}"
    using assms by (auto simp: log_inv_def)
  then show "l < current_lsn s \<and> 1 \<le> l" if "logs_of s l = Some r"
    using that by (metis atLeastLessThan_iff domI order_trans)
qed (use assms in \<open>auto simp: log_inv_def\<close>)

lemma log_inv_cong:
  assumes "log_buffer s' = log_buffer s" "last_tx_lsn s' = last_tx_lsn s"
    "current_lsn s' = current_lsn s" "buffers_ok s'"
  shows "log_inv s \<Longrightarrow> log_inv s'"
  using assms unfolding log_inv_def by simp

lemma log_inv_append:
  assumes inv: "log_inv s" and c: "current_lsn s \<noteq> - 1" and p0: "prev_lsn r = 0"
  shows "log_inv (snd (appendLogRecord now r s))"
proof -
  note D = log_invD [OF inv]
  note E = appendLogRecord_effect [OF D(3), of now r]
  let ?n = "current_lsn s" and ?s = "snd (appendLogRecord now r s)" and ?r = "logged now r s"
  have L: "logs_of ?s = (logs_of s)(?n \<mapsto> ?r)" and T: "last_of ?s = (last_of s)(transaction_id r \<mapsto> ?n)"
    by (simp_all add: E(3,4))
  obtain t where t: "1 \<le> t" "dom (logs_of s) = {t..<?n}" using D(5) by blast
  have n1: "?n < ?n + 1" "1 \<le> ?n + 1"
    using less_plus_one_iff [OF c] D(4) by (auto intro: order_trans less_imp_le)
  have "dom (logs_of ?s) = {min t ?n..<?n + 1}"
    unfolding L using t(2) less_plus_one_iff [OF c] by (auto simp: min_def)
  then have dom: "\<exists>t \<ge> 1. dom (logs_of ?s) = {t..<?n + 1}" using t(1) D(4) by (auto simp: min_def)
  have pr: "prev_lsn ?r = (case last_of s (transaction_id r) of Some p \<Rightarrow> p | None \<Rightarrow> 0)"
    by (simp add: logged_def p0 split: option.split)
  have none: "logs_of s ?n = None" "logs_of s 0 = None"
    using D(7) [of ?n] D(7) [of 0] by (cases "logs_of s ?n"; cases "logs_of s 0"; auto simp: word_le_nat_alt)+
  have "prev_lsn ?r < ?n" using D(4,9) unfolding pr
    by (auto split: option.splits simp: linorder_not_le [symmetric] dest: order_trans)
  moreover have "transaction_id r' = transaction_id r" if "logs_of s (prev_lsn ?r) = Some r'" for r'
    using that D(10) none unfolding pr by (auto split: option.splits)
  moreover have "l' \<le> prev_lsn ?r"
    if "logs_of s l' = Some r'" "transaction_id r' = transaction_id r" for l' r'
    using D(8) [OF that(1)] that(2) unfolding pr by auto
  ultimately have new: "prev_lsn ?r < ?n"
    "\<And>r'. logs_of s (prev_lsn ?r) = Some r' \<Longrightarrow> transaction_id r' = transaction_id r"
    "\<And>l' r'. logs_of s l' = Some r' \<Longrightarrow> transaction_id r' = transaction_id r \<Longrightarrow> l' \<le> prev_lsn ?r"
    by blast+
  have lt: "l < ?n" if "logs_of s l = Some r'" for l r' using D(7) [OF that] by simp
  have "(\<forall>l r'. logs_of ?s l = Some r' \<longrightarrow>
      lsn r' = l \<and> (\<exists>p \<ge> l. last_of ?s (transaction_id r') = Some p))"
    unfolding L T using D(6,8) lt by (auto intro: less_imp_le)
  moreover have "(\<forall>tx p. last_of ?s tx = Some p \<longrightarrow>
        p < ?n + 1 \<and> (\<forall>r'. logs_of ?s p = Some r' \<longrightarrow> transaction_id r' = tx))"
    unfolding L T using D(9,10) less_plus_one_iff [OF c] by (auto intro: less_imp_le)
  moreover have "prev_lsn q < l \<and>
        (\<forall>r'. logs_of ?s (prev_lsn q) = Some r' \<longrightarrow> transaction_id r' = transaction_id q) \<and>
        (\<forall>l' r'. logs_of ?s l' = Some r' \<and> l' < l \<and> transaction_id r' = transaction_id q
            \<longrightarrow> l' \<le> prev_lsn q)" if q: "logs_of ?s l = Some q" for l q
  proof (cases "l = ?n")
    case True
    then have "q = ?r" using q L by simp
    with True new show ?thesis unfolding L by (auto simp: less_imp_neq)
  next
    case False
    then have q': "logs_of s l = Some q" using q L by simp
    have "prev_lsn q < ?n" using D(11) [OF q'] lt [OF q'] by (rule less_trans)
    with D(11-13) [OF q'] lt [OF q'] show ?thesis
      unfolding L by (auto simp: less_imp_neq)
  qed
  moreover have "wf_map (log_buffer ?s)" "wf_map (last_tx_lsn ?s)" by (simp_all add: E(3,4) D(1,2))
  ultimately show ?thesis
    unfolding log_inv_def E(2) using dom n1(2) E(6) by (intro conjI) blast+
qed

lemma log_inv_truncate:
  assumes inv: "log_inv s"
  shows "log_inv (log_truncate n s)"
proof -
  note D = log_invD [OF inv]
  let ?s = "log_truncate n s"
  have L: "logs_of ?s l = (if l < n then None else logs_of s l)" for l
    using map_of_filter_key [of "\<lambda>l. \<not> l < n" "log_buffer s" l] by (simp add: log_truncate_def)
  have sub: "logs_of ?s l = Some r \<Longrightarrow> logs_of s l = Some r" for l r
    by (simp add: L split: if_splits)
  have same: "last_tx_lsn ?s = last_tx_lsn s" "current_lsn ?s = current_lsn s"
    by (simp_all add: log_truncate_def)
  obtain t where t: "1 \<le> t" "dom (logs_of s) = {t..<current_lsn s}" using D(5) by blast
  have "dom (logs_of ?s) = {l \<in> dom (logs_of s). n \<le> l}"
    by (auto simp: L split: if_splits)
  also have "\<dots> = {max t n..<current_lsn s}" unfolding t(2) by auto
  finally have dom: "\<exists>t \<ge> 1. dom (logs_of ?s) = {t..<current_lsn s}"
    using t(1) by (intro exI [of _ "max t n"]) (auto simp: max_def)
  have "wf_map (log_buffer ?s)" "buffers_ok ?s"
    using D(1,3) by (simp_all add: log_truncate_def buffers_ok_def)
  moreover have "lsn r = l \<and> (\<exists>p \<ge> l. last_of s (transaction_id r) = Some p)" "prev_lsn r < l"
    if "logs_of ?s l = Some r" for l r
    using D(6,8,11) [OF sub [OF that]] by blast+
  moreover have "transaction_id r' = transaction_id r"
    if "logs_of ?s l = Some r" "logs_of ?s (prev_lsn r) = Some r'" for l r r'
    by (rule D(12) [OF sub [OF that(1)] sub [OF that(2)]])
  moreover have "l' \<le> prev_lsn r"
    if "logs_of ?s l = Some r" "logs_of ?s l' = Some r'" "l' < l" "transaction_id r' = transaction_id r"
    for l r l' r'
    by (rule D(13) [OF sub [OF that(1)] sub [OF that(2)] that(3,4)])
  moreover have "p < current_lsn s \<and> (\<forall>r. logs_of ?s p = Some r \<longrightarrow> transaction_id r = tx)"
    if "last_of s tx = Some p" for tx p
    using D(9) [OF that] D(10) [OF that sub] by blast
  ultimately show ?thesis
    unfolding log_inv_def same using D(2,4) dom by (intro conjI) blast+
qed

lemma log_inv_flush:
  assumes "log_inv s"
  shows "log_inv (log_flush s)"
proof -
  note b = log_invD(3) [OF assms] and f = flushBuffer_stream [OF log_invD(3) [OF assms]]
  show ?thesis
    by (rule log_inv_cong [OF _ _ _ _ assms])
      (use b f in \<open>auto simp: log_flush_def Let_def buffers_ok_def\<close>)
qed

lemma log_inv_step: "log_step s s' \<Longrightarrow> log_inv s \<Longrightarrow> log_inv s'"
proof (induction rule: log_step.induct)
  case (append s now t tx pid d)
  then show ?case
    unfolding appendLog_def Let_def by (intro log_inv_append) (simp_all add: LogRecord_new_def)
next
  case (flush s)
  then show ?case by (rule log_inv_flush)
next
  case (truncate s n)
  then show ?case by (rule log_inv_truncate)
next
  case (checkpoint s n)
  show ?case
    by (rule log_inv_cong [OF _ _ _ _ checkpoint])
      (use log_invD(3) [OF checkpoint] in \<open>simp_all add: setCheckpoint_def buffers_ok_def\<close>)
next
  case (reset s)
  show ?case
    by (rule log_inv_cong [OF _ _ _ _ reset])
      (use log_invD(3) [OF reset] in \<open>simp_all add: resetStats_def buffers_ok_def\<close>)
next
  case (mode s m)
  show ?case
    by (rule log_inv_cong [OF _ _ _ _ mode])
      (use log_invD(3) [OF mode] in \<open>simp_all add: setLogMode_def buffers_ok_def\<close>)
next
  case (recover s e)
  show ?case
    by (rule log_inv_cong [OF _ _ _ _ recover])
      (use log_invD(3) [OF recover] in \<open>simp_all add: log_recover_def case_prod_beta buffers_ok_def\<close>)
qed

lemma log_inv_init: "log_init None g = Some s \<Longrightarrow> log_inv s"
  by (auto simp: log_init_def log_inv_def LogManager_new_def buffers_ok_def)

lemma log_reachable_inv: "log_reachable s \<Longrightarrow> log_inv s"
  by (induction rule: log_reachable.induct) (auto intro: log_inv_init log_inv_step)

lemma log_flush_stream:
  assumes "buffers_ok s"
  shows "write_buffer (log_flush s) = []" and "log_stream (log_flush s) = log_stream s"
    and "buffers_ok (log_flush s)"
  using flushBuffer_stream [OF assms] assms
  by (auto simp: log_flush_def Let_def log_stream_def buffers_ok_def)

lemma getLogsSince_set:
  assumes "log_inv s"
  shows "set (getLogsSince n s) = {r. \<exists>l > n. logs_of s l = Some r}"
  using wf_map_member [OF log_invD(1) [OF assms]] by (force simp: getLogsSince_def)

lemma getLogsForTransaction_set:
  assumes "log_inv s"
  shows "set (getLogsForTransaction tx s) = {r. \<exists>l. logs_of s l = Some r \<and> transaction_id r = tx}"
  using wf_map_member [OF log_invD(1) [OF assms]] by (force simp: getLogsForTransaction_def)

lemma lsn_distinct:
  assumes "log_inv s"
  shows "distinct (map lsn (map snd (filter P (log_buffer s))))"
proof -
  have "map lsn (map snd m) = keys_of m" if "set m \<subseteq> set (log_buffer s)" for m
    using that wf_map_member [OF log_invD(1) [OF assms]] log_invD(6) [OF assms]
    by (induction m) (auto simp: subset_iff)
  from this [OF filter_is_subset]
  have "map lsn (map snd (filter P (log_buffer s))) = keys_of (filter P (log_buffer s))" .
  then show ?thesis
    using wf_map_filter [OF log_invD(1) [OF assms], of P] by (simp only: wf_map_def)
qed

section \<open>Properties of the log\<close>

text \<open>Two records of transaction 7, for the examples.\<close>

definition example_log :: LogManager where
  "example_log =
     snd (appendLog 5 COMMIT 7 INVALID_PAGE_ID []
       (snd (appendLog 4 BEGIN 7 INVALID_PAGE_ID []
         (LogManager_new\<lparr>log_file := log_header_bytes 1 0\<rparr>))))"

lemmas append_defs = appendLog_def appendLogRecord_def LogRecord_new_def LogManager_new_def
  LogStats_new_def LOG_RECORD_SIZE_def WRITE_BUFFER_SIZE_def length_log_serializeRecord
  log_payload_def

lemma example_log_reachable: "log_reachable example_log"
proof -
  let ?s0 = "LogManager_new\<lparr>log_file := log_header_bytes 1 0\<rparr>"
  let ?s1 = "snd (appendLog 4 BEGIN 7 INVALID_PAGE_ID [] ?s0)"
  have "log_init None 0 = Some ?s0" by (simp add: log_init_def LogManager_new_def)
  then have "log_reachable ?s0" by (rule log_reachable.init)
  moreover have "current_lsn ?s0 \<noteq> - 1" by (simp add: LogManager_new_def)
  ultimately have "log_reachable ?s1" by (intro log_reachable.step [OF _ log_step.append])
  moreover have "current_lsn ?s1 \<noteq> - 1" by (simp add: append_defs Let_def)
  ultimately show ?thesis
    unfolding example_log_def by (rule log_reachable.step [OF _ log_step.append])
qed

lemma example_log_records:
  "logs_of example_log 2 = Some (LogRecord_new\<lparr>lsn := 2, lr_type := COMMIT, transaction_id := 7,
     timestamp := 5, prev_lsn := 1\<rparr>)"
  "logs_of example_log 1 = Some (LogRecord_new\<lparr>lsn := 1, transaction_id := 7, timestamp := 4\<rparr>)"
  by (simp_all add: example_log_def append_defs Let_def)

text \<open>
  C23: In every log that was started on a new file, a record whose transaction has an earlier record
  in memory links back to one: the back link names a record in memory, of the same transaction,
  before it, and there is none of that transaction in between.
\<close>

theorem log_back_links:
  assumes "log_reachable s" and "logs_of s l = Some r" and "logs_of s l' = Some r'"
    and "l' < l" and "transaction_id r' = transaction_id r"
  shows "l' \<le> prev_lsn r \<and> prev_lsn r < l \<and>
    (\<exists>q. logs_of s (prev_lsn r) = Some q \<and> transaction_id q = transaction_id r)"
proof -
  note D = log_invD [OF log_reachable_inv [OF assms(1)]]
  obtain t where t: "dom (logs_of s) = {t..<current_lsn s}" using D(5) by blast
  have le: "l' \<le> prev_lsn r" by (rule D(13) [OF assms(2-5)])
  have lt: "prev_lsn r < l" by (rule D(11) [OF assms(2)])
  have "t \<le> l'" using t domI [of "logs_of s", OF assms(3)] by simp
  moreover have "l < current_lsn s" using D(7) [OF assms(2)] by simp
  ultimately have "prev_lsn r \<in> dom (logs_of s)" using t le lt by auto
  then obtain q where "logs_of s (prev_lsn r) = Some q" by auto
  with D(12) [OF assms(2) this] le lt show ?thesis by blast
qed

theorem log_back_links_witness:
  "\<exists>q. logs_of example_log 1 = Some q \<and> transaction_id q = 7"
  using log_back_links [OF example_log_reachable example_log_records]
  by (simp add: LogRecord_new_def)

text \<open>
  In every reachable log \<^verbatim>\<open>appendLogRecord\<close> gives the record a number larger than
  every number in memory, stores it under that number and returns it; the numbers in memory
  always form one gapless range that ends just below the next number.
\<close>

lemma log_numbers_gapless:
  assumes "log_reachable s" and "current_lsn s \<noteq> - 1"
  shows "fst (appendLog now t tx pid d s) = current_lsn s \<and>
    (\<forall>l \<in> dom (logs_of s). l < current_lsn s) \<and>
    (\<exists>r. logs_of (snd (appendLog now t tx pid d s)) (current_lsn s) = Some r \<and>
       lsn r = current_lsn s \<and> transaction_id r = tx) \<and>
    (\<exists>u. dom (logs_of (snd (appendLog now t tx pid d s))) = {u..<current_lsn s + 1})"
proof -
  note inv = log_reachable_inv [OF assms(1)]
  let ?r = "if d \<noteq> [] then LogRecord_new\<lparr>lr_type := t, transaction_id := tx, lr_page_id := pid,
      data_length := of_nat (length d), lr_data := Some d\<rparr>
    else LogRecord_new\<lparr>lr_type := t, transaction_id := tx, lr_page_id := pid\<rparr>"
  have app: "appendLog now t tx pid d s = appendLogRecord now ?r s" by (simp add: appendLog_def)
  note E = appendLogRecord_effect [OF log_invD(3) [OF inv], of now ?r]
  have "log_reachable (snd (appendLog now t tx pid d s))"
    using log_reachable.step [OF assms(1) log_step.append [OF assms(2)]] .
  note D = log_invD(5) [OF log_reachable_inv [OF this]]
  show ?thesis
    using D log_invD(7) [OF inv] E(1-3) unfolding app by auto
qed

text \<open>
  \<^verbatim>\<open>getLogsSince\<close> on a reachable log gives exactly the records in memory with a
  larger number, in strictly increasing order; \<^verbatim>\<open>getLogsForTransaction\<close> those of the
  transaction, in the same order.
\<close>

lemma log_queries_sorted:
  assumes "log_reachable s"
  shows "set (getLogsSince n s) = {r. \<exists>l > n. logs_of s l = Some r} \<and>
    sorted_wrt (<) (map lsn (getLogsSince n s)) \<and>
    set (getLogsForTransaction tx s) = {r. \<exists>l. logs_of s l = Some r \<and> transaction_id r = tx} \<and>
    sorted_wrt (<) (map lsn (getLogsForTransaction tx s))"
proof -
  note inv = log_reachable_inv [OF assms]
  have "sorted_wrt (<) (map lsn (sort_key lsn (map snd (filter P (log_buffer s)))))" for P
    using lsn_distinct [OF inv, of P]
    by (simp add: strict_sorted_iff distinct_map distinct_sort del: map_map)
  then show ?thesis
    using getLogsSince_set [OF inv] getLogsForTransaction_set [OF inv]
    by (simp add: getLogsSince_def getLogsForTransaction_def)
qed

text \<open>
  The log never loses or reorders bytes on their way to the file. Appending adds exactly
  the encoding of the stored record to the stream of file and buffer (nothing in mode
  \<open>LOG_NO_LOG\<close>); flushing leaves the stream alone and puts all of it into the file; the
  buffer never outgrows its capacity.
\<close>

lemma log_write_through:
  assumes "log_reachable s"
  shows "length (write_buffer s) \<le> WRITE_BUFFER_SIZE \<and>
    log_stream (snd (appendLogRecord now r s)) = log_stream s @
      (if log_mode s = LOG_NO_LOG then [] else log_serializeRecord (logged now r s)) \<and>
    write_buffer (log_flushAll s) = [] \<and>
    take (file_pos (log_flushAll s)) (log_file (log_flushAll s)) = log_stream s"
proof -
  note b = log_invD(3) [OF log_reachable_inv [OF assms]]
  show ?thesis
    using b appendLogRecord_effect(7) [OF b] log_flush_stream [OF b]
    by (simp add: log_flushAll_def log_stream_def buffers_ok_def)
qed

text \<open>
  Reading a serialised log record gives the record back, with its time stamp cut to
  seconds, and consumes exactly its bytes.
\<close>

lemma log_record_roundtrip:
  assumes "log_record_ok r"
  shows "log_deserializeRecord (log_serializeRecord r @ rest)
    = Some (r\<lparr>timestamp := from_time_t (to_time_t (timestamp r))\<rparr>, length (log_serializeRecord r))"
  by (rule log_deserialize_serialize [OF assms])

text \<open>
  A log file that \<^verbatim>\<open>init\<close> creates loses its header at the first flush: the file
  is reopened at position zero, so the first record overwrites it.
\<close>

lemma first_flush_overwrites_header:
  assumes "log_init None g = Some s"
  shows "take 48 (log_file (log_flushAll (snd (appendLog now t tx pid d s))))
    = take 48 (log_serializeRecord (logged now
        (if d \<noteq> [] then LogRecord_new\<lparr>lr_type := t, transaction_id := tx, lr_page_id := pid,
           data_length := of_nat (length d), lr_data := Some d\<rparr>
         else LogRecord_new\<lparr>lr_type := t, transaction_id := tx, lr_page_id := pid\<rparr>) s))"
    (is "_ = take 48 (log_serializeRecord (logged now ?r s))")
proof -
  have app: "appendLog now t tx pid d s = appendLogRecord now ?r s" by (simp add: appendLog_def)
  have inv: "log_inv s" using log_inv_init [OF assms] .
  have s: "log_stream s = []" "log_mode s \<noteq> LOG_NO_LOG"
    using assms by (auto simp: log_init_def log_stream_def LogManager_new_def)
  let ?a = "snd (appendLogRecord now ?r s)"
  note E = appendLogRecord_effect [OF log_invD(3) [OF inv], of now ?r]
  have "log_stream (log_flushAll ?a) = log_serializeRecord (logged now ?r s)"
    using log_flush_stream(2) [OF E(6)] E(7) s by (simp add: log_flushAll_def)
  moreover have "log_stream (log_flushAll ?a)
      = take (file_pos (log_flushAll ?a)) (log_file (log_flushAll ?a))"
    using log_flush_stream(1) [OF E(6)] by (simp add: log_stream_def log_flushAll_def)
  ultimately have p: "take (file_pos (log_flushAll ?a)) (log_file (log_flushAll ?a))
      = log_serializeRecord (logged now ?r s)" by simp
  have "50 \<le> length (log_serializeRecord (logged now ?r s))" by (simp add: length_log_serializeRecord)
  then have "50 \<le> file_pos (log_flushAll ?a)" unfolding p [symmetric] by simp
  then show ?thesis unfolding app p [symmetric] by (simp add: min_def)
qed

end
