(* ===== verification/Wal.thy ===== *)
theory Wal
  imports ValueCodec LogManager
begin

text \<open>
  \<^verbatim>\<open>transaction/wal.h\<close> and \<^verbatim>\<open>transaction/wal.cpp\<close>: records as log payloads, and
  the write-ahead rule that the log is flushed before a page is written.
\<close>

section \<open>Record payloads\<close>

text \<open>
  The buffer has the size computed from the string lengths and starts out zero; the fields
  are written one after the other from its start.
\<close>

definition wal_serializeRecord :: "Value list \<Rightarrow> bytes" where
  "wal_serializeRecord r =
     (let total_size = 2 + sum_list (map getValueSize r);
          written = le_bytes 2 (of_nat (length r) :: u16) @ concat (map serializeValue r)
      in written @ replicate (total_size - length written) 0)"

text \<open>One round of the reader's loop; a payload that is cut off is left out.\<close>

definition wal_read_field :: "bytes \<Rightarrow> Value \<times> nat" where
  "wal_read_field bs =
     (let ty = dt_of_code (unat (hd bs)); val = Value_null\<lparr>vtype := ty\<rparr>; rest = tl bs in
      case ty of
        INTEGER \<Rightarrow>
          (if 4 \<le> length rest then (val\<lparr>data := ucast (of_le (take 4 rest) :: 32 word)\<rparr>, 5)
           else (val, 1))
      | BIGINT \<Rightarrow>
          (if 8 \<le> length rest then (val\<lparr>data := of_le (take 8 rest), set_bytes := 8\<rparr>, 9) else (val, 1))
      | BOOLEAN \<Rightarrow>
          (if 1 \<le> length rest then (val\<lparr>data := ucast (hd rest)\<rparr>, 2) else (val, 1))
      | VARCHAR \<Rightarrow>
          (if length rest < 4 then (val, 1)
           else let str_len = unat (of_le (take 4 rest) :: u32) in
             if 4 + str_len \<le> length rest
             then (val\<lparr>str_val := string_of_bytes (take str_len (drop 4 rest))\<rparr>, 5 + str_len)
             else (val, 5))
      | _ \<Rightarrow> (val, 1))"

fun wal_fields :: "nat \<Rightarrow> bytes \<Rightarrow> Value list" where
  "wal_fields 0 bs = []"
| "wal_fields (Suc n) bs =
     (if bs = [] then []
      else case wal_read_field bs of (v, k) \<Rightarrow> v # wal_fields n (drop k bs))"

definition wal_deserializeRecord :: "bytes \<Rightarrow> Value list" where
  "wal_deserializeRecord d =
     (if length d < 2 then [] else wal_fields (unat (of_le (take 2 d) :: u16)) (drop 2 d))"

section \<open>The manager\<close>

record WALManager =
  wal_log :: LogManager
  durable_pages :: "(PageId \<times> LogSequenceNumber) list"

definition wal_append :: "64 word \<Rightarrow> LogRecordType \<Rightarrow> TransactionId \<Rightarrow> PageId \<Rightarrow> bytes \<Rightarrow> WALManager \<Rightarrow>
    LogSequenceNumber \<times> WALManager" where
  "wal_append now t tx pid d w =
     (case appendLog now t tx pid d (wal_log w) of (n, l) \<Rightarrow> (n, w\<lparr>wal_log := l\<rparr>))"

definition rid_payload :: "RecordId \<Rightarrow> Value list \<Rightarrow> bytes" where
  "rid_payload rid r = le_bytes 8 rid @ wal_serializeRecord r"

definition update_payload :: "RecordId \<Rightarrow> Value list \<Rightarrow> Value list \<Rightarrow> bytes" where
  "update_payload rid old_record new_record =
     (let old_data = wal_serializeRecord old_record; new_data = wal_serializeRecord new_record
      in le_bytes 8 rid @ le_bytes 8 (of_nat (length old_data) :: u64) @ old_data @
         le_bytes 8 (of_nat (length new_data) :: u64) @ new_data)"

definition logInsert :: "64 word \<Rightarrow> TransactionId \<Rightarrow> PageId \<Rightarrow> Value list \<Rightarrow> RecordId \<Rightarrow> WALManager \<Rightarrow>
    LogSequenceNumber \<times> WALManager" where
  "logInsert now tx pid r rid w = wal_append now INSERT tx pid (rid_payload rid r) w"

definition logUpdate :: "64 word \<Rightarrow> TransactionId \<Rightarrow> PageId \<Rightarrow> Value list \<Rightarrow> Value list \<Rightarrow> RecordId \<Rightarrow>
    WALManager \<Rightarrow> LogSequenceNumber \<times> WALManager" where
  "logUpdate now tx pid old_record new_record rid w =
     wal_append now UPDATE tx pid (update_payload rid old_record new_record) w"

definition logDelete :: "64 word \<Rightarrow> TransactionId \<Rightarrow> PageId \<Rightarrow> Value list \<Rightarrow> RecordId \<Rightarrow> WALManager \<Rightarrow>
    LogSequenceNumber \<times> WALManager" where
  "logDelete now tx pid r rid w = wal_append now DELETE tx pid (rid_payload rid r) w"

definition beforePageWrite :: "PageId \<Rightarrow> LogSequenceNumber \<Rightarrow> WALManager \<Rightarrow> WALManager" where
  "beforePageWrite pid n w =
     w\<lparr>wal_log := log_flush (wal_log w), durable_pages := AList.update pid n (durable_pages w)\<rparr>"

definition isPageDurable :: "PageId \<Rightarrow> WALManager \<Rightarrow> bool" where
  "isPageDurable pid w \<longleftrightarrow> map_of (durable_pages w) pid \<noteq> None"

definition wal_flush :: "WALManager \<Rightarrow> WALManager" where
  "wal_flush w = w\<lparr>wal_log := log_flush (wal_log w)\<rparr>"

definition wal_recover :: "nat \<Rightarrow> WALManager \<Rightarrow> StatusCode \<times> WALManager" where
  "wal_recover elapsed w = (case log_recover elapsed (wal_log w) of (c, l) \<Rightarrow> (c, w\<lparr>wal_log := l\<rparr>))"

section \<open>The payload codec\<close>

text \<open>
  The bounded reader of the log agrees with the reader of a page wherever the latter is
  defined, so it decodes whatever the shared encoder wrote.
\<close>

lemma wal_read_field_eq:
  "deserializeValue bs = Some (v, n) \<Longrightarrow> wal_read_field bs = (v, n)"
  by (cases bs; cases "dt_of_code (unat (hd bs))")
    (auto simp: deserializeValue_def wal_read_field_def Let_def split: if_splits list.splits)

definition wal_dec :: "bytes \<Rightarrow> (Value \<times> nat) option" where
  "wal_dec bs = (if bs = [] then None else Some (wal_read_field bs))"

interpretation wal_field: field_codec serializeValue wal_dec storable read_back
proof
  show "wal_dec (serializeValue v @ rest) = Some (read_back v, length (serializeValue v))"
    if "storable v" for v rest
    using wal_read_field_eq [OF page_field.dec_enc [OF that]] page_field.enc_nonempty
    by (simp add: wal_dec_def)
  show "serializeValue v \<noteq> []" for v by (rule page_field.enc_nonempty)
qed

lemma wal_fields_dec:
  "wal_field.dec_fields n bs = Some (vs, rest) \<Longrightarrow> wal_fields n bs = vs"
  by (induction n arbitrary: bs vs) (auto simp: wal_dec_def split: option.splits if_splits prod.splits)

lemma length_wal_written:
  "list_all storable r \<Longrightarrow> length (concat (map serializeValue r)) = sum_list (map getValueSize r)"
  by (induction r) (simp_all add: length_serializeValue [OF storable_string_length])

lemma wal_serialize_exact:
  assumes "list_all storable r"
  shows "wal_serializeRecord r
    = le_bytes 2 (of_nat (length r) :: u16) @ concat (map serializeValue r)"
  using length_wal_written [OF assms] by (simp add: wal_serializeRecord_def Let_def)

section \<open>Properties of the write-ahead log\<close>

text \<open>
  A record of storable values with fewer than 65536 fields survives the log payload
  encoding up to what \<open>read_back\<close> says, also when other bytes follow it.
\<close>

lemma wal_record_roundtrip:
  assumes "list_all storable r" and "length r < 2 ^ 16"
  shows "wal_deserializeRecord (wal_serializeRecord r @ rest) = map read_back r"
proof -
  have "wal_fields (length r) (concat (map serializeValue r) @ rest) = map read_back r"
    by (rule wal_fields_dec [OF wal_field.dec_fields_enc [OF assms(1)]])
  then show ?thesis
    using assms(2) by (simp add: wal_deserializeRecord_def wal_serialize_exact [OF assms(1)] unat_of_nat)
qed

text \<open>
  Records that read back differently have different payloads: the encoding is injective on them,
  whatever follows it.
\<close>

lemma wal_payload_injective:
  assumes "list_all storable r" and "list_all storable r'" and "length r = length r'"
    and "wal_serializeRecord r @ rest = wal_serializeRecord r' @ rest'"
  shows "map read_back r = map read_back r'"
  using wal_field.records_injective [OF assms(1,2), of rest rest'] assms(3,4)
  by (simp add: wal_serialize_exact [OF assms(1)] wal_serialize_exact [OF assms(2)])

text \<open>
  C24: The write-ahead rule. When an insertion, with a payload below 64 KiB, has been logged on a
  log that was started on a new file, and \<^verbatim>\<open>beforePageWrite\<close> returns, the file up to the write
  position holds everything logged before and, after it, the record of that insertion with its
  number, transaction, page, back link and payload; the page is marked durable. In the mode
  without a log the page is marked durable too, although nothing has been written.
\<close>

theorem write_ahead_rule:
  assumes "log_reachable (wal_log w)" and "8 + length (wal_serializeRecord r) < 2 ^ 16"
    and "logInsert now tx pid r rid w = (n, w1)"
  shows "\<exists>rec. let w2 = beforePageWrite pid n w1; l = wal_log w2 in
    take (file_pos l) (log_file l) = log_stream (wal_log w) @
      (if log_mode (wal_log w) = LOG_NO_LOG then [] else log_serializeRecord rec) \<and>
    lsn rec = n \<and> lr_type rec = INSERT \<and> transaction_id rec = tx \<and> lr_page_id rec = pid \<and> timestamp rec = now \<and>
    prev_lsn rec = (case map_of (last_tx_lsn (wal_log w)) tx of Some p \<Rightarrow> p | None \<Rightarrow> 0) \<and>
    log_payload rec = le_bytes 8 rid @ wal_serializeRecord r \<and>
    write_buffer l = [] \<and> isPageDurable pid w2"
proof -
  let ?l = "wal_log w" and ?d = "rid_payload rid r"
  let ?r = "LogRecord_new\<lparr>lr_type := INSERT, transaction_id := tx, lr_page_id := pid,
    data_length := of_nat (length ?d), lr_data := Some ?d\<rparr>"
  have d: "?d \<noteq> []" by (simp add: rid_payload_def le_bytes.simps numeral_eq_Suc)
  have app: "appendLog now INSERT tx pid ?d ?l = appendLogRecord now ?r ?l"
    using d by (simp add: appendLog_def)
  note b = log_invD(3) [OF log_reachable_inv [OF assms(1)]]
  note E = appendLogRecord_effect [OF b, of now ?r]
  have w1: "n = current_lsn ?l" "wal_log w1 = snd (appendLogRecord now ?r ?l)"
    using assms(3) E(1) by (auto simp: logInsert_def wal_append_def app split: prod.splits)
  have len: "length ?d = 8 + length (wal_serializeRecord r)" by (simp add: rid_payload_def)
  then have u: "unat (of_nat (length ?d) :: u16) = length ?d"
    using assms(2) unfolding len by (intro unat_of_nat_u16) simp
  then have "0 < (of_nat (length ?d) :: u16)"
    using len by (simp add: word_gt_0 word_unat_eq_iff)
  then have pay: "log_payload (logged now ?r ?l) = ?d"
    by (simp add: log_payload_def u)
  note F = log_flush_stream [OF E(6)]
  show ?thesis
    by (rule exI [of _ "logged now ?r ?l"])
      (use F E(7) pay in
        \<open>simp add: Let_def beforePageWrite_def isPageDurable_def w1 log_stream_def rid_payload_def
          logged_def LogRecord_new_def split: option.split\<close>)
qed

theorem write_ahead_rule_witness:
  "\<exists>n w1. logInsert 0 7 3 [Value_bool True] 9 \<lparr>wal_log = example_log, durable_pages = []\<rparr> = (n, w1) \<and>
     isPageDurable 3 (beforePageWrite 3 n w1) \<and> write_buffer (wal_log (beforePageWrite 3 n w1)) = []"
proof -
  let ?w = "\<lparr>wal_log = example_log, durable_pages = []\<rparr>"
  obtain n w1 where i: "logInsert 0 7 3 [Value_bool True] 9 ?w = (n, w1)" by fastforce
  have "8 + length (wal_serializeRecord [Value_bool True]) < 2 ^ 16"
    by (simp add: wal_serializeRecord_def serializeValue_def getValueSize_def value_constructors)
  then show ?thesis
    using write_ahead_rule [OF _ _ i] example_log_reachable i by (auto simp: Let_def)
qed
end
