(* ===== verification/LockManager.thy ===== *)
theory LockManager
  imports Prelude
begin

text \<open>
  \<^verbatim>\<open>transaction/lock_manager.h\<close> and \<^verbatim>\<open>transaction/lock_manager.cpp\<close>: the lock
  table. An operation runs under the manager's mutex and is one function; only
  \<^verbatim>\<open>acquireLock\<close> releases the mutex while it waits, so it is split into its start and
  the rounds of its waiting loop, with the elapsed time of a round as an argument. The
  relation \<open>lock_step\<close> interleaves the calls of all transactions.
\<close>

section \<open>Data\<close>

datatype LockMode = SHARED | EXCLUSIVE | INTENT_SHARED | INTENT_EXCLUSIVE | SHARED_INTENT_EXCLUSIVE

datatype LockGranularity = TABLE_LOCK | PAGE_LOCK | ROW_LOCK

datatype LockStatus = GRANTED | WAITING | TIMEOUT | DEADLOCK

record LockEntry =
  le_mode :: LockMode
  holder :: TransactionId
  granularity :: LockGranularity

record LockWaitEntry =
  waiter :: TransactionId
  requested_mode :: LockMode

text \<open>Counters of type \<^verbatim>\<open>size_t\<close>; decrementing zero wraps around.\<close>

record LockStats =
  total_locks :: u64
  granted_count :: u64
  waiting_locks :: u64
  deadlocks_detected :: u64
  lock_timeouts :: u64

record LockManager =
  granted_locks :: "(string \<times> LockEntry list) list"
  wait_queues :: "(string \<times> LockWaitEntry list) list"
  waiting_for :: "(TransactionId \<times> string list) list"
  lock_stats :: LockStats

definition LockStats_new :: LockStats where
  "LockStats_new = \<lparr>total_locks = 0, granted_count = 0, waiting_locks = 0,
     deadlocks_detected = 0, lock_timeouts = 0\<rparr>"

definition LockManager_new :: LockManager where
  "LockManager_new = \<lparr>granted_locks = [], wait_queues = [], waiting_for = [],
     lock_stats = LockStats_new\<rparr>"

text \<open>\<^verbatim>\<open>operator[]\<close> on the maps: a missing entry is created empty.\<close>

definition lookup_list :: "('k \<times> 'v list) list \<Rightarrow> 'k \<Rightarrow> 'v list" where
  "lookup_list m k = (case map_of m k of None \<Rightarrow> [] | Some xs \<Rightarrow> xs)"

section \<open>Compatibility\<close>

definition areCompatible :: "LockMode \<Rightarrow> LockMode \<Rightarrow> bool" where
  "areCompatible existing requested =
     (if existing = EXCLUSIVE \<or> requested = EXCLUSIVE then False
      else if existing = SHARED_INTENT_EXCLUSIVE
        then requested = SHARED \<or> requested = INTENT_SHARED
      else if requested = SHARED_INTENT_EXCLUSIVE
        then existing = SHARED \<or> existing = INTENT_SHARED
      else if existing = INTENT_EXCLUSIVE then requested = INTENT_SHARED
      else if requested = INTENT_EXCLUSIVE then existing = INTENT_SHARED
      else True)"

definition canGrant :: "LockEntry list \<Rightarrow> LockMode \<Rightarrow> bool" where
  "canGrant current_locks requested \<longleftrightarrow>
     list_all (\<lambda>l. areCompatible (le_mode l) requested) current_locks"

section \<open>Acquisition\<close>

definition grant :: "TransactionId \<Rightarrow> string \<Rightarrow> LockMode \<Rightarrow> LockGranularity \<Rightarrow> LockManager \<Rightarrow> LockManager" where
  "grant tx res m g s =
     s\<lparr>granted_locks := AList.update res
         (lookup_list (granted_locks s) res @ [\<lparr>le_mode = m, holder = tx, granularity = g\<rparr>])
         (granted_locks s),
       lock_stats := (lock_stats s)\<lparr>granted_count := granted_count (lock_stats s) + 1,
         total_locks := total_locks (lock_stats s) + 1\<rparr>\<rparr>"

text \<open>Up to the loop: the status when the lock is granted at once, else the entry in the queue.\<close>

definition acquire_start :: "TransactionId \<Rightarrow> string \<Rightarrow> LockMode \<Rightarrow> LockGranularity \<Rightarrow> LockManager \<Rightarrow>
    LockStatus option \<times> LockManager" where
  "acquire_start tx res m g s =
     (let s = s\<lparr>granted_locks := AList.update res (lookup_list (granted_locks s) res) (granted_locks s),
                wait_queues := AList.update res (lookup_list (wait_queues s) res) (wait_queues s)\<rparr> in
      if canGrant (lookup_list (granted_locks s) res) m then (Some GRANTED, grant tx res m g s)
      else (None,
        s\<lparr>wait_queues := AList.update res
             (lookup_list (wait_queues s) res @ [\<lparr>waiter = tx, requested_mode = m\<rparr>]) (wait_queues s),
          waiting_for := AList.update tx (lookup_list (waiting_for s) tx @ [res]) (waiting_for s),
          lock_stats := (lock_stats s)\<lparr>waiting_locks := waiting_locks (lock_stats s) + 1\<rparr>\<rparr>))"

definition stop_waiting :: "TransactionId \<Rightarrow> string \<Rightarrow> LockManager \<Rightarrow> LockManager" where
  "stop_waiting tx res s =
     (let rest = filter (\<lambda>r. r \<noteq> res) (lookup_list (waiting_for s) tx) in
      s\<lparr>waiting_for := (if rest = [] then AList.delete tx (waiting_for s)
                        else AList.update tx rest (waiting_for s))\<rparr>)"

definition removeFromWaitQueue :: "string \<Rightarrow> TransactionId \<Rightarrow> LockManager \<Rightarrow> LockManager" where
  "removeFromWaitQueue res tx s =
     stop_waiting tx res
       (s\<lparr>wait_queues := AList.update res
            (filter (\<lambda>e. waiter e \<noteq> tx) (lookup_list (wait_queues s) res)) (wait_queues s)\<rparr>)"

text \<open>
  A call that waits. It keeps a reference to the vector of granted locks of its resource;
  \<open>ref_valid\<close> becomes false when that vector is destroyed while the call sleeps.
\<close>

record Waiter =
  w_tx :: TransactionId
  w_res :: string
  w_mode :: LockMode
  w_gran :: LockGranularity
  w_timeout :: nat
  ref_valid :: bool

text \<open>
  The outcomes of one round: the call returns; it sleeps and tries again; it locks the mutex
  it already holds (\<^verbatim>\<open>hasDeadlock\<close> calls \<^verbatim>\<open>getWaitingTransactions\<close>, which locks it) and
  never continues; or it uses the destroyed vector or pops an empty queue, which is undefined.
\<close>

datatype RoundOutcome = Returns LockStatus | Sleeps | Self_deadlock | Undefined

definition wait_round :: "nat \<Rightarrow> Waiter \<Rightarrow> LockManager \<Rightarrow> RoundOutcome \<times> LockManager" where
  "wait_round elapsed w s =
     (if elapsed > w_timeout w then
        (Returns TIMEOUT,
         let s = removeFromWaitQueue (w_res w) (w_tx w) s
         in s\<lparr>lock_stats := (lock_stats s)\<lparr>lock_timeouts := lock_timeouts (lock_stats s) + 1\<rparr>\<rparr>)
      else if elapsed mod 100 = 0 then (Self_deadlock, s)
      else if \<not> ref_valid w then (Undefined, s)
      else if canGrant (lookup_list (granted_locks s) (w_res w)) (w_mode w) then
        if lookup_list (wait_queues s) (w_res w) = [] then (Undefined, s)
        else (Returns GRANTED,
         let s = s\<lparr>wait_queues := AList.update (w_res w)
                     (tl (lookup_list (wait_queues s) (w_res w))) (wait_queues s)\<rparr>;
             s = stop_waiting (w_tx w) (w_res w) s;
             s = grant (w_tx w) (w_res w) (w_mode w) (w_gran w) s
         in s\<lparr>lock_stats := (lock_stats s)\<lparr>waiting_locks := waiting_locks (lock_stats s) - 1\<rparr>\<rparr>)
      else (Sleeps, s))"

section \<open>Release and upgrade\<close>

definition not_held_by :: "TransactionId \<Rightarrow> LockEntry list \<Rightarrow> LockEntry list" where
  "not_held_by tx = filter (\<lambda>e. holder e \<noteq> tx)"

definition releaseLock :: "TransactionId \<Rightarrow> string \<Rightarrow> LockManager \<Rightarrow> bool \<times> LockManager" where
  "releaseLock tx res s =
     (case map_of (granted_locks s) res of
        None \<Rightarrow> (False, s)
      | Some locks \<Rightarrow>
          let locks = not_held_by tx locks in
          (True, s\<lparr>granted_locks := (if locks = [] then AList.delete res (granted_locks s)
                                     else AList.update res locks (granted_locks s)),
                   lock_stats := (lock_stats s)\<lparr>total_locks := total_locks (lock_stats s) - 1\<rparr>\<rparr>))"

definition releaseAllLocks :: "TransactionId \<Rightarrow> LockManager \<Rightarrow> bool \<times> LockManager" where
  "releaseAllLocks tx s =
     (True,
      s\<lparr>granted_locks := filter (\<lambda>(r, locks). locks \<noteq> [])
           (map (\<lambda>(r, locks). (r, not_held_by tx locks)) (granted_locks s)),
        wait_queues := map (\<lambda>(r, q). (r, filter (\<lambda>e. waiter e \<noteq> tx) q)) (wait_queues s),
        waiting_for := AList.delete tx (waiting_for s)\<rparr>)"

fun find_index :: "('a \<Rightarrow> bool) \<Rightarrow> 'a list \<Rightarrow> nat option" where
  "find_index P [] = None"
| "find_index P (x # xs) = (if P x then Some 0 else map_option Suc (find_index P xs))"

text \<open>
  The granularity is read through the iterator after the element was erased, that is from
  the element that moved into its place; \<^const>\<open>None\<close> when there is none.
\<close>

definition upgradeLock :: "TransactionId \<Rightarrow> string \<Rightarrow> LockMode \<Rightarrow> LockManager \<Rightarrow>
    (LockStatus \<times> LockManager) option" where
  "upgradeLock tx res new_mode s =
     (let locks = lookup_list (granted_locks s) res;
          s = s\<lparr>granted_locks := AList.update res locks (granted_locks s)\<rparr> in
      case find_index (\<lambda>e. holder e = tx) locks of
        None \<Rightarrow> Some (TIMEOUT, s)
      | Some i \<Rightarrow>
          let old_mode = le_mode (locks ! i);
              locks = take i locks @ drop (Suc i) locks in
          if length locks \<le> i then None
          else let g = granularity (locks ! i) in
            if canGrant locks new_mode
            then Some (GRANTED, s\<lparr>granted_locks := AList.update res
                   (locks @ [\<lparr>le_mode = new_mode, holder = tx, granularity = g\<rparr>]) (granted_locks s)\<rparr>)
            else Some (WAITING, s\<lparr>granted_locks := AList.update res
                   (locks @ [\<lparr>le_mode = old_mode, holder = tx, granularity = g\<rparr>]) (granted_locks s)\<rparr>))"

section \<open>Queries\<close>

definition hasLock :: "TransactionId \<Rightarrow> string \<Rightarrow> LockMode \<Rightarrow> LockManager \<Rightarrow> bool" where
  "hasLock tx res m s =
     (case map_of (granted_locks s) res of
        None \<Rightarrow> False
      | Some locks \<Rightarrow> list_ex (\<lambda>e. holder e = tx \<and> le_mode e = m) locks)"

definition isLocked :: "string \<Rightarrow> LockManager \<Rightarrow> bool" where
  "isLocked res s \<longleftrightarrow> map_of (granted_locks s) res \<noteq> None"

fun strongest :: "LockMode \<Rightarrow> LockEntry list \<Rightarrow> LockMode" where
  "strongest m [] = m"
| "strongest m (e # es) =
     (if le_mode e = EXCLUSIVE then EXCLUSIVE
      else if le_mode e = SHARED_INTENT_EXCLUSIVE then strongest SHARED_INTENT_EXCLUSIVE es
      else if le_mode e = INTENT_EXCLUSIVE \<and> m \<noteq> SHARED_INTENT_EXCLUSIVE
        then strongest INTENT_EXCLUSIVE es
      else if le_mode e = INTENT_SHARED \<and> m = SHARED then strongest INTENT_SHARED es
      else strongest m es)"

definition getLockMode :: "string \<Rightarrow> LockManager \<Rightarrow> LockMode" where
  "getLockMode res s =
     (case map_of (granted_locks s) res of None \<Rightarrow> SHARED | Some locks \<Rightarrow> strongest SHARED locks)"

text \<open>One entry for every resource that the waiter waits for and \<open>tx\<close> holds.\<close>

definition getWaitingTransactions :: "TransactionId \<Rightarrow> LockManager \<Rightarrow> TransactionId list" where
  "getWaitingTransactions tx s =
     concat (map (\<lambda>(w, resources).
        if w = tx then []
        else map (\<lambda>_. w) (filter (\<lambda>r. list_ex (\<lambda>e. holder e = tx) (lookup_list (granted_locks s) r)) resources))
       (waiting_for s))"

lemma getWaitingTransactions_keys:
  "w \<in> set (getWaitingTransactions tx s) \<Longrightarrow> w \<in> set (keys_of (waiting_for s))"
  by (force simp: getWaitingTransactions_def split: if_splits)

text \<open>
  Depth-first search; \<open>visited\<close> is true exactly for the transactions on the current path.
\<close>

function checkDeadlock :: "LockManager \<Rightarrow> TransactionId list \<Rightarrow> TransactionId \<Rightarrow> bool" where
  "checkDeadlock s path tx =
     (if tx \<in> set path then True
      else list_ex (\<lambda>w. checkDeadlock s (tx # path) w) (getWaitingTransactions tx s))"
  by pat_completeness auto
termination
proof (relation "measure (\<lambda>(s, path, tx). card (insert tx (set (keys_of (waiting_for s))) - set path))")
  fix s :: LockManager and path tx w
  assume tx: "tx \<notin> set path" and w: "w \<in> set (getWaitingTransactions tx s)"
  let ?K = "set (keys_of (waiting_for s))"
  have "insert w ?K - set (tx # path) \<subseteq> (insert tx ?K - set path) - {tx}"
    using getWaitingTransactions_keys [OF w] by auto
  also have "\<dots> \<subset> insert tx ?K - set path" using tx by auto
  finally have "card (insert w ?K - set (tx # path)) < card (insert tx ?K - set path)"
    by (intro psubset_card_mono) auto
  then show "((s, tx # path, w), (s, path, tx))
      \<in> measure (\<lambda>(s, path, tx). card (insert tx (set (keys_of (waiting_for s))) - set path))"
    by simp
qed simp

declare checkDeadlock.simps [simp del]

definition hasDeadlock :: "TransactionId \<Rightarrow> LockManager \<Rightarrow> bool" where
  "hasDeadlock tx s = checkDeadlock s [] tx"

section \<open>The system\<close>

record LockSys =
  lm :: LockManager
  waiters :: "Waiter list"

text \<open>A release destroys the vectors it empties; references to them are invalid from then on.\<close>

definition expire_refs :: "LockManager \<Rightarrow> Waiter list \<Rightarrow> Waiter list" where
  "expire_refs s = map (\<lambda>w. if isLocked (w_res w) s then w else w\<lparr>ref_valid := False\<rparr>)"

inductive lock_step :: "LockSys \<Rightarrow> LockSys \<Rightarrow> bool" where
  acquire: "acquire_start tx res m g (lm S) = (Some st, s') \<Longrightarrow> lock_step S (S\<lparr>lm := s'\<rparr>)"
| enqueue: "acquire_start tx res m g (lm S) = (None, s') \<Longrightarrow>
    lock_step S (S\<lparr>lm := s', waiters := \<lparr>w_tx = tx, w_res = res, w_mode = m, w_gran = g,
      w_timeout = n, ref_valid = True\<rparr> # waiters S\<rparr>)"
| round: "w \<in> set (waiters S) \<Longrightarrow> wait_round e w (lm S) = (Returns st, s') \<Longrightarrow>
    lock_step S (S\<lparr>lm := s', waiters := remove1 w (waiters S)\<rparr>)"
| release: "releaseLock tx res (lm S) = (b, s') \<Longrightarrow>
    lock_step S (S\<lparr>lm := s', waiters := expire_refs s' (waiters S)\<rparr>)"
| release_all: "releaseAllLocks tx (lm S) = (b, s') \<Longrightarrow>
    lock_step S (S\<lparr>lm := s', waiters := expire_refs s' (waiters S)\<rparr>)"
| upgrade: "upgradeLock tx res m (lm S) = Some (st, s') \<Longrightarrow> lock_step S (S\<lparr>lm := s'\<rparr>)"

inductive lock_reachable :: "LockSys \<Rightarrow> bool" where
  init: "lock_reachable \<lparr>lm = LockManager_new, waiters = []\<rparr>"
| step: "lock_reachable S \<Longrightarrow> lock_step S S' \<Longrightarrow> lock_reachable S'"

section \<open>Compatibility is symmetric\<close>

lemma areCompatible_sym: "areCompatible a b = areCompatible b a"
  by (cases a; cases b) (simp_all add: areCompatible_def)

lemma areCompatible_exclusive [simp]:
  "\<not> areCompatible EXCLUSIVE m" "\<not> areCompatible m EXCLUSIVE"
  by (simp_all add: areCompatible_def)

definition compat_list :: "LockEntry list \<Rightarrow> bool" where
  "compat_list = sorted_wrt (\<lambda>a b. areCompatible (le_mode a) (le_mode b))"

lemma compat_list_simps [simp]:
  "compat_list []" "compat_list es \<Longrightarrow> compat_list (filter P es)"
  "compat_list (es @ [e]) \<longleftrightarrow> compat_list es \<and> canGrant es (le_mode e)"
  by (auto simp: compat_list_def canGrant_def sorted_wrt_append sorted_wrt_filter list_all_iff)

lemma compat_list_remove:
  assumes "compat_list es" and "i < length es"
  shows "compat_list (take i es @ drop (Suc i) es)"
    and "canGrant (take i es @ drop (Suc i) es) (le_mode (es ! i))"
proof -
  have "compat_list (take i es @ es ! i # drop (Suc i) es)"
    using assms id_take_nth_drop [of i es] by metis
  then show "compat_list (take i es @ drop (Suc i) es)"
    and "canGrant (take i es @ drop (Suc i) es) (le_mode (es ! i))"
    by (auto simp: compat_list_def canGrant_def sorted_wrt_append list_all_iff areCompatible_sym)
qed

lemma compat_list_pairs:
  assumes "compat_list es" and "i < length es" and "j < length es" and "i \<noteq> j"
  shows "areCompatible (le_mode (es ! i)) (le_mode (es ! j))"
proof (cases "i < j")
  case True
  then show ?thesis using assms(1,3) by (simp add: compat_list_def sorted_wrt_iff_nth_less)
next
  case False
  then have "j < i" using assms(4) by simp
  then have "areCompatible (le_mode (es ! j)) (le_mode (es ! i))"
    using assms(1,2) by (simp add: compat_list_def sorted_wrt_iff_nth_less)
  then show ?thesis using areCompatible_sym by simp
qed

section \<open>The invariant of the lock table\<close>

abbreviation locks_on :: "LockManager \<Rightarrow> string \<Rightarrow> LockEntry list option" where
  "locks_on s \<equiv> map_of (granted_locks s)"

definition table_ok :: "LockManager \<Rightarrow> bool" where
  "table_ok s \<longleftrightarrow> wf_map (granted_locks s) \<and> (\<forall>res locks. locks_on s res = Some locks \<longrightarrow> compat_list locks)"

definition refs_ok :: "LockSys \<Rightarrow> bool" where
  "refs_ok S \<longleftrightarrow> (\<forall>w \<in> set (waiters S). ref_valid w \<longrightarrow>
     (\<exists>locks. locks_on (lm S) (w_res w) = Some locks \<and> locks \<noteq> []))"

lemma lookup_list_compat: "table_ok s \<Longrightarrow> compat_list (lookup_list (granted_locks s) res)"
  by (auto simp: table_ok_def lookup_list_def split: option.split)

lemma table_ok_update:
  "table_ok s \<Longrightarrow> compat_list ls \<Longrightarrow> granted_locks s' = AList.update res ls (granted_locks s) \<Longrightarrow> table_ok s'"
  by (auto simp: table_ok_def)

lemma lookup_list_update [simp]:
  "lookup_list (AList.update k v m) k' = (if k' = k then v else lookup_list m k')"
  by (simp add: lookup_list_def)

lemma granted_locks_grant:
  "granted_locks (grant tx res m g s) = AList.update res
     (lookup_list (granted_locks s) res @ [\<lparr>le_mode = m, holder = tx, granularity = g\<rparr>]) (granted_locks s)"
  by (simp add: grant_def)

lemma granted_locks_wait [simp]:
  "granted_locks (stop_waiting tx res s) = granted_locks s"
  "granted_locks (removeFromWaitQueue res tx s) = granted_locks s"
  by (simp_all add: stop_waiting_def removeFromWaitQueue_def Let_def)

lemma find_index_Some: "find_index P xs = Some i \<Longrightarrow> i < length xs \<and> P (xs ! i)"
  by (induction xs arbitrary: i) (auto split: if_splits)

text \<open>
  What each operation does to the granted locks, by cases of its result.
\<close>

lemma acquire_start_table:
  assumes "acquire_start tx res m g s = (st, s')"
  shows "st \<in> {None, Some GRANTED}" and "locks_on s' = (locks_on s)(res \<mapsto> lookup_list (granted_locks s) res @
      (if st = None then [] else [\<lparr>le_mode = m, holder = tx, granularity = g\<rparr>]))"
    and "st = None \<longleftrightarrow> \<not> canGrant (lookup_list (granted_locks s) res) m"
    and "wf_map (granted_locks s) \<Longrightarrow> wf_map (granted_locks s')"
  using assms
  by (auto simp: acquire_start_def Let_def granted_locks_grant split: if_splits)

lemma wait_round_table:
  assumes "wait_round e w s = (Returns st, s')"
  shows "st \<in> {GRANTED, TIMEOUT}"
    and "st = TIMEOUT \<Longrightarrow> granted_locks s' = granted_locks s"
    and "st = GRANTED \<Longrightarrow> ref_valid w \<and> canGrant (lookup_list (granted_locks s) (w_res w)) (w_mode w) \<and>
      granted_locks s' = AList.update (w_res w) (lookup_list (granted_locks s) (w_res w) @
        [\<lparr>le_mode = w_mode w, holder = w_tx w, granularity = w_gran w\<rparr>]) (granted_locks s)"
  using assms
  by (auto simp: wait_round_def Let_def granted_locks_grant split: if_splits)

lemma releaseLock_table:
  assumes "releaseLock tx res s = (b, s')"
  shows "locks_on s' r = (case locks_on s r of None \<Rightarrow> None
    | Some ls \<Rightarrow> if r = res then (if not_held_by tx ls = [] then None else Some (not_held_by tx ls)) else Some ls)"
    and "wf_map (granted_locks s) \<Longrightarrow> wf_map (granted_locks s')"
  using assms by (auto simp: releaseLock_def Let_def split: option.splits if_splits)

lemma releaseAllLocks_table:
  assumes "wf_map (granted_locks s)" and "releaseAllLocks tx s = (b, s')"
  shows "locks_on s' r = (case locks_on s r of None \<Rightarrow> None
    | Some ls \<Rightarrow> if not_held_by tx ls = [] then None else Some (not_held_by tx ls))"
    and "wf_map (granted_locks s')"
  using assms map_of_filter_map [OF assms(1), of "\<lambda>ls. ls \<noteq> []" "not_held_by tx" r]
  by (auto simp: releaseAllLocks_def split: option.split)

lemma upgradeLock_table:
  assumes ok: "table_ok s" and u: "upgradeLock tx res m s = Some (st, s')"
  obtains ls where "granted_locks s' = AList.update res ls (granted_locks s)" and "compat_list ls"
    and "lookup_list (granted_locks s) res \<noteq> [] \<Longrightarrow> ls \<noteq> []"
proof -
  let ?l = "lookup_list (granted_locks s) res"
  note c = lookup_list_compat [OF ok, of res]
  show thesis
  proof (cases "find_index (\<lambda>e. holder e = tx) ?l")
    case None
    then show thesis using that [of ?l] u c by (auto simp: upgradeLock_def Let_def)
  next
    case (Some i)
    then have i: "i < length ?l" by (auto dest: find_index_Some)
    define rest where "rest = take i ?l @ drop (Suc i) ?l"
    note r = compat_list_remove [OF c i, folded rest_def]
    let ?new = "\<lambda>md. rest @ [\<lparr>le_mode = md, holder = tx, granularity = granularity (rest ! i)\<rparr>]"
    have "upgradeLock tx res m s = (if length rest \<le> i then None
        else if canGrant rest m
        then Some (GRANTED, s\<lparr>granted_locks := AList.update res (?new m) (granted_locks s)\<rparr>)
        else Some (WAITING, s\<lparr>granted_locks := AList.update res (?new (le_mode (?l ! i))) (granted_locks s)\<rparr>))"
      unfolding upgradeLock_def Let_def Some option.case rest_def [symmetric] by simp
    with u consider "canGrant rest m" "granted_locks s' = AList.update res (?new m) (granted_locks s)"
      | "granted_locks s' = AList.update res (?new (le_mode (?l ! i))) (granted_locks s)"
      by (auto split: if_splits)
    then show thesis by cases (use r that in auto)
  qed
qed

lemma compat_not_held_by [simp]: "compat_list ls \<Longrightarrow> compat_list (not_held_by tx ls)"
  by (simp add: not_held_by_def)

lemma table_ok_step: "lock_step S S' \<Longrightarrow> table_ok (lm S) \<Longrightarrow> table_ok (lm S')"
proof (induction rule: lock_step.induct)
  case (acquire tx res m g S st s')
  note t = acquire_start_table [OF acquire(1)]
  show ?case
    using t acquire(2) lookup_list_compat [OF acquire(2), of res] by (auto simp: table_ok_def)
next
  case (enqueue tx res m g S s' n)
  note t = acquire_start_table [OF enqueue(1)]
  show ?case
    using t enqueue(2) lookup_list_compat [OF enqueue(2), of res] by (auto simp: table_ok_def)
next
  case (round w S e st s')
  note t = wait_round_table [OF round(2)]
  show ?case
  proof (cases "st = GRANTED")
    case True
    then show ?thesis
      using t(3) lookup_list_compat [OF round(3), of "w_res w"]
      by (simp add: table_ok_update [OF round(3), where res = "w_res w" and ls =
          "lookup_list (granted_locks (lm S)) (w_res w) @
           [\<lparr>le_mode = w_mode w, holder = w_tx w, granularity = w_gran w\<rparr>]"])
  next
    case False
    then have "granted_locks s' = granted_locks (lm S)" using t by auto
    then show ?thesis using round(3) by (simp add: table_ok_def)
  qed
next
  case (release tx res S b s')
  then show ?case
    using releaseLock_table [OF release(1)] by (auto simp: table_ok_def split: option.splits if_splits)
next
  case (release_all tx S b s')
  then show ?case
    using releaseAllLocks_table [OF _ release_all(1)]
    by (auto simp: table_ok_def split: option.splits if_splits)
next
  case (upgrade tx res m S st s')
  obtain ls where "granted_locks s' = AList.update res ls (granted_locks (lm S))" "compat_list ls"
    using upgradeLock_table [OF upgrade(2,1)] by metis
  then show ?case using table_ok_update [OF upgrade(2)] by simp
qed

lemma refs_ok_keep:
  assumes "refs_ok S" and "set (waiters S') \<subseteq> set (waiters S)"
    and "\<And>r ls. locks_on (lm S) r = Some ls \<Longrightarrow> ls \<noteq> [] \<Longrightarrow> \<exists>ls'. locks_on (lm S') r = Some ls' \<and> ls' \<noteq> []"
  shows "refs_ok S'"
  using assms unfolding refs_ok_def by blast

lemma refs_ok_expire:
  assumes "refs_ok S"
    and "\<And>r ls ls'. locks_on (lm S) r = Some ls \<Longrightarrow> ls \<noteq> [] \<Longrightarrow> locks_on s' r = Some ls' \<Longrightarrow> ls' \<noteq> []"
  shows "refs_ok (S\<lparr>lm := s', waiters := expire_refs s' (waiters S)\<rparr>)"
proof -
  have "\<exists>ls. locks_on s' (w_res w) = Some ls \<and> ls \<noteq> []"
    if "w \<in> set (waiters S)" "ref_valid w" "isLocked (w_res w) s'" for w
    using assms that by (fastforce simp: refs_ok_def isLocked_def)
  then show ?thesis by (auto simp: refs_ok_def expire_refs_def)
qed

lemma refs_ok_step: "lock_step S S' \<Longrightarrow> table_ok (lm S) \<Longrightarrow> refs_ok S \<Longrightarrow> refs_ok S'"
proof (induction rule: lock_step.induct)
  case (acquire tx res m g S st s')
  show ?case
    by (rule refs_ok_keep [OF acquire(3)])
      (auto simp: acquire_start_table(2) [OF acquire(1)] lookup_list_def)
next
  case (enqueue tx res m g S s' n)
  note t = acquire_start_table [OF enqueue(1)]
  have "lookup_list (granted_locks (lm S)) res \<noteq> []" using t(3) by (auto simp: canGrant_def)
  then show ?case
    using enqueue(3) t(2) by (auto simp: refs_ok_def lookup_list_def split: option.splits)
next
  case (round w S e st s')
  note t = wait_round_table [OF round(2)]
  show ?case
    by (rule refs_ok_keep [OF round(4)]) (use t in \<open>auto dest: subsetD [OF set_remove1_subset]\<close>)
next
  case (release tx res S b s')
  show ?case
    by (rule refs_ok_expire [OF release(3)])
      (auto simp: releaseLock_table(1) [OF release(1)] split: option.splits if_splits)
next
  case (release_all tx S b s')
  have "wf_map (granted_locks (lm S))" using release_all(2) by (simp add: table_ok_def)
  then show ?case
    by (intro refs_ok_expire [OF release_all(3)])
      (auto simp: releaseAllLocks_table(1) [OF _ release_all(1)] split: option.splits if_splits)
next
  case (upgrade tx res m S st s')
  obtain ls where "granted_locks s' = AList.update res ls (granted_locks (lm S))"
    and "lookup_list (granted_locks (lm S)) res \<noteq> [] \<Longrightarrow> ls \<noteq> []"
    using upgradeLock_table [OF upgrade(2,1)] by metis
  then show ?case
    by (intro refs_ok_keep [OF upgrade(3)]) (auto simp: lookup_list_def)
qed

lemma lock_reachable_inv: "lock_reachable S \<Longrightarrow> table_ok (lm S) \<and> refs_ok S"
proof (induction rule: lock_reachable.induct)
  case init
  show ?case by (simp add: table_ok_def refs_ok_def LockManager_new_def)
qed (blast intro: table_ok_step refs_ok_step)

section \<open>The deadlock search\<close>

text \<open>
  The waits-for graph of the lock table: an edge from \<open>a\<close> to \<open>b\<close> when \<open>a\<close> is recorded as waiting
  for a resource on which another transaction \<open>b\<close> has a granted lock. The search walks its edges
  backwards.
\<close>

definition waits_for :: "LockManager \<Rightarrow> (TransactionId \<times> TransactionId) set" where
  "waits_for s = {(a, b). a \<noteq> b \<and> (\<exists>resources res locks. (a, resources) \<in> set (waiting_for s) \<and> res \<in> set resources \<and>
     locks_on s res = Some locks \<and> b \<in> holder ` set locks)}"

definition waits_edges :: "LockManager \<Rightarrow> (TransactionId \<times> TransactionId) set" where
  "waits_edges s = {(a, b). b \<in> set (getWaitingTransactions a s)}"

lemma waiting_members:
  "b \<in> set (concat (map (\<lambda>(w, rs). if w = a then [] else map (\<lambda>_. w) (filter P rs)) W)) \<longleftrightarrow>
     b \<noteq> a \<and> (\<exists>rs. (b, rs) \<in> set W \<and> (\<exists>r \<in> set rs. P r))"
proof (induction W)
  case (Cons x W)
  obtain w rs where x: "x = (w, rs)" by (cases x)
  have "b \<in> set (if w = a then [] else map (\<lambda>_. w) (filter P rs)) \<longleftrightarrow> b = w \<and> w \<noteq> a \<and> (\<exists>r \<in> set rs. P r)" by auto
  with Cons.IH show ?case by (auto simp: x simp del: set_concat)
qed simp

lemma waits_edges_converse: "waits_edges s = (waits_for s)\<inverse>"
proof -
  have holds: "list_ex (\<lambda>e. holder e = a) (lookup_list (granted_locks s) res) \<longleftrightarrow>
      (\<exists>locks. locks_on s res = Some locks \<and> a \<in> holder ` set locks)" for a res
    by (cases "locks_on s res") (auto simp: lookup_list_def list_ex_iff image_iff)
  have "b \<in> set (getWaitingTransactions a s) \<longleftrightarrow> b \<noteq> a \<and> (\<exists>resources. (b, resources) \<in> set (waiting_for s) \<and>
      (\<exists>res \<in> set resources. list_ex (\<lambda>e. holder e = a) (lookup_list (granted_locks s) res)))" for a b
    unfolding getWaitingTransactions_def by (rule waiting_members)
  moreover have "(b, a) \<in> waits_for s \<longleftrightarrow> b \<noteq> a \<and> (\<exists>resources. (b, resources) \<in> set (waiting_for s) \<and>
      (\<exists>res \<in> set resources. list_ex (\<lambda>e. holder e = a) (lookup_list (granted_locks s) res)))" for a b
    unfolding holds waits_for_def Bex_def mem_Collect_eq prod.case by (simp only: ex_simps simp_thms)
  ultimately have "b \<in> set (getWaitingTransactions a s) \<longleftrightarrow> (b, a) \<in> waits_for s" for a b by simp
  then show ?thesis by (auto simp: waits_edges_def)
qed

lemma checkDeadlock_sound:
  "checkDeadlock s path tx \<Longrightarrow> \<forall>p \<in> set path. (p, tx) \<in> (waits_edges s)\<^sup>+ \<Longrightarrow>
   \<exists>y. (tx, y) \<in> (waits_edges s)\<^sup>* \<and> (y, y) \<in> (waits_edges s)\<^sup>+"
proof (induction s path tx rule: checkDeadlock.induct)
  case (1 s path tx)
  show ?case
  proof (cases "tx \<in> set path")
    case True
    then show ?thesis using "1.prems"(2) by blast
  next
    case False
    then obtain w where w: "w \<in> set (getWaitingTransactions tx s)" "checkDeadlock s (tx # path) w"
      using "1.prems"(1) by (subst (asm) checkDeadlock.simps) (auto simp: list_ex_iff)
    then have e: "(tx, w) \<in> waits_edges s" by (simp add: waits_edges_def)
    have "\<forall>p \<in> set (tx # path). (p, w) \<in> (waits_edges s)\<^sup>+"
      using "1.prems"(2) e by (auto intro: trancl_into_trancl)
    from "1.IH" [OF False w(1) w(2) this] show ?thesis
      using e by (meson converse_rtrancl_into_rtrancl)
  qed
qed

lemma cycle_successor:
  assumes "(tx, y) \<in> r\<^sup>*" and "(y, y) \<in> r\<^sup>+"
  obtains w where "(tx, w) \<in> r" and "(w, y) \<in> r\<^sup>*"
  using assms by (metis converse_rtranclE tranclD)

lemma checkDeadlock_complete:
  "(tx, y) \<in> (waits_edges s)\<^sup>* \<Longrightarrow> (y, y) \<in> (waits_edges s)\<^sup>+ \<Longrightarrow> checkDeadlock s path tx"
proof (induction s path tx rule: checkDeadlock.induct)
  case (1 s path tx)
  obtain w where w: "(tx, w) \<in> waits_edges s" "(w, y) \<in> (waits_edges s)\<^sup>*"
    using cycle_successor [OF "1.prems"] .
  show ?case
  proof (cases "tx \<in> set path")
    case False
    with w "1.IH" [OF False _ w(2) "1.prems"(2)] show ?thesis
      by (subst checkDeadlock.simps) (auto simp: list_ex_iff waits_edges_def)
  qed (simp add: checkDeadlock.simps)
qed

section \<open>Properties of the lock manager\<close>

text \<open>Transaction 1 holds an exclusive lock, transaction 2 waits for one, for the examples.\<close>

definition example_waiter :: Waiter where
  "example_waiter = \<lparr>w_tx = 2, w_res = ''t'', w_mode = EXCLUSIVE, w_gran = TABLE_LOCK,
     w_timeout = 5000, ref_valid = True\<rparr>"

definition example_held :: LockManager where
  "example_held = snd (acquire_start 1 ''t'' EXCLUSIVE TABLE_LOCK LockManager_new)"

definition example_locks :: LockSys where
  "example_locks = \<lparr>lm = snd (acquire_start 2 ''t'' EXCLUSIVE TABLE_LOCK example_held),
     waiters = [example_waiter]\<rparr>"

lemmas lock_defs = acquire_start_def grant_def lookup_list_def canGrant_def areCompatible_def
  LockManager_new_def LockStats_new_def

lemma example_locks_reachable: "lock_reachable example_locks"
proof -
  have "acquire_start 1 ''t'' EXCLUSIVE TABLE_LOCK (lm \<lparr>lm = LockManager_new, waiters = []\<rparr>)
      = (Some GRANTED, example_held)"
    by (simp add: example_held_def lock_defs)
  from lock_reachable.step [OF lock_reachable.init lock_step.acquire [OF this]]
  have r: "lock_reachable \<lparr>lm = example_held, waiters = []\<rparr>" by simp
  have "acquire_start 2 ''t'' EXCLUSIVE TABLE_LOCK (lm \<lparr>lm = example_held, waiters = []\<rparr>)
      = (None, snd (acquire_start 2 ''t'' EXCLUSIVE TABLE_LOCK example_held))"
    by (simp add: example_held_def lock_defs)
  from lock_reachable.step [OF r lock_step.enqueue [OF this]]
  show ?thesis by (simp add: example_locks_def example_waiter_def)
qed

text \<open>
  C1: In every reachable lock table two different entries of a resource always have
  compatible modes, whatever the interleaving of the transactions; an exclusive lock is the
  only one on its resource.
\<close>

theorem granted_locks_compatible:
  assumes "lock_reachable S" and "locks_on (lm S) res = Some locks"
    and "i < length locks" and "j < length locks" and "i \<noteq> j"
  shows "areCompatible (le_mode (locks ! i)) (le_mode (locks ! j)) \<and> le_mode (locks ! i) \<noteq> EXCLUSIVE"
proof -
  have "compat_list locks"
    using lock_reachable_inv [OF assms(1)] assms(2) by (simp add: table_ok_def)
  from compat_list_pairs [OF this assms(3-5)] show ?thesis by auto
qed

theorem granted_locks_compatible_witness:
  "areCompatible SHARED INTENT_SHARED"
proof -
  let ?s1 = "snd (acquire_start 1 ''t'' SHARED ROW_LOCK LockManager_new)"
  let ?s2 = "snd (acquire_start 2 ''t'' INTENT_SHARED ROW_LOCK ?s1)"
  have "acquire_start 1 ''t'' SHARED ROW_LOCK (lm \<lparr>lm = LockManager_new, waiters = []\<rparr>) = (Some GRANTED, ?s1)"
    by (simp add: lock_defs)
  from lock_reachable.step [OF lock_reachable.init lock_step.acquire [OF this]]
  have r: "lock_reachable \<lparr>lm = ?s1, waiters = []\<rparr>" by simp
  have "acquire_start 2 ''t'' INTENT_SHARED ROW_LOCK (lm \<lparr>lm = ?s1, waiters = []\<rparr>) = (Some GRANTED, ?s2)"
    by (simp add: lock_defs)
  from lock_reachable.step [OF r lock_step.acquire [OF this]]
  have "lock_reachable \<lparr>lm = ?s2, waiters = []\<rparr>" by simp
  from granted_locks_compatible [OF this, of "''t''" _ 0 1] show ?thesis
    by (simp add: lock_defs)
qed

text \<open>
  C27: A request for an exclusive lock that has to wait is never granted: in every reachable
  state a round of its loop times out, sleeps, relocks the mutex it holds or reads a destroyed
  vector. It relocks the mutex whenever a round before the timeout falls on a multiple of
  100 ms, in particular in the first millisecond.
\<close>

theorem exclusive_wait_never_granted:
  assumes "lock_reachable S" and "w \<in> set (waiters S)" and "w_mode w = EXCLUSIVE"
  shows "fst (wait_round e w (lm S)) \<in> {Returns TIMEOUT, Sleeps, Self_deadlock, Undefined} \<and>
    (e \<le> w_timeout w \<and> e mod 100 = 0 \<longrightarrow> fst (wait_round e w (lm S)) = Self_deadlock)"
proof -
  have "\<not> canGrant (lookup_list (granted_locks (lm S)) (w_res w)) (w_mode w)" if v: "ref_valid w"
  proof -
    obtain ls where "locks_on (lm S) (w_res w) = Some ls" "ls \<noteq> []"
      using lock_reachable_inv [OF assms(1)] assms(2) v by (auto simp: refs_ok_def)
    then show ?thesis using assms(3) by (cases ls) (simp_all add: lookup_list_def canGrant_def)
  qed
  then show ?thesis by (auto simp: wait_round_def)
qed

theorem exclusive_wait_never_granted_witness:
  "fst (wait_round 0 example_waiter (lm example_locks)) = Self_deadlock"
  using exclusive_wait_never_granted [OF example_locks_reachable, of example_waiter 0]
  by (simp add: example_locks_def example_waiter_def)

text \<open>
  \<^verbatim>\<open>releaseAllLocks\<close> on a reachable table leaves no lock of the transaction and no
  entry of it in any wait queue, and keeps every lock of every other transaction.
\<close>

lemma releaseAllLocks_complete:
  assumes "lock_reachable S" and "releaseAllLocks tx (lm S) = (b, s')"
  shows "b \<and> \<not> hasLock tx res m s' \<and> (other \<noteq> tx \<longrightarrow> hasLock other res m s' = hasLock other res m (lm S)) \<and>
    (\<forall>q \<in> set (map snd (wait_queues s')). \<forall>e \<in> set q. waiter e \<noteq> tx) \<and>
    map_of (waiting_for s') tx = None"
proof -
  have wf: "wf_map (granted_locks (lm S))"
    using lock_reachable_inv [OF assms(1)] by (simp add: table_ok_def)
  note t = releaseAllLocks_table(1) [OF wf assms(2), of res]
  have "\<not> hasLock tx res m s'"
    by (auto simp: hasLock_def t not_held_by_def list_ex_iff split: option.splits if_splits)
  moreover have "hasLock other res m s' = hasLock other res m (lm S)" if "other \<noteq> tx"
    using that by (auto simp: hasLock_def t not_held_by_def list_ex_iff filter_empty_conv
        split: option.splits if_splits)
  ultimately show ?thesis using assms(2) by (auto simp: releaseAllLocks_def)
qed

text \<open>
  C26: The deadlock search terminates on every lock table. It answers exactly the question whether the
  transaction is waited for, directly or through others, by a transaction on a cycle of the
  waits-for graph (being on a cycle itself included). So every transaction of a deadlock is reported,
  and with it those that the deadlocked ones wait for.
\<close>

theorem hasDeadlock_exact:
  "hasDeadlock tx s \<longleftrightarrow> (\<exists>y. (y, tx) \<in> (waits_for s)\<^sup>* \<and> (y, y) \<in> (waits_for s)\<^sup>+)"
proof -
  have "hasDeadlock tx s \<longleftrightarrow> (\<exists>y. (tx, y) \<in> (waits_edges s)\<^sup>* \<and> (y, y) \<in> (waits_edges s)\<^sup>+)"
    using checkDeadlock_sound [of s "[]" tx] checkDeadlock_complete [of tx _ s "[]"] by (auto simp: hasDeadlock_def)
  then show ?thesis by (simp add: waits_edges_converse rtrancl_converse trancl_converse)
qed

text \<open>
  A transaction that waits for a deadlock without being waited for is not reported: here 2 and 3
  wait for each other, and 1 waits for 2.
\<close>

lemma blocked_by_deadlock_not_reported:
  fixes g :: "TransactionId \<Rightarrow> LockEntry" and s :: LockManager
  defines "g \<equiv> (\<lambda>tx. \<lparr>le_mode = EXCLUSIVE, holder = tx, granularity = TABLE_LOCK\<rparr>)"
  defines "s \<equiv> LockManager_new\<lparr>granted_locks := [(''a'', [g 2]), (''b'', [g 3])],
    waiting_for := [(2, [''b'']), (3, [''a'']), (1, [''a''])]\<rparr>"
  shows "(1, 2) \<in> waits_for s \<and> (2, 3) \<in> waits_for s \<and> (3, 2) \<in> waits_for s \<and> \<not> hasDeadlock 1 s \<and> hasDeadlock 2 s"
proof -
  have w: "getWaitingTransactions 1 s = []" "getWaitingTransactions 2 s = [3, 1]" "getWaitingTransactions 3 s = [2]"
    by (simp_all add: s_def g_def getWaitingTransactions_def lookup_list_def)
  then have "(1, 2) \<in> waits_for s" "(2, 3) \<in> waits_for s" "(3, 2) \<in> waits_for s"
    using waits_edges_converse [of s] by (auto simp: waits_edges_def)
  moreover have "\<not> hasDeadlock 1 s" "hasDeadlock 2 s"
    by (simp_all add: hasDeadlock_def checkDeadlock.simps w)
  ultimately show ?thesis by blast
qed

text \<open>
  A transaction that requests a lock in a mode its own lock excludes waits for itself,
  and the deadlock search does not see it: no transaction waits for itself in the graph.
\<close>

lemma self_conflict_not_detected:
  assumes "map_of (granted_locks s) res = Some [\<lparr>le_mode = EXCLUSIVE, holder = tx, granularity = g\<rparr>]"
  shows "fst (acquire_start tx res m g' s) = None \<and> (tx, tx) \<notin> waits_edges s'"
  using assms
  by (auto simp: acquire_start_def lookup_list_def canGrant_def waits_edges_def
      getWaitingTransactions_def split: if_splits)

end
