(* ===== verification/BTreeNode.thy ===== *)
theory BTreeNode
  imports Prelude "HOL-Library.List_Lexorder" "HOL-Library.Char_ord"
begin

text \<open>
  \<^verbatim>\<open>index/btree_node.h\<close> and \<^verbatim>\<open>index/btree_node.cpp\<close>: one node of the B-tree, a
  template over the key and value types, here polymorphic over a linear order of keys (strings,
  or integers for \<^verbatim>\<open>int32_t\<close>). The arrays have their fixed lengths, only the first \<open>key_count\<close> keys are in use. An access
  outside an array gives \<^const>\<open>None\<close>. The 16-bit counters are natural numbers with the
  wrap-around written out where the code increments and decrements them.
\<close>

section \<open>Data\<close>

datatype BTreeNodeType = LEAF | INTERNAL | ROOT

definition ORDER :: nat where "ORDER = 128"
definition MAX_KEYS :: nat where "MAX_KEYS = ORDER - 1"
definition MIN_KEYS :: nat where "MIN_KEYS = ORDER div 2 - 1"

lemmas node_sizes = ORDER_def MAX_KEYS_def MIN_KEYS_def

record ('k, 'v) BTreeNode =
  node_page_id :: PageId
  ntype :: BTreeNodeType
  key_count :: nat
  child_count :: nat
  parent_id :: PageId
  next_id :: PageId
  prev_id :: PageId
  level :: u32
  keys :: "'k list"
  vals :: "'v list"
  children :: "PageId list"
  dirty :: bool

text \<open>The constructor; \<open>k0\<close> and \<open>v0\<close> are the zeroed key and value.\<close>

definition BTreeNode_new :: "'k \<Rightarrow> 'v \<Rightarrow> PageId \<Rightarrow> BTreeNodeType \<Rightarrow> ('k, 'v) BTreeNode" where
  "BTreeNode_new k0 v0 pid t =
     \<lparr>node_page_id = pid, ntype = t, key_count = 0, child_count = 0, parent_id = INVALID_PAGE_ID,
      next_id = INVALID_PAGE_ID, prev_id = INVALID_PAGE_ID, level = 0,
      keys = replicate MAX_KEYS k0, vals = replicate MAX_KEYS v0,
      children = replicate ORDER INVALID_PAGE_ID, dirty = False\<rparr>"

definition isLeaf :: "('k, 'v) BTreeNode \<Rightarrow> bool" where
  "isLeaf n \<longleftrightarrow> ntype n = LEAF"

definition isRoot :: "('k, 'v) BTreeNode \<Rightarrow> bool" where
  "isRoot n \<longleftrightarrow> ntype n = ROOT"

definition node_isFull :: "('k, 'v) BTreeNode \<Rightarrow> bool" where
  "node_isFull n \<longleftrightarrow> key_count n \<ge> MAX_KEYS"

definition isUnderflow :: "('k, 'v) BTreeNode \<Rightarrow> bool" where
  "isUnderflow n \<longleftrightarrow> key_count n < MIN_KEYS"

definition inc16 :: "nat \<Rightarrow> nat" where "inc16 c = (c + 1) mod 65536"
definition dec16 :: "nat \<Rightarrow> nat" where "dec16 c = (if c = 0 then 65535 else c - 1)"

text \<open>\<^const>\<open>None\<close>: the exception \<^verbatim>\<open>std::out_of_range\<close>.\<close>

definition getKey :: "('k, 'v) BTreeNode \<Rightarrow> nat \<Rightarrow> 'k option" where
  "getKey n i = (if i \<ge> key_count n then None else Some (keys n ! i))"

definition setKey :: "('k, 'v) BTreeNode \<Rightarrow> nat \<Rightarrow> 'k \<Rightarrow> ('k, 'v) BTreeNode" where
  "setKey n i k =
     (if i \<ge> MAX_KEYS then n
      else n\<lparr>keys := (keys n)[i := k], key_count := (if i \<ge> key_count n then i + 1 else key_count n),
             dirty := True\<rparr>)"

definition getValue :: "('k, 'v) BTreeNode \<Rightarrow> nat \<Rightarrow> 'v option" where
  "getValue n i = (if \<not> isLeaf n \<or> i \<ge> key_count n then None else Some (vals n ! i))"

definition setValue :: "('k, 'v) BTreeNode \<Rightarrow> nat \<Rightarrow> 'v \<Rightarrow> ('k, 'v) BTreeNode" where
  "setValue n i v =
     (if \<not> isLeaf n \<or> i \<ge> MAX_KEYS then n else n\<lparr>vals := (vals n)[i := v], dirty := True\<rparr>)"

definition getChild :: "('k, 'v) BTreeNode \<Rightarrow> nat \<Rightarrow> PageId" where
  "getChild n i = (if isLeaf n \<or> i \<ge> child_count n then INVALID_PAGE_ID else children n ! i)"

definition setChild :: "('k, 'v) BTreeNode \<Rightarrow> nat \<Rightarrow> PageId \<Rightarrow> ('k, 'v) BTreeNode" where
  "setChild n i c =
     (if isLeaf n \<or> i \<ge> ORDER then n
      else n\<lparr>children := (children n)[i := c],
             child_count := (if i \<ge> child_count n then i + 1 else child_count n), dirty := True\<rparr>)"

section \<open>Search\<close>

text \<open>
  The binary search, on \<^verbatim>\<open>int\<close> bounds as in the code. Outer \<^const>\<open>None\<close>: an access
  outside the key array.
\<close>

function find_loop :: "('k::linorder) list \<Rightarrow> 'k \<Rightarrow> int \<Rightarrow> int \<Rightarrow> int option" where
  "find_loop ks k left right =
     (if left \<le> right then
        let mid = (left + right) div 2 in
        if mid < 0 \<or> length ks \<le> nat mid then None
        else if ks ! nat mid = k then Some mid
        else if ks ! nat mid < k then find_loop ks k (mid + 1) right
        else find_loop ks k left (mid - 1)
      else Some right)"
  by pat_completeness auto
termination
  by (relation "measure (\<lambda>(ks, k, left, right). nat (right - left + 1))") auto

declare find_loop.simps [simp del]

definition findKeyIndex :: "('k::linorder, 'v) BTreeNode \<Rightarrow> 'k \<Rightarrow> int option" where
  "findKeyIndex n k = find_loop (keys n) k 0 (int (key_count n) - 1)"

definition findChildIndex :: "('k::linorder, 'v) BTreeNode \<Rightarrow> 'k \<Rightarrow> int option" where
  "findChildIndex n k =
     (if isLeaf n then Some (-1)
      else case findKeyIndex n k of
        None \<Rightarrow> None
      | Some pos \<Rightarrow>
          if pos < 0 then Some 0
          else if pos < int (key_count n) \<and> keys n ! nat pos \<le> k then Some (pos + 1)
          else Some pos)"

section \<open>Insertion and removal\<close>

text \<open>\<open>for (int i = from; i > start; i--) a[i] = a[i - 1]\<close>\<close>

fun shift_up :: "nat \<Rightarrow> nat \<Rightarrow> 'a list \<Rightarrow> 'a list option" where
  "shift_up start 0 xs = Some xs"
| "shift_up start (Suc i) xs =
     (if Suc i > start
      then if Suc i < length xs then shift_up start i (xs[Suc i := xs ! i]) else None
      else Some xs)"

text \<open>\<open>for (int i = start; i < end; i++) a[i] = a[i + 1]\<close>, with \<open>n\<close> rounds to go\<close>

fun shift_down :: "nat \<Rightarrow> nat \<Rightarrow> 'a list \<Rightarrow> 'a list option" where
  "shift_down i 0 xs = Some xs"
| "shift_down i (Suc n) xs =
     (if Suc i < length xs then shift_down (Suc i) n (xs[i := xs ! Suc i]) else None)"

definition shiftRight :: "nat \<Rightarrow> ('k, 'v) BTreeNode \<Rightarrow> ('k, 'v) BTreeNode option" where
  "shiftRight start n =
     (case shift_up start (key_count n) (keys n) of None \<Rightarrow> None
      | Some ks \<Rightarrow>
          if isLeaf n then
            map_option (\<lambda>vs. n\<lparr>keys := ks, vals := vs\<rparr>) (shift_up start (key_count n) (vals n))
          else
            map_option (\<lambda>cs. n\<lparr>keys := ks, children := cs\<rparr>)
              (shift_up start (child_count n) (children n)))"

definition shiftLeft :: "nat \<Rightarrow> ('k, 'v) BTreeNode \<Rightarrow> ('k, 'v) BTreeNode option" where
  "shiftLeft start n =
     (case shift_down start (key_count n - 1 - start) (keys n) of None \<Rightarrow> None
      | Some ks \<Rightarrow>
          if isLeaf n then
            map_option (\<lambda>vs. n\<lparr>keys := ks, vals := vs\<rparr>)
              (shift_down start (key_count n - 1 - start) (vals n))
          else
            map_option (\<lambda>cs. n\<lparr>keys := ks, children := cs\<rparr>)
              (shift_down start (child_count n - 1 - start) (children n)))"

definition insertAt :: "nat \<Rightarrow> 'k \<Rightarrow> 'v \<Rightarrow> PageId \<Rightarrow> ('k, 'v) BTreeNode \<Rightarrow>
    (bool \<times> ('k, 'v) BTreeNode) option" where
  "insertAt i k v c n =
     (if node_isFull n then Some (False, n)
      else case shiftRight i n of None \<Rightarrow> None
      | Some n \<Rightarrow>
          if length (keys n) \<le> i \<or> (if isLeaf n then length (vals n) else length (children n)) \<le> i then None
          else
            let n = n\<lparr>keys := (keys n)[i := k]\<rparr>;
                n = (if isLeaf n then n\<lparr>vals := (vals n)[i := v]\<rparr>
                     else n\<lparr>children := (children n)[i := c], child_count := inc16 (child_count n)\<rparr>)
            in Some (True, n\<lparr>key_count := inc16 (key_count n), dirty := True\<rparr>))"

definition node_insert :: "('k::linorder) \<Rightarrow> 'v \<Rightarrow> PageId \<Rightarrow> ('k, 'v) BTreeNode \<Rightarrow>
    (bool \<times> ('k, 'v) BTreeNode) option" where
  "node_insert k v c n =
     (case findKeyIndex n k of
        None \<Rightarrow> None
      | Some pos \<Rightarrow>
          if pos \<ge> 0 \<and> pos < int (key_count n) \<and> keys n ! nat pos = k then
            (if isLeaf n then Some (True, n\<lparr>vals := (vals n)[nat pos := v], dirty := True\<rparr>)
             else Some (False, n))
          else insertAt (if pos < 0 then 0 else if k > keys n ! nat pos then nat pos + 1 else nat pos)
                 k v c n)"

definition node_remove_at :: "'k \<Rightarrow> 'v \<Rightarrow> nat \<Rightarrow> ('k, 'v) BTreeNode \<Rightarrow> (bool \<times> ('k, 'v) BTreeNode) option" where
  "node_remove_at k0 v0 i n =
     (if i \<ge> key_count n then Some (False, n)
      else
        let n = n\<lparr>keys := (keys n)[i := k0]\<rparr>;
            n = (if isLeaf n then n\<lparr>vals := (vals n)[i := v0]\<rparr> else n) in
        case shiftLeft i n of None \<Rightarrow> None
        | Some n \<Rightarrow>
            let n = n\<lparr>key_count := dec16 (key_count n)\<rparr>;
                n = (if \<not> isLeaf n then n\<lparr>child_count := dec16 (child_count n)\<rparr> else n)
            in Some (True, n\<lparr>dirty := True\<rparr>))"

text \<open>
  Which of the two overloads a call \<^verbatim>\<open>remove(i)\<close> with an \<^verbatim>\<open>int\<close> argument means
  depends on the key type. For \<^verbatim>\<open>std::string\<close> only the index overload accepts an integer.
  For \<^verbatim>\<open>int32_t\<close> the key overload is the exact match, and the index is taken as a key. For
  \<^verbatim>\<open>int64_t\<close> both need a conversion of the same rank: the call is ambiguous and the
  instantiation does not compile.
\<close>

datatype 'k remove_overload = By_index | By_key "int \<Rightarrow> 'k"

definition remove_string :: "string remove_overload" where "remove_string = By_index"
definition remove_int32 :: "int remove_overload" where "remove_int32 = By_key id"

text \<open>
  Removal of a key. With the key overload the call inside is a recursive call; a recursion that does
  not end has the value \<^const>\<open>None\<close>, like an access outside an array: both are undefined.
\<close>

partial_function (option) node_remove :: "'k remove_overload \<Rightarrow> ('k::linorder) \<Rightarrow> 'v \<Rightarrow> 'k \<Rightarrow> ('k, 'v) BTreeNode \<Rightarrow>
    (bool \<times> ('k, 'v) BTreeNode) option" where
  "node_remove ov k0 v0 k n =
     (case findKeyIndex n k of
        None \<Rightarrow> None
      | Some pos \<Rightarrow>
          if pos < 0 \<or> pos \<ge> int (key_count n) \<or> keys n ! nat pos \<noteq> k then Some (False, n)
          else (case ov of
              By_index \<Rightarrow> node_remove_at k0 v0 (nat pos) n
            | By_key conv \<Rightarrow> node_remove ov k0 v0 (conv pos) n))"

definition remove_int :: "'k remove_overload \<Rightarrow> ('k::linorder) \<Rightarrow> 'v \<Rightarrow> nat \<Rightarrow> ('k, 'v) BTreeNode \<Rightarrow>
    (bool \<times> ('k, 'v) BTreeNode) option" where
  "remove_int ov k0 v0 i n =
     (case ov of By_index \<Rightarrow> node_remove_at k0 v0 i n | By_key conv \<Rightarrow> node_remove ov k0 v0 (conv (int i)) n)"

section \<open>Split, merge, redistribution\<close>

text \<open>\<open>for (int i = 0; i < n; i++) dst[d + i] = src[s + i]\<close>\<close>

fun copy_range :: "nat \<Rightarrow> nat \<Rightarrow> nat \<Rightarrow> 'a list \<Rightarrow> 'a list \<Rightarrow> 'a list option" where
  "copy_range 0 s d src dst = Some dst"
| "copy_range (Suc n) s d src dst =
     (if s < length src \<and> d < length dst
      then copy_range n (Suc s) (Suc d) src (dst[d := src ! s]) else None)"

text \<open>
  The result is the new right node and the changed left one. The copy of the children runs
  up to and including index \<open>child_count\<close>.
\<close>

definition node_split :: "'k \<Rightarrow> 'v \<Rightarrow> ('k, 'v) BTreeNode \<Rightarrow>
    (('k, 'v) BTreeNode \<times> ('k, 'v) BTreeNode) option" where
  "node_split k0 v0 n =
     (let new = (BTreeNode_new k0 v0 INVALID_PAGE_ID (ntype n))\<lparr>level := level n, dirty := True\<rparr>;
          mid = key_count n div 2;
          moved = key_count n - mid - 1 in
      case copy_range moved (mid + 1) 0 (keys n) (keys new) of None \<Rightarrow> None
      | Some ks \<Rightarrow>
        (case (if isLeaf n then copy_range moved (mid + 1) 0 (vals n) (vals new) else Some (vals new)) of
           None \<Rightarrow> None
         | Some vs \<Rightarrow>
           (case (if isLeaf n then Some (children new)
                  else copy_range (child_count n - mid) (mid + 1) 0 (children n) (children new)) of
              None \<Rightarrow> None
            | Some cs \<Rightarrow>
                let new = new\<lparr>keys := ks, vals := vs, children := cs, key_count := moved,
                      child_count := (if isLeaf n then 0 else (child_count n + 65536 - mid - 1) mod 65536)\<rparr>;
                    n' = n\<lparr>key_count := mid,
                      child_count := (if isLeaf n then child_count n else mid + 1)\<rparr>;
                    new = (if isLeaf n then new\<lparr>next_id := next_id n, prev_id := node_page_id n\<rparr> else new);
                    n' = (if isLeaf n then n'\<lparr>next_id := node_page_id new\<rparr> else n')
                in Some (new, n'\<lparr>dirty := True\<rparr>))))"

definition node_merge :: "('k, 'v) BTreeNode \<Rightarrow> ('k, 'v) BTreeNode \<Rightarrow> (bool \<times> ('k, 'v) BTreeNode) option" where
  "node_merge n right =
     (if ntype n \<noteq> ntype right \<or> level n \<noteq> level right then Some (False, n)
      else case copy_range (key_count right) 0 (key_count n) (keys right) (keys n) of None \<Rightarrow> None
      | Some ks \<Rightarrow>
        (case (if isLeaf n then copy_range (key_count right) 0 (key_count n) (vals right) (vals n)
               else Some (vals n)) of None \<Rightarrow> None
         | Some vs \<Rightarrow>
           (case (if isLeaf n then Some (children n)
                  else copy_range (child_count right + 1) 0 (child_count n) (children right) (children n)) of
              None \<Rightarrow> None
            | Some cs \<Rightarrow>
                Some (True, n\<lparr>keys := ks, vals := vs, children := cs,
                  child_count := (if isLeaf n then child_count n
                                  else (child_count n + child_count right) mod 65536),
                  key_count := (key_count n + key_count right) mod 65536,
                  next_id := (if isLeaf n then next_id right else next_id n), dirty := True\<rparr>))))"

text \<open>
  Borrow one key from a neighbour; the result is the node and the neighbour. Borrowing from
  the left does not change the node's counters.
\<close>

definition redistribute :: "'k remove_overload \<Rightarrow> ('k::linorder) \<Rightarrow> 'v \<Rightarrow> ('k, 'v) BTreeNode \<Rightarrow> ('k, 'v) BTreeNode \<Rightarrow> bool \<Rightarrow>
    (('k, 'v) BTreeNode \<times> ('k, 'v) BTreeNode) option" where
  "redistribute ov k0 v0 n nb from_left =
     (if from_left then
        (case shiftRight 0 n of None \<Rightarrow> None
         | Some n \<Rightarrow>
             if key_count nb = 0 \<or> (\<not> isLeaf n \<and> child_count nb = 0) then None
             else
               let n = n\<lparr>keys := (keys n)[0 := keys nb ! (key_count nb - 1)]\<rparr>;
                   n = (if isLeaf n then n\<lparr>vals := (vals n)[0 := vals nb ! (key_count nb - 1)]\<rparr>
                        else n\<lparr>children := (children n)[0 := children nb ! (child_count nb - 1)]\<rparr>)
               in case remove_int ov k0 v0 (key_count nb - 1) nb of None \<Rightarrow> None
                  | Some (_, nb) \<Rightarrow> Some (n\<lparr>dirty := True\<rparr>, nb))
      else
        if length (keys n) \<le> key_count n \<or> (\<not> isLeaf n \<and> length (children n) \<le> child_count n) then None
        else
          let m = n\<lparr>keys := (keys n)[key_count n := keys nb ! 0]\<rparr>;
              m = (if isLeaf n then m\<lparr>vals := (vals n)[key_count n := vals nb ! 0]\<rparr>
                   else m\<lparr>children := (children n)[child_count n := children nb ! 0]\<rparr>)
          in case remove_int ov k0 v0 0 nb of None \<Rightarrow> None
             | Some (_, nb) \<Rightarrow>
                 let m = m\<lparr>key_count := inc16 (key_count n)\<rparr>;
                     m = (if \<not> isLeaf n then m\<lparr>child_count := inc16 (child_count n)\<rparr> else m)
                 in Some (m\<lparr>dirty := True\<rparr>, nb))"

section \<open>The binary search\<close>

lemma find_loop_correct:
  assumes "sorted_wrt (<) (take m ks)" and "m \<le> length ks"
    and "0 \<le> left" and "left \<le> right + 1" and "right < int m"
    and "\<And>j. int j < left \<Longrightarrow> ks ! j < k" and "\<And>j. right < int j \<Longrightarrow> j < m \<Longrightarrow> k < ks ! j"
  shows "\<exists>i. find_loop ks k left right = Some i \<and> -1 \<le> i \<and> i < int m \<and>
    (\<forall>j < m. ks ! j \<le> k \<longleftrightarrow> int j \<le> i)"
  using assms
proof (induction ks k left right rule: find_loop.induct)
  case (1 ks k left right)
  have less: "ks ! a < ks ! b" if "a < b" "b < m" for a b
    using "1.prems"(1,2) that by (auto simp: sorted_wrt_iff_nth_less)
  show ?case
  proof (cases "left \<le> right")
    case False
    then have "right = left - 1" using "1.prems"(4) by simp
    moreover have "ks ! j \<le> k \<longleftrightarrow> int j \<le> right" if "j < m" for j
      using "1.prems"(6,7) [of j] that False \<open>right = left - 1\<close> by (cases "int j < left") auto
    ultimately show ?thesis
      using False "1.prems"(3,5) by (subst find_loop.simps) auto
  next
    case True
    define mid where "mid = (left + right) div 2"
    have mid: "left \<le> mid" "mid \<le> right" using True by (auto simp: mid_def)
    then have b: "0 \<le> mid" "nat mid < m" "nat mid < length ks" using "1.prems"(2,3,5) by auto
    have step: "find_loop ks k left right = (if ks ! nat mid = k then Some mid
        else if ks ! nat mid < k then find_loop ks k (mid + 1) right else find_loop ks k left (mid - 1))"
      using True b by (subst find_loop.simps) (simp add: Let_def mid_def [symmetric])
    have below: "ks ! j < ks ! nat mid" if "int j < mid" for j
      using that b by (intro less) auto
    have above: "ks ! nat mid < ks ! j" if "mid < int j" "j < m" for j
      using that b by (intro less) auto
    consider "ks ! nat mid = k" | "ks ! nat mid < k" | "k < ks ! nat mid" by fastforce
    then show ?thesis
    proof cases
      case 1
      have "ks ! j \<le> k \<longleftrightarrow> int j \<le> mid" if "j < m" for j
      proof (cases "int j" mid rule: linorder_cases)
        case equal
        then show ?thesis using 1 b by auto
      qed (use below above that 1 in \<open>fastforce+\<close>)
      then show ?thesis using step 1 b by auto
    next
      case 2
      have "\<exists>i. find_loop ks k (mid + 1) right = Some i \<and> -1 \<le> i \<and> i < int m \<and>
          (\<forall>j < m. ks ! j \<le> k \<longleftrightarrow> int j \<le> i)"
      proof (rule "1.IH"(1) [OF True mid_def])
        show "ks ! j < k" if "int j < mid + 1" for j
          using below [of j] 2 that b by (cases "int j = mid") auto
      qed (use 2 b mid "1.prems" in auto)
      then show ?thesis using step 2 by auto
    next
      case 3
      have "\<exists>i. find_loop ks k left (mid - 1) = Some i \<and> -1 \<le> i \<and> i < int m \<and>
          (\<forall>j < m. ks ! j \<le> k \<longleftrightarrow> int j \<le> i)"
      proof (rule "1.IH"(2) [OF True mid_def])
        show "k < ks ! j" if "mid - 1 < int j" "j < m" for j
          using above [of j] 3 that b by (cases "int j = mid") auto
      qed (use 3 b mid "1.prems" in auto)
      then show ?thesis using step 3 by auto
    qed
  qed
qed

definition sorted_keys :: "('k::linorder, 'v) BTreeNode \<Rightarrow> bool" where
  "sorted_keys n \<longleftrightarrow> length (keys n) = MAX_KEYS \<and> key_count n \<le> MAX_KEYS \<and>
     sorted_wrt (<) (take (key_count n) (keys n))"

lemma findKeyIndex_sorted:
  assumes "sorted_keys n"
  obtains i where "findKeyIndex n k = Some i" and "-1 \<le> i" and "i < int (key_count n)"
    and "\<And>j. j < key_count n \<Longrightarrow> keys n ! j \<le> k \<longleftrightarrow> int j \<le> i"
  using assms find_loop_correct [of "key_count n" "keys n" 0 "int (key_count n) - 1" k]
  by (auto simp: sorted_keys_def findKeyIndex_def)

text \<open>The two outcomes of the search.\<close>

lemma findKeyIndex_cases [consumes 1, case_names found missing]:
  assumes s: "sorted_keys n"
  obtains i where "findKeyIndex n k = Some (int i)" and "i < key_count n" and "keys n ! i = k"
    | p where "findKeyIndex n k = Some (int p - 1)" and "p \<le> key_count n"
      and "\<And>j. j < p \<Longrightarrow> keys n ! j < k" and "\<And>j. p \<le> j \<Longrightarrow> j < key_count n \<Longrightarrow> k < keys n ! j"
proof -
  have less: "keys n ! a < keys n ! b" if "a < b" "b < key_count n" for a b
    using s that by (auto simp: sorted_keys_def sorted_wrt_iff_nth_less)
  obtain i where i: "findKeyIndex n k = Some i" "-1 \<le> i" "i < int (key_count n)"
    "\<And>j. j < key_count n \<Longrightarrow> keys n ! j \<le> k \<longleftrightarrow> int j \<le> i"
    using findKeyIndex_sorted [OF s] by metis
  show thesis
  proof (cases "i \<ge> 0 \<and> keys n ! nat i = k")
    case True
    then show thesis using that(1) [of "nat i"] i(1,3) by auto
  next
    case False
    show thesis
    proof (rule that(2) [of "nat (i + 1)"])
      show "keys n ! j < k" if "j < nat (i + 1)" for j
      proof (cases "j = nat i")
        case True
        then have "0 \<le> i" "j < key_count n" "int j \<le> i" using that i(3) by auto
        then have "keys n ! j \<le> k" "keys n ! j \<noteq> k" using i(4) [of j] False True by blast+
        then show ?thesis by simp
      next
        case neq: False
        then have "keys n ! j < keys n ! nat i" using that i(3) by (intro less) auto
        also have "\<dots> \<le> k"
        proof -
          have "nat i < key_count n" "int (nat i) \<le> i" using that i(3) by auto
          then show ?thesis using i(4) [of "nat i"] by blast
        qed
        finally show ?thesis .
      qed
      show "k < keys n ! j" if "nat (i + 1) \<le> j" "j < key_count n" for j
      proof -
        have "\<not> int j \<le> i" using that(1) i(2) by auto
        then show ?thesis using i(4) [OF that(2)] by simp
      qed
    qed (use i(1-3) in auto)
  qed
qed

section \<open>Shifting\<close>

lemma shift_up_nth:
  "i < length xs \<Longrightarrow> \<exists>ys. shift_up start i xs = Some ys \<and> length ys = length xs \<and>
     (\<forall>j < length xs. ys ! j = (if start < j \<and> j \<le> i then xs ! (j - 1) else xs ! j))"
proof (induction i arbitrary: xs)
  case (Suc i)
  show ?case
  proof (cases "start < Suc i")
    case True
    let ?xs = "xs[Suc i := xs ! i]"
    obtain ys where "shift_up start i ?xs = Some ys" "length ys = length ?xs"
      "\<forall>j < length ?xs. ys ! j = (if start < j \<and> j \<le> i then ?xs ! (j - 1) else ?xs ! j)"
      using Suc.IH [of ?xs] Suc.prems by auto
    then show ?thesis using True Suc.prems by (auto simp: nth_list_update le_Suc_eq)
  qed (use Suc.prems in auto)
qed auto

lemma shift_down_nth:
  "i + n < length xs \<or> n = 0 \<Longrightarrow> \<exists>ys. shift_down i n xs = Some ys \<and> length ys = length xs \<and>
     (\<forall>j < length xs. ys ! j = (if i \<le> j \<and> j < i + n then xs ! (j + 1) else xs ! j))"
proof (induction n arbitrary: i xs)
  case (Suc n)
  let ?xs = "xs[i := xs ! Suc i]"
  obtain ys where "shift_down (Suc i) n ?xs = Some ys" "length ys = length ?xs"
    "\<forall>j < length ?xs. ys ! j = (if Suc i \<le> j \<and> j < Suc i + n then ?xs ! (j + 1) else ?xs ! j)"
    using Suc.IH [of "Suc i" ?xs] Suc.prems by auto
  then show ?case using Suc.prems by (auto simp: nth_list_update not_less_eq_eq dest: le_antisym)
qed auto

text \<open>Opening a gap and filling it inserts into the used part of an array.\<close>

lemma shift_up_insert:
  assumes "p \<le> m" and "m < length xs"
  obtains ys where "shift_up p m xs = Some ys" and "length ys = length xs"
    and "take (Suc m) (ys[p := x]) = take p (take m xs) @ x # drop p (take m xs)"
proof -
  obtain ys where ys: "shift_up p m xs = Some ys" "length ys = length xs"
    "\<And>j. j < length xs \<Longrightarrow> ys ! j = (if p < j \<and> j \<le> m then xs ! (j - 1) else xs ! j)"
    using shift_up_nth [OF assms(2), of p] by auto
  have "take (Suc m) (ys[p := x]) = take p (take m xs) @ x # drop p (take m xs)"
  proof (rule nth_equalityI)
    fix j assume "j < length (take (Suc m) (ys[p := x]))"
    then have "j < Suc m" "j < length xs" using ys assms by simp_all
    then show "take (Suc m) (ys[p := x]) ! j = (take p (take m xs) @ x # drop p (take m xs)) ! j"
      using ys assms by (cases j p rule: linorder_cases) (auto simp: nth_append nth_Cons' min_def)
  qed (use ys assms in simp)
  with ys that show thesis by blast
qed

lemma shift_down_remove:
  assumes "p < m" and "m \<le> length xs"
  obtains ys where "shift_down p (m - 1 - p) (xs[p := x]) = Some ys" and "length ys = length xs"
    and "take (m - 1) ys = take p (take m xs) @ drop (Suc p) (take m xs)"
proof -
  have "p + (m - 1 - p) < length (xs[p := x]) \<or> m - 1 - p = 0" using assms by auto
  from shift_down_nth [OF this]
  obtain ys where ys: "shift_down p (m - 1 - p) (xs[p := x]) = Some ys" "length ys = length xs"
    "\<And>j. j < length xs \<Longrightarrow> ys ! j = (if p \<le> j \<and> j < p + (m - 1 - p) then xs[p := x] ! (j + 1) else xs[p := x] ! j)"
    unfolding length_list_update by blast
  have "take (m - 1) ys = take p (take m xs) @ drop (Suc p) (take m xs)"
  proof (rule nth_equalityI)
    fix j assume "j < length (take (m - 1) ys)"
    then have "j < m - 1" "j < length xs" using ys assms by simp_all
    then show "take (m - 1) ys ! j = (take p (take m xs) @ drop (Suc p) (take m xs)) ! j"
      using ys assms by (cases "j < p") (auto simp: nth_append min_def)
  qed (use ys assms in simp)
  with ys that show thesis by blast
qed

section \<open>A leaf is a bounded map\<close>

definition leaf_ok :: "('k::linorder, 'v) BTreeNode \<Rightarrow> bool" where
  "leaf_ok n \<longleftrightarrow> isLeaf n \<and> sorted_keys n \<and> length (vals n) = MAX_KEYS"

definition used_keys :: "('k, 'v) BTreeNode \<Rightarrow> 'k list" where
  "used_keys n = take (key_count n) (keys n)"

definition used_vals :: "('k, 'v) BTreeNode \<Rightarrow> 'v list" where
  "used_vals n = take (key_count n) (vals n)"

definition node_map :: "('k, 'v) BTreeNode \<Rightarrow> 'k \<Rightarrow> 'v option" where
  "node_map n = map_of (zip (used_keys n) (used_vals n))"

lemma leaf_okD:
  assumes "leaf_ok n"
  shows "isLeaf n" "sorted_keys n" "length (keys n) = 127" "length (vals n) = 127" "key_count n \<le> 127"
    and "length (used_keys n) = key_count n" "length (used_vals n) = key_count n"
    and "sorted_wrt (<) (used_keys n)" "distinct (used_keys n)"
  using assms
  by (auto simp: leaf_ok_def sorted_keys_def node_sizes used_keys_def used_vals_def strict_sorted_iff)

lemma dom_node_map: "leaf_ok n \<Longrightarrow> dom (node_map n) = set (used_keys n)"
  by (simp add: node_map_def leaf_okD)

lemma card_node_map: "leaf_ok n \<Longrightarrow> card (dom (node_map n)) = key_count n"
  by (metis distinct_card dom_node_map leaf_okD(6,9))

lemma map_of_middle:
  "map_of as k = None \<Longrightarrow> map_of (as @ (k, v) # bs) = (map_of (as @ bs))(k \<mapsto> v)"
  by (auto simp: map_add_def fun_eq_iff split: option.split)

lemma map_of_zip_insert:
  assumes "length ks = length vs" and "p \<le> length ks" and "k \<notin> set ks"
  shows "map_of (zip (take p ks @ k # drop p ks) (take p vs @ v # drop p vs)) = (map_of (zip ks vs))(k \<mapsto> v)"
proof -
  have "map_of (take p (zip ks vs)) k = None"
    using assms(3) by (auto simp: map_of_eq_None_iff dest!: in_set_takeD set_zip_leftD)
  then have "map_of (take p (zip ks vs) @ (k, v) # drop p (zip ks vs)) = (map_of (zip ks vs))(k \<mapsto> v)"
    by (simp only: map_of_middle append_take_drop_id)
  moreover have "zip (take p ks @ k # drop p ks) (take p vs @ v # drop p vs)
      = take p (zip ks vs) @ (k, v) # drop p (zip ks vs)"
    using assms(1,2) by (simp add: take_zip drop_zip)
  ultimately show ?thesis by simp
qed

lemma map_of_zip_split:
  assumes "length ks = length vs" and "p < length ks" and "distinct ks"
  defines "ks' \<equiv> take p ks @ drop (Suc p) ks" and "vs' \<equiv> take p vs @ drop (Suc p) vs"
  shows "map_of (zip ks (vs[p := v])) = (map_of (zip ks' vs'))(ks ! p \<mapsto> v)"
    and "map_of (zip ks' vs') (ks ! p) = None"
proof -
  have ks: "take p ks' @ ks ! p # drop p ks' = ks" and vs: "take p vs' @ v # drop p vs' = vs[p := v]"
    using assms(1,2) by (simp_all add: ks'_def vs'_def id_take_nth_drop [symmetric] upd_conv_take_nth_drop)
  have "distinct (take p ks' @ ks ! p # drop p ks')" by (simp only: ks assms(3))
  moreover have "set ks' = set (take p ks') \<union> set (drop p ks')" by (metis append_take_drop_id set_append)
  ultimately have nin: "ks ! p \<notin> set ks'" by auto
  show "map_of (zip ks (vs[p := v])) = (map_of (zip ks' vs'))(ks ! p \<mapsto> v)"
    using map_of_zip_insert [of ks' vs' p "ks ! p" v] nin assms(1,2) unfolding ks vs
    by (simp add: ks'_def vs'_def)
  show "map_of (zip ks' vs') (ks ! p) = None"
    using nin by (auto simp: map_of_eq_None_iff dest: set_zip_leftD)
qed

lemma map_of_zip_change:
  assumes "length ks = length vs" and "p < length ks" and "distinct ks"
  shows "map_of (zip ks (vs[p := v])) = (map_of (zip ks vs))(ks ! p \<mapsto> v)"
  using map_of_zip_split(1) [OF assms, of v] map_of_zip_split(1) [OF assms, of "vs ! p"] by simp

lemma map_of_zip_remove:
  assumes "length ks = length vs" and "p < length ks" and "distinct ks"
  shows "map_of (zip (take p ks @ drop (Suc p) ks) (take p vs @ drop (Suc p) vs))
    = (map_of (zip ks vs))(ks ! p := None)"
  using map_of_zip_split(1) [OF assms, of "vs ! p"] map_of_zip_split(2) [OF assms]
  by (simp add: fun_upd_idem)

lemma sorted_wrt_remove:
  assumes "sorted_wrt P xs" and "i < length xs"
  shows "sorted_wrt P (take i xs @ drop (Suc i) xs)"
proof -
  have "sorted_wrt P (take i xs @ xs ! i # drop (Suc i) xs)"
    using assms by (simp add: id_take_nth_drop [symmetric])
  then show ?thesis by (auto simp: sorted_wrt_append)
qed

lemma insertAt_leaf:
  assumes ok: "leaf_ok n" and p: "p \<le> key_count n" and room: "key_count n < MAX_KEYS"
  obtains n' where "insertAt p k v c n = Some (True, n')" and "isLeaf n'"
    and "key_count n' = Suc (key_count n)" and "length (keys n') = 127" and "length (vals n') = 127"
    and "used_keys n' = take p (used_keys n) @ k # drop p (used_keys n)"
    and "used_vals n' = take p (used_vals n) @ v # drop p (used_vals n)"
proof -
  note D = leaf_okD [OF ok]
  have m: "key_count n < 127" using room by (simp add: node_sizes)
  obtain ks where ks: "shift_up p (key_count n) (keys n) = Some ks" "length ks = 127"
    "take (Suc (key_count n)) (ks[p := k]) = take p (used_keys n) @ k # drop p (used_keys n)"
    using shift_up_insert [OF p, of "keys n" k] m D(3) unfolding used_keys_def by auto
  obtain vs where vs: "shift_up p (key_count n) (vals n) = Some vs" "length vs = 127"
    "take (Suc (key_count n)) (vs[p := v]) = take p (used_vals n) @ v # drop p (used_vals n)"
    using shift_up_insert [OF p, of "vals n" v] m D(4) unfolding used_vals_def by auto
  let ?n = "n\<lparr>keys := ks[p := k], vals := vs[p := v], key_count := Suc (key_count n), dirty := True\<rparr>"
  have "insertAt p k v c n = Some (True, ?n)"
    using ks vs m p D(1) by (simp add: insertAt_def node_isFull_def node_sizes shiftRight_def isLeaf_def
        inc16_def)
  then show thesis
    using that [of ?n] ks vs D(1) by (simp add: used_keys_def used_vals_def isLeaf_def)
qed

lemma sorted_insert:
  assumes "sorted_wrt (<) (ks :: 'k::linorder list)" and "p \<le> length ks"
    and "\<And>j. j < p \<Longrightarrow> ks ! j < k" and "\<And>j. p \<le> j \<Longrightarrow> j < length ks \<Longrightarrow> k < ks ! j"
  shows "sorted_wrt (<) (take p ks @ k # drop p ks)"
proof -
  have "sorted_wrt (<) (take p ks @ drop p ks)" using assms(1) by simp
  moreover have "x < k" if "x \<in> set (take p ks)" for x
    using that assms(2,3) by (auto simp: in_set_conv_nth)
  moreover have "k < y" if "y \<in> set (drop p ks)" for y
    using that assms(2,4) by (auto simp: in_set_conv_nth)
  ultimately show ?thesis by (auto simp: sorted_wrt_append intro: less_trans)
qed

lemma leaf_insert_found:
  assumes ok: "leaf_ok n" and f: "findKeyIndex n k = Some (int i)" "i < key_count n" "keys n ! i = k"
  obtains n' where "node_insert k v c n = Some (True, n')" and "leaf_ok n'"
    and "node_map n' = (node_map n)(k \<mapsto> v)"
proof -
  note D = leaf_okD [OF ok]
  let ?n = "n\<lparr>vals := (vals n)[i := v], dirty := True\<rparr>"
  have "node_insert k v c n = Some (True, ?n)" using f D(1) by (simp add: node_insert_def)
  moreover have "leaf_ok ?n" using ok by (simp add: leaf_ok_def isLeaf_def sorted_keys_def)
  moreover have "node_map ?n = (node_map n)(k \<mapsto> v)"
    using map_of_zip_change [of "used_keys n" "used_vals n" i v] f D(6,7,9)
    by (simp add: node_map_def used_keys_def used_vals_def take_update_swap)
  ultimately show thesis using that by blast
qed

lemma leaf_missing:
  assumes ok: "leaf_ok n" and p: "p \<le> key_count n"
    and lo: "\<And>j. j < p \<Longrightarrow> keys n ! j < k" and hi: "\<And>j. p \<le> j \<Longrightarrow> j < key_count n \<Longrightarrow> k < keys n ! j"
  shows "k \<notin> set (used_keys n)" and "sorted_wrt (<) (take p (used_keys n) @ k # drop p (used_keys n))"
proof -
  note D = leaf_okD [OF ok]
  have nth: "used_keys n ! j = keys n ! j" if "j < key_count n" for j
    using that by (simp add: used_keys_def)
  show "k \<notin> set (used_keys n)"
  proof
    assume "k \<in> set (used_keys n)"
    then obtain j where "j < key_count n" "keys n ! j = k" using D(6) nth by (metis in_set_conv_nth)
    then show False using lo [of j] hi [of j] by (cases "j < p") auto
  qed
  show "sorted_wrt (<) (take p (used_keys n) @ k # drop p (used_keys n))"
    using p lo hi nth D(6,8) by (intro sorted_insert) auto
qed

lemma leaf_insert_missing:
  assumes ok: "leaf_ok n" and f: "findKeyIndex n k = Some (int p - 1)" and p: "p \<le> key_count n"
    and lo: "\<And>j. j < p \<Longrightarrow> keys n ! j < k" and hi: "\<And>j. p \<le> j \<Longrightarrow> j < key_count n \<Longrightarrow> k < keys n ! j"
  shows "if key_count n < MAX_KEYS
    then \<exists>n'. node_insert k v c n = Some (True, n') \<and> leaf_ok n' \<and> node_map n' = (node_map n)(k \<mapsto> v)
    else node_insert k v c n = Some (False, n)"
proof -
  note D = leaf_okD [OF ok] and M = leaf_missing [OF ok p lo hi]
  have "keys n ! (p - 1) < k" if "0 < p" using lo that by simp
  then have ins: "node_insert k v c n = insertAt p k v c n"
    using f p by (cases p) (auto simp: node_insert_def)
  show ?thesis
  proof (cases "key_count n < MAX_KEYS")
    case room: True
    obtain n' where n': "insertAt p k v c n = Some (True, n')" "isLeaf n'"
      "key_count n' = Suc (key_count n)" "length (keys n') = 127" "length (vals n') = 127"
      "used_keys n' = take p (used_keys n) @ k # drop p (used_keys n)"
      "used_vals n' = take p (used_vals n) @ v # drop p (used_vals n)"
      using insertAt_leaf [OF ok p room] by metis
    then have "leaf_ok n'"
      using M(2) room by (simp add: leaf_ok_def sorted_keys_def node_sizes used_keys_def)
    moreover have "node_map n' = (node_map n)(k \<mapsto> v)"
      unfolding node_map_def n'(6,7) using D(6,7) p M(1) by (intro map_of_zip_insert) simp_all
    ultimately show ?thesis using room ins n'(1) by auto
  qed (simp add: ins insertAt_def node_isFull_def)
qed

lemma leaf_insert:
  assumes ok: "leaf_ok n"
  shows "if k \<in> dom (node_map n) \<or> card (dom (node_map n)) < MAX_KEYS
    then \<exists>n'. node_insert k v c n = Some (True, n') \<and> leaf_ok n' \<and> node_map n' = (node_map n)(k \<mapsto> v)
    else node_insert k v c n = Some (False, n)"
  using leaf_okD(2) [OF ok]
proof (cases rule: findKeyIndex_cases [where k = k])
  case (found i)
  have "k \<in> dom (node_map n)"
    using found(2,3) leaf_okD(6) [OF ok] dom_node_map [OF ok] by (metis nth_mem nth_take used_keys_def)
  then show ?thesis using leaf_insert_found [OF ok found] by metis
next
  case (missing p)
  have "k \<notin> dom (node_map n)" using leaf_missing(1) [OF ok missing(2-4)] dom_node_map [OF ok] by simp
  then show ?thesis
    using leaf_insert_missing [OF ok missing, of v c] card_node_map [OF ok] by simp
qed

lemma leaf_remove_at:
  assumes ok: "leaf_ok n" and i: "i < key_count n"
  obtains n' where "node_remove_at k0 v0 i n = Some (True, n')" and "leaf_ok n'"
    and "node_map n' = (node_map n)(keys n ! i := None)"
proof -
  note D = leaf_okD [OF ok]
  obtain ks where ks: "shift_down i (key_count n - 1 - i) ((keys n)[i := k0]) = Some ks" "length ks = 127"
    "take (key_count n - 1) ks = take i (used_keys n) @ drop (Suc i) (used_keys n)"
    using shift_down_remove [OF i, of "keys n" k0] D(3,5) unfolding used_keys_def by auto
  obtain vs where vs: "shift_down i (key_count n - 1 - i) ((vals n)[i := v0]) = Some vs" "length vs = 127"
    "take (key_count n - 1) vs = take i (used_vals n) @ drop (Suc i) (used_vals n)"
    using shift_down_remove [OF i, of "vals n" v0] D(4,5) unfolding used_vals_def by auto
  let ?n = "n\<lparr>keys := ks, vals := vs, key_count := key_count n - 1, dirty := True\<rparr>"
  have "node_remove_at k0 v0 i n = Some (True, ?n)"
    using ks vs i D(1)
    by (simp add: node_remove_at_def Let_def shiftLeft_def isLeaf_def dec16_def del: diff_diff_left)
  moreover have "sorted_wrt (<) (take i (used_keys n) @ drop (Suc i) (used_keys n))"
    using D(6,8) i by (intro sorted_wrt_remove) simp_all
  then have "leaf_ok ?n"
    using ks vs D(1,5) by (simp add: leaf_ok_def sorted_keys_def node_sizes isLeaf_def)
  moreover have "node_map ?n = (node_map n)(keys n ! i := None)"
    using map_of_zip_remove [of "used_keys n" "used_vals n" i] ks(3) vs(3) i D(6,7,9)
    by (simp add: node_map_def used_keys_def used_vals_def)
  ultimately show thesis using that by blast
qed

lemma leaf_remove:
  assumes ok: "leaf_ok n"
  shows "\<exists>n'. node_remove By_index k0 v0 k n = Some (k \<in> dom (node_map n), n') \<and> leaf_ok n' \<and>
    node_map n' = (node_map n)(k := None)"
  using leaf_okD(2) [OF ok]
proof (cases rule: findKeyIndex_cases [where k = k])
  case (found i)
  have "k \<in> dom (node_map n)"
    using found(2,3) leaf_okD(6) [OF ok] dom_node_map [OF ok] by (metis nth_mem nth_take used_keys_def)
  then show ?thesis
    using leaf_remove_at [OF ok found(2), of k0 v0] found by (auto simp: node_remove.simps [of By_index])
next
  case (missing p)
  have "k \<notin> dom (node_map n)" using leaf_missing(1) [OF ok missing(2-4)] dom_node_map [OF ok] by simp
  moreover have "node_remove By_index k0 v0 k n = Some (False, n)"
    using missing by (cases p) (auto simp: node_remove.simps [of By_index])
  ultimately show ?thesis using ok by (auto simp: fun_upd_idem domIff)
qed

section \<open>Sequences of operations\<close>

text \<open>
  The abstract behaviour of a container with room for \<open>cap\<close> keys, and what a client may
  conclude for any sequence of calls from the laws of the single operations.
\<close>

datatype ('k, 'v) map_op = Put 'k 'v | Del 'k

fun map_op_spec :: "nat \<Rightarrow> ('k, 'v) map_op \<Rightarrow> ('k \<Rightarrow> 'v option) \<Rightarrow> ('k \<Rightarrow> 'v option)" where
  "map_op_spec cap (Put k v) m = (if k \<in> dom m \<or> card (dom m) < cap then m(k \<mapsto> v) else m)"
| "map_op_spec cap (Del k) m = m(k := None)"

locale bounded_map =
  fixes inv :: "'n \<Rightarrow> bool"
    and abs :: "'n \<Rightarrow> 'k \<Rightarrow> 'v option"
    and ins :: "'k \<Rightarrow> 'v \<Rightarrow> 'n \<Rightarrow> (bool \<times> 'n) option"
    and del :: "'k \<Rightarrow> 'n \<Rightarrow> (bool \<times> 'n) option"
    and cap :: nat
  assumes ins_law: "inv n \<Longrightarrow> if k \<in> dom (abs n) \<or> card (dom (abs n)) < cap
      then \<exists>n'. ins k v n = Some (True, n') \<and> inv n' \<and> abs n' = (abs n)(k \<mapsto> v)
      else ins k v n = Some (False, n)"
    and del_law: "inv n \<Longrightarrow> \<exists>n'. del k n = Some (k \<in> dom (abs n), n') \<and> inv n' \<and> abs n' = (abs n)(k := None)"
begin

fun run_op :: "('k, 'v) map_op \<Rightarrow> 'n \<Rightarrow> 'n option" where
  "run_op (Put k v) n = map_option snd (ins k v n)"
| "run_op (Del k) n = map_option snd (del k n)"

fun run :: "('k, 'v) map_op list \<Rightarrow> 'n \<Rightarrow> 'n option" where
  "run [] n = Some n"
| "run (op # ops) n = (case run_op op n of None \<Rightarrow> None | Some n' \<Rightarrow> run ops n')"

lemma run_op_refines:
  assumes "inv n"
  shows "\<exists>n'. run_op op n = Some n' \<and> inv n' \<and> abs n' = map_op_spec cap op (abs n)"
proof (cases op)
  case (Put k v)
  then show ?thesis using ins_law [OF assms, of k v] assms by (auto split: if_splits)
next
  case (Del k)
  then show ?thesis using del_law [OF assms, of k] by auto
qed

lemma run_refines:
  "inv n \<Longrightarrow> \<exists>n'. run ops n = Some n' \<and> inv n' \<and> abs n' = fold (map_op_spec cap) ops (abs n)"
proof (induction ops arbitrary: n)
  case (Cons op ops)
  then obtain n1 where "run_op op n = Some n1" "inv n1" "abs n1 = map_op_spec cap op (abs n)"
    using run_op_refines by blast
  with Cons.IH [of n1] show ?case by simp
qed simp

end

fun leaf_run :: "'k remove_overload \<Rightarrow> ('k::linorder) \<Rightarrow> 'v \<Rightarrow> ('k, 'v) map_op list \<Rightarrow> ('k, 'v) BTreeNode \<Rightarrow>
    ('k, 'v) BTreeNode option" where
  "leaf_run ov k0 v0 [] n = Some n"
| "leaf_run ov k0 v0 (Put k v # ops) n =
     (case node_insert k v INVALID_PAGE_ID n of None \<Rightarrow> None | Some (b, n') \<Rightarrow> leaf_run ov k0 v0 ops n')"
| "leaf_run ov k0 v0 (Del k # ops) n =
     (case node_remove ov k0 v0 k n of None \<Rightarrow> None | Some (b, n') \<Rightarrow> leaf_run ov k0 v0 ops n')"

text \<open>The zeroed key and value only fill unused cells, so any two values do.\<close>

interpretation leaf_map: bounded_map leaf_ok node_map
  "\<lambda>k v. node_insert k v INVALID_PAGE_ID" "node_remove By_index k0 v0" MAX_KEYS
  for k0 :: "'k::linorder" and v0 :: 'v
proof
  fix n :: "('k, 'v) BTreeNode" and k v
  assume ok: "leaf_ok n"
  show "if k \<in> dom (node_map n) \<or> card (dom (node_map n)) < MAX_KEYS
    then \<exists>n'. node_insert k v INVALID_PAGE_ID n = Some (True, n') \<and> leaf_ok n' \<and>
      node_map n' = (node_map n)(k \<mapsto> v)
    else node_insert k v INVALID_PAGE_ID n = Some (False, n)"
    by (rule leaf_insert [OF ok])
  show "\<exists>n'. node_remove By_index k0 v0 k n = Some (k \<in> dom (node_map n), n') \<and> leaf_ok n' \<and>
      node_map n' = (node_map n)(k := None)"
    by (rule leaf_remove [OF ok])
qed

lemma leaf_run_run: "leaf_run By_index k0 v0 ops n = leaf_map.run k0 v0 ops n"
proof (induction ops arbitrary: n)
  case (Cons op ops)
  then show ?case by (cases op) (auto split: option.split)
qed simp

text \<open>With the key overload a removal has no effect, if it ends at all.\<close>

lemma remove_by_key: "node_remove (By_key conv) k0 v0 k n = Some r \<Longrightarrow> r = (False, n)"
proof -
  have "r = (False, n)" if "node_remove ov k0 v0 k n = Some r" "ov = By_key conv" for ov
    using that
  proof (induction rule: node_remove.raw_induct [rotated, consumes 1, case_names step])
    case (step f ov k0 v0 k n r)
    then show ?case by (auto split: option.splits if_splits)
  qed
  then show "node_remove (By_key conv) k0 v0 k n = Some r \<Longrightarrow> r = (False, n)" by blast
qed

fun is_put :: "('k, 'v) map_op \<Rightarrow> bool" where
  "is_put (Put k v) \<longleftrightarrow> True"
| "is_put (Del k) \<longleftrightarrow> False"

lemma leaf_run_by_key:
  "leaf_ok n \<Longrightarrow> leaf_run (By_key conv) k0 v0 ops n = Some n' \<Longrightarrow>
     leaf_ok n' \<and> node_map n' = fold (map_op_spec MAX_KEYS) (filter is_put ops) (node_map n)"
proof (induction ops arbitrary: n)
  case (Cons op ops)
  show ?case
  proof (cases op)
    case (Put k v)
    then obtain m b where m: "node_insert k v INVALID_PAGE_ID n = Some (b, m)" "leaf_run (By_key conv) k0 v0 ops m = Some n'"
      using Cons.prems(2) by (auto split: option.splits)
    then have "leaf_ok m \<and> node_map m = map_op_spec MAX_KEYS (Put k v) (node_map n)"
      using leaf_insert [OF Cons.prems(1), of k v INVALID_PAGE_ID] Cons.prems(1) by (auto split: if_splits)
    with Cons.IH [of m] m(2) Put show ?thesis by simp
  next
    case (Del k)
    with Cons show ?thesis by (auto split: option.splits dest!: remove_by_key)
  qed
qed simp

lemma leaf_ok_new: "leaf_ok (BTreeNode_new k0 v0 pid LEAF)"
  and node_map_new: "node_map (BTreeNode_new k0 v0 pid LEAF) = Map.empty"
  by (simp_all add: leaf_ok_def sorted_keys_def isLeaf_def BTreeNode_new_def node_map_def used_keys_def)

section \<open>Splitting and borrowing\<close>

lemma copy_range_eq:
  "s + m \<le> length src \<Longrightarrow> d + m \<le> length dst \<Longrightarrow>
   copy_range m s d src dst = Some (take d dst @ take m (drop s src) @ drop (d + m) dst)"
proof (induction m arbitrary: s d dst)
  case (Suc m)
  have "take (Suc d) (dst[d := src ! s]) = take d dst @ [src ! s]"
    using Suc.prems(2) by (simp add: take_Suc_conv_app_nth take_update_swap list_update_append)
  moreover have "take (Suc m) (drop s src) = src ! s # take m (drop (Suc s) src)"
    using Suc.prems(1) by (simp add: Cons_nth_drop_Suc [symmetric])
  ultimately show ?case using Suc.IH [of "Suc s" "Suc d" "dst[d := src ! s]"] Suc.prems by simp
qed simp

lemma copy_range_out:
  "s \<le> length src \<Longrightarrow> s + m > length src \<Longrightarrow> copy_range m s d src dst = None"
  by (induction m arbitrary: s d dst) auto

lemma leaf_split_parts:
  assumes ok: "leaf_ok n" and mid: "m = key_count n div 2" and ne: "0 < key_count n"
  obtains new n' where "node_split k0 v0 n = Some (new, n')" and "isLeaf new" and "isLeaf n'"
    and "used_keys n' = take m (used_keys n)" and "used_vals n' = take m (used_vals n)"
    and "used_keys new = drop (Suc m) (used_keys n)" and "used_vals new = drop (Suc m) (used_vals n)"
proof -
  note D = leaf_okD [OF ok]
  let ?k = "key_count n - m - 1"
  let ?new = "BTreeNode_new k0 v0 INVALID_PAGE_ID LEAF"
  have t: "ntype n = LEAF" using D(1) by (simp add: isLeaf_def)
  have le: "m < key_count n" using mid ne by simp
  have ks: "copy_range ?k (m + 1) 0 (keys n) (keys ?new)
      = Some (take ?k (drop (m + 1) (keys n)) @ drop ?k (keys ?new))"
    using le D(3,5) by (subst copy_range_eq) (simp_all add: BTreeNode_new_def node_sizes)
  have vs: "copy_range ?k (m + 1) 0 (vals n) (vals ?new)
      = Some (take ?k (drop (m + 1) (vals n)) @ drop ?k (vals ?new))"
    using le D(4,5) by (subst copy_range_eq) (simp_all add: BTreeNode_new_def node_sizes)
  have nt: "ntype ?new = LEAF" by (simp add: BTreeNode_new_def)
  have take: "take ?k (take ?k (drop (m + 1) xs) @ ys) = drop (Suc m) (take (key_count n) xs)"
    if "length xs = 127" for xs ys :: "'x list"
    using that le D(5) by (simp add: drop_take)
  show thesis
    using that D(1) ks vs take [OF D(3)] take [OF D(4)] le nt
    by (simp add: node_split_def Let_def mid [symmetric] t isLeaf_def used_keys_def used_vals_def
        min_def del: take_append)
qed

lemma map_of_zip_halves:
  assumes "length ks = length vs" and "p < length ks" and "distinct ks"
  shows "map_of (zip (take p ks) (take p vs)) ++ map_of (zip (drop (Suc p) ks) (drop (Suc p) vs))
    = (map_of (zip ks vs))(ks ! p := None)"
proof -
  let ?a = "zip (take p ks) (take p vs)" and ?b = "zip (drop (Suc p) ks) (drop (Suc p) vs)"
  have "zip (take p ks @ drop (Suc p) ks) (take p vs @ drop (Suc p) vs) = ?a @ ?b"
    using assms(1,2) by simp
  then have "map_of ?b ++ map_of ?a = (map_of (zip ks vs))(ks ! p := None)"
    using map_of_zip_remove [OF assms] by simp
  moreover have "set (take p ks) \<inter> set (drop (Suc p) ks) = {}"
    using assms(3) set_take_disj_set_drop_if_distinct [of ks p "Suc p"] by simp
  then have "dom (map_of ?a) \<inter> dom (map_of ?b) = {}"
    using assms(1) by (auto simp: dom_map_of_conv_image_fst dest!: set_zip_leftD)
  then have "map_of ?a ++ map_of ?b = map_of ?b ++ map_of ?a" by (rule map_add_comm)
  ultimately show ?thesis by simp
qed

lemma le_count:
  assumes "p \<le> length ks" and "\<And>j. j < p \<Longrightarrow> ks ! j \<le> k" and "\<And>j. p \<le> j \<Longrightarrow> j < length ks \<Longrightarrow> \<not> ks ! j \<le> k"
  shows "length (filter (\<lambda>x. x \<le> k) ks) = p"
proof -
  have "{i. i < length ks \<and> ks ! i \<le> k} = {..<p}" using assms by (auto simp: not_less [symmetric])
  then show ?thesis by (simp add: length_filter_conv_card)
qed

lemma findKeyIndex_count:
  assumes s: "sorted_keys n"
  shows "findKeyIndex n k = Some (int (length (filter (\<lambda>x. x \<le> k) (used_keys n))) - 1)"
proof -
  have len: "length (used_keys n) = key_count n" using s by (simp add: used_keys_def sorted_keys_def)
  obtain i where i: "findKeyIndex n k = Some i" "-1 \<le> i" "i < int (key_count n)"
    "\<And>j. j < key_count n \<Longrightarrow> keys n ! j \<le> k \<longleftrightarrow> int j \<le> i"
    using findKeyIndex_sorted [OF s] by metis
  have "length (filter (\<lambda>x. x \<le> k) (used_keys n)) = nat (i + 1)"
  proof (rule le_count)
    show "used_keys n ! j \<le> k" if "j < nat (i + 1)" for j
    proof -
      have "j < key_count n" "int j \<le> i" using that i(3) by auto
      then show ?thesis using i(4) by (simp add: used_keys_def)
    qed
    show "\<not> used_keys n ! j \<le> k" if "nat (i + 1) \<le> j" "j < length (used_keys n)" for j
    proof -
      have "j < key_count n" "\<not> int j \<le> i" using that i(2) len by auto
      then show ?thesis using i(4) by (simp add: used_keys_def)
    qed
  qed (use i(3) len in simp)
  then show ?thesis using i(1,2) by simp
qed

section \<open>Properties of nodes\<close>

abbreviation example_leaf :: "(nat, nat) BTreeNode" where
  "example_leaf \<equiv> BTreeNode_new 0 0 1 LEAF"

text \<open>
  On a node whose keys in use are strictly increasing the binary search stays inside the
  key array, ends, and gives the number of keys up to the one sought, minus one; the child to
  descend into is exactly that number of keys.
\<close>

lemma node_search_exact:
  assumes "sorted_keys n"
  shows "findKeyIndex n k = Some (int (length (filter (\<lambda>x. x \<le> k) (used_keys n))) - 1) \<and>
    (\<not> isLeaf n \<longrightarrow> findChildIndex n k = Some (int (length (filter (\<lambda>x. x \<le> k) (used_keys n)))))"
proof -
  note c = findKeyIndex_count [OF assms, of k]
  let ?c = "length (filter (\<lambda>x. x \<le> k) (used_keys n))"
  obtain i where i: "findKeyIndex n k = Some i" "i < int (key_count n)"
    "\<And>j. j < key_count n \<Longrightarrow> keys n ! j \<le> k \<longleftrightarrow> int j \<le> i"
    using findKeyIndex_sorted [OF assms] by metis
  have "keys n ! nat i \<le> k" if "0 \<le> i" using i(2) i(3) [of "nat i"] that by simp
  then show ?thesis using c i(1,2) by (auto simp: findChildIndex_def)
qed

text \<open>
  C3: A leaf with string keys is a map of at most \<open>MAX_KEYS\<close> entries. Any sequence of
  \<^verbatim>\<open>insert\<close> and \<^verbatim>\<open>remove\<close> calls on a well-formed leaf stays inside its
  arrays, keeps it well formed, and has on its contents the effect of the same sequence of
  updates and deletions on a finite map, where an insertion of a new key into a full leaf does
  nothing. With 32-bit integer keys the insertions do the same, but no removal has an effect:
  a sequence that ends leaves the leaf with the effect of its insertions alone.
\<close>

theorem leaf_refines_map:
  fixes n :: "(string, 'v) BTreeNode" and m :: "(int, 'v) BTreeNode"
  assumes "leaf_ok n" and "leaf_ok m"
  shows "(\<exists>n'. leaf_run remove_string k0 v0 ops n = Some n' \<and> leaf_ok n' \<and>
      node_map n' = fold (map_op_spec MAX_KEYS) ops (node_map n)) \<and>
    (leaf_run remove_int32 i0 v0 ops' m = Some m' \<longrightarrow> leaf_ok m' \<and>
      node_map m' = fold (map_op_spec MAX_KEYS) (filter is_put ops') (node_map m))"
  using leaf_map.run_refines [OF assms(1)] leaf_run_by_key [OF assms(2)]
  unfolding remove_string_def remove_int32_def leaf_run_run by blast

theorem leaf_refines_map_witness:
  "(\<exists>n'. leaf_run remove_string [] 0 [Put ''b'' 50, Put ''a'' 30, Del ''b''] (BTreeNode_new [] 0 1 LEAF) = Some n' \<and>
     node_map n' = [''a'' \<mapsto> (30::nat)]) \<and> leaf_ok (BTreeNode_new (0::int) (0::nat) 1 LEAF)"
proof -
  let ?ops = "[Put ''b'' (50::nat), Put ''a'' 30, Del ''b'']"
  have "\<exists>n'. leaf_run remove_string [] 0 ?ops (BTreeNode_new [] 0 1 LEAF) = Some n' \<and>
      node_map n' = fold (map_op_spec MAX_KEYS) ?ops Map.empty"
    using leaf_refines_map [OF leaf_ok_new leaf_ok_new, of "[]" 0 ?ops "[]" 0 1] unfolding node_map_new by blast
  moreover have "fold (map_op_spec MAX_KEYS) ?ops Map.empty = [''a'' \<mapsto> (30::nat)]"
    by (auto simp: node_sizes fun_eq_iff)
  ultimately show ?thesis using leaf_ok_new by metis
qed

text \<open>
  C30: Splitting a leaf loses an entry. The two halves together hold every entry of the leaf
  except the one at the split position, whose key is handed to the parent and whose value is
  stored nowhere.
\<close>

theorem leaf_split_loses_middle:
  assumes "leaf_ok n" and "0 < key_count n"
  shows "\<exists>new n'. node_split k0 v0 n = Some (new, n') \<and>
    node_map n' ++ node_map new = (node_map n)(keys n ! (key_count n div 2) := None) \<and>
    keys n ! (key_count n div 2) \<in> dom (node_map n)"
proof -
  note D = leaf_okD [OF assms(1)]
  let ?m = "key_count n div 2"
  have m: "?m < key_count n" using assms(2) by simp
  then have nth: "used_keys n ! ?m = keys n ! ?m" by (simp add: used_keys_def)
  obtain new n' where s: "node_split k0 v0 n = Some (new, n')"
    "used_keys n' = take ?m (used_keys n)" "used_vals n' = take ?m (used_vals n)"
    "used_keys new = drop (Suc ?m) (used_keys n)" "used_vals new = drop (Suc ?m) (used_vals n)"
    using leaf_split_parts [OF assms(1) refl assms(2)] by metis
  have "node_map n' ++ node_map new = (node_map n)(keys n ! ?m := None)"
    using map_of_zip_halves [of "used_keys n" "used_vals n" ?m] D(6,7,9) m s(2-5) nth
    by (simp add: node_map_def)
  moreover have "keys n ! ?m \<in> dom (node_map n)"
    using m nth D(6) dom_node_map [OF assms(1)] by (metis nth_mem)
  ultimately show ?thesis using s(1) by blast
qed

theorem leaf_split_loses_middle_witness:
  "\<exists>n. leaf_ok n \<and> node_map n (5::nat) = Some (50::nat) \<and>
     (\<exists>new n'. node_split 0 0 n = Some (new, n') \<and> (node_map n' ++ node_map new) 5 = None)"
proof -
  let ?n = "example_leaf\<lparr>key_count := 1, keys := [5] @ replicate 126 0, vals := [50] @ replicate 126 0\<rparr>"
  have ok: "leaf_ok ?n"
    by (simp add: leaf_ok_def sorted_keys_def isLeaf_def node_sizes) (simp add: BTreeNode_new_def)
  then show ?thesis
    using leaf_split_loses_middle [OF ok, of 0 0]
    by (intro exI [of _ ?n]) (auto simp: node_map_def used_keys_def used_vals_def)
qed

text \<open>
  Splitting a full inner node, one with \<open>ORDER\<close> children, reads the child array past
  its end.
\<close>

lemma full_inner_split_out_of_bounds:
  assumes "\<not> isLeaf n" and "length (keys n) = MAX_KEYS" and "length (children n) = ORDER"
    and "key_count n = MAX_KEYS" and "child_count n = ORDER"
  shows "node_split k0 v0 n = None"
proof -
  have "copy_range 63 64 0 (keys n) ks = None \<or> (\<exists>ks'. copy_range 63 64 0 (keys n) ks = Some ks')" for ks
    by (cases "copy_range 63 64 0 (keys n) ks") auto
  moreover have "copy_range 65 64 0 (children n) cs = None" for cs
    using assms(3) by (intro copy_range_out) (simp_all add: node_sizes)
  ultimately show ?thesis
    using assms(1,4,5) by (simp add: node_split_def Let_def node_sizes split: option.split)
qed

end
