(* ===== verification/FileManager.thy ===== *)
theory FileManager
  imports Page Status
begin

text \<open>
  \<^verbatim>\<open>storage/file_manager.h\<close> and \<^verbatim>\<open>storage/file_manager.cpp\<close>: the cache of
  open files and the page reads and writes on them. The state of a manager is kept together
  with the file system below it (path to contents). A handle keeps the open mode of its
  \<^verbatim>\<open>std::fstream\<close> and whether \<^verbatim>\<open>fail()\<close> holds: the stream operations set the
  flag as the standard says, no operation of the class clears it, and every one of them
  checks it. Contents are seen through the streams (what a stream has buffered counts as
  written), the clock readings of the statistics are left out, and
  a file that exists can be opened in every mode.
\<close>

section \<open>State\<close>

datatype FileMode = READ | WRITE | READ_WRITE | CREATE

record IOStatistics =
  reads :: u64
  writes :: u64
  read_bytes :: u64
  write_bytes :: u64
  fsyncs :: u64

definition IOStatistics_new :: IOStatistics where
  "IOStatistics_new = \<lparr>reads = 0, writes = 0, read_bytes = 0, write_bytes = 0, fsyncs = 0\<rparr>"

record FileHandle =
  fh_mode :: FileMode
  failed :: bool

record FileManager =
  open_files :: "(string \<times> FileHandle) list"
  max_open_files :: nat
  sync_on_write :: bool
  io_stats :: IOStatistics
  disk :: "(string \<times> bytes) list"

text \<open>
  What the operating system and the library decide: the working directory, the paths at
  which a file can be created, and which entry of a hash table its iteration starts with.
\<close>

record Env =
  cwd :: string
  may_create :: "string \<Rightarrow> bool"
  first_bucket :: "string list \<Rightarrow> nat"

definition FileManager_new :: "(string \<times> bytes) list \<Rightarrow> FileManager" where
  "FileManager_new d = \<lparr>open_files = [], max_open_files = 100, sync_on_write = False,
     io_stats = IOStatistics_new, disk = d\<rparr>"

definition normalizePath :: "Env \<Rightarrow> string \<Rightarrow> string" where
  "normalizePath env path =
     (case path of [] \<Rightarrow> cwd env @ ''/''
      | c # cs \<Rightarrow> if c = CHR ''/'' then path else cwd env @ ''/'' @ path)"

definition contents :: "FileManager \<Rightarrow> string \<Rightarrow> bytes" where
  "contents fm path = (case map_of (disk fm) path of None \<Rightarrow> [] | Some c \<Rightarrow> c)"

section \<open>Operations on a handle\<close>

definition can_read :: "FileMode \<Rightarrow> bool" where
  "can_read m \<longleftrightarrow> m = READ \<or> m = READ_WRITE"

definition can_write :: "FileMode \<Rightarrow> bool" where
  "can_write m \<longleftrightarrow> m \<noteq> READ"

text \<open>
  The constructor: \<^verbatim>\<open>in\<close> and \<^verbatim>\<open>in|out\<close> need an existing file, \<^verbatim>\<open>out|trunc\<close>
  creates or empties it. \<^const>\<open>None\<close>: the stream is not open.
\<close>

definition FileHandle_open :: "Env \<Rightarrow> (string \<times> bytes) list \<Rightarrow> string \<Rightarrow> FileMode \<Rightarrow>
    (FileHandle \<times> (string \<times> bytes) list) option" where
  "FileHandle_open env d path m =
     (if m = READ \<or> m = READ_WRITE
      then if map_of d path \<noteq> None then Some (\<lparr>fh_mode = m, failed = False\<rparr>, d) else None
      else if map_of d path \<noteq> None \<or> may_create env path
      then Some (\<lparr>fh_mode = m, failed = False\<rparr>, AList.update path [] d) else None)"

text \<open>
  \<^verbatim>\<open>seekg\<close> does nothing on a failed stream and fails on a negative offset (the
  \<^verbatim>\<open>size_t\<close> is converted to a signed \<^verbatim>\<open>streamoff\<close>); a read past the end
  sets the flag.
\<close>

definition fh_read :: "FileHandle \<Rightarrow> bytes \<Rightarrow> u64 \<Rightarrow> nat \<Rightarrow> bytes option \<times> FileHandle" where
  "fh_read h c off n =
     (if failed h \<or> sint off < 0 \<or> \<not> can_read (fh_mode h) then (None, h\<lparr>failed := True\<rparr>)
      else case read_at (unat off) n c of
        None \<Rightarrow> (None, h\<lparr>failed := True\<rparr>)
      | Some bs \<Rightarrow> (Some bs, h))"

text \<open>A write that starts behind the end of the file leaves a hole of zeros.\<close>

definition overwrite :: "nat \<Rightarrow> bytes \<Rightarrow> bytes \<Rightarrow> bytes" where
  "overwrite off bs c = take off c @ replicate (off - length c) 0 @ bs @ drop (off + length bs) c"

definition fh_write :: "FileHandle \<Rightarrow> bytes \<Rightarrow> u64 \<Rightarrow> bytes \<Rightarrow> bool \<times> FileHandle \<times> bytes" where
  "fh_write h c off bs =
     (if failed h \<or> sint off < 0 \<or> \<not> can_write (fh_mode h) then (False, h\<lparr>failed := True\<rparr>, c)
      else (True, h, overwrite (unat off) bs c))"

definition fh_append :: "FileHandle \<Rightarrow> bytes \<Rightarrow> bytes \<Rightarrow> bool \<times> FileHandle \<times> bytes" where
  "fh_append h c bs =
     (if failed h \<or> \<not> can_write (fh_mode h) then (False, h\<lparr>failed := True\<rparr>, c)
      else (True, h, c @ bs))"

definition fh_sync :: "FileHandle \<Rightarrow> bool" where
  "fh_sync h \<longleftrightarrow> \<not> failed h"

text \<open>\<^verbatim>\<open>tellg\<close> gives \<^verbatim>\<open>-1\<close> on a failed stream.\<close>

definition fh_size :: "FileHandle \<Rightarrow> bytes \<Rightarrow> u64" where
  "fh_size h c = (if failed h then - 1 else of_nat (length c))"

section \<open>The cache of open files\<close>

definition closeFile :: "Env \<Rightarrow> string \<Rightarrow> FileManager \<Rightarrow> FileManager" where
  "closeFile env filename fm =
     fm\<lparr>open_files := AList.delete (normalizePath env filename) (open_files fm)\<rparr>"

definition evictFile :: "Env \<Rightarrow> FileManager \<Rightarrow> FileManager" where
  "evictFile env fm =
     (if open_files fm = [] then fm
      else
        let i = first_bucket env (keys_of (open_files fm)) mod length (open_files fm)
        in fm\<lparr>open_files := take i (open_files fm) @ drop (Suc i) (open_files fm)\<rparr>)"

text \<open>An entry of the cache is returned whatever mode it was opened in.\<close>

definition openFile :: "Env \<Rightarrow> string \<Rightarrow> FileMode \<Rightarrow> FileManager \<Rightarrow> FileHandle option \<times> FileManager" where
  "openFile env filename m fm =
     (let path = normalizePath env filename in
      case map_of (open_files fm) path of
        Some h \<Rightarrow> (Some h, fm)
      | None \<Rightarrow>
          let fm1 = (if length (open_files fm) \<ge> max_open_files fm then evictFile env fm else fm)
          in case FileHandle_open env (disk fm1) path m of
               None \<Rightarrow> (None, fm1)
             | Some (h, d) \<Rightarrow>
                 (Some h, fm1\<lparr>open_files := AList.update path h (open_files fm1), disk := d\<rparr>))"

section \<open>Pages\<close>

definition page_offset :: "PageId \<Rightarrow> u64" where
  "page_offset i = i * of_nat PAGE_SIZE"

definition readPage :: "Env \<Rightarrow> string \<Rightarrow> PageId \<Rightarrow> FileManager \<Rightarrow> bytes option \<times> FileManager" where
  "readPage env filename i fm =
     (case openFile env filename READ fm of
        (None, fm1) \<Rightarrow> (None, fm1)
      | (Some h, fm1) \<Rightarrow>
          let path = normalizePath env filename;
              (res, h') = fh_read h (contents fm1 path) (page_offset i) PAGE_SIZE;
              fm2 = fm1\<lparr>open_files := AList.update path h' (open_files fm1)\<rparr>
          in case res of
               None \<Rightarrow> (None, fm2)
             | Some bs \<Rightarrow>
                 (Some bs, fm2\<lparr>io_stats := (io_stats fm2)\<lparr>reads := reads (io_stats fm2) + 1,
                    read_bytes := read_bytes (io_stats fm2) + of_nat PAGE_SIZE\<rparr>\<rparr>))"

definition writePage :: "Env \<Rightarrow> string \<Rightarrow> PageId \<Rightarrow> bytes \<Rightarrow> FileManager \<Rightarrow> bool \<times> FileManager" where
  "writePage env filename i buffer fm =
     (case openFile env filename READ_WRITE fm of
        (None, fm1) \<Rightarrow> (False, fm1)
      | (Some h, fm1) \<Rightarrow>
          let path = normalizePath env filename;
              (success, h', c) = fh_write h (contents fm1 path) (page_offset i) buffer;
              fm2 = fm1\<lparr>open_files := AList.update path h' (open_files fm1)\<rparr>
          in if success
             then (True, fm2\<lparr>disk := AList.update path c (disk fm2),
                    io_stats := (io_stats fm2)\<lparr>writes := writes (io_stats fm2) + 1,
                      write_bytes := write_bytes (io_stats fm2) + of_nat PAGE_SIZE,
                      fsyncs := fsyncs (io_stats fm2) + of_bool (sync_on_write fm2)\<rparr>\<rparr>)
             else (False, fm2))"

definition appendPage :: "Env \<Rightarrow> string \<Rightarrow> bytes \<Rightarrow> FileManager \<Rightarrow> bool \<times> FileManager" where
  "appendPage env filename buffer fm =
     (case openFile env filename READ_WRITE fm of
        (None, fm1) \<Rightarrow> (False, fm1)
      | (Some h, fm1) \<Rightarrow>
          let path = normalizePath env filename;
              (success, h', c) = fh_append h (contents fm1 path) buffer;
              fm2 = fm1\<lparr>open_files := AList.update path h' (open_files fm1)\<rparr>
          in if success
             then (True, fm2\<lparr>disk := AList.update path c (disk fm2),
                    io_stats := (io_stats fm2)\<lparr>writes := writes (io_stats fm2) + 1,
                      write_bytes := write_bytes (io_stats fm2) + of_nat PAGE_SIZE\<rparr>\<rparr>)
             else (False, fm2))"

section \<open>Files\<close>

definition createFile :: "Env \<Rightarrow> string \<Rightarrow> FileManager \<Rightarrow> bool \<times> FileManager" where
  "createFile env filename fm =
     (let path = normalizePath env filename in
      if map_of (disk fm) path \<noteq> None \<or> may_create env path
      then (True, fm\<lparr>disk := AList.update path [] (disk fm)\<rparr>) else (False, fm))"

definition deleteFile :: "Env \<Rightarrow> string \<Rightarrow> FileManager \<Rightarrow> bool \<times> FileManager" where
  "deleteFile env filename fm =
     (let path = normalizePath env filename; fm1 = closeFile env filename fm
      in (map_of (disk fm1) path \<noteq> None, fm1\<lparr>disk := AList.delete path (disk fm1)\<rparr>))"

definition fileExists :: "Env \<Rightarrow> string \<Rightarrow> FileManager \<Rightarrow> bool" where
  "fileExists env filename fm \<longleftrightarrow> map_of (disk fm) (normalizePath env filename) \<noteq> None"

text \<open>The returned flag and the output parameter, which is 0 on failure.\<close>

definition getFileSize :: "Env \<Rightarrow> string \<Rightarrow> FileManager \<Rightarrow> bool \<times> u64" where
  "getFileSize env filename fm =
     (case map_of (disk fm) (normalizePath env filename) of
        None \<Rightarrow> (False, 0) | Some c \<Rightarrow> (True, of_nat (length c)))"

definition truncateFile :: "Env \<Rightarrow> string \<Rightarrow> nat \<Rightarrow> FileManager \<Rightarrow> bool \<times> FileManager" where
  "truncateFile env filename n fm =
     (let path = normalizePath env filename in
      case map_of (disk fm) path of
        None \<Rightarrow> (False, fm)
      | Some c \<Rightarrow>
          (True, fm\<lparr>disk := AList.update path (take n c @ replicate (n - length c) 0) (disk fm)\<rparr>))"

text \<open>Renaming a path to itself leaves the file where it is.\<close>

definition atomicRename :: "Env \<Rightarrow> string \<Rightarrow> string \<Rightarrow> FileManager \<Rightarrow> bool \<times> FileManager" where
  "atomicRename env old_name new_name fm =
     (let old_path = normalizePath env old_name; new_path = normalizePath env new_name;
          fm1 = closeFile env new_name (closeFile env old_name fm)
      in case map_of (disk fm1) old_path of
           None \<Rightarrow> (False, fm1)
         | Some c \<Rightarrow>
             (True, fm1\<lparr>disk := AList.update new_path c (AList.delete old_path (disk fm1))\<rparr>))"

definition atomicWrite :: "Env \<Rightarrow> string \<Rightarrow> bytes \<Rightarrow> FileManager \<Rightarrow> bool \<times> FileManager" where
  "atomicWrite env filename bs fm =
     (let temp_filename = filename @ ''.tmp''; temp_path = normalizePath env temp_filename in
      if map_of (disk fm) temp_path \<noteq> None \<or> may_create env temp_path
      then atomicRename env temp_filename filename (fm\<lparr>disk := AList.update temp_path bs (disk fm)\<rparr>)
      else (False, fm))"

definition sync_file :: "Env \<Rightarrow> string \<Rightarrow> FileManager \<Rightarrow> bool \<times> FileManager" where
  "sync_file env filename fm =
     (case openFile env filename READ_WRITE fm of
        (None, fm1) \<Rightarrow> (False, fm1)
      | (Some h, fm1) \<Rightarrow>
          if fh_sync h
          then (True, fm1\<lparr>io_stats := (io_stats fm1)\<lparr>fsyncs := fsyncs (io_stats fm1) + 1\<rparr>\<rparr>)
          else (False, fm1))"

definition syncAll :: "FileManager \<Rightarrow> bool \<times> FileManager" where
  "syncAll fm =
     (list_all (\<lambda>(p, h). fh_sync h) (open_files fm),
      fm\<lparr>io_stats := (io_stats fm)\<lparr>fsyncs := fsyncs (io_stats fm) + of_nat (length (open_files fm))\<rparr>\<rparr>)"

definition fm_shutdown :: "FileManager \<Rightarrow> FileManager" where
  "fm_shutdown fm = (snd (syncAll fm))\<lparr>open_files := []\<rparr>"

definition setCacheSize :: "nat \<Rightarrow> FileManager \<Rightarrow> FileManager" where
  "setCacheSize n fm = fm\<lparr>max_open_files := n\<rparr>"

definition setSyncOnWrite :: "bool \<Rightarrow> FileManager \<Rightarrow> FileManager" where
  "setSyncOnWrite b fm = fm\<lparr>sync_on_write := b\<rparr>"

definition resetStats :: "FileManager \<Rightarrow> FileManager" where
  "resetStats fm = fm\<lparr>io_stats := IOStatistics_new\<rparr>"


section \<open>What the cache does to one file\<close>

definition handle_of :: "Env \<Rightarrow> string \<Rightarrow> FileManager \<Rightarrow> FileHandle option" where
  "handle_of env filename fm = map_of (open_files fm) (normalizePath env filename)"

definition file_bytes :: "Env \<Rightarrow> string \<Rightarrow> FileManager \<Rightarrow> bytes option" where
  "file_bytes env filename fm = map_of (disk fm) (normalizePath env filename)"

text \<open>A page write can succeed now: through the cached handle, or through a new one.\<close>

definition writable_now :: "Env \<Rightarrow> string \<Rightarrow> FileManager \<Rightarrow> bool" where
  "writable_now env filename fm \<longleftrightarrow>
     (case handle_of env filename fm of
        Some h \<Rightarrow> \<not> failed h \<and> can_write (fh_mode h)
      | None \<Rightarrow> fileExists env filename fm)"

lemma disk_evictFile [simp]: "disk (evictFile env fm) = disk fm"
  by (simp add: evictFile_def Let_def)

lemma disk_room: "disk (if b then evictFile env fm else fm) = disk fm"
  by simp

lemma evict_entries: "set (open_files (evictFile env fm)) \<subseteq> set (open_files fm)"
  by (auto simp: evictFile_def Let_def dest: in_set_takeD in_set_dropD)

lemma openFile_cached: "handle_of env f fm = Some h \<Longrightarrow> openFile env f m fm = (Some h, fm)"
  by (simp add: openFile_def handle_of_def)

lemma openFile_RW_new:
  assumes "handle_of env f fm = None" and "m = READ \<or> m = READ_WRITE" and "fileExists env f fm"
  obtains fm' where "openFile env f m fm = (Some \<lparr>fh_mode = m, failed = False\<rparr>, fm')"
    and "disk fm' = disk fm" and "handle_of env f fm' = Some \<lparr>fh_mode = m, failed = False\<rparr>"
    and "set (open_files fm') \<subseteq>
           insert (normalizePath env f, \<lparr>fh_mode = m, failed = False\<rparr>) (set (open_files fm))"
proof -
  let ?p = "normalizePath env f" and ?h = "\<lparr>fh_mode = m, failed = False\<rparr>"
  let ?fm1 = "if length (open_files fm) \<ge> max_open_files fm then evictFile env fm else fm"
  let ?fm' = "?fm1\<lparr>open_files := AList.update ?p ?h (open_files ?fm1), disk := disk fm\<rparr>"
  have "openFile env f m fm = (Some ?h, ?fm')"
    using assms
    by (auto simp: openFile_def FileHandle_open_def Let_def handle_of_def fileExists_def disk_room)
  moreover have "set (open_files ?fm1) \<subseteq> set (open_files fm)"
    using evict_entries [of env fm] by simp
  then have "set (AList.update ?p ?h (open_files ?fm1)) \<subseteq> insert (?p, ?h) (set (open_files fm))"
    using set_update_subset [of ?p ?h "open_files ?fm1"] by blast
  then have "set (open_files ?fm') \<subseteq> insert (?p, ?h) (set (open_files fm))" by simp
  ultimately show thesis using that by (simp add: handle_of_def)
qed

lemma openFile_RW_missing:
  assumes "handle_of env f fm = None" and "m = READ \<or> m = READ_WRITE" and "\<not> fileExists env f fm"
  obtains fm' where "openFile env f m fm = (None, fm')" and "disk fm' = disk fm"
  using assms that
  by (auto simp: openFile_def FileHandle_open_def Let_def handle_of_def fileExists_def disk_room)


text \<open>The two ways a page operation obtains its handle, and what it then does.\<close>

lemma writePage_handle:
  assumes "openFile env f READ_WRITE fm = (Some h, fm1)" and "\<not> failed h" and "can_write (fh_mode h)"
    and "\<not> sint (page_offset i) < 0"
  obtains fm' where "writePage env f i buf fm = (True, fm')"
    and "disk fm' = AList.update (normalizePath env f)
           (overwrite (unat (page_offset i)) buf (contents fm1 (normalizePath env f))) (disk fm1)"
    and "open_files fm' = AList.update (normalizePath env f) h (open_files fm1)"
  using assms that by (simp add: writePage_def fh_write_def Let_def)

lemma writePage_refused:
  assumes "openFile env f READ_WRITE fm = (Some h, fm1)"
    and "failed h \<or> \<not> can_write (fh_mode h) \<or> sint (page_offset i) < 0"
  shows "writePage env f i buf fm =
    (False, fm1\<lparr>open_files := AList.update (normalizePath env f) (h\<lparr>failed := True\<rparr>) (open_files fm1)\<rparr>)"
  using assms by (auto simp: writePage_def fh_write_def Let_def)

lemma readPage_failed:
  assumes "handle_of env f fm = Some h" and "failed h"
  shows "readPage env f i fm =
    (None, fm\<lparr>open_files := AList.update (normalizePath env f) (h\<lparr>failed := True\<rparr>) (open_files fm)\<rparr>)"
  using assms by (simp add: readPage_def openFile_cached fh_read_def Let_def)

lemma readPage_good:
  assumes "handle_of env f fm = Some h" and "\<not> failed h" and "can_read (fh_mode h)"
    and "\<not> sint (page_offset i) < 0"
    and "read_at (unat (page_offset i)) PAGE_SIZE (contents fm (normalizePath env f)) = Some bs"
  shows "fst (readPage env f i fm) = Some bs"
  using assms by (simp add: readPage_def openFile_cached fh_read_def Let_def)

lemma writable_now_opens:
  assumes "writable_now env f fm"
  obtains h fm1 where "openFile env f READ_WRITE fm = (Some h, fm1)" and "\<not> failed h"
    and "can_write (fh_mode h)" and "disk fm1 = disk fm" and "handle_of env f fm1 = Some h"
    and "h = \<lparr>fh_mode = READ_WRITE, failed = False\<rparr> \<or> handle_of env f fm = Some h"
    and "set (open_files fm1) \<subseteq> insert (normalizePath env f, h) (set (open_files fm))"
proof (cases "handle_of env f fm")
  case None
  with assms have "fileExists env f fm" by (simp add: writable_now_def)
  with None show thesis
    by (rule openFile_RW_new [where m = READ_WRITE, OF _ disjI2 [OF refl]])
      (auto intro: that simp: can_write_def)
next
  case (Some h)
  with assms show thesis
    by (intro that [of h fm]) (auto simp: writable_now_def openFile_cached)
qed

lemma not_writable_refused:
  assumes "\<not> writable_now env f fm"
  shows "fst (writePage env f i buf fm) = False \<and> disk (snd (writePage env f i buf fm)) = disk fm"
proof (cases "handle_of env f fm")
  case None
  with assms have "\<not> fileExists env f fm" by (simp add: writable_now_def)
  with None obtain fm1 where "openFile env f READ_WRITE fm = (None, fm1)" "disk fm1 = disk fm"
    by (rule openFile_RW_missing [where m = READ_WRITE, OF _ disjI2 [OF refl]])
  then show ?thesis by (simp add: writePage_def)
next
  case (Some h)
  with assms show ?thesis
    by (subst (1 2) writePage_refused [OF openFile_cached [OF Some]]) (auto simp: writable_now_def)
qed

lemma writePage_outcome:
  "fst (writePage env f i buf fm) \<longleftrightarrow> writable_now env f fm \<and> \<not> sint (page_offset i) < 0"
proof (cases "writable_now env f fm")
  case True
  then obtain h fm1 where "openFile env f READ_WRITE fm = (Some h, fm1)" "\<not> failed h" "can_write (fh_mode h)"
    by (rule writable_now_opens)
  with True show ?thesis
    by (cases "sint (page_offset i) < 0") (simp_all add: writePage_def fh_write_def Let_def)
qed (simp add: not_writable_refused)


section \<open>Pages of a file\<close>

lemma read_overwrite_same: "read_at off (length bs) (overwrite off bs c) = Some bs"
  by (simp add: read_at_def overwrite_def)

lemma read_overwrite_other:
  assumes "read_at j n c = Some x" and d: "j + n \<le> off \<or> off + length bs \<le> j"
  shows "read_at j n (overwrite off bs c) = Some x"
proof -
  from assms(1) have b: "j + n \<le> length c" and x: "x = take n (drop j c)"
    by (auto simp: read_at_def split: if_splits)
  have len: "length (overwrite off bs c) = max (length c) (off + length bs)"
    by (auto simp: overwrite_def)
  have "overwrite off bs c ! k = c ! k" if "j \<le> k" "k < j + n" for k
    using that b d by (auto simp: overwrite_def nth_append)
  then have "take n (drop j (overwrite off bs c)) = take n (drop j c)"
    using b len by (intro nth_equalityI) auto
  then show ?thesis using b len x by (auto simp: read_at_def)
qed

text \<open>The page numbers whose byte offset a stream can hold.\<close>

definition valid_page :: "PageId \<Rightarrow> bool" where
  "valid_page i \<longleftrightarrow> unat i * PAGE_SIZE < 2 ^ 63"

lemma unat_page_offset: "valid_page i \<Longrightarrow> unat (page_offset i) = unat i * 4096"
  by (simp add: valid_page_def page_offset_def page_sizes unat_word_ariths)

lemma sint_page_offset:
  assumes "valid_page i"
  shows "\<not> sint (page_offset i) < 0"
proof -
  have "unat (page_offset i) < 2 ^ 63"
    using assms by (simp add: unat_page_offset valid_page_def page_sizes)
  then have "uint (page_offset i) < 2 ^ 63"
    by (metis of_nat_less_iff of_nat_numeral of_nat_power uint_nat)
  then have "sint (page_offset i) = uint (page_offset i)"
    unfolding sint_uint
    by (intro signed_take_bit_int_eq_self order_trans [OF _ uint_ge_0]) simp_all
  then show ?thesis by simp
qed


text \<open>The page image at a place of the file system, and the states in which writes arrive.\<close>

definition stored_page :: "Env \<Rightarrow> FileManager \<Rightarrow> string \<times> PageId \<Rightarrow> bytes option" where
  "stored_page env fm a =
     read_at (unat (page_offset (snd a))) PAGE_SIZE (contents fm (normalizePath env (fst a)))"

definition healthy :: "FileManager \<Rightarrow> bool" where
  "healthy fm \<longleftrightarrow> list_all (\<lambda>(p, h). fh_mode h = READ_WRITE \<and> \<not> failed h) (open_files fm)"

definition place_ok :: "Env \<Rightarrow> FileManager \<Rightarrow> string \<times> PageId \<Rightarrow> bool" where
  "place_ok env fm a \<longleftrightarrow> fileExists env (fst a) fm \<and> valid_page (snd a)"

text \<open>Two places that denote the same page: the paths agree and the numbers do.\<close>

definition same_place :: "Env \<Rightarrow> string \<times> PageId \<Rightarrow> string \<times> PageId \<Rightarrow> bool" where
  "same_place env a b \<longleftrightarrow> normalizePath env (fst a) = normalizePath env (fst b) \<and> snd a = snd b"

lemma healthy_handle: "healthy fm \<Longrightarrow> handle_of env f fm = Some h \<Longrightarrow> fh_mode h = READ_WRITE \<and> \<not> failed h"
  by (auto simp: healthy_def handle_of_def list_all_iff dest!: map_of_SomeD)

lemma healthy_writable: "healthy fm \<Longrightarrow> fileExists env f fm \<Longrightarrow> writable_now env f fm"
  by (auto simp: writable_now_def can_write_def dest: healthy_handle split: option.split)

lemma distinct_pages_apart:
  assumes "valid_page i" and "valid_page j" and "i \<noteq> j"
  shows "unat (page_offset j) + PAGE_SIZE \<le> unat (page_offset i) \<or>
         unat (page_offset i) + PAGE_SIZE \<le> unat (page_offset j)"
proof -
  have "unat i \<noteq> unat j" using assms(3) by (simp add: word_unat_eq_iff)
  then show ?thesis using assms(1,2) by (auto simp: unat_page_offset page_sizes)
qed

lemma writePage_effect:
  assumes "writable_now env f fm" and "valid_page i"
  obtains fm' h where "writePage env f i buf fm = (True, fm')"
    and "disk fm' = AList.update (normalizePath env f)
           (overwrite (unat (page_offset i)) buf (contents fm (normalizePath env f))) (disk fm)"
    and "set (open_files fm') \<subseteq> insert (normalizePath env f, h) (set (open_files fm))"
    and "handle_of env f fm' = Some h" and "\<not> failed h"
    and "h = \<lparr>fh_mode = READ_WRITE, failed = False\<rparr> \<or> handle_of env f fm = Some h"
proof -
  from assms(1) obtain h fm1 where o: "openFile env f READ_WRITE fm = (Some h, fm1)" "\<not> failed h"
    "can_write (fh_mode h)" "disk fm1 = disk fm" "handle_of env f fm1 = Some h"
    "h = \<lparr>fh_mode = READ_WRITE, failed = False\<rparr> \<or> handle_of env f fm = Some h"
    "set (open_files fm1) \<subseteq> insert (normalizePath env f, h) (set (open_files fm))"
    by (rule writable_now_opens)
  from o(1-3) sint_page_offset [OF assms(2)] obtain fm' where w: "writePage env f i buf fm = (True, fm')"
    "disk fm' = AList.update (normalizePath env f)
       (overwrite (unat (page_offset i)) buf (contents fm1 (normalizePath env f))) (disk fm1)"
    "open_files fm' = AList.update (normalizePath env f) h (open_files fm1)"
    by (rule writePage_handle)
  have "open_files fm' = open_files fm1"
    using w(3) o(5) by (simp add: handle_of_def update_triv)
  with w o show thesis by (intro that [of fm' h]) (auto simp: contents_def handle_of_def)
qed

definition device_write :: "Env \<Rightarrow> FileManager \<Rightarrow> string \<times> PageId \<Rightarrow> bytes \<Rightarrow> FileManager" where
  "device_write env fm a buf = snd (writePage env (fst a) (snd a) buf fm)"

text \<open>
  What a client that writes pages back relies on: a write at a good place is stored and
  disturbs no other place, and the device stays usable.
\<close>

locale page_device =
  fixes ok :: "'s \<Rightarrow> bool" and place :: "'s \<Rightarrow> 'a \<Rightarrow> bool" and same :: "'a \<Rightarrow> 'a \<Rightarrow> bool"
    and image :: "'b \<Rightarrow> bool"
    and wr :: "'s \<Rightarrow> 'a \<Rightarrow> 'b \<Rightarrow> 's" and rd :: "'s \<Rightarrow> 'a \<Rightarrow> 'b option"
  assumes ok_wr: "ok s \<Longrightarrow> place s a \<Longrightarrow> image b \<Longrightarrow> ok (wr s a b)"
    and place_wr: "ok s \<Longrightarrow> place s a \<Longrightarrow> place s a' \<Longrightarrow> image b \<Longrightarrow> place (wr s a b) a'"
    and rd_wr_same: "ok s \<Longrightarrow> place s a \<Longrightarrow> image b \<Longrightarrow> rd (wr s a b) a = Some b"
    and rd_wr_other: "ok s \<Longrightarrow> place s a \<Longrightarrow> place s a' \<Longrightarrow> image b \<Longrightarrow> \<not> same a a' \<Longrightarrow>
      rd s a' = Some c \<Longrightarrow> rd (wr s a b) a' = Some c"
begin

fun wr_all :: "'s \<Rightarrow> ('a \<times> 'b) list \<Rightarrow> 's" where
  "wr_all s [] = s"
| "wr_all s ((a, b) # ws) = wr_all (wr s a b) ws"

lemma wr_all_keeps:
  assumes "ok s" and "\<forall>(a, b) \<in> set ws. place s a \<and> image b" and "place s x"
  shows "ok (wr_all s ws) \<and> place (wr_all s ws) x"
  using assms
proof (induction ws arbitrary: s)
  case (Cons w ws)
  obtain a b where w: "w = (a, b)" by (cases w)
  have "\<forall>(a', b') \<in> set ws. place (wr s a b) a' \<and> image b'"
    using Cons.prems w place_wr by (auto simp: w)
  then show ?case using Cons.IH [of "wr s a b"] Cons.prems ok_wr place_wr by (simp add: w)
qed simp

lemma wr_all_other:
  assumes "ok s" and "\<forall>(a, b) \<in> set ws. place s a \<and> image b \<and> \<not> same a x" and "place s x"
    and "rd s x = Some c"
  shows "rd (wr_all s ws) x = Some c"
  using assms
proof (induction ws arbitrary: s)
  case (Cons w ws)
  obtain a b where w: "w = (a, b)" by (cases w)
  have "\<forall>(a', b') \<in> set ws. place (wr s a b) a' \<and> image b' \<and> \<not> same a' x"
    using Cons.prems w place_wr by (auto simp: w)
  then show ?case using Cons.IH [of "wr s a b"] Cons.prems ok_wr place_wr rd_wr_other by (simp add: w)
qed simp

lemma wr_all_stores:
  assumes "ok s" and "\<forall>(a, b) \<in> set ws. place s a \<and> image b"
    and "sorted_wrt (\<lambda>(a, b) (a', b'). \<not> same a' a) ws" and "(x, c) \<in> set ws"
  shows "rd (wr_all s ws) x = Some c"
  using assms
proof (induction ws arbitrary: s)
  case (Cons w ws)
  obtain a b where w: "w = (a, b)" by (cases w)
  have p: "\<forall>(a', b') \<in> set ws. place (wr s a b) a' \<and> image b'"
    using Cons.prems w place_wr by (auto simp: w)
  have o: "ok (wr s a b)" using Cons.prems ok_wr by (simp add: w)
  show ?case
  proof (cases "(x, c) \<in> set ws")
    case True
    then show ?thesis using Cons.IH [of "wr s a b"] o p Cons.prems(3) by (simp add: w)
  next
    case False
    with Cons.prems(4) have e: "a = x" "b = c" by (auto simp: w)
    have "\<forall>(a', b') \<in> set ws. place (wr s a b) a' \<and> image b' \<and> \<not> same a' x"
      using p Cons.prems(3) e by (auto simp: w)
    moreover have "place (wr s a b) x" "rd (wr s a b) x = Some c"
      using Cons.prems place_wr rd_wr_same e by (auto simp: w)
    ultimately show ?thesis using wr_all_other o by (simp add: w)
  qed
qed simp

end

interpretation disk_device: page_device healthy "place_ok env" "same_place env"
  "\<lambda>b :: bytes. length b = PAGE_SIZE" "device_write env" "stored_page env" for env
proof unfold_locales
  fix s a and b :: bytes
  assume h: "healthy s" and p: "place_ok env s a" and l: "length b = PAGE_SIZE"
  obtain i f where a: "a = (f, i)" by (cases a)
  from h p obtain fm' hd where w: "writePage env f i b s = (True, fm')"
    "disk fm' = AList.update (normalizePath env f)
       (overwrite (unat (page_offset i)) b (contents s (normalizePath env f))) (disk s)"
    "set (open_files fm') \<subseteq> insert (normalizePath env f, hd) (set (open_files s))"
    "hd = \<lparr>fh_mode = READ_WRITE, failed = False\<rparr> \<or> handle_of env f s = Some hd"
    by (metis a fst_conv snd_conv place_ok_def healthy_writable writePage_effect)
  have dw: "device_write env s (f, i) b = fm'" by (simp add: device_write_def w(1))
  have "fh_mode hd = READ_WRITE \<and> \<not> failed hd" using w(4) h healthy_handle by auto
  then show "healthy (device_write env s a b)"
    using w(3) h by (auto simp: a dw healthy_def list_all_iff)
  show "stored_page env (device_write env s a b) a = Some b"
    using read_overwrite_same [of "unat (page_offset i)" b] l
    by (simp add: dw stored_page_def a contents_def w(2))
  {
    fix a' assume "place_ok env s a'"
    then show "place_ok env (device_write env s a b) a'"
      by (simp add: a dw place_ok_def fileExists_def w(2))
  }
  {
    fix a' c
    assume p': "place_ok env s a'" and n: "\<not> same_place env a a'" and r: "stored_page env s a' = Some c"
    show "stored_page env (device_write env s a b) a' = Some c"
    proof (cases "normalizePath env f = normalizePath env (fst a')")
      case True
      with n have "i \<noteq> snd a'" by (simp add: same_place_def a)
      with p p' distinct_pages_apart [of i "snd a'"]
      have "unat (page_offset (snd a')) + PAGE_SIZE \<le> unat (page_offset i) \<or>
            unat (page_offset i) + length b \<le> unat (page_offset (snd a'))"
        by (simp add: place_ok_def a l)
      with r True show ?thesis
        by (simp add: a dw stored_page_def contents_def w(2) read_overwrite_other)
    next
      case False
      with r show ?thesis by (simp add: a dw stored_page_def contents_def w(2))
    qed
  }
qed


section \<open>Reads after writes, writes after reads\<close>

lemma readPage_opened:
  assumes "handle_of env f fm = None" and "fileExists env f fm"
  obtains b where "handle_of env f (snd (readPage env f i fm)) = Some \<lparr>fh_mode = READ, failed = b\<rparr>"
    and "disk (snd (readPage env f i fm)) = disk fm"
proof -
  from assms obtain fm1 where "openFile env f READ fm = (Some \<lparr>fh_mode = READ, failed = False\<rparr>, fm1)"
    "disk fm1 = disk fm"
    by (rule openFile_RW_new [where m = READ, OF _ disjI1 [OF refl]])
  then show thesis
    by (intro that [of "failed (snd (fh_read \<lparr>fh_mode = READ, failed = False\<rparr>
          (contents fm1 (normalizePath env f)) (page_offset i) PAGE_SIZE))"])
      (auto simp: readPage_def handle_of_def fh_read_def Let_def split: option.splits)
qed

lemma short_read_poisons:
  assumes "handle_of env f fm = Some h" and "stored_page env fm (f, i) = None"
  shows "\<not> writable_now env f (snd (readPage env f i fm)) \<and> disk (snd (readPage env f i fm)) = disk fm"
  using assms
  by (simp add: readPage_def openFile_cached fh_read_def stored_page_def Let_def writable_now_def handle_of_def)

definition example_env :: Env where
  "example_env = \<lparr>cwd = ''/home'', may_create = (\<lambda>p. True), first_bucket = (\<lambda>ks. 0)\<rparr>"

definition example_files :: FileManager where
  "example_files = FileManager_new [(''/home/t.dat'', replicate 8192 0)]"

lemmas example_files_defs = example_files_def example_env_def FileManager_new_def IOStatistics_new_def

lemma writePage_result:
  assumes "writePage env f i buf fm = (True, fm')" and "length buf = PAGE_SIZE" and "valid_page i"
    and "pred_option (\<lambda>h. can_read (fh_mode h)) (handle_of env f fm)"
  shows "fst (readPage env f i fm') = Some buf"
    and "valid_page j \<Longrightarrow> i \<noteq> j \<Longrightarrow> stored_page env fm (f, j) = Some c \<Longrightarrow> fst (readPage env f j fm') = Some c"
    and "normalizePath env g \<noteq> normalizePath env f \<Longrightarrow> file_bytes env g fm' = file_bytes env g fm"
proof -
  have "writable_now env f fm"
    using assms(1) writePage_outcome [of env f i buf fm] by simp
  then obtain h where d: "disk fm' = AList.update (normalizePath env f)
        (overwrite (unat (page_offset i)) buf (contents fm (normalizePath env f))) (disk fm)"
    and h: "handle_of env f fm' = Some h" "\<not> failed h"
    and m: "h = \<lparr>fh_mode = READ_WRITE, failed = False\<rparr> \<or> handle_of env f fm = Some h"
    by (rule writePage_effect [OF _ assms(3), where buf = buf]) (use assms(1) in auto)
  have r: "can_read (fh_mode h)" using m assms(4) by (auto simp: can_read_def)
  have c: "contents fm' (normalizePath env f) =
      overwrite (unat (page_offset i)) buf (contents fm (normalizePath env f))"
    by (simp add: contents_def d)
  show "fst (readPage env f i fm') = Some buf"
    using read_overwrite_same [of "unat (page_offset i)" buf] assms(2,3)
    by (intro readPage_good [OF h r]) (simp_all add: c sint_page_offset)
  show "fst (readPage env f j fm') = Some c"
    if "valid_page j" "i \<noteq> j" "stored_page env fm (f, j) = Some c" for c
    using that distinct_pages_apart [OF assms(3) that(1,2)] assms(2)
    by (intro readPage_good [OF h r]) (simp_all add: c sint_page_offset stored_page_def read_overwrite_other)
  show "normalizePath env g \<noteq> normalizePath env f \<Longrightarrow> file_bytes env g fm' = file_bytes env g fm"
    by (simp add: file_bytes_def d)
qed



lemma first_read_result:
  assumes "handle_of env f fm = None" and "fileExists env f fm"
    and "fm1 = snd (readPage env f i fm)" and "fm2 = snd (writePage env f j buf fm1)"
  shows "fst (writePage env f j buf fm1) = False" and "disk fm2 = disk fm"
    and "fst (readPage env f k fm2) = None" and "\<not> writable_now env f fm2"
    and "writable_now env f (closeFile env f fm2)"
proof -
  from assms(1,2) obtain b where
    h: "handle_of env f fm1 = Some \<lparr>fh_mode = READ, failed = b\<rparr>" and d: "disk fm1 = disk fm"
    unfolding assms(3) by (rule readPage_opened)
  have w: "writePage env f j buf fm1 = (False, fm1\<lparr>open_files :=
      AList.update (normalizePath env f) \<lparr>fh_mode = READ, failed = True\<rparr> (open_files fm1)\<rparr>)"
    by (subst writePage_refused [OF openFile_cached [OF h]]) (simp_all add: can_write_def)
  then show "fst (writePage env f j buf fm1) = False" and "disk fm2 = disk fm"
    by (simp_all add: assms(4) d)
  have h2: "handle_of env f fm2 = Some \<lparr>fh_mode = READ, failed = True\<rparr>"
    by (simp add: assms(4) w handle_of_def)
  then show "fst (readPage env f k fm2) = None" and "\<not> writable_now env f fm2"
    by (simp_all add: readPage_failed writable_now_def)
  show "writable_now env f (closeFile env f fm2)"
    using assms(2) by (simp add: writable_now_def handle_of_def closeFile_def fileExists_def assms(4) w d)
qed

text \<open>
  The handle that \<^verbatim>\<open>readPage\<close> opens is read-only and stays in the cache, so after
  the first page of a file has been read no page of that file can be written: the write
  returns false and changes nothing, and it leaves the stream in its error state, in which
  every later read of the file fails too. Only closing the file ends this.
\<close>

lemma first_read_blocks_writes:
  assumes "handle_of env f fm = None" and "fileExists env f fm"
    and "fm1 = snd (readPage env f i fm)" and "fm2 = snd (writePage env f j buf fm1)"
  shows "fst (writePage env f j buf fm1) = False \<and> disk fm2 = disk fm \<and>
    (\<forall>k. fst (readPage env f k fm2) = None) \<and> \<not> writable_now env f fm2 \<and>
    writable_now env f (closeFile env f fm2)"
  using first_read_result [OF assms] by blast

end
