(* ===== verification/BufferPool.thy ===== *)
theory BufferPool
  imports FileManager StdText
begin

text \<open>
  \<^verbatim>\<open>storage/buffer_pool.h\<close> and \<^verbatim>\<open>storage/buffer_pool.cpp\<close>: the page cache
  with pin counts, dirty flags and a replacement policy, on top of the file manager. Every
  operation holds the pool's mutex from its first to its last line, so operations are
  atomic steps. A pointer to a cached page is represented by the page number of its frame.
  The three assignments \<^verbatim>\<open>frame->getPage() = std::move(page)\<close> are read as what they
  are for: the frame takes the page.
\<close>

section \<open>State\<close>

record BufferPoolStats =
  hits :: u64
  misses :: u64
  pool_reads :: u64
  pool_writes :: u64
  evictions :: u64

datatype FetchMode = FETCH_READ | FETCH_WRITE | FETCH_PIN | FETCH_UNPIN

record BufferFrame =
  frame_page :: Page
  pin_count :: u64
  dirty :: bool
  latched :: bool
  frame_lsn :: u32

datatype EvictionStrategy = LRU | CLOCK | FIFO

text \<open>
  \<^verbatim>\<open>lru_iterators_\<close> maps a page number to the list node pushed last for it, which is its
  first occurrence in \<^verbatim>\<open>lru_list_\<close>: the keys determine the map, and erasing through an
  iterator is \<^const>\<open>remove1\<close>. \<open>next_new_page\<close> is the static counter of
  \<^verbatim>\<open>createNewPage\<close>.
\<close>

record BufferPool =
  pool_size :: nat
  frames :: "(PageId \<times> BufferFrame) list"
  lru_list :: "PageId list"
  lru_iterators :: "PageId list"
  pool_files :: FileManager
  pool_stats :: BufferPoolStats
  strategy :: EvictionStrategy
  clock_hand :: nat
  next_new_page :: PageId

definition isPinned :: "BufferFrame \<Rightarrow> bool" where
  "isPinned f \<longleftrightarrow> pin_count f > 0"

definition pin :: "BufferFrame \<Rightarrow> BufferFrame" where
  "pin f = f\<lparr>pin_count := pin_count f + 1\<rparr>"

definition unpin :: "BufferFrame \<Rightarrow> BufferFrame" where
  "unpin f = (if pin_count f > 0 then f\<lparr>pin_count := pin_count f - 1\<rparr> else f)"

definition BufferFrame_new :: "Page \<Rightarrow> BufferFrame" where
  "BufferFrame_new p = \<lparr>frame_page = p, pin_count = 0, dirty = False, latched = False, frame_lsn = 0\<rparr>"

definition MAX_POOL_SIZE :: nat where
  "MAX_POOL_SIZE = 1048576"

definition BufferPoolStats_new :: BufferPoolStats where
  "BufferPoolStats_new = \<lparr>hits = 0, misses = 0, pool_reads = 0, pool_writes = 0, evictions = 0\<rparr>"

definition BufferPool_new :: "nat \<Rightarrow> FileManager \<Rightarrow> PageId \<Rightarrow> BufferPool" where
  "BufferPool_new n fm next =
     \<lparr>pool_size = min n MAX_POOL_SIZE, frames = [], lru_list = [], lru_iterators = [],
      pool_files = fm, pool_stats = BufferPoolStats_new, strategy = LRU, clock_hand = 0,
      next_new_page = next\<rparr>"

definition resetStats :: "BufferPool \<Rightarrow> BufferPool" where
  "resetStats bp = bp\<lparr>pool_stats := BufferPoolStats_new\<rparr>"

section \<open>Disk transfer\<close>

definition table_file :: "TableId \<Rightarrow> string" where
  "table_file t = ''data/tables'' @ ''/table_'' @ dec_nat (unat t) @ ''.dat''"

text \<open>
  The page read (\<^const>\<open>None\<close>: the file manager could not read it). The outer
  \<^const>\<open>None\<close> is an image whose page type is no enumerator, which the page model does not
  represent.
\<close>

definition readFromDisk :: "Env \<Rightarrow> TableId \<Rightarrow> PageId \<Rightarrow> FileManager \<Rightarrow> (Page option \<times> FileManager) option" where
  "readFromDisk env t i fm =
     (case readPage env (table_file t) i fm of
        (None, fm') \<Rightarrow> Some (None, fm')
      | (Some buffer, fm') \<Rightarrow>
          (case page_deserialize buffer of None \<Rightarrow> None | Some p \<Rightarrow> Some (Some p, fm')))"

text \<open>The result of the page write is not looked at.\<close>

definition writeToDisk :: "Env \<Rightarrow> Page \<Rightarrow> FileManager \<Rightarrow> Page \<times> FileManager" where
  "writeToDisk env p fm =
     (clearDirty p,
      snd (writePage env (table_file (table_id (header p))) (getPageId p) (page_serialize p) fm))"

section \<open>Replacement\<close>

definition unpinned_in :: "(PageId \<times> BufferFrame) list \<Rightarrow> PageId \<Rightarrow> bool" where
  "unpinned_in fs i \<longleftrightarrow> (case map_of fs i of None \<Rightarrow> False | Some f \<Rightarrow> \<not> isPinned f)"

function clock_loop :: "(PageId \<times> BufferFrame) list \<Rightarrow> nat \<Rightarrow> nat \<Rightarrow> PageId \<times> nat" where
  "clock_loop fs hand attempts =
     (if attempts < length fs * 2 then
        let hand' = (if hand \<ge> length fs then 0 else hand); (i, f) = fs ! hand'
        in if \<not> isPinned f then (i, (hand' + 1) mod length fs)
           else clock_loop fs (hand' + 1) (attempts + 1)
      else (INVALID_PAGE_ID, hand))"
  by pat_completeness auto
termination
  by (relation "measure (\<lambda>(fs, hand, attempts). length fs * 2 - attempts)") auto

definition selectVictimClock :: "BufferPool \<Rightarrow> PageId \<times> BufferPool" where
  "selectVictimClock bp =
     (let (i, hand) = clock_loop (frames bp) (clock_hand bp) 0 in (i, bp\<lparr>clock_hand := hand\<rparr>))"

definition selectVictim :: "BufferPool \<Rightarrow> PageId \<times> BufferPool" where
  "selectVictim bp =
     (case strategy bp of
        LRU \<Rightarrow> (case find (unpinned_in (frames bp)) (rev (lru_list bp)) of
                  Some i \<Rightarrow> (i, bp) | None \<Rightarrow> (INVALID_PAGE_ID, bp))
      | CLOCK \<Rightarrow> selectVictimClock bp
      | FIFO \<Rightarrow> (if lru_list bp \<noteq> [] then (last (lru_list bp), bp) else (INVALID_PAGE_ID, bp)))"

text \<open>
  The frame, its list node and its iterator go. \<^const>\<open>None\<close>: an end iterator or a
  singular list iterator would be used.
\<close>

definition drop_frame :: "PageId \<Rightarrow> BufferPool \<Rightarrow> BufferPool option" where
  "drop_frame i bp =
     (if i \<in> set (lru_iterators bp)
      then Some (bp\<lparr>lru_list := remove1 i (lru_list bp), lru_iterators := removeAll i (lru_iterators bp),
                    frames := AList.delete i (frames bp)\<rparr>)
      else None)"

definition evictPage :: "Env \<Rightarrow> BufferPool \<Rightarrow> BufferPool option" where
  "evictPage env bp =
     (let (victim, bp1) = selectVictim bp in
      if victim = INVALID_PAGE_ID then Some bp1
      else case map_of (frames bp1) victim of
        None \<Rightarrow> None
      | Some f \<Rightarrow>
          let bp2 = (if dirty f
                     then bp1\<lparr>pool_files := snd (writeToDisk env (frame_page f) (pool_files bp1)),
                              pool_stats := (pool_stats bp1)\<lparr>pool_writes := pool_writes (pool_stats bp1) + 1\<rparr>\<rparr>
                     else bp1)
          in map_option (\<lambda>bp3. bp3\<lparr>pool_stats :=
                 (pool_stats bp3)\<lparr>evictions := evictions (pool_stats bp3) + 1\<rparr>\<rparr>) (drop_frame victim bp2))"

text \<open>
  The loop \<^verbatim>\<open>while (frames_.size() >= limit) evictPage();\<close>. Its value is
  \<^const>\<open>None\<close> when the loop never ends (nothing else can change the frames: the mutex is
  held) or an eviction is undefined.
\<close>

partial_function (option) evict_while :: "Env \<Rightarrow> nat \<Rightarrow> BufferPool \<Rightarrow> BufferPool option" where
  "evict_while env limit bp =
     (if length (frames bp) \<ge> limit
      then Option.bind (evictPage env bp) (evict_while env limit) else Some bp)"

section \<open>Operations\<close>

definition updateLRU :: "PageId \<Rightarrow> BufferPool \<Rightarrow> BufferPool" where
  "updateLRU i bp =
     (let l = (if i \<in> set (lru_iterators bp) then remove1 i (lru_list bp) else lru_list bp)
      in bp\<lparr>lru_list := i # l, lru_iterators := List.insert i (lru_iterators bp)\<rparr>)"

definition frame_for :: "FetchMode \<Rightarrow> BufferFrame \<Rightarrow> BufferFrame" where
  "frame_for m f =
     (let f1 = (if m = FETCH_WRITE then f\<lparr>dirty := True\<rparr> else f)
      in if m = FETCH_PIN then pin f1 else f1)"

text \<open>A new frame is entered under its page number and becomes the most recently used.\<close>

definition add_frame :: "PageId \<Rightarrow> BufferFrame \<Rightarrow> BufferPool \<Rightarrow> BufferPool" where
  "add_frame i f bp =
     bp\<lparr>frames := AList.update i f (frames bp), lru_list := i # lru_list bp,
        lru_iterators := List.insert i (lru_iterators bp)\<rparr>"

text \<open>
  The page number of the returned frame, or \<^const>\<open>None\<close> for a null pointer; the outer
  \<^const>\<open>None\<close> when the call does not return (a latched frame is never unlatched while the
  mutex is held).
\<close>

definition fetchPage :: "Env \<Rightarrow> TableId \<Rightarrow> PageId \<Rightarrow> FetchMode \<Rightarrow> BufferPool \<Rightarrow>
    (PageId option \<times> BufferPool) option" where
  "fetchPage env t i m bp =
     (case map_of (frames bp) i of
        Some f \<Rightarrow>
          if latched f then None
          else
            let bp1 = bp\<lparr>pool_stats := (pool_stats bp)\<lparr>hits := hits (pool_stats bp) + 1\<rparr>,
                         frames := AList.update i (frame_for m f) (frames bp)\<rparr>
            in Some (Some i, updateLRU i bp1)
      | None \<Rightarrow>
          let bp1 = bp\<lparr>pool_stats := (pool_stats bp)\<lparr>misses := misses (pool_stats bp) + 1\<rparr>\<rparr> in
          (case evict_while env (pool_size bp1) bp1 of
             None \<Rightarrow> None
           | Some bp2 \<Rightarrow>
               (case readFromDisk env t i (pool_files bp2) of
                  None \<Rightarrow> None
                | Some (None, fm) \<Rightarrow> Some (None, bp2\<lparr>pool_files := fm\<rparr>)
                | Some (Some p, fm) \<Rightarrow>
                    let bp3 = bp2\<lparr>pool_files := fm, pool_stats :=
                                (pool_stats bp2)\<lparr>pool_reads := pool_reads (pool_stats bp2) + 1\<rparr>\<rparr>
                    in Some (Some (getPageId p),
                         add_frame (getPageId p) (frame_for m (BufferFrame_new p)) bp3))))"

definition createNewPage :: "Env \<Rightarrow> TableId \<Rightarrow> PageType \<Rightarrow> BufferPool \<Rightarrow> (PageId \<times> BufferPool) option" where
  "createNewPage env t ty bp =
     (let new_page_id = next_new_page bp;
          bp1 = bp\<lparr>next_new_page := next_new_page bp + 1\<rparr>;
          p = setType ty (Page_new new_page_id t)
      in case evict_while env (pool_size bp1) bp1 of
           None \<Rightarrow> None
         | Some bp2 \<Rightarrow>
             let bp3 = bp2\<lparr>pool_stats := (pool_stats bp2)\<lparr>pool_writes := pool_writes (pool_stats bp2) + 1\<rparr>\<rparr>
             in Some (new_page_id, add_frame new_page_id ((BufferFrame_new p)\<lparr>dirty := True\<rparr>) bp3))"

definition unpinPage :: "PageId \<Rightarrow> bool \<Rightarrow> BufferPool \<Rightarrow> BufferPool" where
  "unpinPage i d bp =
     (case map_of (frames bp) i of
        None \<Rightarrow> bp
      | Some f \<Rightarrow>
          let f1 = unpin f; f2 = (if d then f1\<lparr>dirty := True\<rparr> else f1)
          in bp\<lparr>frames := AList.update i f2 (frames bp)\<rparr>)"

text \<open>One frame of a flush: written if dirty, and clean afterwards whatever the write did.\<close>

definition flush_frame :: "Env \<Rightarrow> BufferFrame \<Rightarrow> FileManager \<Rightarrow> BufferFrame \<times> FileManager" where
  "flush_frame env f fm =
     (if dirty f
      then let (p, fm') = writeToDisk env (frame_page f) fm in (f\<lparr>frame_page := p, dirty := False\<rparr>, fm')
      else (f, fm))"

definition flushPage :: "Env \<Rightarrow> PageId \<Rightarrow> BufferPool \<Rightarrow> BufferPool" where
  "flushPage env i bp =
     (case map_of (frames bp) i of
        None \<Rightarrow> bp
      | Some f \<Rightarrow>
          if dirty f
          then let (f', fm) = flush_frame env f (pool_files bp)
               in bp\<lparr>frames := AList.update i f' (frames bp), pool_files := fm,
                     pool_stats := (pool_stats bp)\<lparr>pool_writes := pool_writes (pool_stats bp) + 1\<rparr>\<rparr>
          else bp)"

fun flush_frames :: "Env \<Rightarrow> (PageId \<times> BufferFrame) list \<Rightarrow> FileManager \<Rightarrow>
    (PageId \<times> BufferFrame) list \<times> FileManager" where
  "flush_frames env [] fm = ([], fm)"
| "flush_frames env ((i, f) # fs) fm =
     (let (f', fm1) = flush_frame env f fm; (fs', fm2) = flush_frames env fs fm1
      in ((i, f') # fs', fm2))"

definition flushAll :: "Env \<Rightarrow> BufferPool \<Rightarrow> BufferPool" where
  "flushAll env bp =
     (let (fs, fm) = flush_frames env (frames bp) (pool_files bp);
          n = length (filter (\<lambda>(i, f). dirty f) (frames bp))
      in bp\<lparr>frames := fs, pool_files := fm,
            pool_stats := (pool_stats bp)\<lparr>pool_writes := pool_writes (pool_stats bp) + of_nat n\<rparr>\<rparr>)"

definition isPageInPool :: "PageId \<Rightarrow> BufferPool \<Rightarrow> bool" where
  "isPageInPool i bp \<longleftrightarrow> map_of (frames bp) i \<noteq> None"

definition discardPage :: "Env \<Rightarrow> PageId \<Rightarrow> BufferPool \<Rightarrow> BufferPool option" where
  "discardPage env i bp =
     (case map_of (frames bp) i of
        None \<Rightarrow> Some bp
      | Some f \<Rightarrow>
          drop_frame i (if dirty f
            then bp\<lparr>pool_files := snd (writeToDisk env (frame_page f) (pool_files bp))\<rparr> else bp))"

definition discardAll :: "Env \<Rightarrow> BufferPool \<Rightarrow> BufferPool" where
  "discardAll env bp = (flushAll env bp)\<lparr>frames := [], lru_list := [], lru_iterators := []\<rparr>"

text \<open>The loop condition \<^verbatim>\<open>frames_.size() > new_size\<close> is \<open>\<ge> new_size + 1\<close>.\<close>

definition setPoolSize :: "Env \<Rightarrow> nat \<Rightarrow> BufferPool \<Rightarrow> BufferPool option" where
  "setPoolSize env new_size bp =
     (let n = min new_size MAX_POOL_SIZE
      in map_option (\<lambda>bp'. bp'\<lparr>pool_size := n\<rparr>) (evict_while env (n + 1) bp))"

definition pool_sync :: "Env \<Rightarrow> BufferPool \<Rightarrow> BufferPool" where
  "pool_sync env bp = flushAll env bp"


section \<open>The invariant of the pool\<close>

definition frame_ok :: "PageId \<Rightarrow> BufferFrame \<Rightarrow> bool" where
  "frame_ok i f \<longleftrightarrow> i \<noteq> INVALID_PAGE_ID \<and> getPageId (frame_page f) = i \<and>
     length (pdata (frame_page f)) = PAGE_SIZE - HEADER_SIZE \<and> \<not> latched f"

text \<open>
  Every frame is under its page's number, unlatched, and has an iterator into the list; the
  list may hold further numbers.
\<close>

definition pool_core :: "BufferPool \<Rightarrow> bool" where
  "pool_core bp \<longleftrightarrow> strategy bp = LRU \<and> wf_map (frames bp) \<and>
     set (lru_iterators bp) = set (keys_of (frames bp)) \<and>
     set (keys_of (frames bp)) \<subseteq> set (lru_list bp) \<and>
     list_all (\<lambda>(i, f). frame_ok i f) (frames bp)"

definition pool_inv :: "BufferPool \<Rightarrow> bool" where
  "pool_inv bp \<longleftrightarrow> pool_core bp \<and> length (frames bp) \<le> pool_size bp"

definition pinned_frames :: "BufferPool \<Rightarrow> nat" where
  "pinned_frames bp = length (filter (\<lambda>(i, f). isPinned f) (frames bp))"

lemma list_all_update:
  assumes "list_all (\<lambda>(k, v). P k v) m" and "P k v"
  shows "list_all (\<lambda>(k, v). P k v) (AList.update k v m)"
  using assms set_update_subset [of k v m] by (fastforce simp: list_all_iff)

lemma list_all_delete: "list_all P m \<Longrightarrow> list_all P (AList.delete k m)"
  by (auto simp: list_all_iff AList.delete_eq)

lemma map_of_key: "i \<in> set (keys_of m) \<longleftrightarrow> map_of m i \<noteq> None"
  by (auto simp: map_of_eq_None_iff)

lemma pool_core_frame:
  assumes "pool_core bp" and "map_of (frames bp) i = Some f"
  shows "frame_ok i f" and "i \<in> set (lru_iterators bp)" and "i \<in> set (lru_list bp)"
  using assms map_of_key [of i "frames bp"]
  by (auto simp: pool_core_def list_all_iff dest: map_of_SomeD)

lemma drop_frame_core:
  assumes "pool_core bp" and "map_of (frames bp) i = Some f"
  obtains bp' where "drop_frame i bp = Some bp'" and "pool_core bp'"
    and "frames bp' = AList.delete i (frames bp)" and "pool_size bp' = pool_size bp"
    and "pool_files bp' = pool_files bp" and "next_new_page bp' = next_new_page bp"
proof -
  let ?bp' = "bp\<lparr>lru_list := remove1 i (lru_list bp), lru_iterators := removeAll i (lru_iterators bp),
                 frames := AList.delete i (frames bp)\<rparr>"
  have r: "x \<in> set (remove1 i l) \<longleftrightarrow> x \<in> set l" if "x \<noteq> i" for x and l :: "PageId list"
    using that by simp
  have "drop_frame i bp = Some ?bp'"
    using pool_core_frame(2) [OF assms] by (simp add: drop_frame_def)
  moreover have "pool_core ?bp'"
    using assms(1)
    by (auto simp: pool_core_def list_all_delete dom_map_of_conv_image_fst [symmetric])
      (metis domI r subsetD)
  ultimately show thesis using that by simp
qed

lemma pool_core_files [simp]:
  "pool_core (bp\<lparr>pool_files := fm\<rparr>) = pool_core bp" "pool_core (bp\<lparr>pool_stats := st\<rparr>) = pool_core bp"
  "pool_core (bp\<lparr>next_new_page := n\<rparr>) = pool_core bp" "pool_core (bp\<lparr>pool_size := sz\<rparr>) = pool_core bp"
  by (simp_all add: pool_core_def)

text \<open>What one eviction does, as a relation between the pools before and after.\<close>

definition evicts :: "Env \<Rightarrow> PageId \<Rightarrow> BufferFrame \<Rightarrow> BufferPool \<Rightarrow> BufferPool \<Rightarrow> bool" where
  "evicts env i f bp bp' \<longleftrightarrow>
     map_of (frames bp) i = Some f \<and> \<not> isPinned f \<and> frames bp' = AList.delete i (frames bp) \<and>
     pool_files bp' = (if dirty f then snd (writeToDisk env (frame_page f) (pool_files bp))
                       else pool_files bp) \<and>
     pool_size bp' = pool_size bp \<and> next_new_page bp' = next_new_page bp"

lemma evictPage_cases:
  assumes "pool_core bp"
  obtains (none) "evictPage env bp = Some bp" and "\<And>i f. map_of (frames bp) i = Some f \<Longrightarrow> isPinned f"
  | (one) i f bp' where "evictPage env bp = Some bp'" and "evicts env i f bp bp'" and "pool_core bp'"
proof (cases "find (unpinned_in (frames bp)) (rev (lru_list bp))")
  case None
  have "isPinned f" if f: "map_of (frames bp) i = Some f" for i f
    using None pool_core_frame(3) [OF assms f] f by (auto simp: find_None_iff unpinned_in_def)
  moreover have "evictPage env bp = Some bp"
    using assms None by (simp add: evictPage_def selectVictim_def pool_core_def)
  ultimately show thesis using none by blast
next
  case (Some i)
  then have "unpinned_in (frames bp) i" by (auto simp: find_Some_iff)
  then obtain f where f: "map_of (frames bp) i = Some f" "\<not> isPinned f"
    by (auto simp: unpinned_in_def split: option.splits)
  have v: "i \<noteq> INVALID_PAGE_ID" using pool_core_frame(1) [OF assms f(1)] by (simp add: frame_ok_def)
  let ?bp2 = "if dirty f
     then bp\<lparr>pool_files := snd (writeToDisk env (frame_page f) (pool_files bp)),
             pool_stats := (pool_stats bp)\<lparr>pool_writes := pool_writes (pool_stats bp) + 1\<rparr>\<rparr>
     else bp"
  have "pool_core ?bp2" "map_of (frames ?bp2) i = Some f" using assms f by simp_all
  then obtain bp3 where d: "drop_frame i ?bp2 = Some bp3" "pool_core bp3"
    "frames bp3 = AList.delete i (frames ?bp2)" "pool_size bp3 = pool_size ?bp2"
    "pool_files bp3 = pool_files ?bp2" "next_new_page bp3 = next_new_page ?bp2"
    by (rule drop_frame_core)
  have "selectVictim bp = (i, bp)" using assms Some by (simp add: selectVictim_def pool_core_def)
  then have "evictPage env bp = Some (bp3\<lparr>pool_stats :=
      (pool_stats bp3)\<lparr>evictions := evictions (pool_stats bp3) + 1\<rparr>\<rparr>)"
    using v f d(1) by (simp add: evictPage_def Let_def)
  then show thesis
    by (rule one [where i = i and f = f]) (use d f in \<open>simp_all add: evicts_def\<close>)
qed

lemmas evict_while_induct = evict_while.raw_induct [rotated, consumes 1, case_names step]

lemma evict_while_rule:
  assumes "evict_while env limit bp = Some bp'" and "pool_core bp" and "Q bp"
    and "\<And>bp i f bp'. pool_core bp \<Longrightarrow> Q bp \<Longrightarrow> evicts env i f bp bp' \<Longrightarrow> Q bp'"
  shows "pool_core bp' \<and> Q bp' \<and> length (frames bp') < limit"
proof -
  have "pool_core bp \<longrightarrow> Q bp \<longrightarrow>
      (\<forall>bp i f bp'. pool_core bp \<longrightarrow> Q bp \<longrightarrow> evicts env i f bp bp' \<longrightarrow> Q bp') \<longrightarrow>
      pool_core bp' \<and> Q bp' \<and> length (frames bp') < limit"
    using assms(1)
  proof (induction rule: evict_while_induct)
    case (step ev env limit bp bp')
    have ?case if q: "pool_core bp" "Q bp"
      and keeps: "\<forall>bp i f bp'. pool_core bp \<longrightarrow> Q bp \<longrightarrow> evicts env i f bp bp' \<longrightarrow> Q bp'"
      and ge: "length (frames bp) \<ge> limit"
    proof -
      from step(2) ge obtain bp2 where e: "evictPage env bp = Some bp2" "ev env limit bp2 = Some bp'"
        by (auto simp: bind_eq_Some_conv)
      have "pool_core bp2 \<and> Q bp2"
        using q(1)
      proof (cases rule: evictPage_cases [where env = env])
        case none
        then show ?thesis using e(1) q by simp
      next
        case (one i f bp3)
        have "Q bp3" using q keeps one(2) by blast
        then show ?thesis using e(1) one(1,3) by simp
      qed
      then show ?thesis using step(1) [OF e(2)] keeps by blast
    qed
    then show ?case using step(2) by (cases "length (frames bp) \<ge> limit") auto
  qed
  then show ?thesis using assms(2-4) by blast
qed


lemma pinned_frames_le: "pinned_frames bp \<le> length (frames bp)"
  by (simp add: pinned_frames_def)

lemma length_delete_key:
  assumes "wf_map m" and "map_of m i = Some v"
  shows "Suc (length (AList.delete i m)) = length m"
  using assms
proof (induction m)
  case (Cons a m)
  obtain k w where a: "a = (k, w)" by (cases a)
  show ?case
  proof (cases "k = i")
    case True
    with Cons.prems(1) a have "map_of m i = None" by (simp add: wf_map_def map_of_eq_None_iff)
    then have "AList.delete i m = m" by (simp add: delete_id map_of_eq_None_iff)
    then show ?thesis using a True by simp
  next
    case False
    then show ?thesis using Cons a by (simp add: wf_map_def)
  qed
qed simp

lemma evicts_keeps_pinned:
  assumes "evicts env i f bp bp'" and "map_of (frames bp) k = Some g" and "isPinned g"
  shows "map_of (frames bp') k = Some g"
  using assms by (auto simp: evicts_def)

lemma evicts_pinned_frames: "evicts env i f bp bp' \<Longrightarrow> wf_map (frames bp) \<Longrightarrow> pinned_frames bp' = pinned_frames bp"
proof -
  assume e: "evicts env i f bp bp'" and w: "wf_map (frames bp)"
  have "isPinned g \<Longrightarrow> (k, g) \<in> set (frames bp) \<Longrightarrow> k \<noteq> i" for k g
    using e w by (auto simp: evicts_def wf_map_member)
  then show ?thesis
    using e by (auto simp: evicts_def pinned_frames_def AList.delete_eq intro!: arg_cong [where f = length] filter_cong)
qed

lemma evict_while_returns:
  assumes "pool_core bp" and "pinned_frames bp < limit"
  shows "\<exists>bp'. evict_while env limit bp = Some bp'"
  using assms
proof (induction "length (frames bp)" arbitrary: bp rule: less_induct)
  case less
  show ?case
  proof (cases "length (frames bp) \<ge> limit")
    case False
    then show ?thesis by (simp add: evict_while.simps)
  next
    case True
    from less.prems(1) show ?thesis
    proof (cases rule: evictPage_cases [where env = env])
      case none
      then have "filter (\<lambda>(i, f). isPinned f) (frames bp) = frames bp"
        using less.prems(1) by (auto simp: filter_id_conv pool_core_def wf_map_member)
      then show ?thesis using less.prems(2) True by (simp add: pinned_frames_def)
    next
      case (one i f bp')
      have w: "wf_map (frames bp)" using less.prems(1) by (simp add: pool_core_def)
      have "length (frames bp') < length (frames bp)"
        using length_delete_key [OF w, of i f] one(2) by (simp add: evicts_def)
      moreover have "pinned_frames bp' < limit"
        using evicts_pinned_frames [OF one(2) w] less.prems(2) by simp
      ultimately obtain r where "evict_while env limit bp' = Some r"
        using less.hyps one(3) by blast
      then show ?thesis using True one(1) by (subst evict_while.simps) simp
    qed
  qed
qed

lemma evict_while_sound:
  assumes "evict_while env limit bp = Some bp'" and "pool_core bp"
  shows "pool_core bp'" and "length (frames bp') < limit" and "pool_size bp' = pool_size bp"
    and "next_new_page bp' = next_new_page bp" and "pinned_frames bp' = pinned_frames bp"
    and "map_of (frames bp) k = Some g \<Longrightarrow> isPinned g \<Longrightarrow> map_of (frames bp') k = Some g"
    and "map_of (frames bp') k = Some g \<Longrightarrow> map_of (frames bp) k = Some g"
proof -
  let ?Q = "\<lambda>b. pool_size b = pool_size bp \<and> next_new_page b = next_new_page bp \<and>
    pinned_frames b = pinned_frames bp \<and>
    (map_of (frames bp) k = Some g \<longrightarrow> isPinned g \<longrightarrow> map_of (frames b) k = Some g) \<and>
    (map_of (frames b) k = Some g \<longrightarrow> map_of (frames bp) k = Some g)"
  have "?Q b'" if "pool_core b" "?Q b" "evicts env i f b b'" for b i f b'
  proof -
    have "pinned_frames b' = pinned_frames b"
      using that(1,3) evicts_pinned_frames by (simp add: pool_core_def)
    then show ?thesis using that(2,3) evicts_keeps_pinned [OF that(3)] by (auto simp: evicts_def split: if_splits)
  qed
  then have "pool_core bp' \<and> ?Q bp' \<and> length (frames bp') < limit"
    by (intro evict_while_rule [OF assms, where Q = ?Q]) blast+
  then show "pool_core bp'" and "length (frames bp') < limit" and "pool_size bp' = pool_size bp"
    and "next_new_page bp' = next_new_page bp" and "pinned_frames bp' = pinned_frames bp"
    and "map_of (frames bp) k = Some g \<Longrightarrow> isPinned g \<Longrightarrow> map_of (frames bp') k = Some g"
    and "map_of (frames bp') k = Some g \<Longrightarrow> map_of (frames bp) k = Some g"
    by blast+
qed

lemma evict_while_iff:
  assumes "pool_core bp"
  shows "evict_while env limit bp \<noteq> None \<longleftrightarrow> pinned_frames bp < limit"
proof
  assume "evict_while env limit bp \<noteq> None"
  then obtain bp' where "evict_while env limit bp = Some bp'" by blast
  from evict_while_sound(2,5) [OF this assms] pinned_frames_le [of bp'] show "pinned_frames bp < limit"
    by simp
qed (use evict_while_returns [OF assms] in blast)


section \<open>Every operation keeps the invariant\<close>

lemma length_update: "length (AList.update k v m) \<le> Suc (length m)"
  by (induction m) auto

lemma length_update_known: "map_of m k \<noteq> None \<Longrightarrow> length (AList.update k v m) = length m"
  by (induction m) auto

lemma pool_inv_frame: "pool_inv bp \<Longrightarrow> map_of (frames bp) i = Some f \<Longrightarrow> frame_ok i f"
  using pool_core_frame(1) pool_inv_def by blast

lemma pool_inv_update:
  assumes "pool_inv bp" and "map_of (frames bp) i = Some f" and "frame_ok i f'"
  shows "pool_inv (bp\<lparr>frames := AList.update i f' (frames bp)\<rparr>)"
  using assms
  by (auto simp: pool_inv_def pool_core_def list_all_update length_update_known
        dom_map_of_conv_image_fst [symmetric])

lemma pool_inv_fields [simp]:
  "pool_inv (bp\<lparr>pool_files := fm\<rparr>) = pool_inv bp" "pool_inv (bp\<lparr>pool_stats := st\<rparr>) = pool_inv bp"
  "pool_inv (bp\<lparr>next_new_page := n\<rparr>) = pool_inv bp"
  by (simp_all add: pool_inv_def)

lemma subset_push_front: "A \<subseteq> set l \<Longrightarrow> A \<subseteq> insert i (set (remove1 i l))"
proof -
  have "set l \<subseteq> insert i (set (remove1 i l))" by (induction l) auto
  then show "A \<subseteq> set l \<Longrightarrow> A \<subseteq> insert i (set (remove1 i l))" by blast
qed

lemma pool_inv_updateLRU:
  assumes "pool_inv bp" and "map_of (frames bp) i = Some f"
  shows "pool_inv (updateLRU i bp)"
  using assms pool_core_frame(2) [of bp i f] subset_push_front [of _ "lru_list bp" i]
  by (auto simp: pool_inv_def pool_core_def updateLRU_def Let_def insert_absorb
        simp del: set_map)

lemma pool_inv_add_frame:
  assumes "pool_core bp" and "length (frames bp) < pool_size bp" and "frame_ok i f"
  shows "pool_inv (add_frame i f bp)"
  using assms length_update [of i f "frames bp"]
  by (auto simp: pool_inv_def pool_core_def add_frame_def list_all_update
        dom_map_of_conv_image_fst [symmetric] simp del: length_update)

lemma frame_ok_simps [simp]:
  "frame_ok i (f\<lparr>dirty := d\<rparr>) = frame_ok i f" "frame_ok i (f\<lparr>pin_count := n\<rparr>) = frame_ok i f"
  "frame_ok i (f\<lparr>frame_page := clearDirty (frame_page f)\<rparr>) = frame_ok i f"
  by (simp_all add: frame_ok_def getPageId_def clearDirty_def)

lemma frame_ok_frame_for [simp]: "frame_ok i (frame_for m f) = frame_ok i f"
  by (simp add: frame_for_def pin_def Let_def)

lemma frame_ok_flush: "frame_ok i f \<Longrightarrow> frame_ok i (fst (flush_frame env f fm))"
  by (simp add: flush_frame_def writeToDisk_def)

lemma readFromDisk_page:
  "readFromDisk env t i fm = Some (Some p, fm') \<Longrightarrow> length (pdata p) = PAGE_SIZE - HEADER_SIZE"
  by (auto simp: readFromDisk_def page_deserialize_def page_sizes split: prod.splits option.splits if_splits)

lemma flush_frames_Cons:
  "flush_frames env ((i, f) # fs) fm =
     ((i, fst (flush_frame env f fm)) # fst (flush_frames env fs (snd (flush_frame env f fm))),
      snd (flush_frames env fs (snd (flush_frame env f fm))))"
  by (simp add: Let_def case_prod_beta)

declare flush_frames.simps(2) [simp del] flush_frames_Cons [simp]

lemma flush_frames_keys [simp]: "keys_of (fst (flush_frames env fs fm)) = keys_of fs"
  by (induction fs arbitrary: fm) auto

lemma flush_frames_ok:
  "list_all (\<lambda>(i, f). frame_ok i f) fs \<Longrightarrow> list_all (\<lambda>(i, f). frame_ok i f) (fst (flush_frames env fs fm))"
  by (induction fs arbitrary: fm) (auto simp: frame_ok_flush)

lemma flushAll_fields:
  "frames (flushAll env bp) = fst (flush_frames env (frames bp) (pool_files bp))"
  "pool_files (flushAll env bp) = snd (flush_frames env (frames bp) (pool_files bp))"
  "lru_list (flushAll env bp) = lru_list bp" "lru_iterators (flushAll env bp) = lru_iterators bp"
  "strategy (flushAll env bp) = strategy bp" "pool_size (flushAll env bp) = pool_size bp"
  by (simp_all add: flushAll_def Let_def case_prod_beta)

lemma length_flush_frames [simp]: "length (fst (flush_frames env fs fm)) = length fs"
  by (induction fs arbitrary: fm) auto

lemma pool_inv_flushAll: "pool_inv bp \<Longrightarrow> pool_inv (flushAll env bp)"
  using flush_frames_keys [of env "frames bp" "pool_files bp"]
  by (simp add: pool_inv_def pool_core_def flushAll_fields wf_map_def flush_frames_ok
        flip: set_map del: flush_frames_keys)


text \<open>
  The pool as its clients drive it. A client that holds a pointer may change the page it
  points to, but neither its number nor its size. No page on disk carries the reserved page
  number, and the counter of new pages has not reached it.
\<close>

inductive pool_step :: "Env \<Rightarrow> BufferPool \<Rightarrow> BufferPool \<Rightarrow> bool" for env where
  fetch: "fetchPage env t i m bp = Some (r, bp') \<Longrightarrow> r \<noteq> Some INVALID_PAGE_ID \<Longrightarrow> pool_step env bp bp'"
| create: "createNewPage env t ty bp = Some (i, bp') \<Longrightarrow> i \<noteq> INVALID_PAGE_ID \<Longrightarrow> pool_step env bp bp'"
| unpin_page: "pool_step env bp (unpinPage i d bp)"
| flush: "pool_step env bp (flushPage env i bp)"
| flush_all: "pool_step env bp (flushAll env bp)"
| discard: "discardPage env i bp = Some bp' \<Longrightarrow> pool_step env bp bp'"
| discard_all: "pool_step env bp (discardAll env bp)"
| resize: "setPoolSize env n bp = Some bp' \<Longrightarrow> pool_step env bp bp'"
| modify: "map_of (frames bp) i = Some f \<Longrightarrow> getPageId p = i \<Longrightarrow>
    length (pdata p) = PAGE_SIZE - HEADER_SIZE \<Longrightarrow>
    pool_step env bp (bp\<lparr>frames := AList.update i (f\<lparr>frame_page := p\<rparr>) (frames bp)\<rparr>)"

inductive pool_reachable :: "Env \<Rightarrow> nat \<Rightarrow> FileManager \<Rightarrow> PageId \<Rightarrow> BufferPool \<Rightarrow> bool" for env n fm i0 where
  start: "pool_reachable env n fm i0 (BufferPool_new n fm i0)"
| step: "pool_reachable env n fm i0 bp \<Longrightarrow> pool_step env bp bp' \<Longrightarrow> pool_reachable env n fm i0 bp'"

inductive_cases pool_stepE: "pool_step env bp bp'"

lemma pool_inv_new: "pool_inv (BufferPool_new n fm i0)"
  by (simp add: BufferPool_new_def pool_inv_def pool_core_def)

lemma pool_inv_fetchPage:
  assumes "pool_inv bp" and "fetchPage env t i m bp = Some (r, bp')" and "r \<noteq> Some INVALID_PAGE_ID"
  shows "pool_inv bp'"
proof (cases "map_of (frames bp) i")
  case (Some f)
  let ?bp1 = "bp\<lparr>pool_stats := (pool_stats bp)\<lparr>hits := hits (pool_stats bp) + 1\<rparr>,
                 frames := AList.update i (frame_for m f) (frames bp)\<rparr>"
  have "frame_ok i f" using assms(1) Some by (rule pool_inv_frame)
  then have "pool_inv ?bp1"
    using pool_inv_update [of "bp\<lparr>pool_stats := (pool_stats bp)\<lparr>hits := hits (pool_stats bp) + 1\<rparr>\<rparr>"
        i f "frame_for m f"] assms(1) Some by simp
  then have "pool_inv (updateLRU i ?bp1)" by (rule pool_inv_updateLRU) simp
  then show ?thesis using assms(2) Some by (auto simp: fetchPage_def Let_def split: if_splits)
next
  case None
  let ?bp1 = "bp\<lparr>pool_stats := (pool_stats bp)\<lparr>misses := misses (pool_stats bp) + 1\<rparr>\<rparr>"
  from assms(2) None obtain bp2 where e: "evict_while env (pool_size bp) ?bp1 = Some bp2"
    by (auto simp: fetchPage_def Let_def split: option.splits)
  have c: "pool_core bp2" "length (frames bp2) < pool_size bp2"
    using evict_while_sound(1-3) [OF e] assms(1) by (auto simp: pool_inv_def)
  from assms(2) None e obtain pr fm where d: "readFromDisk env t i (pool_files bp2) = Some (pr, fm)"
    by (auto simp: fetchPage_def Let_def split: option.splits)
  show ?thesis
  proof (cases pr)
    case None
    then have "bp' = bp2\<lparr>pool_files := fm\<rparr>"
      using assms(2) \<open>map_of (frames bp) i = None\<close> e d by (simp add: fetchPage_def Let_def)
    then show ?thesis using c by (simp add: pool_inv_def)
  next
    case (Some p)
    then have "frame_ok (getPageId p) (BufferFrame_new p)"
      using assms(2,3) None e d readFromDisk_page [of env t i _ p fm]
      by (auto simp: fetchPage_def Let_def frame_ok_def BufferFrame_new_def)
    then show ?thesis
      using assms(2) None e d Some c by (auto simp: fetchPage_def Let_def intro!: pool_inv_add_frame)
  qed
qed

lemma pool_inv_createNewPage:
  assumes "pool_inv bp" and "createNewPage env t ty bp = Some (i, bp')" and "i \<noteq> INVALID_PAGE_ID"
  shows "pool_inv bp'"
proof -
  let ?bp1 = "bp\<lparr>next_new_page := next_new_page bp + 1\<rparr>"
  let ?p = "setType ty (Page_new i t)"
  from assms(2) obtain bp2 where e: "evict_while env (pool_size bp) ?bp1 = Some bp2"
    and i: "i = next_new_page bp"
    and bp': "bp' = add_frame i ((BufferFrame_new ?p)\<lparr>dirty := True\<rparr>)
      (bp2\<lparr>pool_stats := (pool_stats bp2)\<lparr>pool_writes := pool_writes (pool_stats bp2) + 1\<rparr>\<rparr>)"
    by (auto simp: createNewPage_def Let_def split: option.splits)
  have "pool_core bp2" "length (frames bp2) < pool_size bp2"
    using evict_while_sound(1-3) [OF e] assms(1) by (auto simp: pool_inv_def)
  moreover have "frame_ok i (BufferFrame_new ?p)"
    using assms(3) by (simp add: frame_ok_def BufferFrame_new_def getPageId_def setType_def markDirty_def
        Page_new_def Page_zeroed_def Let_def)
  ultimately show ?thesis unfolding bp' by (intro pool_inv_add_frame) simp_all
qed

lemma frame_ok_unpin [simp]: "frame_ok i (unpin f) = frame_ok i f"
  by (simp add: unpin_def)

lemma pool_inv_drop_frame:
  assumes "pool_inv bp" and "map_of (frames bp) i = Some f" and "drop_frame i bp = Some bp'"
  shows "pool_inv bp'"
proof -
  have c: "pool_core bp" using assms(1) by (simp add: pool_inv_def)
  obtain b where b: "drop_frame i bp = Some b" "pool_core b"
    "frames b = AList.delete i (frames bp)" "pool_size b = pool_size bp"
    by (rule drop_frame_core [OF c assms(2)])
  have "length (AList.delete i (frames bp)) \<le> length (frames bp)"
    by (simp add: AList.delete_eq)
  then show ?thesis using b assms(1,3) by (simp add: pool_inv_def)
qed

lemma pool_step_inv: "pool_step env bp bp' \<Longrightarrow> pool_inv bp \<Longrightarrow> pool_inv bp'"
proof (induction rule: pool_step.induct)
  case (unpin_page bp i d)
  then show ?case
    by (cases "map_of (frames bp) i")
      (auto simp: unpinPage_def Let_def intro!: pool_inv_update dest: pool_inv_frame)
next
  case (flush bp i)
  show ?case
  proof (cases "map_of (frames bp) i")
    case (Some f)
    then have "pool_inv (bp\<lparr>frames := AList.update i (fst (flush_frame env f (pool_files bp))) (frames bp)\<rparr>)"
      using flush by (intro pool_inv_update frame_ok_flush pool_inv_frame)
    then show ?thesis
      using flush Some by (simp add: flushPage_def case_prod_beta pool_inv_def pool_core_def)
  qed (use flush in \<open>simp add: flushPage_def\<close>)
next
  case (discard i bp bp')
  let ?b = "\<lambda>f. if dirty f
    then bp\<lparr>pool_files := snd (writeToDisk env (frame_page f) (pool_files bp))\<rparr> else bp"
  show ?case
  proof (cases "map_of (frames bp) i")
    case (Some f)
    have "pool_inv (?b f)" "map_of (frames (?b f)) i = Some f" using discard Some by simp_all
    then show ?thesis using discard(1) Some by (auto simp: discardPage_def elim: pool_inv_drop_frame)
  qed (use discard in \<open>simp add: discardPage_def\<close>)
next
  case (resize n bp bp')
  then obtain b where e: "evict_while env (min n MAX_POOL_SIZE + 1) bp = Some b"
    and "bp' = b\<lparr>pool_size := min n MAX_POOL_SIZE\<rparr>"
    by (auto simp: setPoolSize_def Let_def)
  then show ?case using evict_while_sound(1,2) [OF e] resize.prems
    by (simp add: pool_inv_def less_Suc_eq_le)
next
  case (modify bp i f p)
  then show ?case
    using pool_inv_frame [of bp i f] by (intro pool_inv_update) (auto simp: frame_ok_def)
next
  case (discard_all bp)
  then show ?case
    by (auto simp: discardAll_def pool_inv_def pool_core_def flushAll_fields)
qed (auto intro: pool_inv_fetchPage pool_inv_createNewPage pool_inv_flushAll)

lemma pool_reachable_inv: "pool_reachable env n fm i0 bp \<Longrightarrow> pool_inv bp"
  by (induction rule: pool_reachable.induct) (auto intro: pool_inv_new pool_step_inv)


section \<open>The pages a client sees\<close>

text \<open>
  The contents of page \<open>i\<close> of table \<open>t\<close> as the pool and the disk together hold them: the
  cached page if there is one, otherwise what the image on disk decodes to.
\<close>

definition page_place :: "Page \<Rightarrow> string \<times> PageId" where
  "page_place p = (table_file (table_id (header p)), getPageId p)"

definition disk_view :: "Env \<Rightarrow> FileManager \<Rightarrow> TableId \<Rightarrow> PageId \<Rightarrow> Page option" where
  "disk_view env fm t i = Option.bind (stored_page env fm (table_file t, i)) page_deserialize"

definition page_view :: "Env \<Rightarrow> BufferPool \<Rightarrow> TableId \<Rightarrow> PageId \<Rightarrow> Page option" where
  "page_view env bp t i =
     (case map_of (frames bp) i of
        Some f \<Rightarrow> if table_id (header (frame_page f)) = t then Some (clearDirty (frame_page f))
                  else disk_view env (pool_files bp) t i
      | None \<Rightarrow> disk_view env (pool_files bp) t i)"

text \<open>
  A pool on a usable device: it accepts writes, and the places of all frames exist on it. The pool
  is coherent when, moreover, a clean frame holds what the disk holds, that is, when no client
  changes a page it has fetched for reading.
\<close>

definition pool_writable :: "Env \<Rightarrow> BufferPool \<Rightarrow> bool" where
  "pool_writable env bp \<longleftrightarrow> healthy (pool_files bp) \<and>
     list_all (\<lambda>(i, f). place_ok env (pool_files bp) (page_place (frame_page f))) (frames bp)"

definition pool_coherent :: "Env \<Rightarrow> BufferPool \<Rightarrow> bool" where
  "pool_coherent env bp \<longleftrightarrow> pool_writable env bp \<and>
     list_all (\<lambda>(i, f). \<not> dirty f \<longrightarrow> disk_view env (pool_files bp) (table_id (header (frame_page f))) i
       = Some (clearDirty (frame_page f))) (frames bp)"

lemma pool_coherent_iff: "pool_coherent env bp \<longleftrightarrow> healthy (pool_files bp) \<and>
     list_all (\<lambda>(i, f). place_ok env (pool_files bp) (page_place (frame_page f)) \<and>
       (\<not> dirty f \<longrightarrow> disk_view env (pool_files bp) (table_id (header (frame_page f))) i
                       = Some (clearDirty (frame_page f)))) (frames bp)"
  by (auto simp: pool_coherent_def pool_writable_def list_all_iff)

lemma page_serialize_length: "length (pdata p) = PAGE_SIZE - HEADER_SIZE \<Longrightarrow> length (page_serialize p) = PAGE_SIZE"
  by (simp add: page_serialize_def page_bytes_def page_sizes)

lemma writeToDisk_device:
  "snd (writeToDisk env p fm) = device_write env fm (page_place p) (page_serialize p)"
  by (simp add: writeToDisk_def device_write_def page_place_def)

lemma stored_decodes:
  assumes "stored_page env fm (page_place p) = Some (page_serialize p)"
    and "length (pdata p) = PAGE_SIZE - HEADER_SIZE"
  shows "disk_view env fm (table_id (header p)) (getPageId p) = Some (clearDirty p)"
  using assms page_deserialize_serialize [of p]
  by (simp add: disk_view_def page_place_def clearDirty_def)

lemma writeToDisk_stores:
  assumes "healthy fm" and "place_ok env fm (page_place p)" and "length (pdata p) = PAGE_SIZE - HEADER_SIZE"
  shows "disk_view env (snd (writeToDisk env p fm)) (table_id (header p)) (getPageId p) = Some (clearDirty p)"
    and "healthy (snd (writeToDisk env p fm))"
    and "place_ok env fm a \<Longrightarrow> place_ok env (snd (writeToDisk env p fm)) a"
  using disk_device.rd_wr_same [OF assms(1,2)] disk_device.ok_wr [OF assms(1,2)]
    disk_device.place_wr [OF assms(1,2)] page_serialize_length [OF assms(3)] stored_decodes [OF _ assms(3)]
  by (simp_all add: writeToDisk_device)


lemma same_table_place:
  "same_place env (table_file t, i) (table_file t', i') \<longleftrightarrow> t = t' \<and> i = i'"
proof -
  have "dec_nat (unat t) = dec_nat (unat t') \<longleftrightarrow> t = t'"
    by (metis parse_nat_dec_nat word_unat_eq_iff)
  then show ?thesis by (auto simp: same_place_def normalizePath_def table_file_def)
qed

lemma disk_view_place:
  assumes "disk_view env fm t i = Some q" and "valid_page i"
  shows "place_ok env fm (table_file t, i)"
  using assms
  by (auto simp: disk_view_def place_ok_def fileExists_def stored_page_def contents_def read_at_def
      page_sizes bind_eq_Some_conv split: option.splits if_splits)

lemma disk_view_other:
  assumes "healthy fm" and "place_ok env fm (page_place p)" and "length (pdata p) = PAGE_SIZE - HEADER_SIZE"
    and "disk_view env fm t i = Some q" and "valid_page i" and "\<not> (t = table_id (header p) \<and> i = getPageId p)"
  shows "disk_view env (snd (writeToDisk env p fm)) t i = Some q"
proof -
  from assms(4) obtain img where img: "stored_page env fm (table_file t, i) = Some img" "page_deserialize img = Some q"
    by (auto simp: disk_view_def bind_eq_Some_conv)
  have "\<not> same_place env (page_place p) (table_file t, i)"
    using assms(6) by (auto simp: page_place_def same_table_place)
  then have "stored_page env (snd (writeToDisk env p fm)) (table_file t, i) = Some img"
    unfolding writeToDisk_device
    using img(1) page_serialize_length [OF assms(3)] disk_view_place [OF assms(4,5)]
    by (intro disk_device.rd_wr_other [OF assms(1,2)])
  then show ?thesis using img(2) by (simp add: disk_view_def)
qed

lemma evicts_view:
  assumes "pool_core bp" and "pool_coherent env bp" and "evicts env v f bp bp'" and "valid_page i"
    and "page_view env bp t i = Some q"
  shows "pool_coherent env bp' \<and> page_view env bp' t i = Some q"
proof -
  let ?fm = "pool_files bp" and ?p = "frame_page f"
  from assms(3) have v: "map_of (frames bp) v = Some f" and fs: "frames bp' = AList.delete v (frames bp)"
    and fm': "pool_files bp' = (if dirty f then snd (writeToDisk env ?p ?fm) else ?fm)"
    by (simp_all add: evicts_def)
  have f: "getPageId ?p = v" "length (pdata ?p) = PAGE_SIZE - HEADER_SIZE"
    using pool_core_frame(1) [OF assms(1) v] by (simp_all add: frame_ok_def)
  have h: "healthy ?fm" and pl: "place_ok env ?fm (page_place ?p)"
    and cl: "\<not> dirty f \<Longrightarrow> disk_view env ?fm (table_id (header ?p)) v = Some (clearDirty ?p)"
    using assms(2) map_of_SomeD [OF v] by (auto simp: pool_coherent_iff list_all_iff)
  note dev = h pl f(2)
  have other: "disk_view env (pool_files bp') t' i' = Some q'"
    if "disk_view env ?fm t' i' = Some q'" "valid_page i'" "\<not> (t' = table_id (header ?p) \<and> i' = v)" for t' i' q'
    using disk_view_other [OF dev that(1,2)] that(1,3) by (simp add: fm' f(1))
  have own: "disk_view env (pool_files bp') (table_id (header ?p)) v = Some (clearDirty ?p)"
    using writeToDisk_stores(1) [OF dev] cl by (simp add: fm' f(1))
  have "pool_coherent env bp'"
    unfolding pool_coherent_iff list_all_iff
  proof (intro conjI ballI)
    show "healthy (pool_files bp')" using writeToDisk_stores(2) [OF dev] h by (simp add: fm')
    fix kf assume kf: "kf \<in> set (frames bp')"
    obtain k g where k: "kf = (k, g)" by (cases kf)
    from kf have n: "k \<noteq> v" "(k, g) \<in> set (frames bp)" by (auto simp: k fs AList.delete_eq)
    then have g: "place_ok env ?fm (page_place (frame_page g))"
      "\<not> dirty g \<Longrightarrow> disk_view env ?fm (table_id (header (frame_page g))) k = Some (clearDirty (frame_page g))"
      using assms(2) by (auto simp: pool_coherent_iff list_all_iff)
    have "getPageId (frame_page g) = k"
      using assms(1) n(2) by (auto simp: pool_core_def list_all_iff frame_ok_def)
    then have "valid_page k" using g(1) by (simp add: place_ok_def page_place_def)
    then show "case kf of (i, f) \<Rightarrow> place_ok env (pool_files bp') (page_place (frame_page f)) \<and>
        (\<not> dirty f \<longrightarrow> disk_view env (pool_files bp') (table_id (header (frame_page f))) i = Some (clearDirty (frame_page f)))"
      using g other n(1) writeToDisk_stores(3) [OF dev g(1)] by (simp add: k fm')
  qed
  moreover have "page_view env bp' t i = Some q"
  proof (cases "i = v \<and> table_id (header ?p) = t")
    case True
    then show ?thesis using assms(5) own v by (auto simp: page_view_def fs)
  next
    case False
    then show ?thesis
      using assms(4,5) other v by (auto simp: page_view_def fs split: option.splits if_splits)
  qed
  ultimately show ?thesis by blast
qed


text \<open>A usable device reads back what is stored.\<close>

lemma healthy_readPage:
  assumes "healthy fm" and "place_ok env fm (f, i)" and "stored_page env fm (f, i) = Some b"
  obtains fm' where "readPage env f i fm = (Some b, fm')" and "disk fm' = disk fm"
proof -
  obtain h fm1 where o: "openFile env f READ fm = (Some h, fm1)" "\<not> failed h" "can_read (fh_mode h)"
    "disk fm1 = disk fm"
  proof (cases "handle_of env f fm")
    case None
    moreover have "fileExists env f fm" using assms(2) by (simp add: place_ok_def)
    ultimately show ?thesis
      by (rule openFile_RW_new [where m = READ, OF _ disjI1 [OF refl]])
        (auto intro!: that simp: can_read_def)
  next
    case (Some h)
    then show ?thesis using healthy_handle [OF assms(1) Some] that [of h fm]
      by (simp add: openFile_cached can_read_def)
  qed
  have "\<not> sint (page_offset i) < 0" using assms(2) by (simp add: place_ok_def sint_page_offset)
  moreover have "contents fm1 = contents fm" by (simp add: contents_def o(4) fun_eq_iff)
  ultimately show thesis
    using o assms(3) that by (simp add: readPage_def fh_read_def Let_def stored_page_def)
qed

lemma disk_view_cong: "disk fm = disk fm' \<Longrightarrow> disk_view env fm = disk_view env fm'"
  by (simp add: disk_view_def stored_page_def contents_def fun_eq_iff)

lemma healthy_readFromDisk:
  assumes "healthy fm" and "valid_page i" and "disk_view env fm t i = Some q"
  obtains fm' where "readFromDisk env t i fm = Some (Some q, fm')" and "disk fm' = disk fm"
proof -
  from assms(3) obtain b where b: "stored_page env fm (table_file t, i) = Some b" "page_deserialize b = Some q"
    by (auto simp: disk_view_def bind_eq_Some_conv)
  obtain fm' where "readPage env (table_file t) i fm = (Some b, fm')" "disk fm' = disk fm"
    by (rule healthy_readPage [OF assms(1) disk_view_place [OF assms(3,2)] b(1)])
  then show thesis using that b(2) by (simp add: readFromDisk_def)
qed

lemma evict_while_view:
  assumes "evict_while env limit bp = Some bp'" and "pool_core bp" and "pool_coherent env bp"
    and "valid_page i" and "page_view env bp t i = Some q"
  shows "pool_coherent env bp' \<and> page_view env bp' t i = Some q"
  using evict_while_rule [OF assms(1,2), where Q = "\<lambda>b. pool_coherent env b \<and> page_view env b t i = Some q"]
    assms(3-5) evicts_view by blast

lemma page_view_fields [simp]:
  "page_view env (bp\<lparr>pool_stats := st\<rparr>) = page_view env bp" "page_view env (bp\<lparr>next_new_page := n\<rparr>) = page_view env bp"
  "pool_coherent env (bp\<lparr>pool_stats := st\<rparr>) = pool_coherent env bp"
  "pool_coherent env (bp\<lparr>next_new_page := n\<rparr>) = pool_coherent env bp"
  by (auto simp: page_view_def pool_coherent_iff fun_eq_iff split: option.splits)

lemma flush_frames_wr_all:
  "snd (flush_frames env fs fm) = disk_device.wr_all env fm
     (map (\<lambda>(i, f). (page_place (frame_page f), page_serialize (frame_page f))) (filter (\<lambda>(i, f). dirty f) fs))"
  by (induction fs arbitrary: fm)
    (auto simp: flush_frame_def writeToDisk_device case_prod_beta disk_device.wr_all.simps)

lemma flush_frames_result:
  "map_of (fst (flush_frames env fs fm)) i =
     map_option (\<lambda>f. if dirty f then f\<lparr>frame_page := clearDirty (frame_page f), dirty := False\<rparr> else f) (map_of fs i)"
  by (induction fs arbitrary: fm) (auto simp: flush_frame_def writeToDisk_def)

lemma flush_places_distinct:
  assumes "wf_map fs" and "list_all (\<lambda>(i, f). frame_ok i f) fs"
  shows "sorted_wrt (\<lambda>(a, b) (a', b'). \<not> same_place env a' a)
    (map (\<lambda>(i, f). (page_place (frame_page f), page_serialize (frame_page f))) (filter (\<lambda>(i, f). dirty f) fs))"
proof -
  let ?R = "\<lambda>x y. \<not> same_place env (page_place (frame_page (snd y))) (page_place (frame_page (snd x)))"
  have "sorted_wrt (\<lambda>x y. fst x \<noteq> fst y) fs"
    using assms(1) by (simp add: wf_map_def distinct_conv_nth sorted_wrt_iff_nth_less)
  then have "sorted_wrt ?R fs"
    using assms(2)
    by (elim sorted_wrt_mono_rel [rotated])
      (auto simp: list_all_iff frame_ok_def page_place_def same_table_place split: prod.splits)
  then show ?thesis by (simp add: sorted_wrt_map case_prod_beta sorted_wrt_filter)
qed


lemma fetchPage_miss:
  assumes "map_of (frames bp) i = None"
    and "evict_while env (pool_size bp) (bp\<lparr>pool_stats := (pool_stats bp)\<lparr>misses := misses (pool_stats bp) + 1\<rparr>\<rparr>) = Some bp2"
    and "readFromDisk env t i (pool_files bp2) = Some (Some q, fm)"
  shows "fetchPage env t i m bp = Some (Some (getPageId q), add_frame (getPageId q) (frame_for m (BufferFrame_new q))
     (bp2\<lparr>pool_files := fm, pool_stats := (pool_stats bp2)\<lparr>pool_reads := pool_reads (pool_stats bp2) + 1\<rparr>\<rparr>))"
  using assms by (simp add: fetchPage_def Let_def)

lemma frame_page_frame_for [simp]: "frame_page (frame_for m f) = frame_page f"
  by (simp add: frame_for_def pin_def Let_def)

lemma page_view_add_frame:
  assumes "page_view env bp t k = Some q" and "k \<noteq> i" and "disk fm = disk (pool_files bp)"
  shows "page_view env (add_frame i f (bp\<lparr>pool_files := fm, pool_stats := st\<rparr>)) t k = Some q"
  using assms disk_view_cong [of fm "pool_files bp" env]
  by (auto simp: page_view_def add_frame_def split: option.splits if_splits)

section \<open>Properties\<close>

definition example_pool :: BufferPool where
  "example_pool = BufferPool_new 2 (FileManager_new []) 1"

text \<open>
  C11: at every moment the pool holds at most \<^verbatim>\<open>pool_size_\<close> frames, one per page number,
  each under the number of its own page, unlatched and with an entry in the list that
  replacement walks, whatever sequence of operations the clients have made.
\<close>

theorem pool_capacity:
  assumes "pool_reachable env n fm i0 bp"
  shows "length (frames bp) \<le> pool_size bp \<and> distinct (keys_of (frames bp)) \<and>
    (\<forall>(i, f) \<in> set (frames bp). getPageId (frame_page f) = i \<and> \<not> latched f \<and>
       i \<in> set (lru_list bp) \<and> i \<in> set (lru_iterators bp))"
proof -
  have inv: "pool_inv bp" by (rule pool_reachable_inv [OF assms])
  then have "map_of (frames bp) i = Some f" if "(i, f) \<in> set (frames bp)" for i f
    using that by (simp add: pool_inv_def pool_core_def wf_map_member)
  then show ?thesis
    using inv pool_core_frame [of bp] by (auto simp: pool_inv_def pool_core_def wf_map_def frame_ok_def)
qed

lemma example_create:
  "createNewPage env t ty example_pool = Some (1, add_frame 1 ((BufferFrame_new (setType ty (Page_new 1 t)))\<lparr>dirty := True\<rparr>)
     (example_pool\<lparr>next_new_page := 2, pool_stats := BufferPoolStats_new\<lparr>pool_writes := 1\<rparr>\<rparr>))"
  by (simp add: createNewPage_def example_pool_def BufferPool_new_def MAX_POOL_SIZE_def Let_def
      evict_while.simps BufferPoolStats_new_def)

theorem pool_capacity_witness:
  "length (frames (snd (the (createNewPage example_env 1 DATA_PAGE example_pool)))) \<le>
     pool_size (snd (the (createNewPage example_env 1 DATA_PAGE example_pool)))"
proof -
  have "pool_reachable example_env 2 (FileManager_new []) 1
      (snd (the (createNewPage example_env 1 DATA_PAGE example_pool)))"
    by (rule pool_reachable.step [OF pool_reachable.start pool_step.create [of _ 1 DATA_PAGE _ 1]])
      (simp_all add: example_create flip: example_pool_def, simp add: INVALID_PAGE_ID_def)
  from pool_capacity [OF this] show ?thesis by blast
qed

lemma createNewPage_result:
  assumes "pool_reachable env n fm i0 bp"
  shows "createNewPage env t ty bp \<noteq> None \<longleftrightarrow> pinned_frames bp < pool_size bp"
    and "createNewPage env t ty bp = Some (i, bp') \<Longrightarrow> map_of (frames bp) k = Some g \<Longrightarrow> isPinned g \<Longrightarrow>
      k \<noteq> i \<Longrightarrow> map_of (frames bp') k = Some g"
    and "createNewPage env t ty bp = Some (i, bp') \<Longrightarrow> i = next_new_page bp \<and>
      map_of (frames bp') i = Some ((BufferFrame_new (setType ty (Page_new i t)))\<lparr>dirty := True\<rparr>)"
proof -
  let ?bp1 = "bp\<lparr>next_new_page := next_new_page bp + 1\<rparr>"
  have c: "pool_core ?bp1" using pool_reachable_inv [OF assms] by (simp add: pool_inv_def)
  have "pinned_frames ?bp1 = pinned_frames bp" by (simp add: pinned_frames_def)
  then show "createNewPage env t ty bp \<noteq> None \<longleftrightarrow> pinned_frames bp < pool_size bp"
    using evict_while_iff [OF c, of env "pool_size bp"]
    by (auto simp: createNewPage_def Let_def split: option.splits)
  assume r: "createNewPage env t ty bp = Some (i, bp')"
  then obtain bp2 where e: "evict_while env (pool_size bp) ?bp1 = Some bp2"
    by (auto simp: createNewPage_def Let_def split: option.splits)
  show "i = next_new_page bp \<and> map_of (frames bp') i = Some ((BufferFrame_new (setType ty (Page_new i t)))\<lparr>dirty := True\<rparr>)"
    using r e by (auto simp: createNewPage_def Let_def add_frame_def)
  assume "map_of (frames bp) k = Some g" "isPinned g" "k \<noteq> i"
  then have "map_of (frames bp2) k = Some g" using evict_while_sound(6) [OF e c] by simp
  then show "map_of (frames bp') k = Some g"
    using r e \<open>k \<noteq> i\<close> by (auto simp: createNewPage_def Let_def add_frame_def)
qed

text \<open>
  C12: \<^verbatim>\<open>createNewPage\<close> returns if and only if fewer frames are pinned than the pool
  has: otherwise its eviction loop runs forever. When it returns, the new page is in the pool under
  the next number of the counter, dirty, unpinned and typed as asked, and every pinned page with
  another number is still in its frame, unchanged. The number is not checked against the pool: a
  page that is cached under it, pinned or not, is overwritten by the new one.
\<close>

theorem createNewPage_returns_iff:
  assumes "pool_reachable env n fm i0 bp"
  shows "(createNewPage env t ty bp \<noteq> None \<longleftrightarrow> pinned_frames bp < pool_size bp) \<and>
    (\<forall>i bp'. createNewPage env t ty bp = Some (i, bp') \<longrightarrow> i = next_new_page bp \<and>
       map_of (frames bp') i = Some ((BufferFrame_new (setType ty (Page_new i t)))\<lparr>dirty := True\<rparr>) \<and>
       (\<forall>k g. map_of (frames bp) k = Some g \<and> isPinned g \<and> k \<noteq> i \<longrightarrow> map_of (frames bp') k = Some g))"
  using createNewPage_result [OF assms] by blast

theorem createNewPage_returns_iff_witness:
  "createNewPage example_env 1 DATA_PAGE (BufferPool_new 0 (FileManager_new []) 1) = None"
  using createNewPage_returns_iff [OF pool_reachable.start [of example_env 0 "FileManager_new []" 1], of 1 DATA_PAGE]
  by (simp add: BufferPool_new_def del: not_None_eq)


lemma fetchPage_cached:
  assumes "pool_inv bp" and "map_of (frames bp) i = Some f"
  shows "\<exists>bp'. fetchPage env t i m bp = Some (Some i, bp') \<and> map_of (frames bp') i = Some (frame_for m f) \<and>
    (\<forall>t' k. k \<noteq> i \<longrightarrow> page_view env bp' t' k = page_view env bp t' k)"
proof -
  have "\<not> latched f" using pool_inv_frame [OF assms] by (simp add: frame_ok_def)
  then obtain bp' where r: "fetchPage env t i m bp = Some (Some i, bp')"
    and b: "frames bp' = AList.update i (frame_for m f) (frames bp)" "pool_files bp' = pool_files bp"
    using assms(2) by (simp add: fetchPage_def Let_def updateLRU_def)
  have "page_view env bp' t' k = page_view env bp t' k" if "k \<noteq> i" for t' k
    using that by (auto simp: page_view_def b split: option.splits)
  then show ?thesis using r b by (intro exI [of _ bp']) simp
qed

lemma fetchPage_stuck:
  assumes "pool_inv bp" and "map_of (frames bp) i = None" and "\<not> pinned_frames bp < pool_size bp"
  shows "fetchPage env t i m bp = None"
proof -
  let ?bp1 = "bp\<lparr>pool_stats := (pool_stats bp)\<lparr>misses := misses (pool_stats bp) + 1\<rparr>\<rparr>"
  have "pool_core ?bp1" using assms(1) by (simp add: pool_inv_def)
  moreover have "\<not> pinned_frames ?bp1 < pool_size bp" using assms(3) by (simp add: pinned_frames_def)
  ultimately have "evict_while env (pool_size bp) ?bp1 = None" using evict_while_iff by blast
  then show ?thesis using assms(2) by (simp add: fetchPage_def Let_def)
qed

lemma fetchPage_read:
  assumes "pool_inv bp" and "pool_coherent env bp" and "valid_page i" and "map_of (frames bp) i = None"
    and "pinned_frames bp < pool_size bp" and "disk_view env (pool_files bp) t i = Some q" and "getPageId q = i"
  shows "\<exists>bp'. fetchPage env t i m bp = Some (Some i, bp') \<and> map_of (frames bp') i = Some (frame_for m (BufferFrame_new q)) \<and>
    (\<forall>t' k q'. valid_page k \<and> k \<noteq> i \<and> page_view env bp t' k = Some q' \<longrightarrow> page_view env bp' t' k = Some q')"
proof -
  let ?bp1 = "bp\<lparr>pool_stats := (pool_stats bp)\<lparr>misses := misses (pool_stats bp) + 1\<rparr>\<rparr>"
  have c: "pool_core ?bp1" using assms(1) by (simp add: pool_inv_def)
  have "pinned_frames ?bp1 < pool_size bp" using assms(5) by (simp add: pinned_frames_def)
  then obtain bp2 where e: "evict_while env (pool_size bp) ?bp1 = Some bp2"
    using evict_while_returns [OF c] by blast
  have view: "pool_coherent env bp2 \<and> page_view env bp2 t' k = Some q'"
    if "valid_page k" "page_view env bp t' k = Some q'" for t' k q'
    using that evict_while_view [OF e c] assms(2) by simp
  have "map_of (frames bp2) i = None"
    using evict_while_sound(7) [OF e c, of i] assms(4) by (cases "map_of (frames bp2) i") auto
  moreover have "page_view env bp t i = Some q" using assms(4,6) by (simp add: page_view_def)
  ultimately have "disk_view env (pool_files bp2) t i = Some q" "healthy (pool_files bp2)"
    using view [OF assms(3), of t q] by (simp_all add: page_view_def pool_coherent_def pool_writable_def)
  then obtain fm where d: "readFromDisk env t i (pool_files bp2) = Some (Some q, fm)" "disk fm = disk (pool_files bp2)"
    using healthy_readFromDisk assms(3) by blast
  obtain st where r: "fetchPage env t i m bp = Some (Some i, add_frame i (frame_for m (BufferFrame_new q))
      (bp2\<lparr>pool_files := fm, pool_stats := st\<rparr>))"
    using fetchPage_miss [OF assms(4) e d(1), of m] assms(7) by simp
  then show ?thesis using view page_view_add_frame [OF _ _ d(2)] by (auto simp: add_frame_def)
qed

text \<open>
  C4: \<^verbatim>\<open>fetchPage\<close> in a coherent pool on a usable device. A page number that is cached
  gives the cached page, of whatever table it is (the pool looks at the number only), and the pages
  under the other numbers keep their contents. A page that is not cached is read from the file of
  its table after evictions, provided the image there carries its own number, and again no
  other page changes: replacement loses nothing. When it is not cached and all frames are pinned,
  the call does not return.
\<close>

theorem fetchPage_correct:
  assumes "pool_inv bp" and "pool_coherent env bp" and "valid_page i"
  shows "case map_of (frames bp) i of
      Some f \<Rightarrow> \<exists>bp'. fetchPage env t i m bp = Some (Some i, bp') \<and> map_of (frames bp') i = Some (frame_for m f) \<and>
        (\<forall>t' k. k \<noteq> i \<longrightarrow> page_view env bp' t' k = page_view env bp t' k)
    | None \<Rightarrow> if pinned_frames bp < pool_size bp
        then \<forall>q. disk_view env (pool_files bp) t i = Some q \<and> getPageId q = i \<longrightarrow>
          (\<exists>bp'. fetchPage env t i m bp = Some (Some i, bp') \<and> map_of (frames bp') i = Some (frame_for m (BufferFrame_new q)) \<and>
            (\<forall>t' k q'. valid_page k \<and> k \<noteq> i \<and> page_view env bp t' k = Some q' \<longrightarrow> page_view env bp' t' k = Some q'))
        else fetchPage env t i m bp = None"
proof (cases "map_of (frames bp) i")
  case (Some f)
  then show ?thesis using fetchPage_cached [OF assms(1) Some] by simp
next
  case None
  then show ?thesis
    using fetchPage_read [OF assms(1,2,3) None] fetchPage_stuck [OF assms(1) None] by auto
qed

definition one_page_files :: FileManager where
  "one_page_files = FileManager_new [(''/home/data/tables/table_3.dat'', page_serialize (Page_zeroed 0 3))]"

lemma digit_3: "digit_char 3 = CHR ''3''"
  by code_simp

lemma one_page_view: "disk_view example_env one_page_files 3 0 = Some (Page_zeroed 0 3)"
proof -
  have len: "length (page_serialize (Page_zeroed 0 3)) = 4096"
    by (simp add: page_serialize_length page_sizes Page_zeroed_def)
  have "page_deserialize (page_serialize (Page_zeroed 0 3)) = Some (Page_zeroed 0 3)"
    by (subst page_deserialize_serialize) (simp_all add: Page_zeroed_def clearDirty_def)
  moreover have "normalizePath example_env (table_file 3) = ''/home/data/tables/table_3.dat''"
    by (simp add: normalizePath_def table_file_def example_env_def dec_nat.simps digit_3)
  ultimately show ?thesis
    using len by (simp add: disk_view_def stored_page_def contents_def one_page_files_def FileManager_new_def
        read_at_def page_offset_def page_sizes)
qed

theorem fetchPage_correct_witness:
  "\<exists>bp'. fetchPage example_env 3 0 FETCH_READ (BufferPool_new 2 one_page_files 1) = Some (Some 0, bp') \<and>
     map_of (frames bp') 0 = Some (frame_for FETCH_READ (BufferFrame_new (Page_zeroed 0 3)))"
proof -
  let ?bp = "BufferPool_new 2 one_page_files 1"
  have "pool_coherent example_env ?bp"
    by (simp add: pool_coherent_def pool_writable_def BufferPool_new_def healthy_def one_page_files_def FileManager_new_def)
  moreover have "pinned_frames ?bp < pool_size ?bp"
    by (simp add: pinned_frames_def BufferPool_new_def MAX_POOL_SIZE_def)
  moreover have "valid_page 0" "map_of (frames ?bp) 0 = None" "getPageId (Page_zeroed 0 3) = 0"
    "disk_view example_env (pool_files ?bp) 3 0 = Some (Page_zeroed 0 3)"
    by (simp_all add: valid_page_def getPageId_def BufferPool_new_def one_page_view) (simp add: Page_zeroed_def)
  ultimately show ?thesis
    using fetchPage_correct [OF pool_inv_new, of example_env 2 one_page_files 1 0 3 FETCH_READ] by auto
qed

lemma flushAll_files:
  "pool_files (flushAll env bp) = disk_device.wr_all env (pool_files bp)
     (map (\<lambda>(i, f). (page_place (frame_page f), page_serialize (frame_page f))) (filter (\<lambda>(i, f). dirty f) (frames bp)))"
  by (simp add: flushAll_fields flush_frames_wr_all)

lemma flushed_places:
  assumes "pool_inv bp" and "pool_writable env bp" and "(k, g) \<in> set (frames bp)"
  shows "place_ok env (pool_files bp) (page_place (frame_page g)) \<and> length (page_serialize (frame_page g)) = PAGE_SIZE \<and>
    getPageId (frame_page g) = k"
  using assms
  by (auto simp: pool_inv_def pool_core_def pool_writable_def list_all_iff frame_ok_def intro!: page_serialize_length)

lemma flushAll_stores:
  assumes "pool_inv bp" and "pool_writable env bp" and "map_of (frames bp) i = Some f" and "dirty f"
  shows "disk_view env (pool_files (flushAll env bp)) (table_id (header (frame_page f))) i = Some (clearDirty (frame_page f))"
proof -
  let ?p = "frame_page f"
  let ?ws = "map (\<lambda>(i, f). (page_place (frame_page f), page_serialize (frame_page f))) (filter (\<lambda>(i, f). dirty f) (frames bp))"
  have core: "wf_map (frames bp)" "list_all (\<lambda>(i, f). frame_ok i f) (frames bp)"
    using assms(1) by (simp_all add: pool_inv_def pool_core_def)
  have ok: "\<forall>(a, b) \<in> set ?ws. place_ok env (pool_files bp) a \<and> length b = PAGE_SIZE"
    using flushed_places [OF assms(1,2)] by auto
  have h: "healthy (pool_files bp)" using assms(2) by (simp add: pool_writable_def)
  have "(page_place ?p, page_serialize ?p) \<in> set ?ws"
    using map_of_SomeD [OF assms(3)] assms(4) by (force simp: image_iff)
  then have "stored_page env (pool_files (flushAll env bp)) (page_place ?p) = Some (page_serialize ?p)"
    unfolding flushAll_files by (rule disk_device.wr_all_stores [OF h ok flush_places_distinct [OF core]])
  then show ?thesis
    using stored_decodes pool_inv_frame [OF assms(1,3)] by (auto simp: frame_ok_def)
qed

lemma flushAll_keeps:
  assumes "pool_inv bp" and "pool_writable env bp" and "valid_page k" and "disk_view env (pool_files bp) t k = Some q"
    and "\<nexists>g. map_of (frames bp) k = Some g \<and> dirty g \<and> table_id (header (frame_page g)) = t"
  shows "disk_view env (pool_files (flushAll env bp)) t k = Some q"
proof -
  let ?ws = "map (\<lambda>(i, f). (page_place (frame_page f), page_serialize (frame_page f))) (filter (\<lambda>(i, f). dirty f) (frames bp))"
  have wf: "wf_map (frames bp)" using assms(1) by (simp add: pool_inv_def pool_core_def)
  have "\<not> same_place env (page_place (frame_page g)) (table_file t, k)" if "(j, g) \<in> set (frames bp)" "dirty g" for j g
    using that assms(5) flushed_places [OF assms(1,2) that(1)] wf
    by (auto simp: page_place_def same_table_place wf_map_member)
  then have "\<forall>(a, b) \<in> set ?ws. place_ok env (pool_files bp) a \<and> length b = PAGE_SIZE \<and> \<not> same_place env a (table_file t, k)"
    using flushed_places [OF assms(1,2)] by auto
  moreover obtain b where "stored_page env (pool_files bp) (table_file t, k) = Some b" "page_deserialize b = Some q"
    using assms(4) by (auto simp: disk_view_def bind_eq_Some_conv)
  moreover have "healthy (pool_files bp)" using assms(2) by (simp add: pool_writable_def)
  ultimately have "stored_page env (pool_files (flushAll env bp)) (table_file t, k) = Some b"
    unfolding flushAll_files using disk_device.wr_all_other disk_view_place [OF assms(4,3)] by blast
  then show ?thesis using \<open>page_deserialize b = _\<close> by (simp add: disk_view_def)
qed

text \<open>
  C22: \<^verbatim>\<open>flushAll\<close> on a usable device (handles open for writing, files of the cached pages
  present) writes exactly the dirty pages: afterwards the image of a page whose frame was dirty
  decodes to that page, every other image is unchanged, the frames hold the same pages, and none is
  dirty. A frame that was changed but not marked dirty is not written.
\<close>

theorem flushAll_writes_all:
  assumes "pool_inv bp" and "pool_writable env bp"
  shows "(\<forall>i f. map_of (frames bp) i = Some f \<and> dirty f \<longrightarrow>
      disk_view env (pool_files (flushAll env bp)) (table_id (header (frame_page f))) i = Some (clearDirty (frame_page f))) \<and>
    (\<forall>t k q. valid_page k \<and> disk_view env (pool_files bp) t k = Some q \<and>
      (\<nexists>g. map_of (frames bp) k = Some g \<and> dirty g \<and> table_id (header (frame_page g)) = t) \<longrightarrow>
      disk_view env (pool_files (flushAll env bp)) t k = Some q) \<and>
    (\<forall>i. map_of (frames (flushAll env bp)) i = map_option (\<lambda>f. if dirty f
      then f\<lparr>frame_page := clearDirty (frame_page f), dirty := False\<rparr> else f) (map_of (frames bp) i))"
proof (intro conjI allI impI)
  fix i show "map_of (frames (flushAll env bp)) i = map_option (\<lambda>f. if dirty f
      then f\<lparr>frame_page := clearDirty (frame_page f), dirty := False\<rparr> else f) (map_of (frames bp) i)"
    by (simp add: flushAll_fields flush_frames_result)
qed (use flushAll_stores [OF assms] flushAll_keeps [OF assms] in blast)+

definition dirty_pool :: BufferPool where
  "dirty_pool = (BufferPool_new 2 one_page_files 1)\<lparr>frames := [(0, (BufferFrame_new (Page_zeroed 0 3))\<lparr>dirty := True\<rparr>)],
     lru_list := [0], lru_iterators := [0]\<rparr>"

lemma dirty_pool_inv: "pool_inv dirty_pool"
  by (simp add: dirty_pool_def pool_inv_def pool_core_def BufferPool_new_def BufferFrame_new_def frame_ok_def
      Page_zeroed_def getPageId_def wf_map_def MAX_POOL_SIZE_def INVALID_PAGE_ID_def)

lemma dirty_pool_writable: "pool_writable example_env dirty_pool"
proof -
  have "place_ok example_env one_page_files (table_file 3, 0)"
    by (rule disk_view_place [OF one_page_view]) (simp add: valid_page_def)
  then show ?thesis
    by (simp add: pool_writable_def dirty_pool_def BufferPool_new_def BufferFrame_new_def page_place_def
        Page_zeroed_def getPageId_def healthy_def)
      (simp add: one_page_files_def FileManager_new_def)
qed

theorem flushAll_writes_all_witness:
  "disk_view example_env (pool_files (flushAll example_env dirty_pool)) 3 0 = Some (clearDirty (Page_zeroed 0 3))"
proof -
  have "map_of (frames dirty_pool) 0 = Some ((BufferFrame_new (Page_zeroed 0 3))\<lparr>dirty := True\<rparr>)" by (simp add: dirty_pool_def)
  moreover have "table_id (header (Page_zeroed 0 3)) = 3" by (simp add: Page_zeroed_def)
  ultimately show ?thesis
    using flushAll_writes_all [OF dirty_pool_inv dirty_pool_writable] by (fastforce simp: BufferFrame_new_def)
qed

lemma fetched_update_result:
  assumes "map_of (frames bp) i = None" and "length (frames bp) < pool_size bp"
    and "handle_of env (table_file t) (pool_files bp) = None" and "fileExists env (table_file t) (pool_files bp)"
    and "fetchPage env t i FETCH_WRITE bp = Some (Some i, bp1)" and "map_of (frames bp1) i = Some f"
    and "table_id (header p) = t" and "getPageId p = i"
    and "bp2 = bp1\<lparr>frames := AList.update i (f\<lparr>frame_page := p\<rparr>) (frames bp1)\<rparr>"
  shows "dirty f" and "disk (pool_files (flushPage env i bp2)) = disk (pool_files bp)"
    and "map_of (frames (flushPage env i bp2)) i = Some (f\<lparr>frame_page := clearDirty p, dirty := False\<rparr>)"
proof -
  have "evict_while env (pool_size bp) (bp\<lparr>pool_stats := st\<rparr>) = Some (bp\<lparr>pool_stats := st\<rparr>)" for st
    using assms(2) by (simp add: evict_while.simps)
  then obtain q fm st where rd: "readFromDisk env t i (pool_files bp) = Some (Some q, fm)"
    and bp1: "bp1 = add_frame (getPageId q) (frame_for FETCH_WRITE (BufferFrame_new q))
       (bp\<lparr>pool_files := fm, pool_stats := st\<rparr>)" and q: "getPageId q = i"
    using assms(1,5) by (auto simp: fetchPage_def Let_def split: option.splits)
  have fm: "fm = snd (readPage env (table_file t) i (pool_files bp))"
    using rd by (auto simp: readFromDisk_def split: prod.splits option.splits)
  obtain b where h: "handle_of env (table_file t) fm = Some \<lparr>fh_mode = READ, failed = b\<rparr>"
    and d: "disk fm = disk (pool_files bp)"
    unfolding fm by (rule readPage_opened [OF assms(3,4)])
  show df: "dirty f"
    using assms(6) bp1 q by (auto simp: add_frame_def frame_for_def)
  have "\<not> writable_now env (table_file t) fm" using h by (simp add: writable_now_def can_write_def)
  then have "disk (snd (writeToDisk env p fm)) = disk (pool_files bp)"
    using not_writable_refused [of env "table_file t" fm] d by (simp add: writeToDisk_def assms(7))
  moreover have "pool_files bp2 = fm" by (simp add: assms(9) bp1 add_frame_def)
  ultimately show "disk (pool_files (flushPage env i bp2)) = disk (pool_files bp)"
    and "map_of (frames (flushPage env i bp2)) i = Some (f\<lparr>frame_page := clearDirty p, dirty := False\<rparr>)"
    using df by (simp_all add: flushPage_def flush_frame_def assms(9) case_prod_beta Let_def)
      (simp_all add: writeToDisk_def)
qed

text \<open>
  C32: an update that is flushed and not written. In a pool with a free frame, when the file of a
  table exists and is not open yet, fetching one of its pages for writing opens the file read-only;
  whatever the client then writes into the page, a \<^verbatim>\<open>flushPage\<close> that follows at once
  leaves the disk as it was, ignores the failure and marks the frame clean.
\<close>

theorem fetched_update_lost:
  assumes "map_of (frames bp) i = None" and "length (frames bp) < pool_size bp"
    and "handle_of env (table_file t) (pool_files bp) = None" and "fileExists env (table_file t) (pool_files bp)"
    and "fetchPage env t i FETCH_WRITE bp = Some (Some i, bp1)" and "map_of (frames bp1) i = Some f"
    and "table_id (header p) = t" and "getPageId p = i"
    and "bp2 = bp1\<lparr>frames := AList.update i (f\<lparr>frame_page := p\<rparr>) (frames bp1)\<rparr>"
  shows "dirty f \<and> disk (pool_files (flushPage env i bp2)) = disk (pool_files bp) \<and>
    map_of (frames (flushPage env i bp2)) i = Some (f\<lparr>frame_page := clearDirty p, dirty := False\<rparr>)"
  using fetched_update_result [OF assms] by blast

theorem fetched_update_lost_witness:
  "\<exists>bp1. fetchPage example_env 3 0 FETCH_WRITE (BufferPool_new 2 one_page_files 1) = Some (Some 0, bp1) \<and>
     (\<exists>f. map_of (frames bp1) 0 = Some f \<and> dirty f \<and>
       disk (pool_files (flushPage example_env 0 (bp1\<lparr>frames :=
         AList.update 0 (f\<lparr>frame_page := setNextPage 9 (Page_zeroed 0 3)\<rparr>) (frames bp1)\<rparr>))) = disk one_page_files)"
proof -
  let ?bp = "BufferPool_new 2 one_page_files 1"
  have e: "fileExists example_env (table_file 3) (pool_files ?bp)"
    using disk_view_place [OF one_page_view] by (simp add: place_ok_def valid_page_def BufferPool_new_def)
  have hl: "healthy one_page_files" and hn: "handle_of example_env (table_file 3) (pool_files ?bp) = None"
    by (simp_all add: healthy_def handle_of_def BufferPool_new_def one_page_files_def FileManager_new_def)
  obtain fm where "readFromDisk example_env 3 0 one_page_files = Some (Some (Page_zeroed 0 3), fm)"
    by (rule healthy_readFromDisk [OF hl _ one_page_view]) (simp_all add: valid_page_def)
  then obtain bp1 f where "fetchPage example_env 3 0 FETCH_WRITE ?bp = Some (Some 0, bp1)" "map_of (frames bp1) 0 = Some f"
    by (simp add: fetchPage_def BufferPool_new_def evict_while.simps MAX_POOL_SIZE_def Let_def add_frame_def
        getPageId_def Page_zeroed_def)
  moreover have "frames ?bp = []" "pool_size ?bp = 2" "pool_files ?bp = one_page_files"
    by (simp_all add: BufferPool_new_def MAX_POOL_SIZE_def)
  moreover have "table_id (header (setNextPage 9 (Page_zeroed 0 3))) = 3" "getPageId (setNextPage 9 (Page_zeroed 0 3)) = 0"
    by (simp_all add: setNextPage_def markDirty_def getPageId_def Page_zeroed_def)
  ultimately show ?thesis
    using fetched_update_lost [OF _ _ hn e, of 0 bp1 f "setNextPage 9 (Page_zeroed 0 3)"] by simp
qed

end
