(* ===== verification/TransactionManager.thy ===== *)
theory TransactionManager
  imports BufferPool LogManager LockManager
begin

text \<open>
  \<^verbatim>\<open>transaction/transaction_manager.h\<close> and \<^verbatim>\<open>transaction/transaction_manager.cpp\<close>:
  the life cycle of transactions over the log, the buffer pool and the lock table. The
  mutex of the manager is part of the state, because some operations call others that lock
  it again. A pointer to a transaction is its number; the object is in the map of active or
  in the map of completed transactions. The clock (nanoseconds) is an argument. The average
  duration, a floating-point statistic, is left out.
\<close>

section \<open>Data\<close>

datatype AccessMode = READ_ONLY | READ_WRITE_ACCESS

datatype IsolationLevel = READ_UNCOMMITTED | READ_COMMITTED | REPEATABLE_READ | SERIALIZABLE

datatype TransactionPriority = LOW | NORMAL | HIGH | CRITICAL

fun priority_number :: "TransactionPriority \<Rightarrow> nat" where
  "priority_number LOW = 0"
| "priority_number NORMAL = 1"
| "priority_number HIGH = 2"
| "priority_number CRITICAL = 3"

text \<open>The before images of a savepoint are never filled.\<close>

record Savepoint =
  sp_name :: string
  log_position :: LogSequenceNumber

record Transaction =
  tx_id :: TransactionId
  tx_state :: TransactionState
  isolation :: IsolationLevel
  access_mode :: AccessMode
  priority :: TransactionPriority
  start_time :: "64 word"
  last_access :: "64 word"
  last_lsn :: LogSequenceNumber
  modified_pages :: "(PageId \<times> u32) list"
  savepoints :: "Savepoint list"

record TransactionManagerStats =
  active_count :: u64
  committed_count :: u64
  aborted_count :: u64
  deadlock_count :: u64
  max_concurrent :: u64

record TransactionManager =
  tm_pool :: BufferPool
  tm_log :: LogManager
  tm_locks :: LockManager
  active_transactions :: "(TransactionId \<times> Transaction) list"
  completed_transactions :: "(TransactionId \<times> Transaction) list"
  next_tx_id :: TransactionId
  max_transactions :: nat
  default_isolation :: IsolationLevel
  tm_mutex :: bool
  deadlock_timeout_ms :: u64
  tm_stats :: TransactionManagerStats

text \<open>
  Locking the mutex again in the thread that owns it: the standard leaves it undefined, the mutexes
  of the platforms block forever, which is what the model says. Either way the call has no result.
\<close>

definition tm_lock :: "TransactionManager \<Rightarrow> TransactionManager outcome" where
  "tm_lock s = (if tm_mutex s then Hangs else Finished (s\<lparr>tm_mutex := True\<rparr>))"

definition tm_unlock :: "TransactionManager \<Rightarrow> TransactionManager" where
  "tm_unlock s = s\<lparr>tm_mutex := False\<rparr>"

section \<open>Transactions\<close>

definition Transaction_new :: "TransactionId \<Rightarrow> IsolationLevel \<Rightarrow> AccessMode \<Rightarrow> 64 word \<Rightarrow> Transaction" where
  "Transaction_new i lvl m now = \<lparr>tx_id = i, tx_state = ACTIVE, isolation = lvl, access_mode = m,
     priority = NORMAL, start_time = now, last_access = now, last_lsn = 0, modified_pages = [],
     savepoints = []\<rparr>"

definition addModifiedPage :: "PageId \<Rightarrow> u32 \<Rightarrow> Transaction \<Rightarrow> Transaction" where
  "addModifiedPage p n t = t\<lparr>modified_pages := AList.update p n (modified_pages t)\<rparr>"

definition createSavepoint :: "string \<Rightarrow> Transaction \<Rightarrow> Transaction" where
  "createSavepoint name t =
     t\<lparr>savepoints := savepoints t @ [\<lparr>sp_name = name, log_position = last_lsn t\<rparr>]\<rparr>"

text \<open>The first savepoint of that name goes with all later ones; no page is restored.\<close>

definition tx_rollbackToSavepoint :: "string \<Rightarrow> Transaction \<Rightarrow> Transaction" where
  "tx_rollbackToSavepoint name t =
     (case find_index (\<lambda>sp. sp_name sp = name) (savepoints t) of
        None \<Rightarrow> t
      | Some k \<Rightarrow> t\<lparr>savepoints := butlast (take (Suc k) (savepoints t))\<rparr>)"

definition tx_releaseSavepoint :: "string \<Rightarrow> Transaction \<Rightarrow> Transaction" where
  "tx_releaseSavepoint name t =
     (case find_index (\<lambda>sp. sp_name sp = name) (savepoints t) of
        None \<Rightarrow> t
      | Some k \<Rightarrow> t\<lparr>savepoints := take k (savepoints t) @ drop (Suc k) (savepoints t)\<rparr>)"

text \<open>The signed number of milliseconds is compared as an unsigned one.\<close>

definition isExpired :: "64 word \<Rightarrow> u64 \<Rightarrow> Transaction \<Rightarrow> bool" where
  "isExpired now timeout t \<longleftrightarrow> (word_of_int (sint (now - last_access t) sdiv 1000000) :: u64) > timeout"

section \<open>The manager\<close>

definition TransactionManagerStats_new :: TransactionManagerStats where
  "TransactionManagerStats_new = \<lparr>active_count = 0, committed_count = 0, aborted_count = 0,
     deadlock_count = 0, max_concurrent = 0\<rparr>"

definition TransactionManager_new :: "BufferPool \<Rightarrow> LogManager \<Rightarrow> TransactionManager" where
  "TransactionManager_new bp l = \<lparr>tm_pool = bp, tm_log = l, tm_locks = LockManager_new,
     active_transactions = [], completed_transactions = [], next_tx_id = 1, max_transactions = 1000,
     default_isolation = REPEATABLE_READ, tm_mutex = False, deadlock_timeout_ms = 5000,
     tm_stats = TransactionManagerStats_new\<rparr>"

definition tm_object :: "TransactionManager \<Rightarrow> TransactionId \<Rightarrow> Transaction option" where
  "tm_object s i = (case map_of (active_transactions s) i of
      Some t \<Rightarrow> Some t | None \<Rightarrow> map_of (completed_transactions s) i)"

definition tm_store :: "TransactionId \<Rightarrow> Transaction \<Rightarrow> TransactionManager \<Rightarrow> TransactionManager" where
  "tm_store i t s = (if map_of (active_transactions s) i \<noteq> None
      then s\<lparr>active_transactions := AList.update i t (active_transactions s)\<rparr>
      else s\<lparr>completed_transactions := AList.update i t (completed_transactions s)\<rparr>)"

definition generateTransactionId :: "TransactionManager \<Rightarrow> TransactionId \<times> TransactionManager" where
  "generateTransactionId s = (next_tx_id s, s\<lparr>next_tx_id := next_tx_id s + 1\<rparr>)"

definition tm_record :: "LogRecordType \<Rightarrow> TransactionId \<Rightarrow> LogRecord" where
  "tm_record ty i = LogRecord_new\<lparr>lr_type := ty, transaction_id := i\<rparr>"

text \<open>\<open>tx_begin\<close> is \<^verbatim>\<open>begin\<close>: a null pointer when there are too many transactions.\<close>

definition tx_begin :: "64 word \<Rightarrow> IsolationLevel \<Rightarrow> AccessMode \<Rightarrow> TransactionManager \<Rightarrow>
    (TransactionId option \<times> TransactionManager) outcome" where
  "tx_begin now lvl m s =
     and_then (tm_lock s) (\<lambda>s.
       if length (active_transactions s) \<ge> max_transactions s then Finished (None, tm_unlock s)
       else
         let (i, s) = generateTransactionId s;
             (n, l) = appendLogRecord now (tm_record BEGIN i) (tm_log s);
             t = (Transaction_new i lvl m now)\<lparr>last_lsn := n\<rparr>;
             st = tm_stats s; c = active_count st + 1
         in Finished (Some i, tm_unlock (s\<lparr>tm_log := l,
              active_transactions := AList.update i t (active_transactions s),
              tm_stats := st\<lparr>active_count := c, max_concurrent := max (max_concurrent st) c\<rparr>\<rparr>)))"

text \<open>\<^verbatim>\<open>std::min_element\<close>: the first entry with the least start time.\<close>

definition oldest :: "(TransactionId \<times> Transaction) list \<Rightarrow> TransactionId \<times> Transaction" where
  "oldest xs = foldl (\<lambda>b x. if sint (start_time (snd x)) < sint (start_time (snd b)) then x else b) (hd xs) (tl xs)"

definition MAX_COMPLETED :: nat where
  "MAX_COMPLETED = 10000"

definition archiveCompletedTransaction :: "Transaction \<Rightarrow> TransactionManager \<Rightarrow> TransactionManager" where
  "archiveCompletedTransaction t s =
     (let c = AList.update (tx_id t) t (completed_transactions s)
      in s\<lparr>completed_transactions :=
             (if length c > MAX_COMPLETED then AList.delete (fst (oldest c)) c else c)\<rparr>)"

text \<open>
  The common end of \<^verbatim>\<open>commit\<close> and \<^verbatim>\<open>abort\<close>: log record, release of the locks,
  new state, move to the completed transactions.
\<close>

definition tm_finish :: "64 word \<Rightarrow> LogRecordType \<Rightarrow> TransactionState \<Rightarrow> TransactionId \<Rightarrow> Transaction \<Rightarrow>
    TransactionManager \<Rightarrow> TransactionManager" where
  "tm_finish now ty st i t s =
     (let (n, l) = appendLogRecord now (tm_record ty (tx_id t)) (tm_log s);
          t = t\<lparr>last_lsn := n, tx_state := st\<rparr>;
          s = tm_store i t (s\<lparr>tm_log := l, tm_locks := snd (releaseAllLocks (tx_id t) (tm_locks s))\<rparr>)
      in case map_of (active_transactions s) (tx_id t) of
           None \<Rightarrow> s
         | Some t' \<Rightarrow>
             let s = archiveCompletedTransaction t' s
             in s\<lparr>active_transactions := AList.delete (tx_id t) (active_transactions s)\<rparr>)"

text \<open>After the mutex is released the start time is read through the pointer.\<close>

definition commit :: "Env \<Rightarrow> 64 word \<Rightarrow> TransactionId option \<Rightarrow> TransactionManager \<Rightarrow>
    (StatusCode \<times> TransactionManager) outcome" where
  "commit env now ptr s =
     (case ptr of None \<Rightarrow> Finished (ERROR, s)
      | Some i \<Rightarrow>
        (case tm_object s i of None \<Rightarrow> Undef
         | Some t \<Rightarrow>
             if tx_state t \<noteq> ACTIVE then Finished (ERROR, s)
             else and_then (tm_lock s) (\<lambda>s.
               let s = s\<lparr>tm_pool := fold (flushPage env) (keys_of (modified_pages t)) (tm_pool s)\<rparr>;
                   s = tm_finish now COMMIT COMMITTED i t s;
                   st = tm_stats s;
                   s = tm_unlock (s\<lparr>tm_stats := st\<lparr>committed_count := committed_count st + 1,
                                      active_count := active_count st - 1\<rparr>\<rparr>)
               in if tm_object s i = None then Undef else Finished (OK, s))))"

definition getTransaction :: "64 word \<Rightarrow> TransactionId \<Rightarrow> TransactionManager \<Rightarrow>
    (TransactionId option \<times> TransactionManager) outcome" where
  "getTransaction now i s =
     and_then (tm_lock s) (\<lambda>s.
       case map_of (active_transactions s) i of
         Some t \<Rightarrow> Finished (Some i, tm_unlock
           (s\<lparr>active_transactions := AList.update i (t\<lparr>last_access := now\<rparr>) (active_transactions s)\<rparr>))
       | None \<Rightarrow> Finished (None, tm_unlock s))"

text \<open>The loop over the log records of the transaction does nothing in any of its cases.\<close>

definition undoTransaction :: "64 word \<Rightarrow> TransactionId \<Rightarrow> TransactionManager \<Rightarrow>
    (bool \<times> TransactionManager) outcome" where
  "undoTransaction now i s =
     and_then (getTransaction now i s) (\<lambda>(p, s). Finished (p \<noteq> None, s))"

definition abort :: "64 word \<Rightarrow> TransactionId option \<Rightarrow> TransactionManager \<Rightarrow>
    (StatusCode \<times> TransactionManager) outcome" where
  "abort now ptr s =
     (case ptr of None \<Rightarrow> Finished (ERROR, s)
      | Some i \<Rightarrow>
        (case tm_object s i of None \<Rightarrow> Undef
         | Some t \<Rightarrow>
             if tx_state t \<noteq> ACTIVE then Finished (ERROR, s)
             else and_then (tm_lock s) (\<lambda>s. and_then (undoTransaction now (tx_id t) s) (\<lambda>(undone, s).
               if \<not> undone then Finished (ERROR, tm_unlock s)
               else
                 let s = tm_finish now ABORT ABORTED i t s; st = tm_stats s
                 in Finished (OK, tm_unlock (s\<lparr>tm_stats := st\<lparr>aborted_count := aborted_count st + 1,
                      active_count := active_count st - 1\<rparr>\<rparr>))))))"

definition rollback :: "64 word \<Rightarrow> TransactionId option \<Rightarrow> TransactionManager \<Rightarrow>
    (StatusCode \<times> TransactionManager) outcome" where
  "rollback now ptr s = abort now ptr s"

section \<open>Savepoints\<close>

text \<open>
  The name with its terminating zero is copied into a buffer of \<^verbatim>\<open>data_length\<close> bytes, a
  16-bit field: a longer name overruns it.
\<close>

definition text_record :: "LogRecordType \<Rightarrow> TransactionId \<Rightarrow> string \<Rightarrow> LogRecord option" where
  "text_record ty i txt =
     (let n = (of_nat (length txt + 1) :: u16) in
      if unat n < length txt + 1 then None
      else Some ((tm_record ty i)\<lparr>data_length := n, lr_data := Some (bytes_of_string txt @ [0])\<rparr>))"

definition active_object :: "TransactionManager \<Rightarrow> TransactionId option \<Rightarrow> Transaction option outcome" where
  "active_object s ptr =
     (case ptr of None \<Rightarrow> Finished None
      | Some i \<Rightarrow> (case tm_object s i of None \<Rightarrow> Undef
                  | Some t \<Rightarrow> Finished (if tx_state t = ACTIVE then Some t else None)))"

definition savepoint :: "64 word \<Rightarrow> TransactionId option \<Rightarrow> string \<Rightarrow> TransactionManager \<Rightarrow>
    (StatusCode \<times> TransactionManager) outcome" where
  "savepoint now ptr name s =
     and_then (active_object s ptr) (\<lambda>obj. case obj of None \<Rightarrow> Finished (ERROR, s)
       | Some t \<Rightarrow>
           let s = tm_store (the ptr) (createSavepoint name t) s in
           (case text_record SAVEPOINT (tx_id t) name of None \<Rightarrow> Undef
            | Some r \<Rightarrow> Finished (OK, s\<lparr>tm_log := snd (appendLogRecord now r (tm_log s))\<rparr>)))"

definition rollbackToSavepoint :: "64 word \<Rightarrow> TransactionId option \<Rightarrow> string \<Rightarrow> TransactionManager \<Rightarrow>
    (StatusCode \<times> TransactionManager) outcome" where
  "rollbackToSavepoint now ptr name s =
     and_then (active_object s ptr) (\<lambda>obj. case obj of None \<Rightarrow> Finished (ERROR, s)
       | Some t \<Rightarrow>
           let s = tm_store (the ptr) (tx_rollbackToSavepoint name t) s in
           (case text_record ROLLBACK_SAVEPOINT (tx_id t) name of None \<Rightarrow> Undef
            | Some r \<Rightarrow> Finished (OK, s\<lparr>tm_log := snd (appendLogRecord now r (tm_log s))\<rparr>)))"

definition releaseSavepoint :: "TransactionId option \<Rightarrow> string \<Rightarrow> TransactionManager \<Rightarrow>
    (StatusCode \<times> TransactionManager) outcome" where
  "releaseSavepoint ptr name s =
     and_then (active_object s ptr) (\<lambda>obj. case obj of None \<Rightarrow> Finished (ERROR, s)
       | Some t \<Rightarrow> Finished (OK, tm_store (the ptr) (tx_releaseSavepoint name t) s))"

section \<open>Checkpoint and recovery\<close>

fun comma_list :: "string list \<Rightarrow> string" where
  "comma_list [] = []"
| "comma_list [x] = x"
| "comma_list (x # y # xs) = x @ '','' @ comma_list (y # xs)"

definition tm_checkpoint :: "Env \<Rightarrow> 64 word \<Rightarrow> TransactionManager \<Rightarrow> (StatusCode \<times> TransactionManager) outcome" where
  "tm_checkpoint env now s =
     and_then (tm_lock s) (\<lambda>s.
       let s = s\<lparr>tm_pool := flushAll env (tm_pool s)\<rparr>;
           active_txs = comma_list (map (\<lambda>(i, t). dec_nat (unat i)) (active_transactions s))
       in case text_record CHECKPOINT 0 active_txs of None \<Rightarrow> Undef
          | Some r \<Rightarrow> Finished (OK, tm_unlock
              (s\<lparr>tm_log := log_flushAll (snd (appendLogRecord now r (tm_log s)))\<rparr>)))"

text \<open>
  The passes of recovery walk a hash table of the log records; \<open>logs\<close> is that table in the
  order in which it is walked.
\<close>

definition last_checkpoint_lsn :: "(LogSequenceNumber \<times> LogRecord) list \<Rightarrow> LogSequenceNumber" where
  "last_checkpoint_lsn logs =
     fold (\<lambda>(l, r) c. if lr_type r = CHECKPOINT \<and> l > c then l else c) logs 0"

definition analyse_record :: "LogSequenceNumber \<times> LogRecord \<Rightarrow>
    (TransactionId \<times> TransactionState) list \<times> (TransactionId \<times> LogSequenceNumber) list \<times> (PageId \<times> LogSequenceNumber) list \<Rightarrow>
    (TransactionId \<times> TransactionState) list \<times> (TransactionId \<times> LogSequenceNumber) list \<times> (PageId \<times> LogSequenceNumber) list" where
  "analyse_record = (\<lambda>(l, r) (tx_states, tx_last, page_lsns).
     case lr_type r of
       BEGIN \<Rightarrow> (AList.update (transaction_id r) ACTIVE tx_states, AList.update (transaction_id r) l tx_last, page_lsns)
     | COMMIT \<Rightarrow> (AList.update (transaction_id r) COMMITTED tx_states, tx_last, page_lsns)
     | ABORT \<Rightarrow> (AList.update (transaction_id r) ABORTED tx_states, tx_last, page_lsns)
     | INSERT \<Rightarrow> (tx_states, AList.update (transaction_id r) l tx_last,
          if lr_page_id r \<noteq> INVALID_PAGE_ID then AList.update (lr_page_id r) l page_lsns else page_lsns)
     | UPDATE \<Rightarrow> (tx_states, AList.update (transaction_id r) l tx_last,
          if lr_page_id r \<noteq> INVALID_PAGE_ID then AList.update (lr_page_id r) l page_lsns else page_lsns)
     | DELETE \<Rightarrow> (tx_states, AList.update (transaction_id r) l tx_last,
          if lr_page_id r \<noteq> INVALID_PAGE_ID then AList.update (lr_page_id r) l page_lsns else page_lsns)
     | _ \<Rightarrow> (tx_states, tx_last, page_lsns))"

definition redoTransaction :: "LogRecord \<Rightarrow> bool" where
  "redoTransaction r \<longleftrightarrow> lr_type r = INSERT \<or> lr_type r = UPDATE \<or> lr_type r = DELETE"

text \<open>The records the redo pass hands to \<^const>\<open>redoTransaction\<close>, whose result is ignored.\<close>

definition redo_records :: "(LogSequenceNumber \<times> LogRecord) list \<Rightarrow> (TransactionId \<times> TransactionState) list \<Rightarrow>
    (PageId \<times> LogSequenceNumber) list \<Rightarrow> LogRecord list" where
  "redo_records logs tx_states page_lsns =
     map snd (filter (\<lambda>(l, r). map_of tx_states (transaction_id r) = Some COMMITTED \<and>
       (case map_of page_lsns (lr_page_id r) of None \<Rightarrow> True | Some p \<Rightarrow> p < l)) logs)"

fun undo_all :: "64 word \<Rightarrow> TransactionId list \<Rightarrow> TransactionManager \<Rightarrow> TransactionManager outcome" where
  "undo_all now [] s = Finished s"
| "undo_all now (i # is) s = and_then (undoTransaction now i s) (\<lambda>(b, s). undo_all now is s)"

definition tm_recover :: "64 word \<Rightarrow> (LogSequenceNumber \<times> LogRecord) list \<Rightarrow> TransactionManager \<Rightarrow>
    (StatusCode \<times> TransactionManager) outcome" where
  "tm_recover now logs s =
     and_then (tm_lock s) (\<lambda>s.
       let checkpoint_lsn = last_checkpoint_lsn logs;
           logs = filter (\<lambda>(l, r). \<not> l < checkpoint_lsn) logs;
           (tx_states, tx_last, page_lsns) = fold analyse_record logs ([], [], []);
           redone = map redoTransaction (redo_records logs tx_states page_lsns);
           last_of = (\<lambda>i. case map_of tx_last i of None \<Rightarrow> 0 | Some l \<Rightarrow> l);
           active_txs = sort_key (\<lambda>i. - int (unat (last_of i)))
             (map fst (filter (\<lambda>(i, st). st = ACTIVE) tx_states))
       in and_then (undo_all now active_txs s) (\<lambda>s. Finished (OK, tm_unlock s)))"

section \<open>Queries and configuration\<close>

definition getActiveTransactions :: "TransactionManager \<Rightarrow> TransactionId list outcome" where
  "getActiveTransactions s =
     and_then (tm_lock s) (\<lambda>s. Finished (keys_of (active_transactions s)))"

definition validateTransaction :: "64 word \<Rightarrow> TransactionId option \<Rightarrow> TransactionManager \<Rightarrow> bool outcome" where
  "validateTransaction now ptr s =
     and_then (active_object s ptr) (\<lambda>obj. Finished
       (case obj of None \<Rightarrow> False | Some t \<Rightarrow> \<not> isExpired now (deadlock_timeout_ms s) t))"

definition resetStats :: "TransactionManager \<Rightarrow> TransactionManager" where
  "resetStats s = s\<lparr>tm_stats := TransactionManagerStats_new\<rparr>"

definition setMaxTransactions :: "nat \<Rightarrow> TransactionManager \<Rightarrow> TransactionManager" where
  "setMaxTransactions n s = s\<lparr>max_transactions := n\<rparr>"

definition setDeadlockTimeout :: "u64 \<Rightarrow> TransactionManager \<Rightarrow> TransactionManager" where
  "setDeadlockTimeout n s = s\<lparr>deadlock_timeout_ms := n\<rparr>"

definition setDefaultIsolation :: "IsolationLevel \<Rightarrow> TransactionManager \<Rightarrow> TransactionManager" where
  "setDefaultIsolation l s = s\<lparr>default_isolation := l\<rparr>"


section \<open>The deadlock detector\<close>

text \<open>
  The search of \<^verbatim>\<open>checkDeadlock\<close>: \<^const>\<open>None\<close> is false, \<open>Some visited\<close> is true with
  the vector as the search leaves it.
\<close>

primrec first_some :: "('a \<Rightarrow> 'b option) \<Rightarrow> 'a list \<Rightarrow> 'b option" where
  "first_some f [] = None"
| "first_some f (x # xs) = (case f x of None \<Rightarrow> first_some f xs | Some y \<Rightarrow> Some y)"

lemma first_some_cong [fundef_cong]:
  "xs = ys \<Longrightarrow> (\<And>x. x \<in> set ys \<Longrightarrow> f x = g x) \<Longrightarrow> first_some f xs = first_some g ys"
  by (induction xs arbitrary: ys) (auto split: option.splits)

function tm_checkDeadlock :: "LockManager \<Rightarrow> TransactionId list \<Rightarrow> TransactionId \<Rightarrow> TransactionId list option" where
  "tm_checkDeadlock s visited tx =
     (if tx \<in> set visited then Some visited
      else first_some (\<lambda>w. tm_checkDeadlock s (visited @ [tx]) w) (getWaitingTransactions tx s))"
  by pat_completeness auto
termination
proof (relation "measure (\<lambda>(s, visited, tx). card (insert tx (set (keys_of (waiting_for s))) - set visited))")
  fix s :: LockManager and visited tx w
  assume tx: "tx \<notin> set visited" and w: "w \<in> set (getWaitingTransactions tx s)"
  let ?K = "set (keys_of (waiting_for s))"
  have "insert w ?K - set (visited @ [tx]) \<subseteq> (insert tx ?K - set visited) - {tx}"
    using getWaitingTransactions_keys [OF w] by auto
  also have "\<dots> \<subset> insert tx ?K - set visited" using tx by auto
  finally have "card (insert w ?K - set (visited @ [tx])) < card (insert tx ?K - set visited)"
    by (intro psubset_card_mono) auto
  then show "((s, visited @ [tx], w), (s, visited, tx))
      \<in> measure (\<lambda>(s, visited, tx). card (insert tx (set (keys_of (waiting_for s))) - set visited))"
    by simp
qed simp

declare tm_checkDeadlock.simps [simp del]

text \<open>
  The victim is the first transaction of least priority. Comparing with a transaction that
  is not in the map would insert a null pointer and follow it.
\<close>

definition victim_of :: "TransactionManager \<Rightarrow> TransactionId list \<Rightarrow> TransactionId outcome" where
  "victim_of s visited =
     (if list_all (\<lambda>i. map_of (active_transactions s) i \<noteq> None) visited
      then Finished (foldl (\<lambda>b i.
             if priority_number (priority (the (map_of (active_transactions s) i)))
                < priority_number (priority (the (map_of (active_transactions s) b))) then i else b)
           (hd visited) (tl visited))
      else Undef)"

fun detect_loop :: "64 word \<Rightarrow> TransactionId list \<Rightarrow> TransactionManager \<Rightarrow> TransactionManager outcome" where
  "detect_loop now [] s = Finished s"
| "detect_loop now (i # is) s =
     (case tm_checkDeadlock (tm_locks s) [] i of
        None \<Rightarrow> detect_loop now is s
      | Some visited \<Rightarrow>
          and_then (victim_of s visited) (\<lambda>v.
          and_then (abort now (Some v) s) (\<lambda>(st, s).
            detect_loop now is (s\<lparr>tm_stats := (tm_stats s)\<lparr>deadlock_count := deadlock_count (tm_stats s) + 1\<rparr>\<rparr>))))"

fun cleanup_loop :: "64 word \<Rightarrow> (TransactionId \<times> Transaction) list \<Rightarrow> TransactionManager \<Rightarrow>
    TransactionManager outcome" where
  "cleanup_loop now [] s = Finished s"
| "cleanup_loop now ((i, t) # ts) s =
     (if isExpired now (deadlock_timeout_ms s) t
      then and_then (abort now (Some i) s) (\<lambda>(st, s).
             cleanup_loop now ts (s\<lparr>active_transactions := AList.delete i (active_transactions s)\<rparr>))
      else cleanup_loop now ts s)"

definition cleanupExpiredTransactions :: "64 word \<Rightarrow> TransactionManager \<Rightarrow> TransactionManager outcome" where
  "cleanupExpiredTransactions now s = cleanup_loop now (active_transactions s) s"

text \<open>One round of the detector thread after its sleep.\<close>

definition detectDeadlocks :: "64 word \<Rightarrow> TransactionManager \<Rightarrow> TransactionManager outcome" where
  "detectDeadlocks now s =
     and_then (tm_lock s) (\<lambda>s.
     and_then (detect_loop now (keys_of (active_transactions s)) s) (\<lambda>s.
     and_then (cleanupExpiredTransactions now s) (\<lambda>s. Finished (tm_unlock s))))"

section \<open>Invariant\<close>

definition active_ok :: "TransactionId \<Rightarrow> TransactionId \<times> Transaction \<Rightarrow> bool" where
  "active_ok n x \<longleftrightarrow> tx_id (snd x) = fst x \<and> tx_state (snd x) = ACTIVE \<and> fst x < n"

definition completed_ok :: "TransactionId \<Rightarrow> TransactionId \<times> Transaction \<Rightarrow> bool" where
  "completed_ok n x \<longleftrightarrow> tx_id (snd x) = fst x \<and> tx_state (snd x) \<noteq> ACTIVE \<and> fst x < n"

definition tm_inv :: "TransactionManager \<Rightarrow> bool" where
  "tm_inv s \<longleftrightarrow> \<not> tm_mutex s \<and> wf_map (active_transactions s) \<and> wf_map (completed_transactions s) \<and>
     list_all (active_ok (next_tx_id s)) (active_transactions s) \<and>
     list_all (completed_ok (next_tx_id s)) (completed_transactions s) \<and>
     set (keys_of (active_transactions s)) \<inter> set (keys_of (completed_transactions s)) = {} \<and>
     length (completed_transactions s) \<le> MAX_COMPLETED \<and>
     granted_locks (tm_locks s) = [] \<and> wait_queues (tm_locks s) = [] \<and> waiting_for (tm_locks s) = []"

text \<open>
  The manager as its clients use it: the calls that return. A client that holds a pointer to
  an active transaction may also record modified pages and set its priority.
\<close>

inductive tm_step :: "Env \<Rightarrow> TransactionManager \<Rightarrow> TransactionManager \<Rightarrow> bool" for env where
  begin_tx: "tx_begin now lvl m s = Finished (p, s') \<Longrightarrow> next_tx_id s \<noteq> - 1 \<Longrightarrow> tm_step env s s'"
| commit_tx: "commit env now p s = Finished (st, s') \<Longrightarrow> tm_step env s s'"
| abort_tx: "abort now p s = Finished (st, s') \<Longrightarrow> tm_step env s s'"
| get_tx: "getTransaction now i s = Finished (p, s') \<Longrightarrow> tm_step env s s'"
| savepoint_tx: "savepoint now p nm s = Finished (st, s') \<Longrightarrow> tm_step env s s'"
| rollback_to: "rollbackToSavepoint now p nm s = Finished (st, s') \<Longrightarrow> tm_step env s s'"
| release: "releaseSavepoint p nm s = Finished (st, s') \<Longrightarrow> tm_step env s s'"
| checkpoint_tx: "tm_checkpoint env now s = Finished (st, s') \<Longrightarrow> tm_step env s s'"
| recover_tx: "tm_recover now logs s = Finished (st, s') \<Longrightarrow> tm_step env s s'"
| detect: "detectDeadlocks now s = Finished s' \<Longrightarrow> tm_step env s s'"
| touch: "map_of (active_transactions s) i = Some t \<Longrightarrow>
    tm_step env s (tm_store i ((addModifiedPage p n t)\<lparr>priority := pr\<rparr>) s)"
| pool: "pool_step env (tm_pool s) bp \<Longrightarrow> tm_step env s (s\<lparr>tm_pool := bp\<rparr>)"
| max_tx: "tm_step env s (setMaxTransactions k s)"
| timeout: "tm_step env s (setDeadlockTimeout n s)"
| isolation: "tm_step env s (setDefaultIsolation lvl s)"
| reset: "tm_step env s (resetStats s)"

inductive tm_reachable :: "Env \<Rightarrow> TransactionManager \<Rightarrow> TransactionManager \<Rightarrow> bool" for env s0 where
  start: "tm_reachable env s0 s0"
| step: "tm_reachable env s0 s \<Longrightarrow> tm_step env s s' \<Longrightarrow> tm_reachable env s0 s'"

lemma tm_lock_Finished: "tm_lock s = Finished s' \<longleftrightarrow> \<not> tm_mutex s \<and> s' = s\<lparr>tm_mutex := True\<rparr>"
  by (auto simp: tm_lock_def)

text \<open>Undoing with the mutex held never returns; this decides abort, recovery and the detector.\<close>

lemma undoTransaction_locked: "tm_mutex s \<Longrightarrow> undoTransaction now i s = Hangs"
  by (simp add: undoTransaction_def getTransaction_def tm_lock_def)

lemma abort_active:
  "tm_object s i = Some t \<Longrightarrow> tx_state t = ACTIVE \<Longrightarrow> abort now (Some i) s = Hangs"
  by (simp add: abort_def tm_lock_def undoTransaction_locked)

lemma abort_Finished: "abort now p s = Finished (st, s') \<Longrightarrow> st = ERROR \<and> s' = s"
  by (auto simp: abort_def and_then_Finished tm_lock_Finished undoTransaction_locked
      split: option.splits if_splits)

lemma undo_all_locked: "tm_mutex s \<Longrightarrow> undo_all now is s = (if is = [] then Finished s else Hangs)"
  by (cases "is") (simp_all add: undoTransaction_locked)


lemma tm_inv_active:
  assumes "tm_inv s" and "map_of (active_transactions s) i = Some t"
  shows "tx_id t = i" and "tx_state t = ACTIVE" and "i < next_tx_id s"
    and "map_of (completed_transactions s) i = None"
proof -
  have m: "(i, t) \<in> set (active_transactions s)" using assms(2) by (rule map_of_SomeD)
  then show "tx_id t = i" and "tx_state t = ACTIVE" and "i < next_tx_id s"
    using assms(1) by (auto simp: tm_inv_def list_all_iff active_ok_def)
  have "i \<in> set (keys_of (active_transactions s))" using m by force
  then have "i \<notin> set (keys_of (completed_transactions s))" using assms(1) unfolding tm_inv_def by blast
  then show "map_of (completed_transactions s) i = None" by (simp add: map_of_eq_None_iff)
qed

lemma tm_inv_object:
  assumes "tm_inv s" and "tm_object s i = Some t" and "tx_state t = ACTIVE"
  shows "map_of (active_transactions s) i = Some t"
proof (rule ccontr)
  assume "map_of (active_transactions s) i \<noteq> Some t"
  then have "map_of (completed_transactions s) i = Some t"
    using assms(2) by (auto simp: tm_object_def split: option.splits)
  then show False
    using assms(1,3) by (auto simp: tm_inv_def list_all_iff completed_ok_def dest!: map_of_SomeD)
qed

lemma releaseAllLocks_empty:
  "granted_locks l = [] \<Longrightarrow> wait_queues l = [] \<Longrightarrow> waiting_for l = [] \<Longrightarrow> snd (releaseAllLocks i l) = l"
  by (simp add: releaseAllLocks_def)

text \<open>The archive after one more transaction.\<close>

definition archived :: "TransactionId \<Rightarrow> Transaction \<Rightarrow> (TransactionId \<times> Transaction) list \<Rightarrow>
    (TransactionId \<times> Transaction) list" where
  "archived i t c = (let c = AList.update i t c
     in if length c > MAX_COMPLETED then AList.delete (fst (oldest c)) c else c)"

lemma commit_active:
  assumes "tm_inv s" and "map_of (active_transactions s) i = Some t"
  obtains s' n l t' where "commit env now (Some i) s = (if map_of (completed_transactions s') i = None
        then Undef else Finished (OK, s'))"
    and "appendLogRecord now (tm_record COMMIT i) (tm_log s) = (n, l)"
    and "t' = t\<lparr>last_lsn := n, tx_state := COMMITTED\<rparr>"
    and "s' = s\<lparr>tm_pool := fold (flushPage env) (keys_of (modified_pages t)) (tm_pool s), tm_log := l,
           active_transactions := AList.delete i (active_transactions s),
           completed_transactions := archived i t' (completed_transactions s),
           tm_stats := (tm_stats s)\<lparr>committed_count := committed_count (tm_stats s) + 1,
             active_count := active_count (tm_stats s) - 1\<rparr>, tm_mutex := False\<rparr>"
proof -
  obtain n l where a: "appendLogRecord now (tm_record COMMIT i) (tm_log s) = (n, l)" by fastforce
  let ?t' = "t\<lparr>last_lsn := n, tx_state := COMMITTED\<rparr>"
  let ?s' = "s\<lparr>tm_pool := fold (flushPage env) (keys_of (modified_pages t)) (tm_pool s), tm_log := l,
           active_transactions := AList.delete i (active_transactions s),
           completed_transactions := archived i ?t' (completed_transactions s),
           tm_stats := (tm_stats s)\<lparr>committed_count := committed_count (tm_stats s) + 1,
             active_count := active_count (tm_stats s) - 1\<rparr>, tm_mutex := False\<rparr>"
  note t = tm_inv_active [OF assms]
  have m: "\<not> tm_mutex s" "tm_object s i = Some t"
    using assms by (simp_all add: tm_inv_def tm_object_def)
  have l: "snd (releaseAllLocks i (tm_locks s)) = tm_locks s"
    using assms(1) by (intro releaseAllLocks_empty) (simp_all add: tm_inv_def)
  let ?s1 = "s\<lparr>tm_mutex := True, tm_pool := fold (flushPage env) (keys_of (modified_pages t)) (tm_pool s)\<rparr>"
  have "tm_finish now COMMIT COMMITTED i t ?s1 = ?s'\<lparr>tm_mutex := True, tm_stats := tm_stats s\<rparr>"
    using t(1) assms(2) a l
    by (simp add: tm_finish_def tm_store_def archiveCompletedTransaction_def archived_def Let_def
        delete_update_same)
  then have "commit env now (Some i) s = (if tm_object ?s' i = None then Undef else Finished (OK, ?s'))"
    using m t(2) by (simp add: commit_def tm_lock_def Let_def tm_unlock_def)
  moreover have "tm_object ?s' i = map_of (completed_transactions ?s') i"
    by (simp add: tm_object_def)
  ultimately show thesis using that [OF _ a refl refl] by simp
qed

lemma length_AList_update: "length (AList.update k v m) = (if map_of m k = None then Suc (length m) else length m)"
  by (induction m) auto

lemma oldest_mem: "xs \<noteq> [] \<Longrightarrow> oldest xs \<in> set xs"
proof -
  have "foldl (\<lambda>b x. if sint (start_time (snd x)) < sint (start_time (snd b)) then x else b) b ys \<in> insert b (set ys)"
    for b :: "TransactionId \<times> Transaction" and ys
    by (induction ys arbitrary: b) (fastforce split: if_splits)+
  then show "xs \<noteq> [] \<Longrightarrow> oldest xs \<in> set xs" unfolding oldest_def by (cases xs) auto
qed

lemma archived_inv:
  assumes "wf_map c" and "length c \<le> MAX_COMPLETED"
  shows "wf_map (archived i t c)" and "length (archived i t c) \<le> MAX_COMPLETED"
    and "set (archived i t c) \<subseteq> insert (i, t) (set c)"
proof -
  let ?c = "AList.update i t c"
  show "wf_map (archived i t c)" using assms(1) by (simp add: archived_def Let_def)
  have "length ?c \<le> Suc (length c)" by (simp add: length_AList_update)
  moreover have "Suc (length (AList.delete (fst (oldest ?c)) ?c)) = length ?c"
    using assms(1) oldest_mem [of ?c] wf_map_member [of ?c "fst (oldest ?c)" "snd (oldest ?c)"]
    by (intro length_delete_key [where v = "snd (oldest ?c)"]) (simp_all del: map_of_update)
  ultimately show "length (archived i t c) \<le> MAX_COMPLETED"
    using assms(2) unfolding archived_def Let_def by (simp only: split: if_split) linarith
  show "set (archived i t c) \<subseteq> insert (i, t) (set c)"
    using set_update_subset [of i t c] by (auto simp: archived_def Let_def AList.delete_eq split: if_splits)
qed


lemma tm_inv_store:
  assumes "tm_inv s" and "map_of (active_transactions s) i = Some t" and "tx_id t' = i" and "tx_state t' = ACTIVE"
  shows "tm_inv (tm_store i t' s)"
proof -
  let ?a = "AList.update i t' (active_transactions s)"
  have "active_ok (next_tx_id s) (i, t')"
    using tm_inv_active(3) [OF assms(1,2)] assms(3,4) by (simp add: active_ok_def)
  then have "list_all (active_ok (next_tx_id s)) ?a"
    using assms(1) set_update_subset [of i t' "active_transactions s"] by (auto simp: tm_inv_def list_all_iff)
  moreover have "set (keys_of ?a) = set (keys_of (active_transactions s))"
    using assms(2) by (auto simp: dom_map_of_conv_image_fst [symmetric])
  ultimately show ?thesis
    using assms(1,2) by (simp add: tm_inv_def tm_store_def length_update_known)
qed

lemma tm_inv_fields [simp]:
  "tm_inv (s\<lparr>tm_log := l\<rparr>) = tm_inv s" "tm_inv (s\<lparr>tm_pool := bp\<rparr>) = tm_inv s"
  "tm_inv (s\<lparr>max_transactions := k\<rparr>) = tm_inv s" "tm_inv (s\<lparr>deadlock_timeout_ms := n\<rparr>) = tm_inv s"
  "tm_inv (s\<lparr>default_isolation := lvl\<rparr>) = tm_inv s" "tm_inv (s\<lparr>tm_stats := st\<rparr>) = tm_inv s"
  by (simp_all add: tm_inv_def)

lemma tm_inv_relock [simp]: "tm_inv s \<Longrightarrow> s\<lparr>tm_mutex := False\<rparr> = s"
  by (simp add: tm_inv_def)

lemma tm_inv_mutex: "tm_inv s \<Longrightarrow> \<not> tm_mutex s"
  by (simp add: tm_inv_def)

lemma tx_begin_result:
  assumes "tm_inv s"
  obtains (full) "length (active_transactions s) \<ge> max_transactions s" and "tx_begin now lvl m s = Finished (None, s)"
  | (started) t l st where "length (active_transactions s) < max_transactions s"
    and "tx_begin now lvl m s = Finished (Some (next_tx_id s), s\<lparr>next_tx_id := next_tx_id s + 1, tm_log := l,
       active_transactions := AList.update (next_tx_id s) t (active_transactions s),
       tm_stats := st, tm_mutex := False\<rparr>)"
    and "l = snd (appendLogRecord now (tm_record BEGIN (next_tx_id s)) (tm_log s))"
    and "tx_id t = next_tx_id s" and "tx_state t = ACTIVE" and "isolation t = lvl" and "access_mode t = m"
    and "modified_pages t = []" and "savepoints t = []"
    and "active_count st = active_count (tm_stats s) + 1"
  using tm_inv_mutex [OF assms] tm_inv_relock [OF assms]
  by (cases "length (active_transactions s) < max_transactions s")
    (auto simp: tx_begin_def tm_lock_def generateTransactionId_def tm_unlock_def Transaction_new_def
      Let_def case_prod_beta)

lemma tm_inv_begin:
  assumes "tm_inv s" and "tx_begin now lvl m s = Finished (p, s')" and "next_tx_id s \<noteq> - 1"
  shows "tm_inv s'"
  using assms(1)
proof (cases rule: tx_begin_result [where now = now and lvl = lvl and m = m])
  case full
  then show ?thesis using assms by simp
next
  case (started t l st)
  let ?n = "next_tx_id s" and ?a = "active_transactions s"
  have grow: "i < ?n \<Longrightarrow> i < ?n + 1" for i
    using less_plus_one_iff [OF assms(3)] by (simp add: order.strict_implies_order)
  have new: "map_of ?a ?n = None" "map_of (completed_transactions s) ?n = None"
    using assms(1) by (fastforce simp: tm_inv_def list_all_iff active_ok_def completed_ok_def map_of_eq_None_iff)+
  have "active_ok (?n + 1) (?n, t)"
    using started less_plus_one_iff [OF assms(3), of ?n] by (simp add: active_ok_def)
  moreover have "active_ok (?n + 1) x" if "x \<in> set ?a" for x
    using that assms(1) grow by (auto simp: tm_inv_def list_all_iff active_ok_def)
  ultimately have "list_all (active_ok (?n + 1)) (AList.update ?n t ?a)"
    unfolding list_all_iff using set_update_subset [of ?n t ?a] by blast
  moreover have "list_all (completed_ok (?n + 1)) (completed_transactions s)"
    using assms(1) grow by (auto simp: tm_inv_def list_all_iff completed_ok_def)
  moreover have "set (keys_of (AList.update ?n t ?a)) \<inter> set (keys_of (completed_transactions s)) = {}"
    using assms(1) new(2) by (auto simp: tm_inv_def dom_map_of_conv_image_fst [symmetric])
  moreover have "s' = s\<lparr>next_tx_id := ?n + 1, tm_log := l, active_transactions := AList.update ?n t ?a,
      tm_stats := st, tm_mutex := False\<rparr>"
    using assms(2) started(2) by simp
  ultimately show ?thesis
    using assms(1) by (simp add: tm_inv_def)
qed

lemma tm_inv_commit:
  assumes "tm_inv s" and "commit env now p s = Finished (st, s')"
  shows "tm_inv s'"
proof (cases "\<exists>i t. p = Some i \<and> tm_object s i = Some t \<and> tx_state t = ACTIVE")
  case False
  then have "s' = s" using assms(2) by (auto simp: commit_def split: option.splits if_splits)
  then show ?thesis using assms(1) by simp
next
  case True
  then obtain i t where p: "p = Some i" and a: "map_of (active_transactions s) i = Some t"
    using tm_inv_object [OF assms(1)] by blast
  obtain r n l t' where c: "commit env now (Some i) s = (if map_of (completed_transactions r) i = None
        then Undef else Finished (OK, r))"
    and t': "t' = t\<lparr>last_lsn := n, tx_state := COMMITTED\<rparr>"
    and r: "r = s\<lparr>tm_pool := fold (flushPage env) (keys_of (modified_pages t)) (tm_pool s), tm_log := l,
           active_transactions := AList.delete i (active_transactions s),
           completed_transactions := archived i t' (completed_transactions s),
           tm_stats := (tm_stats s)\<lparr>committed_count := committed_count (tm_stats s) + 1,
             active_count := active_count (tm_stats s) - 1\<rparr>, tm_mutex := False\<rparr>"
    by (rule commit_active [OF assms(1) a])
  have s': "s' = r" using assms(2) c p by (auto split: if_splits)
  let ?c = "completed_transactions s" and ?a = "active_transactions s"
  have ci: "wf_map ?c" "length ?c \<le> MAX_COMPLETED" using assms(1) by (simp_all add: tm_inv_def)
  note ar = archived_inv [OF ci, of i t']
  have "completed_ok (next_tx_id s) (i, t')"
    using tm_inv_active [OF assms(1) a] by (simp add: completed_ok_def t')
  then have "list_all (completed_ok (next_tx_id s)) (archived i t' ?c)"
    using assms(1) ar(3) by (auto simp: tm_inv_def list_all_iff)
  moreover have "set (keys_of (AList.delete i ?a)) \<inter> set (keys_of (archived i t' ?c)) = {}"
  proof -
    have "set (keys_of (archived i t' ?c)) \<subseteq> insert i (set (keys_of ?c))" using ar(3) by force
    moreover have "set (keys_of ?a) \<inter> set (keys_of ?c) = {}" using assms(1) unfolding tm_inv_def by blast
    ultimately show ?thesis unfolding set_keys_delete by blast
  qed
  ultimately show ?thesis
    using assms(1) ar(1,2) unfolding s' r by (simp add: tm_inv_def list_all_delete)
qed


section \<open>Recovery and the detector decided\<close>

definition status_type :: "LogRecord \<Rightarrow> bool" where
  "status_type r \<longleftrightarrow> lr_type r = BEGIN \<or> lr_type r = COMMIT \<or> lr_type r = ABORT"

text \<open>
  A loser: the last of its status records that the walk meets, among those not older than the
  newest checkpoint, is its begin.
\<close>

definition loser :: "(LogSequenceNumber \<times> LogRecord) list \<Rightarrow> TransactionId \<Rightarrow> bool" where
  "loser logs i \<longleftrightarrow>
     (case find (\<lambda>(l, r). status_type r \<and> transaction_id r = i)
             (rev (filter (\<lambda>(l, r). \<not> l < last_checkpoint_lsn logs) logs)) of
        None \<Rightarrow> False | Some (l, r) \<Rightarrow> lr_type r = BEGIN)"

lemma analyse_record_states:
  "fst (analyse_record (l, r) x) =
     (if lr_type r = BEGIN then AList.update (transaction_id r) ACTIVE (fst x)
      else if lr_type r = COMMIT then AList.update (transaction_id r) COMMITTED (fst x)
      else if lr_type r = ABORT then AList.update (transaction_id r) ABORTED (fst x) else fst x)"
  by (cases "lr_type r") (auto simp: analyse_record_def split: prod.splits)

lemma analyse_states:
  "map_of (fst (fold analyse_record logs ([], [], []))) i =
     (case find (\<lambda>(l, r). status_type r \<and> transaction_id r = i) (rev logs) of
        None \<Rightarrow> None
      | Some (l, r) \<Rightarrow> Some (if lr_type r = BEGIN then ACTIVE else if lr_type r = COMMIT then COMMITTED else ABORTED))"
proof (induction logs rule: rev_induct)
  case (snoc x logs)
  obtain l r where x: "x = (l, r)" by (cases x)
  show ?case
    using snoc by (auto simp: x analyse_record_states status_type_def)
qed simp

lemma analyse_wf: "wf_map (fst (fold analyse_record logs ([], [], [])))"
  by (induction logs rule: rev_induct) (auto simp: analyse_record_states)

lemma tm_recover_decided:
  assumes "\<not> tm_mutex s"
  shows "tm_recover now logs s = (if \<exists>i. loser logs i then Hangs else Finished (OK, s))"
proof -
  let ?L = "filter (\<lambda>(l, r). \<not> l < last_checkpoint_lsn logs) logs"
  obtain tx_states tx_last page_lsns where f: "fold analyse_record ?L ([], [], []) = (tx_states, tx_last, page_lsns)"
    by (metis prod_cases3)
  have "loser logs i \<longleftrightarrow> map_of tx_states i = Some ACTIVE" for i
    using analyse_states [of ?L i] by (auto simp: f loser_def split: option.splits prod.splits if_splits)
  then have "(\<exists>i. loser logs i) \<longleftrightarrow> (\<exists>i. map_of tx_states i = Some ACTIVE)" by blast
  also have "\<dots> \<longleftrightarrow> filter (\<lambda>(i, st). st = ACTIVE) tx_states \<noteq> []"
    using analyse_wf [of ?L] by (auto simp: f filter_empty_conv wf_map_member)
  finally have "(\<exists>i. loser logs i) \<longleftrightarrow> filter (\<lambda>(i, st). st = ACTIVE) tx_states \<noteq> []" .
  moreover have "sort_key g xs = [] \<longleftrightarrow> xs = []" for g :: "TransactionId \<Rightarrow> int" and xs
    by (metis length_0_conv length_sort)
  moreover have "s\<lparr>tm_mutex := False\<rparr> = s" using assms by simp
  ultimately show ?thesis
    using assms by (simp add: tm_recover_def tm_lock_def f undo_all_locked tm_unlock_def Let_def)
qed

lemma no_waits: "waiting_for l = [] \<Longrightarrow> tm_checkDeadlock l [] i = None"
  by (simp add: tm_checkDeadlock.simps getWaitingTransactions_def)

lemma detect_loop_idle: "waiting_for (tm_locks s) = [] \<Longrightarrow> detect_loop now is s = Finished s"
  by (induction "is") (simp_all add: no_waits)

lemma cleanup_loop_decided:
  assumes "\<And>i t. (i, t) \<in> set ts \<Longrightarrow> tm_object s i = Some t \<and> tx_state t = ACTIVE"
  shows "cleanup_loop now ts s =
    (if list_ex (\<lambda>(i, t). isExpired now (deadlock_timeout_ms s) t) ts then Hangs else Finished s)"
  using assms
proof (induction ts)
  case (Cons x ts)
  obtain i t where x: "x = (i, t)" by (cases x)
  have "tm_object s i = Some t" "tx_state t = ACTIVE" using Cons.prems [of i t] by (simp_all add: x)
  then have a: "abort now (Some i) s = Hangs" by (rule abort_active)
  have "cleanup_loop now ts s =
    (if list_ex (\<lambda>(i, t). isExpired now (deadlock_timeout_ms s) t) ts then Hangs else Finished s)"
    by (rule Cons.IH, rule Cons.prems) (simp add: x)
  then show ?case by (simp add: x a)
qed simp

lemma detectDeadlocks_decided:
  assumes "tm_inv s"
  shows "detectDeadlocks now s =
    (if list_ex (\<lambda>(i, t). isExpired now (deadlock_timeout_ms s) t) (active_transactions s) then Hangs else Finished s)"
proof -
  let ?s = "s\<lparr>tm_mutex := True\<rparr>"
  have "tm_object ?s i = Some t \<and> tx_state t = ACTIVE" if "(i, t) \<in> set (active_transactions s)" for i t
  proof -
    have "map_of (active_transactions s) i = Some t"
      using that assms by (simp add: tm_inv_def wf_map_member)
    then show ?thesis using tm_inv_active(2) [OF assms] by (simp add: tm_object_def)
  qed
  then have c: "cleanupExpiredTransactions now ?s =
      (if list_ex (\<lambda>(i, t). isExpired now (deadlock_timeout_ms s) t) (active_transactions s) then Hangs else Finished ?s)"
    unfolding cleanupExpiredTransactions_def by (subst cleanup_loop_decided) simp_all
  have "waiting_for (tm_locks ?s) = []" using assms by (simp add: tm_inv_def)
  then show ?thesis
    using tm_inv_mutex [OF assms] tm_inv_relock [OF assms] c
    by (simp add: detectDeadlocks_def tm_lock_def detect_loop_idle tm_unlock_def)
qed


section \<open>Every step keeps the invariant\<close>

lemma active_object_Some:
  assumes "tm_inv s" and "active_object s p = Finished (Some t)"
  obtains i where "p = Some i" and "map_of (active_transactions s) i = Some t" and "tx_id t = i" and "tx_state t = ACTIVE"
proof -
  from assms(2) obtain i where p: "p = Some i" and o: "tm_object s i = Some t" "tx_state t = ACTIVE"
    by (auto simp: active_object_def split: option.splits if_splits)
  have "map_of (active_transactions s) i = Some t" by (rule tm_inv_object [OF assms(1) o])
  then show thesis using that p tm_inv_active(1,2) [OF assms(1)] by blast
qed

lemma tm_inv_update_active:
  assumes "tm_inv s" and "active_object s p = Finished (Some t)"
    and "tx_id t' = tx_id t" and "tx_state t' = tx_state t"
  shows "tm_inv (tm_store (the p) t' s)"
  by (rule active_object_Some [OF assms(1,2)]) (use assms in \<open>auto intro: tm_inv_store\<close>)

lemma on_active_object:
  assumes "tm_inv s" and "and_then (active_object s p)
      (\<lambda>obj. case obj of None \<Rightarrow> Finished (ERROR, s) | Some t \<Rightarrow> g t) = Finished (st, s')"
    and "\<And>t. active_object s p = Finished (Some t) \<Longrightarrow> g t = Finished (st, s') \<Longrightarrow> tm_inv s'"
  shows "tm_inv s'"
proof -
  from assms(2) obtain obj where "active_object s p = Finished obj"
    by (auto simp: and_then_Finished)
  then show ?thesis using assms by (cases obj) simp_all
qed

lemma savepoint_fields [simp]:
  "tx_id (createSavepoint nm t) = tx_id t" "tx_state (createSavepoint nm t) = tx_state t"
  "tx_id (tx_rollbackToSavepoint nm t) = tx_id t" "tx_state (tx_rollbackToSavepoint nm t) = tx_state t"
  "tx_id (tx_releaseSavepoint nm t) = tx_id t" "tx_state (tx_releaseSavepoint nm t) = tx_state t"
  by (simp_all add: createSavepoint_def tx_rollbackToSavepoint_def tx_releaseSavepoint_def split: option.split)

lemma tm_inv_getTransaction:
  assumes "tm_inv s" and "getTransaction now i s = Finished (p, s')"
  shows "tm_inv s'"
proof (cases "map_of (active_transactions s) i")
  case None
  then show ?thesis
    using assms by (auto simp: getTransaction_def and_then_Finished tm_lock_Finished tm_unlock_def)
next
  case (Some t)
  have "s' = tm_store i (t\<lparr>last_access := now\<rparr>) s"
    using assms Some by (auto simp: getTransaction_def and_then_Finished tm_lock_Finished tm_unlock_def tm_store_def)
  then show ?thesis using tm_inv_store [OF assms(1) Some] tm_inv_active [OF assms(1) Some] by simp
qed

lemma tm_step_inv: "tm_step env s s' \<Longrightarrow> tm_inv s \<Longrightarrow> tm_inv s'"
proof (induction rule: tm_step.induct)
  case (abort_tx now p s st s')
  then show ?case using abort_Finished by blast
next
  case (savepoint_tx now p nm s st s')
  show ?case
    by (rule on_active_object [OF savepoint_tx(2) savepoint_tx(1) [unfolded savepoint_def]])
      (auto simp: Let_def intro!: tm_inv_update_active [OF savepoint_tx(2)] split: option.splits)
next
  case (rollback_to now p nm s st s')
  show ?case
    by (rule on_active_object [OF rollback_to(2) rollback_to(1) [unfolded rollbackToSavepoint_def]])
      (auto simp: Let_def intro!: tm_inv_update_active [OF rollback_to(2)] split: option.splits)
next
  case (release p nm s st s')
  show ?case
    by (rule on_active_object [OF release(2) release(1) [unfolded releaseSavepoint_def]])
      (auto intro!: tm_inv_update_active [OF release(2)])
next
  case (checkpoint_tx now s st s')
  then show ?case
    by (auto simp: tm_checkpoint_def and_then_Finished tm_lock_Finished tm_unlock_def Let_def
        split: option.splits)
next
  case (recover_tx now logs s st s')
  then show ?case using tm_recover_decided [OF tm_inv_mutex] by (auto split: if_splits)
next
  case (detect now s s')
  then show ?case using detectDeadlocks_decided by (auto split: if_splits)
next
  case (touch s i t p n pr)
  then show ?case
    using tm_inv_active [OF touch(2,1)] by (intro tm_inv_store) (simp_all add: addModifiedPage_def)
qed (auto intro: tm_inv_begin tm_inv_commit tm_inv_getTransaction 
    simp: setMaxTransactions_def setDeadlockTimeout_def setDefaultIsolation_def resetStats_def)

text \<open>How far the counter of active transactions is from their number; only a reset changes it.\<close>

definition drift :: "TransactionManager \<Rightarrow> u64" where
  "drift s = active_count (tm_stats s) - of_nat (length (active_transactions s))"

lemma drift_store: "map_of (active_transactions s) i = Some t \<Longrightarrow> drift (tm_store i t' s) = drift s"
  by (simp add: drift_def tm_store_def length_AList_update)

lemma drift_fields [simp]:
  "drift (s\<lparr>tm_log := l\<rparr>) = drift s" "drift (s\<lparr>tm_pool := bp\<rparr>) = drift s" "drift (s\<lparr>tm_mutex := b\<rparr>) = drift s"
  "drift (setMaxTransactions k s) = drift s" "drift (setDeadlockTimeout n s) = drift s" "drift (setDefaultIsolation lvl s) = drift s"
  by (simp_all add: drift_def setMaxTransactions_def setDeadlockTimeout_def setDefaultIsolation_def)

lemma drift_begin:
  assumes "tm_inv s" and "tx_begin now lvl m s = Finished (p, s')"
  shows "drift s' = drift s"
  using assms(1)
proof (cases rule: tx_begin_result [where now = now and lvl = lvl and m = m])
  case (started t l st)
  have "map_of (active_transactions s) (next_tx_id s) = None"
    using assms(1) by (fastforce simp: tm_inv_def list_all_iff active_ok_def map_of_eq_None_iff)
  then show ?thesis using assms(2) started by (auto simp: drift_def length_AList_update)
qed (use assms(2) in simp)

lemma drift_commit:
  assumes "tm_inv s" and "commit env now p s = Finished (st, s')"
  shows "drift s' = drift s"
proof (cases "\<exists>i t. p = Some i \<and> tm_object s i = Some t \<and> tx_state t = ACTIVE")
  case False
  then have "s' = s" using assms(2) by (auto simp: commit_def split: option.splits if_splits)
  then show ?thesis by simp
next
  case True
  then obtain i t where p: "p = Some i" and a: "map_of (active_transactions s) i = Some t"
    using tm_inv_object [OF assms(1)] by blast
  have "Suc (length (AList.delete i (active_transactions s))) = length (active_transactions s)"
    using assms(1) a by (intro length_delete_key) (simp_all add: tm_inv_def)
  then have "of_nat (length (active_transactions s)) = (1 + of_nat (length (AList.delete i (active_transactions s))) :: u64)"
    by (metis of_nat_Suc)
  moreover obtain r n l t' where "commit env now (Some i) s = (if map_of (completed_transactions r) i = None
        then Undef else Finished (OK, r))"
    and "r = s\<lparr>tm_pool := fold (flushPage env) (keys_of (modified_pages t)) (tm_pool s), tm_log := l,
           active_transactions := AList.delete i (active_transactions s),
           completed_transactions := archived i t' (completed_transactions s),
           tm_stats := (tm_stats s)\<lparr>committed_count := committed_count (tm_stats s) + 1,
             active_count := active_count (tm_stats s) - 1\<rparr>, tm_mutex := False\<rparr>"
    by (rule commit_active [OF assms(1) a])
  moreover from this(1) have "s' = r" using assms(2) p by (auto split: if_splits)
  ultimately show ?thesis by (simp add: drift_def)
qed

lemma drift_object:
  assumes "tm_inv s" and "and_then (active_object s p)
      (\<lambda>obj. case obj of None \<Rightarrow> Finished (ERROR, s) | Some t \<Rightarrow> g t) = Finished (st, s')"
    and "\<And>t. active_object s p = Finished (Some t) \<Longrightarrow> g t = Finished (st, s') \<Longrightarrow> \<exists>t' l. s' = tm_store (the p) t' s\<lparr>tm_log := l\<rparr>"
  shows "drift s' = drift s"
proof -
  from assms(2) obtain obj where o: "active_object s p = Finished obj" by (auto simp: and_then_Finished)
  show ?thesis
  proof (cases obj)
    case (Some t)
    then obtain i where i: "p = Some i" "map_of (active_transactions s) i = Some t"
      using active_object_Some [OF assms(1)] o by metis
    obtain t' l where "s' = tm_store (the p) t' s\<lparr>tm_log := l\<rparr>" using assms(2,3) o Some by auto
    then show ?thesis using i drift_store by simp
  qed (use assms(2) o in simp)
qed

lemma tm_step_drift: "tm_step env s s' \<Longrightarrow> tm_inv s \<Longrightarrow> drift s' = drift s \<or> s' = resetStats s"
proof (induction rule: tm_step.induct)
  case (abort_tx now p s st s')
  then show ?case using abort_Finished by blast
next
  case (get_tx now i s p s')
  then show ?case
    by (auto simp: getTransaction_def and_then_Finished tm_lock_Finished tm_unlock_def drift_def length_AList_update split: option.splits)
next
  case (savepoint_tx now p nm s st s')
  have "drift s' = drift s"
    by (rule drift_object [OF savepoint_tx(2) savepoint_tx(1) [unfolded savepoint_def]]) (auto simp: Let_def split: option.splits)
  then show ?case ..
next
  case (rollback_to now p nm s st s')
  have "drift s' = drift s"
    by (rule drift_object [OF rollback_to(2) rollback_to(1) [unfolded rollbackToSavepoint_def]]) (auto simp: Let_def split: option.splits)
  then show ?case ..
next
  case (release p nm s st s')
  have "drift s' = drift s"
    by (rule drift_object [OF release(2) release(1) [unfolded releaseSavepoint_def]])
      (auto intro!: exI [of _ "tx_releaseSavepoint nm _"] exI [of _ "tm_log s"] simp: tm_store_def)
  then show ?case ..
next
  case (checkpoint_tx now s st s')
  then show ?case
    by (auto simp: tm_checkpoint_def and_then_Finished tm_lock_Finished tm_unlock_def Let_def split: option.splits)
next
  case (recover_tx now logs s st s')
  then show ?case using tm_recover_decided [OF tm_inv_mutex] by (auto split: if_splits)
next
  case (detect now s s')
  then show ?case using detectDeadlocks_decided by (auto split: if_splits)
qed (auto dest: drift_begin drift_commit drift_store)

lemma tm_inv_new: "tm_inv (TransactionManager_new bp l)"
  by (simp add: TransactionManager_new_def tm_inv_def LockManager_new_def TransactionManagerStats_new_def)

lemma tm_reachable_inv: "tm_reachable env (TransactionManager_new bp l) s \<Longrightarrow> tm_inv s"
  by (induction rule: tm_reachable.induct) (auto intro: tm_inv_new tm_step_inv)

lemma appendLogRecord_stored:
  "appendLogRecord now r s = (n, s') \<Longrightarrow>
     \<exists>c. map_of (log_buffer s') n = Some c \<and> lr_type c = lr_type r \<and> transaction_id c = transaction_id r \<and> lsn c = n"
  by (auto simp: appendLogRecord_def Let_def flushBuffer_def split: option.splits if_splits)

section \<open>Properties\<close>

definition example_tm :: TransactionManager where
  "example_tm = TransactionManager_new example_pool LogManager_new"

definition example_tm1 :: TransactionManager where
  "example_tm1 = (case tx_begin 7 SERIALIZABLE READ_WRITE_ACCESS example_tm of Finished (p, s) \<Rightarrow> s | _ \<Rightarrow> example_tm)"

lemma example_tm1_begin: "tx_begin 7 SERIALIZABLE READ_WRITE_ACCESS example_tm = Finished (Some 1, example_tm1)"
  and example_tm1_fields: "active_transactions example_tm1 =
      [(1, (Transaction_new 1 SERIALIZABLE READ_WRITE_ACCESS 7)\<lparr>last_lsn := 1\<rparr>)]"
    "completed_transactions example_tm1 = []" "deadlock_timeout_ms example_tm1 = 5000"
  by (simp_all add: example_tm1_def example_tm_def tx_begin_def TransactionManager_new_def tm_lock_def
      generateTransactionId_def tm_record_def appendLogRecord_def LogManager_new_def LogRecord_new_def
      tm_unlock_def TransactionManagerStats_new_def case_prod_beta Let_def)

lemma example_tm1_reachable: "tm_reachable example_env (TransactionManager_new example_pool LogManager_new) example_tm1"
  by (rule tm_reachable.step [OF tm_reachable.start tm_step.begin_tx [OF example_tm1_begin [unfolded example_tm_def]]])
    (simp add: TransactionManager_new_def)



text \<open>The archive is full, and the entry that goes is the new one.\<close>

definition drops_itself :: "TransactionId \<Rightarrow> Transaction \<Rightarrow> (TransactionId \<times> Transaction) list \<Rightarrow> bool" where
  "drops_itself i t c \<longleftrightarrow> length c = MAX_COMPLETED \<and> fst (oldest (AList.update i t c)) = i"

text \<open>
  C19: \<^verbatim>\<open>commit\<close> of an active transaction flushes its modified pages, appends a COMMIT record of
  it to the log under the number it remembers, moves it from the active to the completed transactions
  as COMMITTED, leaves every other active transaction untouched and, while the archive has
  room, every completed one. It returns OK, and committing again is refused. When the archive is
  full the entry with the least start time is dropped; when that is the transaction itself, the call
  reads the start time of a deleted object and is undefined.
\<close>

theorem commit_correct:
  assumes "tm_reachable env0 (TransactionManager_new bp l0) s" and "map_of (active_transactions s) i = Some t"
  shows "\<exists>s' t' r. commit env now (Some i) s =
      (if drops_itself i t' (completed_transactions s) then Undef else Finished (OK, s')) \<and>
    tm_pool s' = fold (flushPage env) (keys_of (modified_pages t)) (tm_pool s) \<and>
    t' = t\<lparr>last_lsn := lsn r, tx_state := COMMITTED\<rparr> \<and>
    map_of (log_buffer (tm_log s')) (lsn r) = Some r \<and> lr_type r = COMMIT \<and> transaction_id r = i \<and>
    map_of (active_transactions s') = (map_of (active_transactions s))(i := None) \<and>
    map_of (completed_transactions s') = (if length (completed_transactions s) < MAX_COMPLETED
      then (map_of (completed_transactions s))(i \<mapsto> t')
      else (map_of (completed_transactions s))(i \<mapsto> t', fst (oldest (AList.update i t' (completed_transactions s))) := None)) \<and>
    (\<not> drops_itself i t' (completed_transactions s) \<longrightarrow> commit env now (Some i) s' = Finished (ERROR, s'))"
proof -
  have inv: "tm_inv s" by (rule tm_reachable_inv [OF assms(1)])
  obtain s' n l t' where c: "commit env now (Some i) s = (if map_of (completed_transactions s') i = None
        then Undef else Finished (OK, s'))"
    and a: "appendLogRecord now (tm_record COMMIT i) (tm_log s) = (n, l)"
    and t': "t' = t\<lparr>last_lsn := n, tx_state := COMMITTED\<rparr>"
    and s': "s' = s\<lparr>tm_pool := fold (flushPage env) (keys_of (modified_pages t)) (tm_pool s), tm_log := l,
           active_transactions := AList.delete i (active_transactions s),
           completed_transactions := archived i t' (completed_transactions s),
           tm_stats := (tm_stats s)\<lparr>committed_count := committed_count (tm_stats s) + 1,
             active_count := active_count (tm_stats s) - 1\<rparr>, tm_mutex := False\<rparr>"
    by (rule commit_active [OF inv assms(2)])
  obtain r where r: "map_of (log_buffer l) n = Some r" "lr_type r = COMMIT" "transaction_id r = i" "lsn r = n"
    using appendLogRecord_stored [OF a] by (auto simp: tm_record_def)
  let ?c = "completed_transactions s"
  have len: "length ?c \<le> MAX_COMPLETED" using inv by (simp add: tm_inv_def)
  have comp: "map_of (completed_transactions s') = (if length ?c < MAX_COMPLETED then (map_of ?c)(i \<mapsto> t')
      else (map_of ?c)(i \<mapsto> t', fst (oldest (AList.update i t' ?c)) := None))"
    using tm_inv_active(4) [OF inv assms(2)] len
    by (auto simp: s' archived_def Let_def length_AList_update map_of_delete update_conv' fun_eq_iff)
  then have none: "map_of (completed_transactions s') i = None \<longleftrightarrow> drops_itself i t' ?c"
    using len by (auto simp: drops_itself_def split: if_splits)
  have again: "commit env now (Some i) s' = Finished (ERROR, s')" if "map_of (completed_transactions s') i \<noteq> None"
  proof -
    have "map_of (completed_transactions s') i = Some t'" using that comp by (auto split: if_splits)
    moreover have "map_of (active_transactions s') i = None" by (simp add: s')
    ultimately show ?thesis by (simp add: commit_def tm_object_def t')
  qed
  have fields: "tm_pool s' = fold (flushPage env) (keys_of (modified_pages t)) (tm_pool s)" "tm_log s' = l"
    "map_of (active_transactions s') = (map_of (active_transactions s))(i := None)"
    by (simp_all add: s' delete_conv')
  have "commit env now (Some i) s = (if drops_itself i t' ?c then Undef else Finished (OK, s'))" using c none by simp
  moreover have "\<not> drops_itself i t' ?c \<longrightarrow> commit env now (Some i) s' = Finished (ERROR, s')" using again none by blast
  moreover have "t' = t\<lparr>last_lsn := lsn r, tx_state := COMMITTED\<rparr>" "map_of (log_buffer (tm_log s')) (lsn r) = Some r"
    using r fields t' by simp_all
  ultimately show ?thesis
    using comp r(2,3) fields(1,3) by (intro exI [of _ s'] exI [of _ t'] exI [of _ r] conjI) assumption+
qed

theorem commit_correct_witness:
  "\<exists>s'. commit example_env 9 (Some 1) example_tm1 = Finished (OK, s') \<and>
     commit example_env 9 (Some 1) s' = Finished (ERROR, s')"
  using commit_correct [OF example_tm1_reachable, of 1 _ example_env 9]
  by (fastforce simp: example_tm1_fields MAX_COMPLETED_def drops_itself_def)

text \<open>
  C20: no transaction can be rolled back. \<^verbatim>\<open>abort\<close> locks the manager's mutex and then
  calls \<^verbatim>\<open>undoTransaction\<close>, which locks it again through \<^verbatim>\<open>getTransaction\<close>: for an
  active transaction the call never returns, and for every other one it does nothing.
\<close>

theorem abort_never_returns:
  "abort now p s = (case p of None \<Rightarrow> Finished (ERROR, s)
     | Some i \<Rightarrow> (case tm_object s i of None \<Rightarrow> Undef
                 | Some t \<Rightarrow> if tx_state t = ACTIVE then Hangs else Finished (ERROR, s))) \<and>
   rollback now p s = abort now p s"
  by (auto simp: abort_active rollback_def split: option.splits) (auto simp: abort_def split: option.splits)

text \<open>
  C31: recovery restores nothing. Whatever the order in which the log records are walked,
  \<^verbatim>\<open>recover\<close> either returns OK and leaves the manager, its pages and its log exactly as
  they were, or, if the analysis finds a transaction without an end, never returns.
\<close>

theorem recover_restores_nothing:
  assumes "\<not> tm_mutex s"
  shows "tm_recover now logs s = (if \<exists>i. loser logs i then Hangs else Finished (OK, s))"
  by (rule tm_recover_decided [OF assms])

theorem recover_restores_nothing_witness:
  "tm_recover 9 [(1, tm_record BEGIN 4), (2, tm_record INSERT 4)] example_tm = Hangs \<and>
   tm_recover 9 [(1, tm_record BEGIN 4), (2, tm_record COMMIT 4)] example_tm = Finished (OK, example_tm) \<and>
   tm_recover 9 [(2, tm_record COMMIT 4), (1, tm_record BEGIN 4)] example_tm = Hangs"
proof -
  have m: "\<not> tm_mutex example_tm" by (simp add: example_tm_def TransactionManager_new_def)
  note d = loser_def last_checkpoint_lsn_def tm_record_def LogRecord_new_def status_type_def
  have "loser [(1, tm_record BEGIN 4), (2, tm_record INSERT 4)] 4"
    "loser [(2, tm_record COMMIT 4), (1, tm_record BEGIN 4)] 4" by (simp_all add: d)
  moreover have "\<not> loser [(1, tm_record BEGIN 4), (2, tm_record COMMIT 4)] i" for i by (simp add: d)
  ultimately show ?thesis unfolding recover_restores_nothing [OF m] by auto
qed

text \<open>
  A round of the detector thread never finds a deadlock, since no transaction waits for a
  lock; it leaves the manager as it is unless some active transaction has been idle longer
  than the timeout, and then it never returns and keeps the mutex, so that no later call of
  the manager returns either.
\<close>

lemma detector_round:
  assumes "tm_reachable env (TransactionManager_new bp l) s"
  shows "detectDeadlocks now s =
    (if list_ex (\<lambda>(i, t). isExpired now (deadlock_timeout_ms s) t) (active_transactions s) then Hangs else Finished s)"
  by (rule detectDeadlocks_decided [OF tm_reachable_inv [OF assms]])

end
