(* ===== verification/Lexer.thy ===== *)
theory Lexer
  imports StdText
begin

text \<open>
  \<^verbatim>\<open>parser/lexer.cpp\<close> and the lexer of \<^verbatim>\<open>parser/sql_parser.h\<close>: the input with
  its position, line and column, and the functions that read one token. The character
  classes are those of the C locale. Enumerators carry the prefix \<open>T_\<close>.
\<close>

section \<open>Tokens\<close>

text \<open>
  The enumerators of \<^verbatim>\<open>TokenType\<close>, the key words in the groups in which they are
  declared; the abbreviations give every one its own name.
\<close>

datatype StatementWord =
    K_SELECT | K_INSERT | K_UPDATE | K_DELETE | K_CREATE | K_DROP | K_ALTER | K_TABLE | K_INDEX |
    K_VIEW | K_TRIGGER | K_FUNCTION | K_PROCEDURE

datatype FromWord =
    K_FROM | K_WHERE | K_JOIN | K_INNER | K_LEFT | K_RIGHT | K_OUTER | K_FULL | K_CROSS | K_ON |
    K_USING | K_AND | K_OR | K_NOT | K_NULL | K_IS | K_IN | K_BETWEEN | K_LIKE

datatype ClauseWord =
    K_ORDER | K_BY | K_GROUP | K_HAVING | K_LIMIT | K_OFFSET | K_UNION | K_INTERSECT | K_EXCEPT |
    K_ALL | K_DISTINCT | K_AS | K_ASC | K_DESC | K_INTO | K_VALUES | K_SET

datatype DefinitionWord =
    K_PRIMARY | K_FOREIGN | K_KEY | K_REFERENCES | K_CONSTRAINT | K_DEFAULT | K_AUTO_INCREMENT |
    K_UNIQUE | K_CHECK | K_BEGIN | K_COMMIT | K_ROLLBACK | K_TRANSACTION | K_SAVEPOINT | K_CASE |
    K_WHEN | K_THEN | K_ELSE | K_END | K_EXISTS | K_ANY | K_SOME

datatype TokenType =
    W1 StatementWord | W2 FromWord | W3 ClauseWord | W4 DefinitionWord |
    T_IDENTIFIER | T_STRING | T_INTEGER | T_FLOAT | T_BOOLEAN | T_PLUS | T_MINUS | T_STAR |
    T_SLASH | T_PERCENT | T_EQ | T_NE | T_LT | T_LE | T_GT | T_GE | T_ASSIGN | T_CONCAT |
    T_LPAREN | T_RPAREN | T_COMMA | T_DOT | T_SEMICOLON | T_END_OF_FILE | T_UNKNOWN

abbreviation "T_SELECT \<equiv> W1 K_SELECT"
abbreviation "T_INSERT \<equiv> W1 K_INSERT"
abbreviation "T_UPDATE \<equiv> W1 K_UPDATE"
abbreviation "T_DELETE \<equiv> W1 K_DELETE"
abbreviation "T_CREATE \<equiv> W1 K_CREATE"
abbreviation "T_DROP \<equiv> W1 K_DROP"
abbreviation "T_ALTER \<equiv> W1 K_ALTER"
abbreviation "T_TABLE \<equiv> W1 K_TABLE"
abbreviation "T_INDEX \<equiv> W1 K_INDEX"
abbreviation "T_VIEW \<equiv> W1 K_VIEW"
abbreviation "T_TRIGGER \<equiv> W1 K_TRIGGER"
abbreviation "T_FUNCTION \<equiv> W1 K_FUNCTION"
abbreviation "T_PROCEDURE \<equiv> W1 K_PROCEDURE"

abbreviation "T_FROM \<equiv> W2 K_FROM"
abbreviation "T_WHERE \<equiv> W2 K_WHERE"
abbreviation "T_JOIN \<equiv> W2 K_JOIN"
abbreviation "T_INNER \<equiv> W2 K_INNER"
abbreviation "T_LEFT \<equiv> W2 K_LEFT"
abbreviation "T_RIGHT \<equiv> W2 K_RIGHT"
abbreviation "T_OUTER \<equiv> W2 K_OUTER"
abbreviation "T_FULL \<equiv> W2 K_FULL"
abbreviation "T_CROSS \<equiv> W2 K_CROSS"
abbreviation "T_ON \<equiv> W2 K_ON"
abbreviation "T_USING \<equiv> W2 K_USING"
abbreviation "T_AND \<equiv> W2 K_AND"
abbreviation "T_OR \<equiv> W2 K_OR"
abbreviation "T_NOT \<equiv> W2 K_NOT"
abbreviation "T_NULL \<equiv> W2 K_NULL"
abbreviation "T_IS \<equiv> W2 K_IS"
abbreviation "T_IN \<equiv> W2 K_IN"
abbreviation "T_BETWEEN \<equiv> W2 K_BETWEEN"
abbreviation "T_LIKE \<equiv> W2 K_LIKE"

abbreviation "T_ORDER \<equiv> W3 K_ORDER"
abbreviation "T_BY \<equiv> W3 K_BY"
abbreviation "T_GROUP \<equiv> W3 K_GROUP"
abbreviation "T_HAVING \<equiv> W3 K_HAVING"
abbreviation "T_LIMIT \<equiv> W3 K_LIMIT"
abbreviation "T_OFFSET \<equiv> W3 K_OFFSET"
abbreviation "T_UNION \<equiv> W3 K_UNION"
abbreviation "T_INTERSECT \<equiv> W3 K_INTERSECT"
abbreviation "T_EXCEPT \<equiv> W3 K_EXCEPT"
abbreviation "T_ALL \<equiv> W3 K_ALL"
abbreviation "T_DISTINCT \<equiv> W3 K_DISTINCT"
abbreviation "T_AS \<equiv> W3 K_AS"
abbreviation "T_ASC \<equiv> W3 K_ASC"
abbreviation "T_DESC \<equiv> W3 K_DESC"
abbreviation "T_INTO \<equiv> W3 K_INTO"
abbreviation "T_VALUES \<equiv> W3 K_VALUES"
abbreviation "T_SET \<equiv> W3 K_SET"

abbreviation "T_PRIMARY \<equiv> W4 K_PRIMARY"
abbreviation "T_FOREIGN \<equiv> W4 K_FOREIGN"
abbreviation "T_KEY \<equiv> W4 K_KEY"
abbreviation "T_REFERENCES \<equiv> W4 K_REFERENCES"
abbreviation "T_CONSTRAINT \<equiv> W4 K_CONSTRAINT"
abbreviation "T_DEFAULT \<equiv> W4 K_DEFAULT"
abbreviation "T_AUTO_INCREMENT \<equiv> W4 K_AUTO_INCREMENT"
abbreviation "T_UNIQUE \<equiv> W4 K_UNIQUE"
abbreviation "T_CHECK \<equiv> W4 K_CHECK"
abbreviation "T_BEGIN \<equiv> W4 K_BEGIN"
abbreviation "T_COMMIT \<equiv> W4 K_COMMIT"
abbreviation "T_ROLLBACK \<equiv> W4 K_ROLLBACK"
abbreviation "T_TRANSACTION \<equiv> W4 K_TRANSACTION"
abbreviation "T_SAVEPOINT \<equiv> W4 K_SAVEPOINT"
abbreviation "T_CASE \<equiv> W4 K_CASE"
abbreviation "T_WHEN \<equiv> W4 K_WHEN"
abbreviation "T_THEN \<equiv> W4 K_THEN"
abbreviation "T_ELSE \<equiv> W4 K_ELSE"
abbreviation "T_END \<equiv> W4 K_END"
abbreviation "T_EXISTS \<equiv> W4 K_EXISTS"
abbreviation "T_ANY \<equiv> W4 K_ANY"
abbreviation "T_SOME \<equiv> W4 K_SOME"

record Token =
  tok_type :: TokenType
  tok_text :: string
  tok_line :: int
  tok_column :: int

definition mk_token :: "TokenType \<Rightarrow> string \<Rightarrow> int \<Rightarrow> int \<Rightarrow> Token" where
  "mk_token t s l c = \<lparr>tok_type = t, tok_text = s, tok_line = l, tok_column = c\<rparr>"

definition keyword_table :: "(string \<times> TokenType) list" where
  "keyword_table = [
     (''SELECT'', T_SELECT), (''INSERT'', T_INSERT), (''UPDATE'', T_UPDATE),
     (''DELETE'', T_DELETE), (''FROM'', T_FROM), (''WHERE'', T_WHERE), (''JOIN'', T_JOIN),
     (''INNER'', T_INNER), (''LEFT'', T_LEFT), (''RIGHT'', T_RIGHT), (''OUTER'', T_OUTER),
     (''FULL'', T_FULL), (''CROSS'', T_CROSS), (''ON'', T_ON), (''USING'', T_USING),
     (''AND'', T_AND), (''OR'', T_OR), (''NOT'', T_NOT), (''NULL'', T_NULL), (''IS'', T_IS),
     (''IN'', T_IN), (''BETWEEN'', T_BETWEEN), (''LIKE'', T_LIKE), (''ORDER'', T_ORDER),
     (''BY'', T_BY), (''GROUP'', T_GROUP), (''HAVING'', T_HAVING), (''LIMIT'', T_LIMIT),
     (''OFFSET'', T_OFFSET), (''UNION'', T_UNION), (''INTERSECT'', T_INTERSECT),
     (''EXCEPT'', T_EXCEPT), (''ALL'', T_ALL), (''DISTINCT'', T_DISTINCT), (''AS'', T_AS),
     (''ASC'', T_ASC), (''DESC'', T_DESC), (''INTO'', T_INTO), (''VALUES'', T_VALUES),
     (''SET'', T_SET), (''CREATE'', T_CREATE), (''DROP'', T_DROP), (''ALTER'', T_ALTER),
     (''TABLE'', T_TABLE), (''INDEX'', T_INDEX), (''VIEW'', T_VIEW), (''PRIMARY'', T_PRIMARY),
     (''FOREIGN'', T_FOREIGN), (''KEY'', T_KEY), (''REFERENCES'', T_REFERENCES),
     (''CONSTRAINT'', T_CONSTRAINT), (''DEFAULT'', T_DEFAULT),
     (''AUTO_INCREMENT'', T_AUTO_INCREMENT), (''UNIQUE'', T_UNIQUE), (''CHECK'', T_CHECK),
     (''BEGIN'', T_BEGIN), (''COMMIT'', T_COMMIT), (''ROLLBACK'', T_ROLLBACK),
     (''TRANSACTION'', T_TRANSACTION), (''SAVEPOINT'', T_SAVEPOINT), (''CASE'', T_CASE),
     (''WHEN'', T_WHEN), (''THEN'', T_THEN), (''ELSE'', T_ELSE), (''END'', T_END),
     (''EXISTS'', T_EXISTS), (''ANY'', T_ANY), (''SOME'', T_SOME), (''TRUE'', T_BOOLEAN),
     (''FALSE'', T_BOOLEAN)]"

section \<open>The lexer\<close>

definition newline :: char where
  "newline = CHR 0x0A"

record Lexer =
  input :: string
  pos :: nat
  line :: int
  column :: int

text \<open>The whole input is converted to upper case, the string literals included.\<close>

definition Lexer_new :: "string \<Rightarrow> Lexer" where
  "Lexer_new s = \<lparr>input = map to_upper s, pos = 0, line = 1, column = 1\<rparr>"

definition hasMoreTokens :: "Lexer \<Rightarrow> bool" where
  "hasMoreTokens lx \<longleftrightarrow> pos lx < length (input lx)"

definition lexer_reset :: "Lexer \<Rightarrow> Lexer" where
  "lexer_reset lx = lx\<lparr>pos := 0, line := 1, column := 1\<rparr>"

definition getPosition :: "Lexer \<Rightarrow> string" where
  "getPosition lx = ''line '' @ dec_string (line lx) @ '', column '' @ dec_string (column lx)"

definition peek :: "Lexer \<Rightarrow> char" where
  "peek lx = (if pos lx \<ge> length (input lx) then CHR 0x00 else input lx ! pos lx)"

definition advance :: "Lexer \<Rightarrow> char \<times> Lexer" where
  "advance lx =
     (if pos lx \<ge> length (input lx) then (CHR 0x00, lx)
      else
        let c = input lx ! pos lx; lx = lx\<lparr>pos := pos lx + 1\<rparr>
        in (c, if c = newline then lx\<lparr>line := line lx + 1, column := 1\<rparr>
               else lx\<lparr>column := column lx + 1\<rparr>))"

lemma advance_pos: "pos lx < length (input lx) \<Longrightarrow> pos (snd (advance lx)) = pos lx + 1"
  by (simp add: advance_def Let_def)

lemma advance_input [simp]: "input (snd (advance lx)) = input lx"
  by (simp add: advance_def Let_def)

text \<open>
  The loops that advance over a class of characters and collect them. \<^verbatim>\<open>peek\<close> gives the
  zero character at the end, which is in none of the classes.
\<close>

function advance_while :: "(char \<Rightarrow> bool) \<Rightarrow> Lexer \<Rightarrow> string \<times> Lexer" where
  "advance_while P lx =
     (if pos lx < length (input lx) \<and> P (input lx ! pos lx)
      then let (c, lx1) = advance lx; (cs, lx2) = advance_while P lx1 in (c # cs, lx2)
      else ([], lx))"
  by pat_completeness auto
termination
  by (relation "measure (\<lambda>(P, lx). length (input lx) - pos lx)") (auto simp: advance_def Let_def split: if_splits)

declare advance_while.simps [simp del]

definition skipWhitespace :: "Lexer \<Rightarrow> Lexer" where
  "skipWhitespace lx = snd (advance_while is_space lx)"

function block_comment :: "Lexer \<Rightarrow> Lexer" where
  "block_comment lx =
     (if pos lx + 1 < length (input lx)
      then if input lx ! pos lx = CHR ''*'' \<and> input lx ! (pos lx + 1) = CHR ''/''
           then snd (advance (snd (advance lx)))
           else block_comment (snd (advance lx))
      else lx)"
  by pat_completeness auto
termination
  by (relation "measure (\<lambda>lx. length (input lx) - pos lx)") (auto simp: advance_def Let_def)

declare block_comment.simps [simp del]

definition skipComment :: "Lexer \<Rightarrow> Lexer" where
  "skipComment lx =
     (if pos lx + 1 < length (input lx)
      then let a = input lx ! pos lx; b = input lx ! (pos lx + 1) in
        if (a = CHR ''-'' \<and> b = CHR ''-'') \<or> (a = CHR ''/'' \<and> b = CHR ''/'')
        then snd (advance_while (\<lambda>c. c \<noteq> newline) lx)
        else if a = CHR ''/'' \<and> b = CHR ''*''
        then block_comment (snd (advance (snd (advance lx))))
        else lx
      else lx)"

definition is_ident_char :: "char \<Rightarrow> bool" where
  "is_ident_char c \<longleftrightarrow> is_alnum c \<or> c = CHR ''_'' \<or> c = CHR ''$''"

definition readIdentifier :: "Lexer \<Rightarrow> Token \<times> Lexer" where
  "readIdentifier lx =
     (let (text, lx1) = advance_while is_ident_char lx
      in (mk_token (case map_of keyword_table text of Some t \<Rightarrow> t | None \<Rightarrow> T_IDENTIFIER) text (line lx) (column lx), lx1))"

definition read_fraction :: "string \<Rightarrow> Lexer \<Rightarrow> bool \<times> string \<times> Lexer" where
  "read_fraction text lx =
     (if peek lx = CHR ''.''
      then let (c, lx1) = advance lx; (ds, lx2) = advance_while is_digit lx1 in (True, text @ [c] @ ds, lx2)
      else (False, text, lx))"

definition read_exponent :: "bool \<Rightarrow> string \<Rightarrow> Lexer \<Rightarrow> bool \<times> string \<times> Lexer" where
  "read_exponent is_float text lx =
     (if peek lx = CHR ''e'' \<or> peek lx = CHR ''E''
      then let (c, lx1) = advance lx;
               (sg, lx2) = (if peek lx1 = CHR ''+'' \<or> peek lx1 = CHR ''-''
                            then let (d, lx2) = advance lx1 in ([d], lx2) else ([], lx1));
               (ds, lx3) = advance_while is_digit lx2
           in (True, text @ [c] @ sg @ ds, lx3)
      else (is_float, text, lx))"

definition readNumber :: "Lexer \<Rightarrow> Token \<times> Lexer" where
  "readNumber lx =
     (let (text, lx1) = advance_while is_digit lx;
          (is_float, text, lx2) = read_fraction text lx1;
          (is_float, text, lx3) = read_exponent is_float text lx2
      in (mk_token (if is_float then T_FLOAT else T_INTEGER) text (line lx) (column lx), lx3))"

function string_body :: "char \<Rightarrow> Lexer \<Rightarrow> string \<times> Lexer" where
  "string_body quote lx =
     (if pos lx < length (input lx)
      then let (c, lx1) = advance lx in
        if c = quote then ([], lx1)
        else if c = CHR 0x5C
        then if pos lx1 < length (input lx1)
             then let (d, lx2) = advance lx1; (cs, lx3) = string_body quote lx2 in (d # cs, lx3)
             else string_body quote lx1
        else let (cs, lx2) = string_body quote lx1 in (c # cs, lx2)
      else ([], lx))"
  by pat_completeness auto
termination
  by (relation "measure (\<lambda>(q, lx). length (input lx) - pos lx)") (auto simp: advance_def Let_def split: if_splits)

declare string_body.simps [simp del]

definition readString :: "Lexer \<Rightarrow> Token \<times> Lexer" where
  "readString lx =
     (let (quote, lx1) = advance lx; (text, lx2) = string_body quote lx1
      in (mk_token T_STRING text (line lx1) (column lx1), lx2))"

text \<open>The operators of two characters, then those of one.\<close>

definition two_char_operators :: "(char \<times> char \<times> TokenType \<times> string) list" where
  "two_char_operators =
     [(CHR ''='', CHR ''='', T_EQ, ''==''), (CHR ''!'', CHR ''='', T_NE, ''!=''),
      (CHR ''<'', CHR ''='', T_LE, ''<=''), (CHR ''>'', CHR ''='', T_GE, ''>=''),
      (CHR ''|'', CHR ''|'', T_CONCAT, ''||''), (CHR '':'', CHR ''='', T_ASSIGN, '':='')]"

definition one_char_operators :: "(char \<times> TokenType) list" where
  "one_char_operators =
     [(CHR ''+'', T_PLUS), (CHR ''-'', T_MINUS), (CHR ''*'', T_STAR), (CHR ''/'', T_SLASH),
      (CHR ''%'', T_PERCENT), (CHR ''='', T_ASSIGN), (CHR ''<'', T_LT), (CHR ''>'', T_GT),
      (CHR ''('', T_LPAREN), (CHR '')'', T_RPAREN), (CHR '','', T_COMMA), (CHR ''.'', T_DOT),
      (CHR '';'', T_SEMICOLON)]"

definition readOperator :: "Lexer \<Rightarrow> Token \<times> Lexer" where
  "readOperator lx =
     (let (c, lx1) = advance lx; l = line lx1; k = column lx1 in
      case find (\<lambda>(a, b, t, s). a = c \<and> b = peek lx1) two_char_operators of
        Some (a, b, t, s) \<Rightarrow> (mk_token t s l k, snd (advance lx1))
      | None \<Rightarrow>
          (case map_of one_char_operators c of
             Some t \<Rightarrow> (mk_token t [c] l k, lx1)
           | None \<Rightarrow> (mk_token T_UNKNOWN [c] l k, lx1)))"

definition nextToken :: "Lexer \<Rightarrow> Token \<times> Lexer" where
  "nextToken lx =
     (let lx = skipComment (skipWhitespace lx) in
      if pos lx \<ge> length (input lx) then (mk_token T_END_OF_FILE [] (line lx) (column lx), lx)
      else
        let c = peek lx in
        if is_alpha c \<or> c = CHR ''_'' then readIdentifier lx
        else if is_digit c then readNumber lx
        else if c = CHR 0x27 \<or> c = CHR 0x22 then readString lx
        else readOperator lx)"

definition peekToken :: "Lexer \<Rightarrow> Token \<times> Lexer" where
  "peekToken lx =
     (let (t, lx1) = nextToken lx
      in (t, lx1\<lparr>pos := pos lx, line := line lx, column := column lx\<rparr>))"


section \<open>Progress\<close>

text \<open>The part of the input that is not read yet.\<close>

definition rest :: "Lexer \<Rightarrow> string" where
  "rest lx = drop (pos lx) (input lx)"

lemma rest_Nil: "rest lx = [] \<longleftrightarrow> length (input lx) \<le> pos lx"
  by (simp add: rest_def)

lemma rest_Cons:
  assumes "rest lx = c # cs"
  shows "pos lx < length (input lx)" and "input lx ! pos lx = c" and "drop (Suc (pos lx)) (input lx) = cs"
proof -
  show l: "pos lx < length (input lx)" using assms by (metis rest_Nil list.distinct(1) not_le)
  then have "rest lx = input lx ! pos lx # drop (Suc (pos lx)) (input lx)"
    by (simp add: rest_def Cons_nth_drop_Suc)
  with assms show "input lx ! pos lx = c" and "drop (Suc (pos lx)) (input lx) = cs" by simp_all
qed

lemma peek_rest: "peek lx = (case rest lx of [] \<Rightarrow> CHR 0x00 | c # cs \<Rightarrow> c)"
  using rest_Nil [of lx] rest_Cons(2) [of lx] by (auto simp: peek_def split: list.split)

lemma advance_rest:
  assumes "rest lx = c # cs"
  shows "fst (advance lx) = c" and "rest (snd (advance lx)) = cs"
  using rest_Cons [OF assms] by (simp_all add: advance_def Let_def rest_def)

lemma advance_Nil: "rest lx = [] \<Longrightarrow> advance lx = (CHR 0x00, lx)"
  by (simp add: rest_Nil advance_def)

lemma advance_while_rest:
  "fst (advance_while P lx) = takeWhile P (rest lx) \<and> rest (snd (advance_while P lx)) = dropWhile P (rest lx) \<and>
   input (snd (advance_while P lx)) = input lx"
proof (induction "length (rest lx)" arbitrary: lx rule: less_induct)
  case less
  show ?case
  proof (cases "rest lx")
    case Nil
    then have "\<not> pos lx < length (input lx)" by (simp add: rest_Nil)
    with Nil show ?thesis by (simp add: advance_while.simps [of P lx])
  next
    case (Cons c cs)
    show ?thesis
    proof (cases "P c")
      case True
      then show ?thesis
        using less [of "snd (advance lx)"] rest_Cons [OF Cons] advance_rest [OF Cons] Cons
        by (simp add: advance_while.simps [of P lx] case_prod_beta Let_def)
    next
      case False
      then show ?thesis using rest_Cons [OF Cons] Cons by (simp add: advance_while.simps [of P lx])
    qed
  qed
qed

lemma advance_while_parts [simp]:
  "fst (advance_while P lx) = takeWhile P (rest lx)" "rest (snd (advance_while P lx)) = dropWhile P (rest lx)"
  "input (snd (advance_while P lx)) = input lx"
  using advance_while_rest by simp_all

text \<open>A reading function leaves a suffix of what it was given.\<close>

definition reads :: "Lexer \<Rightarrow> Lexer \<Rightarrow> bool" where
  "reads lx lx' \<longleftrightarrow> input lx' = input lx \<and> (\<exists>k. rest lx' = drop k (rest lx))"

lemma reads_refl [simp, intro]: "reads lx lx"
  unfolding reads_def by (metis drop_0)

lemma reads_trans [trans]: "reads a b \<Longrightarrow> reads b c \<Longrightarrow> reads a c"
  by (auto simp: reads_def)

lemma reads_advance [simp, intro]: "reads lx (snd (advance lx))"
proof (cases "rest lx")
  case (Cons c cs)
  then show ?thesis using advance_rest(2) [OF Cons] by (auto simp: reads_def intro: exI [of _ 1])
qed (simp add: advance_Nil)

lemma reads_advance_while [simp, intro]: "reads lx (snd (advance_while P lx))"
  by (auto simp: reads_def dropWhile_eq_drop)

lemma reads_advance_then: "reads (snd (advance lx)) lx' \<Longrightarrow> reads lx lx'"
  using reads_advance reads_trans by blast

lemma reads_then_advance: "reads lx lx' \<Longrightarrow> reads lx (snd (advance lx'))"
  using reads_advance reads_trans by blast

lemma reads_then_advance_while: "reads lx lx' \<Longrightarrow> reads lx (snd (advance_while P lx'))"
  using reads_advance_while reads_trans by blast

lemma reads_block_comment: "reads lx (block_comment lx)"
proof (induction lx rule: block_comment.induct)
  case (1 lx)
  then show ?case
    by (subst block_comment.simps) (auto intro: reads_advance_then)
qed

lemma reads_then_block_comment: "reads lx lx' \<Longrightarrow> reads lx (block_comment lx')"
  using reads_block_comment reads_trans by blast

lemmas reads_steps = reads_then_advance reads_then_advance_while reads_then_block_comment

lemma reads_skipComment: "reads lx (skipComment lx)"
  by (auto simp: skipComment_def Let_def intro!: reads_steps)

lemma reads_shorter: "reads lx lx' \<Longrightarrow> length (rest lx') \<le> length (rest lx)"
  by (auto simp: reads_def)

lemma advance_shorter: "rest lx \<noteq> [] \<Longrightarrow> reads (snd (advance lx)) lx' \<Longrightarrow> length (rest lx') < length (rest lx)"
  using reads_shorter [of "snd (advance lx)" lx'] advance_rest(2) [of lx] by (cases "rest lx") auto

text \<open>The body of a string literal on each shape of the rest.\<close>

lemma string_body_Nil: "rest lx = [] \<Longrightarrow> string_body q lx = ([], lx)"
  by (simp add: rest_Nil string_body.simps [of q lx])

lemma string_body_quote: "rest lx = q # cs \<Longrightarrow> string_body q lx = ([], snd (advance lx))"
  using rest_Cons(1) advance_rest(1) [of lx q cs] by (simp add: string_body.simps [of q lx] case_prod_beta Let_def)

lemma string_body_char:
  assumes "rest lx = c # cs" and "c \<noteq> q" and "c \<noteq> CHR 0x5C"
  shows "string_body q lx = (c # fst (string_body q (snd (advance lx))), snd (string_body q (snd (advance lx))))"
  using assms rest_Cons(1) advance_rest(1) [OF assms(1)]
  by (simp add: string_body.simps [of q lx] case_prod_beta Let_def)

lemma string_body_escape:
  assumes "rest lx = CHR 0x5C # d # cs" and "q \<noteq> CHR 0x5C"
  shows "string_body q lx = (d # fst (string_body q (snd (advance (snd (advance lx))))),
           snd (string_body q (snd (advance (snd (advance lx))))))"
  using assms rest_Cons(1) [OF assms(1)] advance_rest [OF assms(1)]
    rest_Cons(1) [OF advance_rest(2) [OF assms(1)]] advance_rest(1) [OF advance_rest(2) [OF assms(1)]]
  by (simp add: string_body.simps [of q lx] case_prod_beta Let_def)

lemma string_body_escape_end:
  assumes "rest lx = [CHR 0x5C]" and "q \<noteq> CHR 0x5C"
  shows "string_body q lx = ([], snd (advance lx))"
proof -
  have e: "rest (snd (advance lx)) = []" using advance_rest(2) [OF assms(1)] by simp
  then have "\<not> pos (snd (advance lx)) < length (input lx)" using rest_Nil [of "snd (advance lx)"] by simp
  then show ?thesis
    using assms rest_Cons(1) [OF assms(1)] advance_rest(1) [OF assms(1)] string_body_Nil [OF e, of q]
    by (simp add: string_body.simps [of q lx] case_prod_beta Let_def)
qed

lemma reads_string_body: "reads lx (snd (string_body q lx))"
proof (induction "length (rest lx)" arbitrary: lx rule: less_induct)
  case less
  show ?case
  proof (cases "rest lx")
    case Nil
    then show ?thesis by (simp add: string_body_Nil)
  next
    case (Cons c cs)
    note next1 = advance_rest(2) [OF Cons]
    have step: "reads lx (snd (string_body q (snd (advance lx))))"
      using less [of "snd (advance lx)"] next1 Cons by (auto intro: reads_advance_then)
    show ?thesis
    proof (cases "c = q \<or> c \<noteq> CHR 0x5C")
      case True
      then show ?thesis using Cons step string_body_quote [of lx q cs] string_body_char [OF Cons, of q]
        by (cases "c = q") auto
    next
      case False
      show ?thesis
      proof (cases cs)
        case Nil
        then show ?thesis using False Cons string_body_escape_end [of lx q] by auto
      next
        case (Cons d ds)
        have r: "rest lx = CHR 0x5C # d # ds" using False Cons \<open>rest lx = c # cs\<close> by simp
        have "reads (snd (advance (snd (advance lx)))) (snd (string_body q (snd (advance (snd (advance lx))))))"
          using less [of "snd (advance (snd (advance lx)))"] advance_rest(2) [OF advance_rest(2) [OF r]] r by simp
        then have "reads lx (snd (string_body q (snd (advance (snd (advance lx))))))"
          by (rule reads_advance_then [OF reads_advance_then])
        moreover have "q \<noteq> CHR 0x5C" using False by auto
        ultimately show ?thesis using string_body_escape [OF r, of q] by simp
      qed
    qed
  qed
qed

lemma reads_readIdentifier: "reads lx (snd (readIdentifier lx))"
  by (simp add: readIdentifier_def case_prod_beta Let_def)

lemma reads_read_fraction: "reads lx (snd (snd (read_fraction text lx)))"
  by (auto simp: read_fraction_def case_prod_beta Let_def intro!: reads_steps)

lemma reads_read_exponent: "reads lx (snd (snd (read_exponent b text lx)))"
  by (auto simp: read_exponent_def case_prod_beta Let_def intro!: reads_steps)

lemma reads_digits_readNumber: "reads (snd (advance_while is_digit lx)) (snd (readNumber lx))"
  using reads_trans [OF reads_read_fraction reads_read_exponent]
  by (simp add: readNumber_def case_prod_beta Let_def)

lemma reads_readNumber: "reads lx (snd (readNumber lx))"
  using reads_advance_while reads_digits_readNumber by (rule reads_trans)

lemma reads_readString: "reads lx (snd (readString lx))"
  using reads_advance_then [OF reads_string_body] by (simp add: readString_def case_prod_beta Let_def)

lemma reads_readOperator: "reads (snd (advance lx)) (snd (readOperator lx))"
  by (auto simp: readOperator_def case_prod_beta Let_def split: option.split)

definition after_blanks :: "Lexer \<Rightarrow> Lexer" where
  "after_blanks lx = skipComment (skipWhitespace lx)"

lemma reads_after_blanks: "reads lx (after_blanks lx)"
  unfolding after_blanks_def skipWhitespace_def
  using reads_trans [OF reads_advance_while reads_skipComment] .

lemma nextToken_unfold:
  "nextToken lx =
     (let lx = after_blanks lx in
      case rest lx of
        [] \<Rightarrow> (mk_token T_END_OF_FILE [] (line lx) (column lx), lx)
      | c # cs \<Rightarrow>
          if is_alpha c \<or> c = CHR ''_'' then readIdentifier lx
          else if is_digit c then readNumber lx
          else if c = CHR 0x27 \<or> c = CHR 0x22 then readString lx
          else readOperator lx)"
  using rest_Nil [of "after_blanks lx"]
  by (auto simp: nextToken_def after_blanks_def [symmetric] peek_rest Let_def split: list.split)

lemma tok_type_mk_token [simp]: "tok_type (mk_token t s l c) = t" "tok_text (mk_token t s l c) = s"
  by (simp_all add: mk_token_def)

lemma keyword_not_end: "map_of keyword_table w = Some t \<Longrightarrow> t \<noteq> T_END_OF_FILE"
proof -
  have "\<forall>(k, t) \<in> set keyword_table. t \<noteq> T_END_OF_FILE" by (simp add: keyword_table_def)
  then show "map_of keyword_table w = Some t \<Longrightarrow> t \<noteq> T_END_OF_FILE" using map_of_SomeD by fast
qed

lemma readers_not_end:
  "tok_type (fst (readIdentifier lx)) \<noteq> T_END_OF_FILE" "tok_type (fst (readNumber lx)) \<noteq> T_END_OF_FILE"
  "tok_type (fst (readString lx)) \<noteq> T_END_OF_FILE" "tok_type (fst (readOperator lx)) \<noteq> T_END_OF_FILE"
  using keyword_not_end
  by (auto simp: readIdentifier_def readNumber_def readString_def readOperator_def case_prod_beta Let_def
      two_char_operators_def one_char_operators_def split: option.split if_splits)

lemma dropWhile_shorter: "P c \<Longrightarrow> length (dropWhile P (c # cs)) < length (c # cs)"
  by (simp add: length_dropWhile_le less_Suc_eq_le)

lemma readIdentifier_shorter:
  assumes "rest lx = c # cs" and "is_alpha c \<or> c = CHR ''_''"
  shows "length (rest (snd (readIdentifier lx))) < length (rest lx)"
proof -
  have "is_ident_char c" using assms(2) by (auto simp: is_ident_char_def is_alnum_def)
  then have "length (dropWhile is_ident_char (c # cs)) < length (c # cs)" by (rule dropWhile_shorter)
  then show ?thesis using assms(1) by (simp add: readIdentifier_def case_prod_beta Let_def)
qed

lemma readNumber_shorter:
  assumes "rest lx = c # cs" and "is_digit c"
  shows "length (rest (snd (readNumber lx))) < length (rest lx)"
  using reads_shorter [OF reads_digits_readNumber, of lx] dropWhile_shorter [of is_digit, OF assms(2), of cs]
  by (simp add: assms(1))

lemma readString_shorter: "rest lx \<noteq> [] \<Longrightarrow> length (rest (snd (readString lx))) < length (rest lx)"
  using advance_shorter [OF _ reads_string_body] by (simp add: readString_def case_prod_beta Let_def)

lemma readOperator_shorter: "rest lx \<noteq> [] \<Longrightarrow> length (rest (snd (readOperator lx))) < length (rest lx)"
  using advance_shorter [OF _ reads_readOperator] .

lemmas readers_shorter = readIdentifier_shorter readNumber_shorter readString_shorter readOperator_shorter

lemma nextToken_cases:
  "(tok_type (fst (nextToken lx)) = T_END_OF_FILE \<and> rest (snd (nextToken lx)) = []) \<or>
   (tok_type (fst (nextToken lx)) \<noteq> T_END_OF_FILE \<and> length (rest (snd (nextToken lx))) < length (rest lx))"
proof (cases "rest (after_blanks lx)")
  case Nil
  then show ?thesis by (simp add: nextToken_unfold Let_def)
next
  case (Cons c cs)
  let ?t = "nextToken lx"
  have "length (rest (snd ?t)) < length (rest (after_blanks lx))"
    using Cons readers_shorter [of "after_blanks lx"] by (auto simp: nextToken_unfold Let_def)
  moreover have "tok_type (fst ?t) \<noteq> T_END_OF_FILE"
    using Cons readers_not_end by (auto simp: nextToken_unfold Let_def)
  ultimately show ?thesis using reads_shorter [OF reads_after_blanks, of lx] by linarith
qed

lemma reads_nextToken: "reads lx (snd (nextToken lx))"
proof -
  have "reads (after_blanks lx) (snd (nextToken lx))"
    using reads_readIdentifier reads_readNumber reads_readString reads_advance_then [OF reads_readOperator]
    by (auto simp: nextToken_unfold Let_def split: list.split)
  with reads_after_blanks show ?thesis by (rule reads_trans)
qed

section \<open>The token sequence\<close>

text \<open>The tokens that repeated calls of \<^verbatim>\<open>nextToken\<close> give, up to the end of the file.\<close>

function tokens :: "Lexer \<Rightarrow> Token list" where
  "tokens lx =
     (let (t, lx1) = nextToken lx in if tok_type t = T_END_OF_FILE then [] else t # tokens lx1)"
  by pat_completeness auto
termination
proof (relation "measure (\<lambda>lx. length (rest lx))")
  show "(lx1, lx) \<in> measure (\<lambda>lx. length (rest lx))"
    if "p = nextToken lx" and "(t, lx1) = p" and "tok_type t \<noteq> T_END_OF_FILE" for lx p t lx1
    using that nextToken_cases [of lx] by (metis fst_conv in_measure snd_conv)
qed simp

declare tokens.simps [simp del]

section \<open>Printing and reading tokens\<close>

definition token_view :: "Token \<Rightarrow> TokenType \<times> string" where
  "token_view t = (tok_type t, tok_text t)"

definition word_type :: "string \<Rightarrow> TokenType" where
  "word_type w = (case map_of keyword_table w of Some t \<Rightarrow> t | None \<Rightarrow> T_IDENTIFIER)"

definition operator_tokens :: "(TokenType \<times> string) list" where
  "operator_tokens = map (\<lambda>(a, b, t, s). (t, s)) two_char_operators @ map (\<lambda>(c, t). (t, [c])) one_char_operators"

fun printable :: "TokenType \<times> string \<Rightarrow> bool" where
  "printable (t, w) \<longleftrightarrow>
     (w \<noteq> [] \<and> (is_alpha (hd w) \<or> hd w = CHR ''_'') \<and> list_all is_ident_char w \<and> map to_upper w = w \<and> t = word_type w) \<or>
     (w \<noteq> [] \<and> list_all is_digit w \<and> t = T_INTEGER) \<or>
     (t = T_STRING \<and> CHR 0x27 \<notin> set w \<and> CHR 0x5C \<notin> set w \<and> map to_upper w = w) \<or>
     (t, w) \<in> set operator_tokens"

fun print_token :: "TokenType \<times> string \<Rightarrow> string" where
  "print_token (t, w) = (if t = T_STRING then CHR 0x27 # w @ [CHR 0x27] else w)"

definition print_tokens :: "(TokenType \<times> string) list \<Rightarrow> string" where
  "print_tokens ts = concat (map (\<lambda>t. print_token t @ '' '') ts)"

lemma skipComment_id:
  assumes "rest lx = a # b # cs" and "\<not> (a = CHR ''-'' \<and> b = CHR ''-'')"
    and "\<not> (a = CHR ''/'' \<and> (b = CHR ''/'' \<or> b = CHR ''*''))"
  shows "skipComment lx = lx"
proof -
  have "drop (Suc (pos lx)) (input lx) = b # cs" using rest_Cons(3) [OF assms(1)] .
  then have "input lx ! Suc (pos lx) = b"
    by (metis drop_Suc_Cons hd_drop_conv_nth list.sel(1) drop_eq_Nil list.distinct(1) not_le)
  with assms rest_Cons(2) [OF assms(1)] show ?thesis by (auto simp: skipComment_def Let_def)
qed

lemma rest_skipWhitespace: "rest (skipWhitespace lx) = dropWhile is_space (rest lx)"
  by (simp add: skipWhitespace_def)

lemma after_blanks_id:
  assumes "dropWhile is_space (rest lx) = a # b # cs" and "\<not> (a = CHR ''-'' \<and> b = CHR ''-'')"
    and "\<not> (a = CHR ''/'' \<and> (b = CHR ''/'' \<or> b = CHR ''*''))"
  shows "rest (after_blanks lx) = a # b # cs"
  using skipComment_id [of "skipWhitespace lx", OF _ assms(2,3)] assms(1)
  by (simp add: after_blanks_def rest_skipWhitespace)

lemma readIdentifier_view:
  "token_view (fst (readIdentifier lx)) = (word_type (takeWhile is_ident_char (rest lx)), takeWhile is_ident_char (rest lx)) \<and>
   rest (snd (readIdentifier lx)) = dropWhile is_ident_char (rest lx)"
  by (simp add: readIdentifier_def token_view_def word_type_def case_prod_beta Let_def)

lemma readNumber_integer_view:
  assumes "rest lx = w @ CHR '' '' # r" and "list_all is_digit w"
  shows "token_view (fst (readNumber lx)) = (T_INTEGER, w) \<and> rest (snd (readNumber lx)) = CHR '' '' # r"
proof -
  have "\<not> is_digit (CHR '' '')" by (simp add: is_digit_def)
  then have d: "takeWhile is_digit (rest lx) = w" "dropWhile is_digit (rest lx) = CHR '' '' # r"
    using assms by (simp_all add: list_all_iff takeWhile_append dropWhile_append)
  then have "peek (snd (advance_while is_digit lx)) = CHR '' ''" by (simp add: peek_rest)
  then show ?thesis
    using d by (simp add: readNumber_def read_fraction_def read_exponent_def token_view_def case_prod_beta Let_def)
qed

lemma string_body_view:
  assumes "rest lx = w @ q # r" and "q \<notin> set w" and "CHR 0x5C \<notin> set w"
  shows "fst (string_body q lx) = w \<and> rest (snd (string_body q lx)) = r"
  using assms
proof (induction w arbitrary: lx)
  case Nil
  then show ?case using string_body_quote [of lx q r] advance_rest(2) [of lx q r] by simp
next
  case (Cons c w)
  from Cons.prems have r: "rest lx = c # (w @ q # r)" by simp
  with Cons show ?case using string_body_char [OF r, of q] advance_rest(2) [OF r] by auto
qed

lemma readString_view:
  assumes "rest lx = q # w @ q # r" and "q \<notin> set w" and "CHR 0x5C \<notin> set w"
  shows "token_view (fst (readString lx)) = (T_STRING, w) \<and> rest (snd (readString lx)) = r"
  using string_body_view [OF advance_rest(2) [OF assms(1)] assms(2,3)] advance_rest(1) [OF assms(1)]
  by (simp add: readString_def token_view_def case_prod_beta Let_def)

definition operator_view :: "string \<Rightarrow> (TokenType \<times> string) \<times> string" where
  "operator_view s =
     (case find (\<lambda>(a, b, t, u). s \<noteq> [] \<and> a = hd s \<and> tl s \<noteq> [] \<and> b = hd (tl s)) two_char_operators of
        Some (a, b, t, u) \<Rightarrow> ((t, u), tl (tl s))
      | None \<Rightarrow> ((case map_of one_char_operators (hd s) of Some t \<Rightarrow> t | None \<Rightarrow> T_UNKNOWN, [hd s]), tl s))"

lemma two_char_operators_nonzero: "(a, b, t, u) \<in> set two_char_operators \<Longrightarrow> b \<noteq> CHR 0x00"
  by (auto simp: two_char_operators_def)

lemma readOperator_view:
  assumes "rest lx = c # cs"
  shows "(token_view (fst (readOperator lx)), rest (snd (readOperator lx))) = operator_view (c # cs)"
proof -
  let ?l = "snd (advance lx)"
  have "find (\<lambda>(a, b, t, s). a = c \<and> b = peek ?l) two_char_operators =
      find (\<lambda>(a, b, t, u). a = c \<and> cs \<noteq> [] \<and> b = hd cs) two_char_operators"
    using two_char_operators_nonzero advance_rest(2) [OF assms]
    by (intro find_cong) (auto simp: peek_rest split: list.split)
  moreover have "rest (snd (advance ?l)) = tl cs"
    using advance_rest(2) [OF assms] advance_rest(2) [of ?l] advance_Nil [of ?l] by (cases cs) auto
  ultimately show ?thesis
    using advance_rest [OF assms]
    by (auto simp: readOperator_def operator_view_def token_view_def case_prod_beta Let_def split: option.split)
qed

lemma nextToken_word:
  assumes "dropWhile is_space (rest lx) = w @ CHR '' '' # r" and "w \<noteq> []"
    and "is_alpha (hd w) \<or> hd w = CHR ''_''" and "list_all is_ident_char w"
  shows "token_view (fst (nextToken lx)) = (word_type w, w) \<and> rest (snd (nextToken lx)) = CHR '' '' # r"
proof -
  obtain a v where w: "w = a # v" using assms(2) by (cases w) auto
  obtain b cs where bc: "v @ CHR '' '' # r = b # cs" by (cases "v @ CHR '' '' # r") auto
  have "a \<noteq> CHR ''-''" "a \<noteq> CHR ''/''"
    using assms(3) w by (auto simp: is_alpha_def is_upper_def is_lower_def)
  with after_blanks_id [of lx a b cs] have r: "rest (after_blanks lx) = w @ CHR '' '' # r"
    using assms(1) w bc by simp
  moreover have "\<not> is_ident_char (CHR '' '')"
    by (simp add: is_ident_char_def is_alnum_def is_alpha_def is_upper_def is_lower_def is_digit_def)
  ultimately have "takeWhile is_ident_char (rest (after_blanks lx)) = w"
    "dropWhile is_ident_char (rest (after_blanks lx)) = CHR '' '' # r"
    using assms(4) by (simp_all add: list_all_iff takeWhile_append dropWhile_append)
  then show ?thesis
    using readIdentifier_view [of "after_blanks lx"] assms(3) r w by (simp add: nextToken_unfold Let_def)
qed

lemma nextToken_integer:
  assumes "dropWhile is_space (rest lx) = w @ CHR '' '' # r" and "w \<noteq> []" and "list_all is_digit w"
  shows "token_view (fst (nextToken lx)) = (T_INTEGER, w) \<and> rest (snd (nextToken lx)) = CHR '' '' # r"
proof -
  obtain a v where w: "w = a # v" using assms(2) by (cases w) auto
  obtain b cs where bc: "v @ CHR '' '' # r = b # cs" by (cases "v @ CHR '' '' # r") auto
  have a: "is_digit a" using assms(3) w by simp
  then have "a \<noteq> CHR ''-''" "a \<noteq> CHR ''/''" by (auto simp: is_digit_def)
  with after_blanks_id [of lx a b cs] have r: "rest (after_blanks lx) = w @ CHR '' '' # r"
    using assms(1) w bc by simp
  moreover have "\<not> is_alpha a" "a \<noteq> CHR ''_''"
    using a by (auto simp: is_alpha_def is_upper_def is_lower_def is_digit_def)
  ultimately show ?thesis
    using readNumber_integer_view [of "after_blanks lx", OF _ assms(3)] w a by (simp add: nextToken_unfold Let_def)
qed

lemma nextToken_string:
  assumes "dropWhile is_space (rest lx) = CHR 0x27 # w @ CHR 0x27 # r" and "CHR 0x27 \<notin> set w" and "CHR 0x5C \<notin> set w"
  shows "token_view (fst (nextToken lx)) = (T_STRING, w) \<and> rest (snd (nextToken lx)) = r"
proof -
  obtain b cs where bc: "w @ CHR 0x27 # r = b # cs" by (cases "w @ CHR 0x27 # r") auto
  with after_blanks_id [of lx "CHR 0x27" b cs] have r: "rest (after_blanks lx) = CHR 0x27 # w @ CHR 0x27 # r"
    using assms(1) by simp
  moreover have "\<not> is_alpha (CHR 0x27)" "\<not> is_digit (CHR 0x27)"
    by (simp_all add: is_alpha_def is_upper_def is_lower_def is_digit_def)
  ultimately show ?thesis
    using readString_view [OF r assms(2,3)] by (simp add: nextToken_unfold Let_def)
qed

lemma operator_view_printed:
  "(t, w) \<in> set operator_tokens \<Longrightarrow> operator_view (w @ CHR '' '' # r) = ((t, w), CHR '' '' # r)"
proof -
  have "list_all (\<lambda>(t, w). operator_view (w @ CHR '' '' # r) = ((t, w), CHR '' '' # r)) operator_tokens"
    by (simp add: operator_tokens_def operator_view_def two_char_operators_def one_char_operators_def)
  then show "(t, w) \<in> set operator_tokens \<Longrightarrow> ?thesis" by (auto simp: list_all_iff)
qed

definition operator_start :: "char \<Rightarrow> bool" where
  "operator_start a \<longleftrightarrow> \<not> is_alpha a \<and> a \<noteq> CHR ''_'' \<and> \<not> is_digit a \<and> a \<noteq> CHR 0x27 \<and> a \<noteq> CHR 0x22"

lemma operator_token_start:
  assumes "(t, w) \<in> set operator_tokens"
  shows "w \<noteq> []" and "operator_start (hd w)" and "hd w \<in> {CHR ''-'', CHR ''/''} \<Longrightarrow> tl w = []"
    and "\<not> is_space (hd w)" and "map to_upper w = w"
proof -
  let ?P = "\<lambda>(t, w). w \<noteq> [] \<and> operator_start (hd w) \<and> (hd w \<in> {CHR ''-'', CHR ''/''} \<longrightarrow> tl w = []) \<and>
    \<not> is_space (hd w) \<and> map to_upper w = w"
  have "list_all ?P operator_tokens"
    by (simp add: operator_tokens_def two_char_operators_def one_char_operators_def operator_start_def
        is_alpha_def is_upper_def is_lower_def is_digit_def is_space_def to_upper_def)
  then have "?P (t, w)" using assms unfolding list_all_iff by blast
  then show "w \<noteq> []" "operator_start (hd w)" "hd w \<in> {CHR ''-'', CHR ''/''} \<Longrightarrow> tl w = []"
    "\<not> is_space (hd w)" "map to_upper w = w"
    by auto
qed

lemma printable_cases:
  assumes "printable (t, w)"
  obtains (word) "w \<noteq> []" "is_alpha (hd w) \<or> hd w = CHR ''_''" "list_all is_ident_char w" "map to_upper w = w" "t = word_type w"
    | (integer) "w \<noteq> []" "list_all is_digit w" "t = T_INTEGER"
    | (string) "t = T_STRING" "CHR 0x27 \<notin> set w" "CHR 0x5C \<notin> set w" "map to_upper w = w"
    | (operator) "(t, w) \<in> set operator_tokens"
  using assms unfolding printable.simps by blast

lemma nextToken_operator:
  assumes "dropWhile is_space (rest lx) = w @ CHR '' '' # r" and "(t, w) \<in> set operator_tokens"
  shows "token_view (fst (nextToken lx)) = (t, w) \<and> rest (snd (nextToken lx)) = CHR '' '' # r"
proof -
  obtain a v where w: "w = a # v" using operator_token_start(1) [OF assms(2)] by (cases w) auto
  obtain b cs where bc: "v @ CHR '' '' # r = b # cs" by (cases "v @ CHR '' '' # r") auto
  have "\<not> (a = CHR ''-'' \<and> b = CHR ''-'')" "\<not> (a = CHR ''/'' \<and> (b = CHR ''/'' \<or> b = CHR ''*''))"
    using operator_token_start(3) [OF assms(2)] w bc by auto
  with after_blanks_id [of lx a b cs] have r: "rest (after_blanks lx) = w @ CHR '' '' # r"
    using assms(1) w bc by simp
  moreover have "operator_start a" using operator_token_start(2) [OF assms(2)] w by simp
  ultimately have "nextToken lx = readOperator (after_blanks lx)"
    using w by (simp add: nextToken_unfold Let_def operator_start_def)
  then show ?thesis
    using readOperator_view [of "after_blanks lx" a "v @ CHR '' '' # r"] r w operator_view_printed [OF assms(2), of r]
    by simp
qed

lemma word_type_not_string: "word_type w \<noteq> T_STRING"
proof -
  have "\<forall>(k, t) \<in> set keyword_table. t \<noteq> T_STRING" by (simp add: keyword_table_def)
  then show ?thesis by (auto simp: word_type_def split: option.split dest!: map_of_SomeD)
qed

lemma operator_not_string: "(t, w) \<in> set operator_tokens \<Longrightarrow> t \<noteq> T_STRING"
  by (auto simp: operator_tokens_def two_char_operators_def one_char_operators_def)

lemma nextToken_printed:
  assumes "dropWhile is_space (rest lx) = print_token (t, w) @ CHR '' '' # r" and "printable (t, w)"
  shows "token_view (fst (nextToken lx)) = (t, w) \<and> rest (snd (nextToken lx)) = CHR '' '' # r"
  using assms(2)
proof (cases rule: printable_cases)
  case word
  then show ?thesis using assms(1) word_type_not_string nextToken_word [of lx w r] by simp
next
  case integer
  then show ?thesis using assms(1) nextToken_integer [of lx w r] by simp
next
  case string
  then show ?thesis using assms(1) nextToken_string [of lx w "CHR '' '' # r"] by simp
next
  case operator
  then show ?thesis using assms(1) operator_not_string [OF operator] nextToken_operator [of lx w r t] by simp
qed

lemma printed_start:
  assumes "printable (t, w)"
  shows "print_token (t, w) \<noteq> [] \<and> \<not> is_space (hd (print_token (t, w)))"
  using assms
proof (cases rule: printable_cases)
  case word
  then show ?thesis
    using word_type_not_string by (auto simp: is_alpha_def is_upper_def is_lower_def is_space_def)
next
  case integer
  then show ?thesis by (cases w) (auto simp: is_digit_def is_space_def)
next
  case string
  then show ?thesis by (simp add: is_space_def)
next
  case operator
  then show ?thesis using operator_not_string [OF operator] operator_token_start [OF operator] by simp
qed

lemma tokens_printed:
  assumes "rest lx = print_tokens ts \<or> rest lx = CHR '' '' # print_tokens ts" and "list_all printable ts"
  shows "map token_view (tokens lx) = ts"
  using assms
proof (induction ts arbitrary: lx)
  case Nil
  then have "dropWhile is_space (rest lx) = []" by (auto simp: print_tokens_def is_space_def)
  then have "rest (skipWhitespace lx) = []" by (simp add: rest_skipWhitespace)
  then have "rest (after_blanks lx) = []"
    using reads_shorter [OF reads_skipComment, of "skipWhitespace lx"] by (simp add: after_blanks_def)
  then show ?case by (simp add: tokens.simps [of lx] nextToken_unfold Let_def)
next
  case (Cons p ts)
  obtain t w where p: "p = (t, w)" by (cases p)
  have pp: "printable (t, w)" using Cons.prems(2) p by simp
  obtain a v where av: "print_token p = a # v" "\<not> is_space a"
    using printed_start [OF pp] p by (cases "print_token p") auto
  have "dropWhile is_space (rest lx) = print_token p @ CHR '' '' # print_tokens ts"
    using Cons.prems(1) av by (auto simp: print_tokens_def is_space_def)
  from nextToken_printed [OF this [unfolded p] pp] have n: "token_view (fst (nextToken lx)) = p"
    "rest (snd (nextToken lx)) = CHR '' '' # print_tokens ts" using p by simp_all
  then have "tok_type (fst (nextToken lx)) \<noteq> T_END_OF_FILE" using nextToken_cases [of lx] by auto
  then show ?case using Cons n by (simp add: tokens.simps [of lx] case_prod_beta Let_def)
qed

lemma to_upper_digit: "is_digit c \<Longrightarrow> to_upper c = c"
  by (simp add: to_upper_def is_digit_def is_lower_def)

lemma print_token_upper:
  assumes "printable (t, w)"
  shows "map to_upper (print_token (t, w)) = print_token (t, w)"
proof -
  have "map to_upper w = w"
    using assms
  proof (cases rule: printable_cases)
    case integer
    then show ?thesis using to_upper_digit by (intro map_idI) (auto simp: list_all_iff)
  next
    case operator
    then show ?thesis by (rule operator_token_start(5))
  qed
  moreover have "to_upper (CHR 0x27) = CHR 0x27" by (simp add: to_upper_def is_lower_def)
  ultimately show ?thesis by simp
qed

lemma print_tokens_upper: "list_all printable ts \<Longrightarrow> map to_upper (print_tokens ts) = print_tokens ts"
proof (induction ts)
  case (Cons p ts)
  have "to_upper (CHR '' '') = CHR '' ''" by (simp add: to_upper_def is_lower_def)
  with Cons print_token_upper [of "fst p" "snd p"] show ?case by (simp add: print_tokens_def del: map_map print_token.simps)
qed (simp add: print_tokens_def)

lemma tokens_printed_new:
  assumes "list_all printable ts"
  shows "map token_view (tokens (Lexer_new (print_tokens ts))) = ts"
proof -
  have "rest (Lexer_new (print_tokens ts)) = print_tokens ts"
    using print_tokens_upper [OF assms] by (simp add: rest_def Lexer_new_def)
  then show ?thesis using tokens_printed [of "Lexer_new (print_tokens ts)" ts] assms by blast
qed

section \<open>Properties\<close>

text \<open>
  Every call of \<^verbatim>\<open>nextToken\<close> makes progress: either it gives the end of the
  file and nothing of the input is left, or it consumes at least one character; what is left is
  always a suffix of what there was, and \<^verbatim>\<open>peekToken\<close> gives the same token without
  moving. A loop over the tokens therefore ends.
\<close>

lemma nextToken_progress:
  "((tok_type (fst (nextToken lx)) = T_END_OF_FILE \<and> rest (snd (nextToken lx)) = []) \<or>
    (tok_type (fst (nextToken lx)) \<noteq> T_END_OF_FILE \<and> length (rest (snd (nextToken lx))) < length (rest lx))) \<and>
   reads lx (snd (nextToken lx)) \<and> peekToken lx = (fst (nextToken lx), lx) \<and> length (tokens lx) \<le> length (rest lx)"
proof -
  have "length (tokens lx) \<le> length (rest lx)"
  proof (induction lx rule: tokens.induct)
    case (1 lx)
    show ?case
      using 1 [of "nextToken lx" "fst (nextToken lx)" "snd (nextToken lx)"] nextToken_cases [of lx]
      by (auto simp: tokens.simps [of lx] case_prod_beta Let_def)
  qed
  moreover have "peekToken lx = (fst (nextToken lx), lx)"
    using reads_nextToken [of lx] by (simp add: peekToken_def reads_def case_prod_beta Let_def)
  ultimately show ?thesis using nextToken_cases [of lx] reads_nextToken [of lx] by blast
qed

text \<open>
  C10: Printing and reading: words (key words get their own token type, every other word is an
  identifier), integers, string literals without quotes and escapes, and all operators, each
  printed with a space after it, are read back as they were, whatever their number and order.
  The words and the literals have to be in upper case already.
\<close>

theorem lexer_roundtrip:
  assumes "list_all printable ts"
  shows "map token_view (tokens (Lexer_new (print_tokens ts))) = ts"
  using tokens_printed_new [OF assms] .

definition example_tokens :: "(TokenType \<times> string) list" where
  "example_tokens = [(T_SELECT, ''SELECT''), (T_IDENTIFIER, ''A''), (T_LE, ''<=''), (T_INTEGER, ''42''), (T_COMMA, '',''), (T_STRING, ''X'')]"

theorem lexer_roundtrip_witness:
  "list_all printable example_tokens \<and> map token_view (tokens (Lexer_new (print_tokens example_tokens))) = example_tokens"
proof -
  have "list_all printable example_tokens" by code_simp
  then show ?thesis using lexer_roundtrip by blast
qed

lemma skipComment_line:
  assumes "rest lx = CHR ''-'' # CHR ''-'' # cs @ newline # r" and "newline \<notin> set cs"
  shows "rest (skipComment lx) = newline # r"
proof -
  have d: "drop (Suc (pos lx)) (input lx) = CHR ''-'' # cs @ newline # r" using rest_Cons(3) [OF assms(1)] .
  then have l: "Suc (pos lx) < length (input lx)" by (metis drop_eq_Nil list.distinct(1) not_le)
  then have "input lx ! Suc (pos lx) = CHR ''-''" using d by (metis hd_drop_conv_nth list.sel(1))
  then have "skipComment lx = snd (advance_while (\<lambda>c. c \<noteq> newline) lx)"
    using rest_Cons(2) [OF assms(1)] l by (simp add: skipComment_def)
  moreover have "dropWhile (\<lambda>c. c \<noteq> newline) (rest lx) = newline # r"
  proof -
    have "dropWhile (\<lambda>c. c \<noteq> newline) (cs @ newline # r) = newline # r"
      using assms(2) by (subst dropWhile_append2) auto
    then show ?thesis by (simp add: assms(1) newline_def)
  qed
  ultimately show ?thesis by simp
qed

text \<open>
  A line comment does not vanish: the comment is skipped up to the end of the line, the white
  space after it is not, and so the line break that ends the comment is handed out as an unknown
  token, whatever follows.
\<close>

lemma line_comment_unknown:
  assumes "dropWhile is_space (rest lx) = CHR ''-'' # CHR ''-'' # cs @ newline # r" and "newline \<notin> set cs"
  shows "token_view (fst (nextToken lx)) = (T_UNKNOWN, [newline]) \<and> rest (snd (nextToken lx)) = r"
proof -
  have r: "rest (after_blanks lx) = newline # r"
    using skipComment_line [of "skipWhitespace lx" cs r] assms by (simp add: after_blanks_def rest_skipWhitespace)
  have "operator_start newline"
    by (simp add: newline_def operator_start_def is_alpha_def is_upper_def is_lower_def is_digit_def)
  with r have "nextToken lx = readOperator (after_blanks lx)"
    by (simp add: nextToken_unfold Let_def operator_start_def)
  moreover have "operator_view (newline # r) = ((T_UNKNOWN, [newline]), r)"
    by (simp add: operator_view_def two_char_operators_def one_char_operators_def newline_def)
  ultimately show ?thesis using readOperator_view [OF r] by simp
qed

end
