(* ===== verification/Ast.thy ===== *)
theory Ast
  imports Types
begin

text \<open>
  \<^verbatim>\<open>parser/ast.h\<close>: the syntax tree. A \<^verbatim>\<open>unique_ptr\<close> that may be null
  is an option; \<^verbatim>\<open>line\<close> and \<^verbatim>\<open>column\<close> are left out, because no code
  sets them after the constructor has put them to zero. A \<^verbatim>\<open>WhereClause\<close> holds a
  condition and nothing else, so it is that condition.
\<close>

section \<open>Operators\<close>

datatype Operator =
    OP_PLUS | OP_MINUS | OP_MULTIPLY | OP_DIVIDE | OP_MODULO | OP_EQ | OP_NE | OP_LT | OP_LE |
    OP_GT | OP_GE | OP_LIKE | OP_NOT_LIKE | OP_IN | OP_NOT_IN | OP_IS_NULL | OP_IS_NOT_NULL |
    OP_BETWEEN | OP_NOT_BETWEEN | OP_AND | OP_OR | OP_NOT | OP_ASSIGN | OP_CONCAT

fun operatorToString :: "Operator \<Rightarrow> string" where
  "operatorToString OP_PLUS = ''+''"
| "operatorToString OP_MINUS = ''-''"
| "operatorToString OP_MULTIPLY = ''*''"
| "operatorToString OP_DIVIDE = ''/''"
| "operatorToString OP_MODULO = ''%''"
| "operatorToString OP_EQ = ''=''"
| "operatorToString OP_NE = ''!=''"
| "operatorToString OP_LT = ''<''"
| "operatorToString OP_LE = ''<=''"
| "operatorToString OP_GT = ''>''"
| "operatorToString OP_GE = ''>=''"
| "operatorToString OP_LIKE = ''LIKE''"
| "operatorToString OP_NOT_LIKE = ''NOT LIKE''"
| "operatorToString OP_IN = ''IN''"
| "operatorToString OP_NOT_IN = ''NOT IN''"
| "operatorToString OP_IS_NULL = ''IS NULL''"
| "operatorToString OP_IS_NOT_NULL = ''IS NOT NULL''"
| "operatorToString OP_BETWEEN = ''BETWEEN''"
| "operatorToString OP_NOT_BETWEEN = ''NOT BETWEEN''"
| "operatorToString OP_AND = ''AND''"
| "operatorToString OP_OR = ''OR''"
| "operatorToString OP_NOT = ''NOT''"
| "operatorToString OP_ASSIGN = '':=''"
| "operatorToString OP_CONCAT = ''||''"

datatype JoinType = J_INNER | J_LEFT | J_RIGHT | J_FULL | J_CROSS | J_NATURAL

datatype SetOperation = S_NONE | S_UNION | S_UNION_ALL | S_INTERSECT | S_EXCEPT

section \<open>Expressions and queries\<close>

record LimitNode =
  lim_limit :: int
  lim_offset :: int

text \<open>
  \<open>BareNode\<close> is a node of the base class with the tag \<^verbatim>\<open>LITERAL\<close>, which the
  parser makes for the list of an \<^verbatim>\<open>IN\<close>.
\<close>

datatype ASTNode =
    LiteralNode Value
  | ColumnRefNode string string
  | BinaryExprNode Operator ASTNode "ASTNode option"
  | UnaryExprNode Operator ASTNode
  | FunctionCallNode string "ASTNode list"
  | BareNode
  | SelectExpr SelectNode
and SelectNode =
    SelectNode (sel_distinct: bool) (select_list: "ASTNode list") (from_tables: "TableRef list")
      (sel_joins: "JoinClause list") (sel_where: "ASTNode option") (group_by: "ASTNode list option")
      (having: "ASTNode option") (order_by: "(ASTNode \<times> bool) list option") (sel_limit: "LimitNode option")
      (set_operation: SetOperation) (set_operand: "SelectNode option")
and TableRef = TableRef string string "SelectNode option"
and JoinClause = JoinClause JoinType string string "ASTNode option" "string list"

section \<open>Statements\<close>

record ColumnDef =
  cd_name :: string
  cd_type :: DataType
  cd_length :: int
  cd_nullable :: bool
  cd_primary_key :: bool
  cd_unique :: bool
  cd_check_expr :: string

definition ColumnDef_new :: ColumnDef where
  "ColumnDef_new = \<lparr>cd_name = [], cd_type = INTEGER, cd_length = 0, cd_nullable = True, cd_primary_key = False,
     cd_unique = False, cd_check_expr = []\<rparr>"

datatype ConstraintType = C_PRIMARY_KEY | C_FOREIGN_KEY | C_UNIQUE | C_CHECK

record Constraint =
  con_type :: ConstraintType
  con_columns :: "string list"
  con_ref_table :: string
  con_ref_columns :: "string list"
  con_check_expr :: string

datatype Statement =
    Select SelectNode
  | Insert string "string list" "ASTNode list list" "SelectNode option"
  | Update string "(string \<times> ASTNode) list" "ASTNode option"
  | Delete string "ASTNode option"
  | CreateTable string "ColumnDef list" "Constraint list"
  | CreateIndex string string "string list" bool
  | DropTable string bool
  | Begin string bool
  | Commit string bool
  | Rollback string bool

end
