(* ===== verification/SqlParser.thy ===== *)
theory SqlParser
  imports Lexer Ast
begin

text \<open>
  \<^verbatim>\<open>parser/sql_parser.cpp\<close>: the recursive-descent parser over the lexer. A parser
  function takes the state of the parser and returns what the code returns, with the next
  state; it may also throw, run into undefined behaviour, or loop. The functions that the
  grammar makes mutually recursive (\<^verbatim>\<open>parseExpression\<close> and \<^verbatim>\<open>parseSelect\<close>)
  and the loops carry fuel; the theory \<open>ParserFacts\<close> shows that more fuel than there are
  tokens is always enough.

  The code names the enumerators \<^verbatim>\<open>TokenType::IF\<close> and \<^verbatim>\<open>TokenType::TO\<close>
  and a method \<^verbatim>\<open>SQLParser::peekToken\<close> that are declared nowhere. The lexer has no key
  word for the two, so a test for either never holds and its branch is left out; the method is
  taken to be the lexer's.
\<close>

section \<open>Results and the parser state\<close>

record Parser =
  lexer :: Lexer
  current_token :: Token
  last_error :: string

datatype parse_message =
    Expected TokenType string | Unprocessed_tokens | Table_or_index | Table_after_drop |
    Unknown_statement | From_after_list | Values_or_select | Invalid_expression | Invalid_type

datatype parse_exception = Syntax_error string | Conversion_error conv_error

datatype 'a parse = Parsed 'a Parser | Throws parse_exception Parser | Undefined | Loops | Out_of_fuel

type_synonym 'a parser = "Parser \<Rightarrow> 'a parse"

definition ret :: "'a \<Rightarrow> 'a parser" where
  "ret a = (\<lambda>s. Parsed a s)"

definition bnd :: "'a parser \<Rightarrow> ('a \<Rightarrow> 'b parser) \<Rightarrow> 'b parser" where
  "bnd p f = (\<lambda>s. case p s of
     Parsed a s' \<Rightarrow> f a s' | Throws e s' \<Rightarrow> Throws e s' | Undefined \<Rightarrow> Undefined | Loops \<Rightarrow> Loops
   | Out_of_fuel \<Rightarrow> Out_of_fuel)"

definition before :: "'a parser \<Rightarrow> 'b parser \<Rightarrow> 'b parser" where
  "before p q = bnd p (\<lambda>_. q)"

text \<open>The position of an enumerator in its declaration.\<close>

definition token_types :: "TokenType list" where
  "token_types = [T_SELECT, T_INSERT, T_UPDATE, T_DELETE, T_CREATE, T_DROP, T_ALTER, T_TABLE, T_INDEX,
     T_VIEW, T_TRIGGER, T_FUNCTION, T_PROCEDURE, T_FROM, T_WHERE, T_JOIN, T_INNER, T_LEFT, T_RIGHT,
     T_OUTER, T_FULL, T_CROSS, T_ON, T_USING, T_AND, T_OR, T_NOT, T_NULL, T_IS, T_IN, T_BETWEEN, T_LIKE,
     T_ORDER, T_BY, T_GROUP, T_HAVING, T_LIMIT, T_OFFSET, T_UNION, T_INTERSECT, T_EXCEPT, T_ALL,
     T_DISTINCT, T_AS, T_ASC, T_DESC, T_INTO, T_VALUES, T_SET, T_PRIMARY, T_FOREIGN, T_KEY, T_REFERENCES,
     T_CONSTRAINT, T_DEFAULT, T_AUTO_INCREMENT, T_UNIQUE, T_CHECK, T_BEGIN, T_COMMIT, T_ROLLBACK,
     T_TRANSACTION, T_SAVEPOINT, T_CASE, T_WHEN, T_THEN, T_ELSE, T_END, T_EXISTS, T_ANY, T_SOME,
     T_IDENTIFIER, T_STRING, T_INTEGER, T_FLOAT, T_BOOLEAN, T_PLUS, T_MINUS, T_STAR, T_SLASH, T_PERCENT,
     T_EQ, T_NE, T_LT, T_LE, T_GT, T_GE, T_ASSIGN, T_CONCAT, T_LPAREN, T_RPAREN, T_COMMA, T_DOT,
     T_SEMICOLON, T_END_OF_FILE, T_UNKNOWN]"

definition token_code :: "TokenType \<Rightarrow> nat" where
  "token_code t = length (takeWhile (\<lambda>u. u \<noteq> t) token_types)"

text \<open>The texts are UTF-8.\<close>

fun message_text :: "parse_message \<Rightarrow> string" where
  "message_text (Expected t w) =
     ''Esperado '' @ dec_nat (token_code t) @ '', encontrado '' @ [CHR 0x27] @ w @ [CHR 0x27]"
| "message_text Unprocessed_tokens =
     ''Tokens n'' @ [CHR 0xC3, CHR 0xA3] @ ''o processados ap'' @ [CHR 0xC3, CHR 0xB3] @ ''s o fim da instru'' @
     [CHR 0xC3, CHR 0xA7, CHR 0xC3, CHR 0xA3] @ ''o''"
| "message_text Table_or_index = ''Esperado TABLE ou INDEX ap'' @ [CHR 0xC3, CHR 0xB3] @ ''s CREATE''"
| "message_text Table_after_drop = ''Esperado TABLE ap'' @ [CHR 0xC3, CHR 0xB3] @ ''s DROP''"
| "message_text Unknown_statement =
     ''Instru'' @ [CHR 0xC3, CHR 0xA7, CHR 0xC3, CHR 0xA3] @ ''o SQL n'' @ [CHR 0xC3, CHR 0xA3] @ ''o reconhecida''"
| "message_text From_after_list = ''Esperado FROM ap'' @ [CHR 0xC3, CHR 0xB3] @ ''s lista de SELECT''"
| "message_text Values_or_select = ''Esperado VALUES ou SELECT ap'' @ [CHR 0xC3, CHR 0xB3] @ ''s INSERT''"
| "message_text Invalid_expression = ''Express'' @ [CHR 0xC3, CHR 0xA3] @ ''o inv'' @ [CHR 0xC3, CHR 0xA1] @ ''lida''"
| "message_text Invalid_type = ''Tipo de dado inv'' @ [CHR 0xC3, CHR 0xA1] @ ''lido''"

definition parse_error :: "parse_message \<Rightarrow> 'a parser" where
  "parse_error m = (\<lambda>s.
     let text = ''Erro de sintaxe em '' @ getPosition (lexer s) @ '': '' @ message_text m
     in Throws (Syntax_error text) (s\<lparr>last_error := text\<rparr>))"

definition next_token :: "unit parser" where
  "next_token = (\<lambda>s. let (t, lx) = nextToken (lexer s) in Parsed () (s\<lparr>lexer := lx, current_token := t\<rparr>))"

definition current_type :: "Parser \<Rightarrow> TokenType" where
  "current_type s = tok_type (current_token s)"

definition current_text :: "string parser" where
  "current_text = (\<lambda>s. Parsed (tok_text (current_token s)) s)"

definition if_match :: "TokenType \<Rightarrow> 'a parser \<Rightarrow> 'a parser \<Rightarrow> 'a parser" where
  "if_match t p q = (\<lambda>s. if current_type s = t then p s else q s)"

definition if_matchAny :: "TokenType list \<Rightarrow> 'a parser \<Rightarrow> 'a parser \<Rightarrow> 'a parser" where
  "if_matchAny ts p q = (\<lambda>s. if current_type s \<in> set ts then p s else q s)"

definition peeked_type :: "Parser \<Rightarrow> TokenType" where
  "peeked_type s = tok_type (fst (peekToken (lexer s)))"

definition expect :: "TokenType \<Rightarrow> unit parser" where
  "expect t = (\<lambda>s. if current_type s = t then Parsed () s
     else parse_error (Expected t (tok_text (current_token s))) s)"

definition consume :: "TokenType \<Rightarrow> string parser" where
  "consume t = (\<lambda>s. before (expect t) (before next_token (ret (tok_text (current_token s)))) s)"

text \<open>\<^verbatim>\<open>expect(t); nextToken();\<close>\<close>

definition skip :: "TokenType \<Rightarrow> unit parser" where
  "skip t = before (expect t) next_token"

section \<open>Numbers\<close>

definition int_literal :: "(int \<Rightarrow> 'a) \<Rightarrow> 'a parser" where
  "int_literal f = (\<lambda>s. case stoi (tok_text (current_token s)) of
     Inl e \<Rightarrow> Throws (Conversion_error e) s | Inr i \<Rightarrow> Parsed (f i) s)"

fun bit_length :: "nat \<Rightarrow> nat" where
  "bit_length n = (if n = 0 then 0 else Suc (bit_length (n div 2)))"

declare bit_length.simps [simp del]

definition round_half_even :: "nat \<Rightarrow> nat \<Rightarrow> nat" where
  "round_half_even a b =
     (let q = a div b; r = a mod b in
      if 2 * r < b \<or> (2 * r = b \<and> even q) then q else q + 1)"

text \<open>
  \<^verbatim>\<open>static_cast<int64_t>(std::stod(text))\<close>: the decimal number is rounded to 53 bits,
  half to even; too large, or too small and inexact, is \<^verbatim>\<open>out_of_range\<close>; the cast drops
  the fraction, and is undefined from \<^verbatim>\<open>2^63\<close> on.
\<close>

definition decimal_fraction :: "string \<Rightarrow> nat \<times> nat" where
  "decimal_fraction w =
     (let ds = takeWhile is_digit w; r = dropWhile is_digit w;
          fs = (if r \<noteq> [] \<and> hd r = CHR ''.'' then takeWhile is_digit (tl r) else []);
          r = (if r \<noteq> [] \<and> hd r = CHR ''.'' then dropWhile is_digit (tl r) else r);
          (neg, es) = (if r \<noteq> [] then parse_sign (tl r) else (False, []));
          m = parse_nat (ds @ fs); e = parse_nat (takeWhile is_digit es);
          e10 = (if neg then - int e else int e) - int (length fs)
      in if e10 \<ge> 0 then (m * 10 ^ nat e10, 1) else (m, 10 ^ nat (- e10)))"

definition truncated_double :: "string \<Rightarrow> (conv_error + int) option" where
  "truncated_double w =
     (let (a, b) = decimal_fraction w in
      if a = 0 then Some (Inr 0)
      else
        let k = int (bit_length a) - int (bit_length b);
            e = (if k \<ge> 0 then (if b * 2 ^ nat k \<le> a then k else k - 1)
                 else (if b \<le> a * 2 ^ nat (- k) then k else k - 1));
            sh = max e (- 1022) - 52;
            num = (if sh \<ge> 0 then a else a * 2 ^ nat (- sh));
            den = (if sh \<ge> 0 then b * 2 ^ nat sh else b);
            m = round_half_even num den
        in if sh \<ge> 0 \<and> m * 2 ^ nat sh \<ge> 2 ^ 1024 then Some (Inl out_of_range)
           else if e < - 1022 \<and> \<not> den dvd num then Some (Inl out_of_range)
           else let i = (if sh \<ge> 0 then m * 2 ^ nat sh else m div 2 ^ nat (- sh))
                in if i < 2 ^ 63 then Some (Inr (int i)) else None)"

definition float_literal :: "int parser" where
  "float_literal = (\<lambda>s. case truncated_double (tok_text (current_token s)) of
     None \<Rightarrow> Undefined | Some (Inl e) \<Rightarrow> Throws (Conversion_error e) s | Some (Inr i) \<Rightarrow> Parsed i s)"

section \<open>Lists\<close>

text \<open>\<^verbatim>\<open>do \{ item; if (!match(COMMA)) break; nextToken(); \} while (true)\<close>\<close>

fun comma_loop :: "nat \<Rightarrow> 'a parser \<Rightarrow> 'a list parser" where
  "comma_loop 0 item = (\<lambda>s. Out_of_fuel)"
| "comma_loop (Suc n) item =
     bnd item (\<lambda>x. if_match T_COMMA
       (before next_token (bnd (comma_loop n item) (\<lambda>xs. ret (x # xs))))
       (ret [x]))"

definition parseIdentifierList :: "nat \<Rightarrow> string list parser" where
  "parseIdentifierList n = comma_loop n (consume T_IDENTIFIER)"

definition parseExpressionList :: "nat \<Rightarrow> ASTNode parser \<Rightarrow> ASTNode list parser" where
  "parseExpressionList n expr = comma_loop n expr"

definition parseValuesList :: "nat \<Rightarrow> ASTNode parser \<Rightarrow> ASTNode list list parser" where
  "parseValuesList n expr =
     comma_loop n (before (skip T_LPAREN)
       (bnd (parseExpressionList n expr) (\<lambda>row. before (skip T_RPAREN) (ret row))))"

definition parseSelectList :: "nat \<Rightarrow> ASTNode parser \<Rightarrow> ASTNode list parser" where
  "parseSelectList n expr =
     comma_loop n
       (if_match T_STAR (before next_token (ret (LiteralNode (Value_string ''*''))))
         (bnd expr (\<lambda>e.
            if_match T_AS (before next_token (before (consume T_IDENTIFIER) (ret e)))
              (if_match T_IDENTIFIER (before (consume T_IDENTIFIER) (ret e)) (ret e)))))"

section \<open>Expressions\<close>

text \<open>
  The expression levels take the two functions of the recursion, \<open>expr\<close> for
  \<^verbatim>\<open>parseExpression\<close> and \<open>sel\<close> for \<^verbatim>\<open>parseSelect\<close>. The loop over the
  tokens of a \<^verbatim>\<open>CASE\<close> reads on until it finds \<^verbatim>\<open>END\<close>; at the end of the file
  the current token does not change any more.
\<close>

function skip_case :: "unit parser" where
  "skip_case s =
     (if current_type s = T_END then Parsed () s
      else if current_type s = T_END_OF_FILE \<and> rest (lexer s) = [] then Loops
      else let (t, lx) = nextToken (lexer s) in skip_case (s\<lparr>lexer := lx, current_token := t\<rparr>))"
  by pat_completeness auto
termination
proof (relation "measure (\<lambda>s. 2 * length (rest (lexer s)) + of_bool (current_type s \<noteq> T_END_OF_FILE))")
  fix s :: Parser and p t lx
  assume a: "current_type s \<noteq> T_END" "\<not> (current_type s = T_END_OF_FILE \<and> rest (lexer s) = [])"
    "p = nextToken (lexer s)" "(t, lx) = p"
  then have n: "fst (nextToken (lexer s)) = t" "snd (nextToken (lexer s)) = lx" by (metis fst_conv, metis snd_conv)
  show "(s\<lparr>lexer := lx, current_token := t\<rparr>, s) \<in>
      measure (\<lambda>s. 2 * length (rest (lexer s)) + of_bool (current_type s \<noteq> T_END_OF_FILE))"
    using a(2) nextToken_cases [of "lexer s"] n by (auto simp: current_type_def)
qed simp

declare skip_case.simps [simp del]

definition parsePrimary :: "ASTNode parser \<Rightarrow> SelectNode parser \<Rightarrow> ASTNode parser" where
  "parsePrimary expr sel =
     if_match T_INTEGER
       (bnd (int_literal (\<lambda>i. LiteralNode (Value_int (word_of_int i)))) (\<lambda>e. before next_token (ret e)))
     (if_match T_FLOAT
       (bnd float_literal (\<lambda>i. before next_token (ret (LiteralNode (Value_bigint (word_of_int i))))))
     (if_match T_STRING (bnd current_text (\<lambda>w. before next_token (ret (LiteralNode (Value_string w)))))
     (if_match T_BOOLEAN
       (bnd current_text (\<lambda>w. before next_token (ret (LiteralNode (Value_bool (w = ''TRUE''))))))
     (if_match T_NULL (before next_token (ret (LiteralNode Value_null)))
     (if_match T_IDENTIFIER
       (bnd (consume T_IDENTIFIER) (\<lambda>first.
          if_match T_DOT
            (before next_token (bnd (consume T_IDENTIFIER) (\<lambda>second. ret (ColumnRefNode first second))))
            (ret (ColumnRefNode [] first))))
     (if_match T_LPAREN
       (before next_token
         (if_match T_SELECT
           (bnd sel (\<lambda>q. before (skip T_RPAREN) (ret (SelectExpr q))))
           (bnd expr (\<lambda>e. before (skip T_RPAREN) (ret e)))))
     (if_match T_CASE
       (before next_token (before skip_case (before (skip T_END) (parse_error Invalid_expression))))
     (parse_error Invalid_expression))))))))"

text \<open>
  The second test for an identifier in \<^verbatim>\<open>parsePrimary\<close>, for a function call, comes
  after the first has returned; it is never reached.
\<close>

definition unary_operators :: "(TokenType \<times> Operator) list" where
  "unary_operators = [(T_PLUS, OP_PLUS), (T_MINUS, OP_MINUS), (T_NOT, OP_NOT)]"

fun parseUnary :: "nat \<Rightarrow> ASTNode parser \<Rightarrow> SelectNode parser \<Rightarrow> ASTNode parser" where
  "parseUnary 0 expr sel = (\<lambda>s. Out_of_fuel)"
| "parseUnary (Suc n) expr sel = (\<lambda>s.
     case map_of unary_operators (current_type s) of
       Some op \<Rightarrow> before next_token (bnd (parseUnary n expr sel) (\<lambda>e. ret (UnaryExprNode op e))) s
     | None \<Rightarrow> parsePrimary expr sel s)"

text \<open>
  The loops of the binary levels: \<open>ops\<close> says for the current token whether the loop goes on,
  and what it does up to the right operand.
\<close>

fun binary_loop :: "nat \<Rightarrow> (TokenType \<Rightarrow> Operator parser option) \<Rightarrow> ASTNode parser \<Rightarrow> ASTNode \<Rightarrow> ASTNode parser" where
  "binary_loop 0 ops operand left = (\<lambda>s. Out_of_fuel)"
| "binary_loop (Suc n) ops operand left = (\<lambda>s.
     case ops (current_type s) of
       None \<Rightarrow> Parsed left s
     | Some p \<Rightarrow> bnd p (\<lambda>op. bnd operand (\<lambda>right.
         binary_loop n ops operand (BinaryExprNode op left (Some right)))) s)"

definition token_operators :: "(TokenType \<times> Operator) list \<Rightarrow> TokenType \<Rightarrow> Operator parser option" where
  "token_operators tab t = map_option (\<lambda>op. before next_token (ret op)) (map_of tab t)"

definition mul_operators :: "(TokenType \<times> Operator) list" where
  "mul_operators = [(T_STAR, OP_MULTIPLY), (T_SLASH, OP_DIVIDE), (T_PERCENT, OP_MODULO)]"

definition add_operators :: "(TokenType \<times> Operator) list" where
  "add_operators = [(T_PLUS, OP_PLUS), (T_MINUS, OP_MINUS), (T_CONCAT, OP_CONCAT)]"

definition rel_table :: "(TokenType \<times> Operator) list" where
  "rel_table = [(T_LT, OP_LT), (T_LE, OP_LE), (T_GT, OP_GT), (T_GE, OP_GE), (T_LIKE, OP_LIKE)]"

definition rel_operators :: "TokenType \<Rightarrow> Operator parser option" where
  "rel_operators t =
     (if t = T_NOT then Some (before next_token (before (expect T_LIKE) (before next_token (ret OP_NOT_LIKE))))
      else token_operators rel_table t)"

definition eq_operators :: "(TokenType \<times> Operator) list" where
  "eq_operators = [(T_EQ, OP_EQ), (T_NE, OP_NE)]"

definition parseMultiplicative :: "nat \<Rightarrow> ASTNode parser \<Rightarrow> SelectNode parser \<Rightarrow> ASTNode parser" where
  "parseMultiplicative n expr sel =
     bnd (parseUnary n expr sel) (binary_loop n (token_operators mul_operators) (parseUnary n expr sel))"

definition parseAdditive :: "nat \<Rightarrow> ASTNode parser \<Rightarrow> SelectNode parser \<Rightarrow> ASTNode parser" where
  "parseAdditive n expr sel =
     bnd (parseMultiplicative n expr sel)
       (binary_loop n (token_operators add_operators) (parseMultiplicative n expr sel))"

definition parseRelational :: "nat \<Rightarrow> ASTNode parser \<Rightarrow> SelectNode parser \<Rightarrow> ASTNode parser" where
  "parseRelational n expr sel =
     bnd (parseAdditive n expr sel) (binary_loop n rel_operators (parseAdditive n expr sel))"

definition parse_is_null :: "ASTNode \<Rightarrow> ASTNode parser" where
  "parse_is_null left =
     if_match T_IS
       (before next_token
         (bnd (if_match T_NOT (before next_token (ret OP_IS_NOT_NULL)) (ret OP_IS_NULL))
           (\<lambda>op. before (skip T_NULL) (ret (UnaryExprNode op left)))))
       (ret left)"

definition skip_not :: "bool parser" where
  "skip_not = if_match T_NOT (before next_token (ret True)) (ret False)"

definition parse_in :: "SelectNode parser \<Rightarrow> ASTNode \<Rightarrow> ASTNode parser" where
  "parse_in sel left = (\<lambda>s.
     if current_type s = T_IN \<or> (current_type s = T_NOT \<and> peeked_type s = T_IN)
     then bnd skip_not (\<lambda>not_in.
       before (skip T_IN) (before (skip T_LPAREN)
         (bnd (if_match T_SELECT (bnd sel (\<lambda>q. ret (SelectExpr q))) (ret BareNode)) (\<lambda>right.
           before (skip T_RPAREN)
             (ret (BinaryExprNode (if not_in then OP_NOT_IN else OP_IN) left (Some right))))))) s
     else ret left s)"

definition parse_between :: "ASTNode parser \<Rightarrow> ASTNode \<Rightarrow> ASTNode parser" where
  "parse_between expr left = (\<lambda>s.
     if current_type s = T_BETWEEN \<or> (current_type s = T_NOT \<and> peeked_type s = T_BETWEEN)
     then bnd skip_not (\<lambda>not_between.
       before (skip T_BETWEEN) (bnd expr (\<lambda>lower. before (skip T_AND) (bnd expr (\<lambda>upper.
         ret (BinaryExprNode (if not_between then OP_NOT_BETWEEN else OP_BETWEEN) left None)))))) s
     else ret left s)"

definition parseEquality :: "nat \<Rightarrow> ASTNode parser \<Rightarrow> SelectNode parser \<Rightarrow> ASTNode parser" where
  "parseEquality n expr sel =
     bnd (parseRelational n expr sel) (\<lambda>left.
       bnd (binary_loop n (token_operators eq_operators) (parseRelational n expr sel) left) (\<lambda>left.
         bnd (parse_is_null left) (\<lambda>left. bnd (parse_in sel left) (parse_between expr))))"

definition parseLogicalAnd :: "nat \<Rightarrow> ASTNode parser \<Rightarrow> SelectNode parser \<Rightarrow> ASTNode parser" where
  "parseLogicalAnd n expr sel =
     bnd (parseEquality n expr sel) (binary_loop n (token_operators [(T_AND, OP_AND)]) (parseEquality n expr sel))"

definition parseLogicalOr :: "nat \<Rightarrow> ASTNode parser \<Rightarrow> SelectNode parser \<Rightarrow> ASTNode parser" where
  "parseLogicalOr n expr sel =
     bnd (parseLogicalAnd n expr sel) (binary_loop n (token_operators [(T_OR, OP_OR)]) (parseLogicalAnd n expr sel))"

section \<open>The clauses of a query\<close>

definition parseWhere :: "ASTNode parser \<Rightarrow> ASTNode parser" where
  "parseWhere expr = before (consume T_WHERE) expr"

definition parseOrderBy :: "nat \<Rightarrow> ASTNode parser \<Rightarrow> (ASTNode \<times> bool) list parser" where
  "parseOrderBy n expr =
     before (consume T_ORDER) (before (skip T_BY)
       (comma_loop n (bnd expr (\<lambda>e.
          if_match T_ASC (before next_token (ret (e, True)))
            (if_match T_DESC (before next_token (ret (e, False))) (ret (e, True)))))))"

definition parseGroupBy :: "nat \<Rightarrow> ASTNode parser \<Rightarrow> ASTNode list parser" where
  "parseGroupBy n expr = before (consume T_GROUP) (before (skip T_BY) (comma_loop n expr))"

definition limit_number :: "int \<Rightarrow> int parser" where
  "limit_number d = (\<lambda>s.
     if_match T_INTEGER
       (before next_token (\<lambda>s1. case stoi (tok_text (current_token s)) of
          Inl e \<Rightarrow> Throws (Conversion_error e) s1 | Inr i \<Rightarrow> Parsed i s1))
       (ret d) s)"

definition parseLimit :: "LimitNode parser" where
  "parseLimit =
     before (consume T_LIMIT) (bnd (limit_number (- 1)) (\<lambda>l.
       if_match T_OFFSET
         (before next_token (bnd (limit_number 0) (\<lambda>k. ret \<lparr>lim_limit = l, lim_offset = k\<rparr>)))
         (if_match T_COMMA
           (before next_token (bnd (limit_number l) (\<lambda>c. ret \<lparr>lim_limit = c, lim_offset = l\<rparr>)))
           (ret \<lparr>lim_limit = l, lim_offset = 0\<rparr>))))"

definition optional_alias :: "string parser" where
  "optional_alias =
     if_match T_AS (before next_token (consume T_IDENTIFIER))
       (if_match T_IDENTIFIER (consume T_IDENTIFIER) (ret []))"

definition skip_outer :: "JoinType \<Rightarrow> JoinType parser" where
  "skip_outer t = before next_token (if_match T_OUTER (before next_token (ret t)) (ret t))"

definition parseJoin :: "nat \<Rightarrow> ASTNode parser \<Rightarrow> JoinClause parser" where
  "parseJoin n expr =
     bnd (if_match T_INNER (before next_token (ret J_INNER))
           (if_match T_LEFT (skip_outer J_LEFT)
             (if_match T_RIGHT (skip_outer J_RIGHT)
               (if_match T_FULL (skip_outer J_FULL)
                 (if_match T_CROSS (before next_token (ret J_CROSS)) (ret J_INNER)))))) (\<lambda>t.
       before (skip T_JOIN) (bnd (consume T_IDENTIFIER) (\<lambda>tab. bnd optional_alias (\<lambda>al.
         if_match T_ON (before next_token (bnd expr (\<lambda>c. ret (JoinClause t tab al (Some c) []))))
           (if_match T_USING
             (before next_token (before (skip T_LPAREN) (bnd (parseIdentifierList n) (\<lambda>cs.
               before (skip T_RPAREN) (ret (JoinClause t tab al None cs))))))
             (ret (JoinClause t tab al None [])))))))"

definition join_starts :: "TokenType list" where
  "join_starts = [T_JOIN, T_INNER, T_LEFT, T_RIGHT, T_FULL, T_CROSS]"

fun join_loop :: "nat \<Rightarrow> ASTNode parser \<Rightarrow> nat \<Rightarrow> JoinClause list parser" where
  "join_loop 0 expr m = (\<lambda>s. Out_of_fuel)"
| "join_loop (Suc n) expr m =
     if_matchAny join_starts
       (bnd (parseJoin m expr) (\<lambda>j. bnd (join_loop n expr m) (\<lambda>js. ret (j # js))))
       (ret [])"

definition parse_table_ref :: "SelectNode parser \<Rightarrow> TableRef parser" where
  "parse_table_ref sel =
     bnd (if_match T_LPAREN
           (before next_token (bnd sel (\<lambda>q. before (skip T_RPAREN) (ret ([], Some q)))))
           (bnd (consume T_IDENTIFIER) (\<lambda>tab. ret (tab, None)))) (\<lambda>(tab, q).
       bnd optional_alias (\<lambda>al. ret (TableRef tab al q)))"

definition optional :: "TokenType \<Rightarrow> 'a parser \<Rightarrow> 'a option parser" where
  "optional t p = if_match t (bnd p (\<lambda>x. ret (Some x))) (ret None)"

definition parse_set_operation :: "SelectNode parser \<Rightarrow> (SetOperation \<times> SelectNode option) parser" where
  "parse_set_operation sel = (\<lambda>s.
     if_matchAny [T_UNION, T_INTERSECT, T_EXCEPT]
       (let o1 = (if current_type s = T_UNION then S_UNION else if current_type s = T_INTERSECT then S_INTERSECT
                  else S_EXCEPT)
        in before next_token
             (bnd (if_match T_ALL
                    (before next_token (ret (if o1 = S_UNION then S_UNION_ALL else o1))) (ret o1)) (\<lambda>o2.
               bnd sel (\<lambda>q. ret (o2, Some q)))))
       (ret (S_NONE, None)) s)"

definition select_body :: "nat \<Rightarrow> ASTNode parser \<Rightarrow> SelectNode parser \<Rightarrow> SelectNode parser" where
  "select_body n expr sel =
     before (consume T_SELECT)
     (bnd (if_match T_DISTINCT (before next_token (ret True))
            (if_match T_ALL (before next_token (ret False)) (ret False))) (\<lambda>d.
      bnd (parseSelectList n expr) (\<lambda>xs.
      before (if_match T_FROM (ret ()) (parse_error From_after_list)) (before next_token
      (bnd (comma_loop n (parse_table_ref sel)) (\<lambda>ts.
      bnd (join_loop n expr n) (\<lambda>js.
      bnd (optional T_WHERE (parseWhere expr)) (\<lambda>w.
      bnd (optional T_GROUP (parseGroupBy n expr)) (\<lambda>g.
      bnd (optional T_HAVING (before next_token expr)) (\<lambda>h.
      bnd (optional T_ORDER (parseOrderBy n expr)) (\<lambda>ob.
      bnd (optional T_LIMIT parseLimit) (\<lambda>l.
      bnd (parse_set_operation sel) (\<lambda>(so, q).
        ret (SelectNode d xs ts js w g h ob l so q))))))))))))))"

fun parseExpression :: "nat \<Rightarrow> ASTNode parser"
  and parseSelect :: "nat \<Rightarrow> SelectNode parser" where
  "parseExpression 0 s = Out_of_fuel"
| "parseExpression (Suc n) s = parseLogicalOr (Suc n) (parseExpression n) (parseSelect n) s"
| "parseSelect 0 s = Out_of_fuel"
| "parseSelect (Suc n) s = select_body (Suc n) (parseExpression n) (parseSelect n) s"

section \<open>Statements\<close>

definition parseInsert :: "nat \<Rightarrow> Statement parser" where
  "parseInsert n =
     before (consume T_INSERT) (before (skip T_INTO) (bnd (consume T_IDENTIFIER) (\<lambda>tab.
       bnd (if_match T_LPAREN
             (before next_token (bnd (parseIdentifierList n) (\<lambda>cs. before (skip T_RPAREN) (ret cs))))
             (ret [])) (\<lambda>cs.
         if_match T_VALUES
           (before next_token (bnd (parseValuesList n (parseExpression n)) (\<lambda>vs. ret (Insert tab cs vs None))))
           (if_match T_SELECT (bnd (parseSelect n) (\<lambda>q. ret (Insert tab cs [] (Some q))))
             (parse_error Values_or_select))))))"

definition parseUpdate :: "nat \<Rightarrow> Statement parser" where
  "parseUpdate n =
     before (consume T_UPDATE) (bnd (consume T_IDENTIFIER) (\<lambda>tab.
       before (skip T_SET)
         (bnd (comma_loop n (bnd (consume T_IDENTIFIER) (\<lambda>col.
                before (skip T_ASSIGN) (bnd (parseExpression n) (\<lambda>e. ret (col, e)))))) (\<lambda>as.
           bnd (optional T_WHERE (parseWhere (parseExpression n))) (\<lambda>w. ret (Update tab as w))))))"

definition parseDelete :: "nat \<Rightarrow> Statement parser" where
  "parseDelete n =
     before (consume T_DELETE) (before (skip T_FROM) (bnd (consume T_IDENTIFIER) (\<lambda>tab.
       bnd (optional T_WHERE (parseWhere (parseExpression n))) (\<lambda>w. ret (Delete tab w)))))"

definition type_names :: "(string \<times> DataType) list" where
  "type_names = [(''INT'', INTEGER), (''INTEGER'', INTEGER), (''BIGINT'', BIGINT), (''VARCHAR'', VARCHAR),
     (''STRING'', VARCHAR), (''BOOLEAN'', BOOLEAN), (''BOOL'', BOOLEAN), (''DATE'', DATE),
     (''DECIMAL'', DECIMAL), (''NUMERIC'', DECIMAL)]"

definition parseDataType :: "DataType parser" where
  "parseDataType =
     if_match T_IDENTIFIER
       (\<lambda>s. before next_token
          (case map_of type_names (tok_text (current_token s)) of
             None \<Rightarrow> parse_error Invalid_type
           | Some t \<Rightarrow>
               if t = VARCHAR
               then if_match T_LPAREN
                 (before next_token (before (if_match T_INTEGER next_token (ret ()))
                    (before (skip T_RPAREN) (ret VARCHAR))))
                 (ret VARCHAR)
               else ret t) s)
       (parse_error Invalid_type)"

fun column_options :: "nat \<Rightarrow> ColumnDef \<Rightarrow> ColumnDef parser" where
  "column_options 0 c = (\<lambda>s. Out_of_fuel)"
| "column_options (Suc n) c = (\<lambda>s.
     if current_type s = T_NOT \<and> peeked_type s = T_NULL
     then before next_token (before next_token (column_options n (c\<lparr>cd_nullable := False\<rparr>))) s
     else if_match T_NULL (before next_token (column_options n (c\<lparr>cd_nullable := True\<rparr>)))
       (if_match T_PRIMARY
         (before next_token (before (skip T_KEY) (column_options n (c\<lparr>cd_primary_key := True\<rparr>))))
         (if_match T_UNIQUE (before next_token (column_options n (c\<lparr>cd_unique := True\<rparr>)))
           (if_match T_DEFAULT (before next_token (before next_token (column_options n c)))
             (ret c)))) s)"

definition parenthesised_list :: "nat \<Rightarrow> string list parser" where
  "parenthesised_list n = before (skip T_LPAREN) (bnd (parseIdentifierList n) (\<lambda>cs. before (skip T_RPAREN) (ret cs)))"

definition parse_constraint :: "nat \<Rightarrow> Constraint parser" where
  "parse_constraint n =
     before (if_match T_CONSTRAINT next_token (ret ()))
       (if_match T_PRIMARY
         (before next_token (before (skip T_KEY) (bnd (parenthesised_list n) (\<lambda>cs.
            ret \<lparr>con_type = C_PRIMARY_KEY, con_columns = cs, con_ref_table = [], con_ref_columns = [],
              con_check_expr = []\<rparr>))))
         (if_match T_FOREIGN
           (before next_token (before (skip T_KEY) (bnd (parenthesised_list n) (\<lambda>cs.
              before (skip T_REFERENCES) (bnd (consume T_IDENTIFIER) (\<lambda>rt. bnd (parenthesised_list n) (\<lambda>rs.
                ret \<lparr>con_type = C_FOREIGN_KEY, con_columns = cs, con_ref_table = rt, con_ref_columns = rs,
                  con_check_expr = []\<rparr>)))))))
           (if_match T_UNIQUE
             (before next_token (bnd (parenthesised_list n) (\<lambda>cs.
                ret \<lparr>con_type = C_UNIQUE, con_columns = cs, con_ref_table = [], con_ref_columns = [],
                  con_check_expr = []\<rparr>)))
             (before next_token (before (skip T_LPAREN) (before (skip T_RPAREN)
                (ret \<lparr>con_type = C_CHECK, con_columns = [], con_ref_table = [], con_ref_columns = [],
                  con_check_expr = ''TODO''\<rparr>)))))))"

definition parse_column :: "nat \<Rightarrow> ColumnDef parser" where
  "parse_column n =
     bnd (consume T_IDENTIFIER) (\<lambda>name. bnd parseDataType (\<lambda>t.
       column_options n (ColumnDef_new\<lparr>cd_name := name, cd_type := t\<rparr>)))"

definition parse_table_item :: "nat \<Rightarrow> (ColumnDef + Constraint) parser" where
  "parse_table_item n =
     if_matchAny [T_PRIMARY, T_FOREIGN, T_UNIQUE, T_CHECK]
       (bnd (parse_constraint n) (\<lambda>c. ret (Inr c)))
       (bnd (parse_column n) (\<lambda>c. ret (Inl c)))"

definition lefts :: "('a + 'b) list \<Rightarrow> 'a list" where
  "lefts xs = concat (map (case_sum (\<lambda>a. [a]) (\<lambda>_. [])) xs)"

definition rights :: "('a + 'b) list \<Rightarrow> 'b list" where
  "rights xs = concat (map (case_sum (\<lambda>_. []) (\<lambda>b. [b])) xs)"

definition parseCreateTable :: "nat \<Rightarrow> Statement parser" where
  "parseCreateTable n =
     before (consume T_TABLE) (bnd (consume T_IDENTIFIER) (\<lambda>tab.
       before (skip T_LPAREN) (bnd (comma_loop n (parse_table_item n)) (\<lambda>items.
         before (skip T_RPAREN) (ret (CreateTable tab (lefts items) (rights items)))))))"

definition parseCreateIndex :: "nat \<Rightarrow> Statement parser" where
  "parseCreateIndex n =
     before (consume T_INDEX) (bnd (if_match T_UNIQUE (before next_token (ret True)) (ret False)) (\<lambda>u.
       bnd (consume T_IDENTIFIER) (\<lambda>name. before (skip T_ON) (bnd (consume T_IDENTIFIER) (\<lambda>tab.
         bnd (parenthesised_list n) (\<lambda>cs. ret (CreateIndex name tab cs u)))))))"

definition parseDropTable :: "Statement parser" where
  "parseDropTable = before (consume T_TABLE) (bnd (consume T_IDENTIFIER) (\<lambda>tab. ret (DropTable tab False)))"

definition transaction_name :: "(string \<Rightarrow> bool \<Rightarrow> Statement) \<Rightarrow> Statement parser" where
  "transaction_name mk =
     before (if_match T_TRANSACTION next_token (ret ()))
       (if_match T_IDENTIFIER (bnd (consume T_IDENTIFIER) (\<lambda>name. ret (mk name True))) (ret (mk [] False)))"

definition parseBegin :: "Statement parser" where
  "parseBegin = before (consume T_BEGIN) (transaction_name Begin)"

definition parseCommit :: "Statement parser" where
  "parseCommit = before (consume T_COMMIT) (transaction_name Commit)"

definition parseRollback :: "Statement parser" where
  "parseRollback = before (consume T_ROLLBACK) (transaction_name Rollback)"

definition parseStatement :: "nat \<Rightarrow> Statement parser" where
  "parseStatement n =
     if_match T_SELECT (bnd (parseSelect n) (\<lambda>q. ret (Select q)))
     (if_match T_INSERT (parseInsert n)
     (if_match T_UPDATE (parseUpdate n)
     (if_match T_DELETE (parseDelete n)
     (if_match T_CREATE
       (before next_token (if_match T_TABLE (parseCreateTable n)
         (if_match T_INDEX (parseCreateIndex n) (parse_error Table_or_index))))
     (if_match T_DROP
       (before next_token (if_match T_TABLE parseDropTable (parse_error Table_after_drop)))
     (if_match T_BEGIN parseBegin
     (if_match T_COMMIT parseCommit
     (if_match T_ROLLBACK parseRollback
       (parse_error Unknown_statement)))))))))"

definition Parser_new :: Parser where
  "Parser_new = \<lparr>lexer = Lexer_new [], current_token = mk_token T_UNKNOWN [] 0 0, last_error = []\<rparr>"

definition parse :: "nat \<Rightarrow> string \<Rightarrow> Statement parser" where
  "parse n query = (\<lambda>s.
     before next_token (bnd (parseStatement n) (\<lambda>st.
       if_match T_END_OF_FILE (ret st) (parse_error Unprocessed_tokens))) (s\<lparr>lexer := Lexer_new query\<rparr>))"

end
