(* ===== verification/ParserFacts.thy ===== *)
theory ParserFacts
  imports SqlParser
begin

text \<open>
  Facts on the parser: every parser function uses up tokens, so fuel above the number of tokens
  is enough (the locale \<open>sub_parsers\<close> is the contract that the two recursive functions give
  to the levels of the grammar); what the grammar accepts and rejects.
\<close>

section \<open>The tokens that are left\<close>

definition remaining :: "Parser \<Rightarrow> Token list" where
  "remaining s = (if current_type s = T_END_OF_FILE then [] else current_token s # tokens (lexer s))"

definition wf_parser :: "Parser \<Rightarrow> bool" where
  "wf_parser s \<longleftrightarrow> (current_type s = T_END_OF_FILE \<longrightarrow> rest (lexer s) = [])"

lemma tokens_unfold:
  "tokens lx = (if tok_type (fst (nextToken lx)) = T_END_OF_FILE then []
     else fst (nextToken lx) # tokens (snd (nextToken lx)))"
  by (simp add: tokens.simps [of lx] case_prod_beta Let_def)

lemma tokens_rest_Nil: "rest lx = [] \<Longrightarrow> tokens lx = []"
  using nextToken_cases [of lx] by (auto simp: tokens_unfold [of lx])

definition after_next :: "Parser \<Rightarrow> Parser" where
  "after_next s = s\<lparr>lexer := snd (nextToken (lexer s)), current_token := fst (nextToken (lexer s))\<rparr>"

lemma next_token_eq: "next_token s = Parsed () (after_next s)"
  by (simp add: next_token_def after_next_def case_prod_beta Let_def)

lemma remaining_after_next_tokens: "remaining (after_next s) = tokens (lexer s)"
  by (simp add: remaining_def after_next_def current_type_def tokens_unfold [of "lexer s"])

lemma wf_after_next [simp]: "wf_parser (after_next s)"
  using nextToken_cases [of "lexer s"] by (auto simp: wf_parser_def after_next_def current_type_def)

lemma remaining_after_next: "wf_parser s \<Longrightarrow> remaining (after_next s) = tl (remaining s)"
  using tokens_rest_Nil [of "lexer s"]
  unfolding remaining_after_next_tokens remaining_def [of s] wf_parser_def by simp

lemma remaining_Nil: "remaining s = [] \<longleftrightarrow> current_type s = T_END_OF_FILE"
  by (simp add: remaining_def)

lemma hd_remaining: "current_type s \<noteq> T_END_OF_FILE \<Longrightarrow> hd (remaining s) = current_token s"
  by (simp add: remaining_def)

section \<open>Using up tokens\<close>

text \<open>
  \<open>plain\<close>: none of the tokens left is a \<^verbatim>\<open>CASE\<close>, which may loop, or a float
  literal, whose conversion may be undefined. With the flag \<open>c\<close> the predicates below are about
  such inputs only and exclude both results.
\<close>

definition plain :: "Parser \<Rightarrow> bool" where
  "plain s \<longleftrightarrow> (\<forall>t \<in> set (remaining s). tok_type t \<noteq> T_CASE \<and> tok_type t \<noteq> T_FLOAT)"

definition ready :: "bool \<Rightarrow> nat \<Rightarrow> Parser \<Rightarrow> bool" where
  "ready c k s \<longleftrightarrow> wf_parser s \<and> (c \<longrightarrow> plain s) \<and> length (remaining s) < k"

fun gives :: "bool \<Rightarrow> nat \<Rightarrow> 'a parse \<Rightarrow> bool" where
  "gives c k (Parsed a s) \<longleftrightarrow> ready c k s"
| "gives c k (Throws e s) \<longleftrightarrow> True"
| "gives c k Undefined \<longleftrightarrow> \<not> c"
| "gives c k Loops \<longleftrightarrow> \<not> c"
| "gives c k Out_of_fuel \<longleftrightarrow> False"

definition keeps :: "bool \<Rightarrow> nat \<Rightarrow> 'a parser \<Rightarrow> bool" where
  "keeps c k p \<longleftrightarrow> (\<forall>s. ready c k s \<longrightarrow> gives c (Suc (length (remaining s))) (p s))"

definition eats :: "bool \<Rightarrow> nat \<Rightarrow> 'a parser \<Rightarrow> bool" where
  "eats c k p \<longleftrightarrow> (\<forall>s. ready c k s \<longrightarrow> gives c (length (remaining s)) (p s))"

named_theorems eating

lemma gives_mono: "gives c j r \<Longrightarrow> j \<le> k \<Longrightarrow> gives c k r"
  by (cases r) (auto simp: ready_def)

lemma ready_mono: "ready c j s \<Longrightarrow> j \<le> k \<Longrightarrow> ready c k s"
  by (simp add: ready_def)

lemma eats_keeps: "eats c k p \<Longrightarrow> keeps c k p"
  unfolding eats_def keeps_def using gives_mono by fastforce

lemma keeps_less: "keeps c k p \<Longrightarrow> j \<le> k \<Longrightarrow> keeps c j p"
  unfolding keeps_def using ready_mono by blast

lemma eats_less: "eats c k p \<Longrightarrow> j \<le> k \<Longrightarrow> eats c j p"
  unfolding eats_def using ready_mono by blast

lemma gives_bnd:
  assumes "gives c j (p s)" and "\<And>a s'. ready c j s' \<Longrightarrow> gives c k (f a s')"
  shows "gives c k (bnd p f s)"
  using assms by (cases "p s") (auto simp: bnd_def)

lemma keeps_ret: "keeps c k (ret a)"
  by (auto simp: keeps_def ret_def ready_def)

lemma gives_next_token: "ready c k s \<Longrightarrow> gives c (max 1 (length (remaining s))) (next_token s)"
  by (cases "remaining s") (auto simp: next_token_eq ready_def plain_def remaining_after_next)

lemma keeps_next_token: "keeps c k next_token"
  unfolding keeps_def using gives_mono [OF gives_next_token] by fastforce

lemma keeps_parse_error: "keeps c k (parse_error m)"
  by (simp add: keeps_def parse_error_def Let_def)

lemma eats_parse_error: "eats c k (parse_error m)"
  by (simp add: eats_def parse_error_def Let_def)

lemma keeps_expect: "keeps c k (expect t)"
  by (auto simp: keeps_def expect_def ready_def parse_error_def Let_def)

lemma keeps_bnd:
  assumes "keeps c k p" and "\<And>a. keeps c k (f a)"
  shows "keeps c k (bnd p f)"
  unfolding keeps_def
proof (intro allI impI)
  fix s assume s: "ready c k s"
  show "gives c (Suc (length (remaining s))) (bnd p f s)"
  proof (rule gives_bnd)
    show "gives c (Suc (length (remaining s))) (p s)" using assms(1) s by (simp add: keeps_def)
    fix a s' assume s': "ready c (Suc (length (remaining s))) s'"
    then have "ready c k s'" using s by (auto simp: ready_def)
    then show "gives c (Suc (length (remaining s))) (f a s')"
      using assms(2) [of a] s' gives_mono unfolding keeps_def ready_def by fastforce
  qed
qed

text \<open>After a parser that uses up a token the rest needs one unit of fuel less.\<close>

lemma eats_bnd:
  assumes "eats c (Suc k) p" and "\<And>a. keeps c k (f a)"
  shows "eats c (Suc k) (bnd p f)"
  unfolding eats_def
proof (intro allI impI)
  fix s assume s: "ready c (Suc k) s"
  show "gives c (length (remaining s)) (bnd p f s)"
  proof (rule gives_bnd)
    show "gives c (length (remaining s)) (p s)" using assms(1) s by (simp add: eats_def)
    fix a s' assume s': "ready c (length (remaining s)) s'"
    then have "ready c k s'" using s by (auto simp: ready_def)
    then show "gives c (length (remaining s)) (f a s')"
      using assms(2) [of a] s' gives_mono unfolding keeps_def ready_def by fastforce
  qed
qed

lemma keeps_bnd_eats:
  assumes "eats c (Suc k) p" and "\<And>a. keeps c k (f a)"
  shows "keeps c (Suc k) (bnd p f)"
  using eats_keeps [OF eats_bnd [OF assms]] .

lemma eats_bnd_right:
  assumes "keeps c k p" and "\<And>a. eats c k (f a)"
  shows "eats c k (bnd p f)"
  unfolding eats_def
proof (intro allI impI)
  fix s assume s: "ready c k s"
  show "gives c (length (remaining s)) (bnd p f s)"
  proof (rule gives_bnd)
    show "gives c (Suc (length (remaining s))) (p s)" using assms(1) s by (simp add: keeps_def)
    fix a s' assume s': "ready c (Suc (length (remaining s))) s'"
    then have "ready c k s'" using s by (auto simp: ready_def)
    then show "gives c (length (remaining s)) (f a s')"
      using assms(2) [of a] s' gives_mono unfolding eats_def ready_def by fastforce
  qed
qed

lemmas keeps_before = keeps_bnd [of c k p "\<lambda>_. q" for c k p q, folded before_def]
lemmas eats_before = eats_bnd [of c k p "\<lambda>_. q" for c k p q, folded before_def]
lemmas keeps_before_eats = keeps_bnd_eats [of c k p "\<lambda>_. q" for c k p q, folded before_def]
lemmas eats_before_right = eats_bnd_right [of c k p "\<lambda>_. q" for c k p q, folded before_def]

lemma keeps_if_match: "keeps c k p \<Longrightarrow> keeps c k q \<Longrightarrow> keeps c k (if_match t p q)"
  by (simp add: keeps_def if_match_def)

lemma keeps_if_matchAny: "keeps c k p \<Longrightarrow> keeps c k q \<Longrightarrow> keeps c k (if_matchAny ts p q)"
  by (simp add: keeps_def if_matchAny_def)

lemma eats_if_match: "eats c k p \<Longrightarrow> eats c k q \<Longrightarrow> eats c k (if_match t p q)"
  by (simp add: eats_def if_match_def)

lemma gives_before_next:
  assumes "ready c (Suc k) s" and "current_type s \<noteq> T_END_OF_FILE" and "keeps c k p"
  shows "gives c (length (remaining s)) (before next_token p s)"
  unfolding before_def
proof (rule gives_bnd)
  have l: "0 < length (remaining s)" using assms(2) by (simp add: remaining_def)
  then have "max 1 (length (remaining s)) = length (remaining s)" by (simp add: max_def Suc_le_eq)
  then show "gives c (length (remaining s)) (next_token s)" using gives_next_token [OF assms(1)] by simp
  fix a s' assume s': "ready c (length (remaining s)) s'"
  then have "ready c k s'" using assms(1) by (auto simp: ready_def)
  then show "gives c (length (remaining s)) (p s')"
    using assms(3) s' gives_mono unfolding keeps_def ready_def by fastforce
qed

lemma eats_match_next:
  "t \<noteq> T_END_OF_FILE \<Longrightarrow> keeps c k p \<Longrightarrow> eats c (Suc k) q \<Longrightarrow> eats c (Suc k) (if_match t (before next_token p) q)"
  using gives_before_next by (auto simp: eats_def if_match_def)

lemma keeps_match_next:
  "t \<noteq> T_END_OF_FILE \<Longrightarrow> keeps c k p \<Longrightarrow> keeps c (Suc k) q \<Longrightarrow> keeps c (Suc k) (if_match t (before next_token p) q)"
  unfolding keeps_def [of c "Suc k"] if_match_def using gives_mono [OF gives_before_next le_SucI [OF order_refl]] by auto

lemma eats_skip: "t \<noteq> T_END_OF_FILE \<Longrightarrow> eats c (Suc k) (skip t)"
proof -
  have "skip t = if_match t (before next_token (ret ())) (\<lambda>s. parse_error (Expected t (tok_text (current_token s))) s)"
    by (auto simp: skip_def before_def bnd_def expect_def if_match_def ret_def parse_error_def next_token_eq Let_def)
  moreover have "eats c (Suc k) (\<lambda>s. parse_error (Expected t (tok_text (current_token s))) s :: unit parse)"
    by (simp add: eats_def parse_error_def Let_def)
  ultimately show "t \<noteq> T_END_OF_FILE \<Longrightarrow> ?thesis" by (simp add: eats_match_next keeps_ret)
qed

lemma consume_eq: "consume t s = before (skip t) (ret (tok_text (current_token s))) s"
  by (simp add: consume_def skip_def before_def bnd_def split: parse.split)

lemma ready_0 [simp]: "\<not> ready c 0 s"
  by (simp add: ready_def)

lemma eats_0: "eats c 0 p"
  by (simp add: eats_def)

lemma eats_skip_any: "t \<noteq> T_END_OF_FILE \<Longrightarrow> eats c k (skip t)"
  using eats_skip eats_0 by (cases k) auto

lemma eats_bnd_left:
  assumes "eats c k p" and "\<And>a. keeps c k (f a)"
  shows "eats c k (bnd p f)"
proof (cases k)
  case (Suc j)
  have "keeps c j (f a)" for a using keeps_less [OF assms(2), of j a] Suc by simp
  from eats_bnd [of c j p f, OF _ this] show ?thesis using assms(1) Suc by simp
qed (simp add: eats_0)

lemmas eats_before_left = eats_bnd_left [of c k p "\<lambda>_. q" for c k p q, folded before_def]

lemma eats_consume: "t \<noteq> T_END_OF_FILE \<Longrightarrow> eats c k (consume t)"
proof -
  assume "t \<noteq> T_END_OF_FILE"
  then have e: "eats c k (before (skip t) (ret a))" for a :: string
    by (rule eats_before_left [OF eats_skip_any keeps_ret])
  show ?thesis
    unfolding eats_def consume_eq
  proof (intro allI impI)
    fix s assume "ready c k s"
    then show "gives c (length (remaining s)) (before (skip t) (ret (tok_text (current_token s))) s)"
      using e [of "tok_text (current_token s)"] by (simp add: eats_def)
  qed
qed

lemma eats_match_next_any:
  "t \<noteq> T_END_OF_FILE \<Longrightarrow> keeps c k p \<Longrightarrow> eats c k q \<Longrightarrow> eats c k (if_match t (before next_token p) q)"
proof (cases k)
  case (Suc j)
  then show "t \<noteq> T_END_OF_FILE \<Longrightarrow> keeps c k p \<Longrightarrow> eats c k q \<Longrightarrow> ?thesis"
    using eats_match_next [of t c j p q] keeps_less [of c k p j] by simp
qed (simp add: eats_0)

lemmas keeps_rules = keeps_ret keeps_next_token keeps_parse_error keeps_expect keeps_if_match keeps_if_matchAny
  keeps_bnd keeps_before eats_keeps [OF eats_consume] eats_keeps [OF eats_skip_any]

section \<open>Loops\<close>

lemma eats_comma_loop:
  assumes "eats c k item" and "k \<le> n"
  shows "eats c k (comma_loop n item)"
  using assms
proof (induction n arbitrary: k)
  case 0
  then show ?case by (simp add: eats_0)
next
  case (Suc n)
  show ?case
  proof (cases k)
    case (Suc j)
    have "keeps c j (if_match T_COMMA (before next_token (bnd (comma_loop n item) (\<lambda>xs. ret (x # xs)))) (ret [x]))" for x
      using Suc.IH [of j] Suc.prems Suc eats_less [of c k item j]
      by (intro keeps_rules eats_keeps [of c j "comma_loop n item"]) auto
    from eats_bnd [OF _ this] show ?thesis using Suc.prems Suc by simp
  qed (simp add: eats_0)
qed

lemma keeps_comma_loop: "keeps c k item \<Longrightarrow> k \<le> n \<Longrightarrow> keeps c k (comma_loop n item)"
proof (induction n arbitrary: k)
  case 0
  then show ?case by (simp add: keeps_def)
next
  case (Suc n)
  show ?case
  proof (cases k)
    case 0
    then show ?thesis by (simp add: keeps_def)
  next
    case (Suc j)
    have "keeps c j (comma_loop n item)" using Suc.IH [of j] Suc.prems Suc keeps_less [of c k item j] by simp
    then have "keeps c k (if_match T_COMMA (before next_token (bnd (comma_loop n item) (\<lambda>xs. ret (x # xs)))) (ret [x]))" for x
      unfolding Suc by (intro keeps_match_next keeps_rules) auto
    with Suc.prems(1) show ?thesis by (simp add: keeps_bnd)
  qed
qed

lemma keeps_binary_loop:
  assumes "eats c k operand" and "k \<le> n"
    and "\<And>t p j. ops t = Some p \<Longrightarrow> t \<noteq> T_END_OF_FILE \<and> (\<exists>q. p = before next_token q \<and> keeps c j q)"
  shows "keeps c k (binary_loop n ops operand left)"
  using assms(1,2)
proof (induction n arbitrary: k left)
  case 0
  then show ?case by (simp add: keeps_def)
next
  case (Suc n)
  show ?case
    unfolding keeps_def
  proof (intro allI impI)
    fix s assume s: "ready c k s"
    then obtain j where k: "k = Suc j" by (cases k) auto
    show "gives c (Suc (length (remaining s))) (binary_loop (Suc n) ops operand left s)"
    proof (cases "ops (current_type s)")
      case None
      then show ?thesis using s by (simp add: ready_def)
    next
      case (Some p)
      then obtain q where q: "current_type s \<noteq> T_END_OF_FILE" "p = before next_token q" "keeps c j q"
        using assms(3) by blast
      let ?f = "\<lambda>op. bnd operand (\<lambda>right. binary_loop n ops operand (BinaryExprNode op left (Some right)))"
      have "keeps c j (binary_loop n ops operand l)" for l
        using Suc.IH [of j] eats_less [OF Suc.prems(1), of j] Suc.prems(2) k by simp
      then have "keeps c j (?f op)" for op
        using eats_keeps [OF eats_less [OF Suc.prems(1), of j]] k by (intro keeps_bnd) auto
      with q(3) have "keeps c j (bnd q ?f)" by (rule keeps_bnd)
      then have "gives c (length (remaining s)) (before next_token (bnd q ?f) s)"
        using gives_before_next s k q(1) by blast
      then have "gives c (Suc (length (remaining s))) (before next_token (bnd q ?f) s)"
        using gives_mono by fastforce
      moreover have "bnd p ?f = before next_token (bnd q ?f)"
        unfolding q(2) by (auto simp: bnd_def before_def split: parse.split)
      ultimately show ?thesis using Some by simp
    qed
  qed
qed

lemma keeps_token_operators:
  assumes "eats c k operand" and "k \<le> n" and "map_of tab T_END_OF_FILE = None"
  shows "keeps c k (binary_loop n (token_operators tab) operand left)"
proof (rule keeps_binary_loop [OF assms(1,2)])
  fix t p j assume "token_operators tab t = Some p"
  then show "t \<noteq> T_END_OF_FILE \<and> (\<exists>q. p = before next_token q \<and> keeps c j q)"
    using assms(3) by (auto simp: token_operators_def intro!: exI [of _ "ret _"] keeps_ret)
qed

lemma eats_level:
  assumes "eats c k operand" and "k \<le> n" and "map_of tab T_END_OF_FILE = None"
  shows "eats c k (bnd operand (binary_loop n (token_operators tab) operand))"
  using eats_bnd_left [OF assms(1) keeps_token_operators [OF assms]] .

lemma keeps_ite: "keeps c k p \<Longrightarrow> keeps c k q \<Longrightarrow> keeps c k (\<lambda>s. if b s then p s else q s)"
  by (simp add: keeps_def)

lemma keeps_case_prod: "(\<And>a b. keeps c k (f a b)) \<Longrightarrow> keeps c k (case x of (a, b) \<Rightarrow> f a b)"
  by (cases x) simp

lemma eats_match_pure:
  assumes "t \<noteq> T_END_OF_FILE"
    and pure: "\<And>s. ready c (Suc k) s \<Longrightarrow> current_type s = t \<Longrightarrow>
      (\<exists>a. p s = Parsed a s) \<or> (\<exists>e. p s = Throws e s) \<or> (p s = Undefined \<and> \<not> c)"
    and "\<And>a. keeps c k (f a)" and "eats c (Suc k) q"
  shows "eats c (Suc k) (if_match t (bnd p (\<lambda>a. before next_token (f a))) q)"
  unfolding eats_def
proof (intro allI impI)
  fix s assume s: "ready c (Suc k) s"
  show "gives c (length (remaining s)) (if_match t (bnd p (\<lambda>a. before next_token (f a))) q s)"
  proof (cases "current_type s = t")
    case True
    have "gives c (length (remaining s)) (before next_token (f a) s)" for a
      using gives_before_next [OF s _ assms(3) [of a]] True assms(1) by simp
    then show ?thesis using pure [OF s True] True by (auto simp: if_match_def bnd_def)
  next
    case False
    then show ?thesis using assms(4) s by (simp add: if_match_def eats_def)
  qed
qed

lemma ready_plain:
  assumes "ready True k s"
  shows "current_type s \<noteq> T_CASE \<and> current_type s \<noteq> T_FLOAT"
proof (cases "current_type s = T_END_OF_FILE")
  case False
  then have "current_token s \<in> set (remaining s)" by (simp add: remaining_def)
  then show ?thesis using assms by (auto simp: ready_def plain_def current_type_def)
qed simp

lemma keeps_skip_case: "keeps False k skip_case"
proof -
  have "gives False (Suc (length (remaining s))) (skip_case s)" if "wf_parser s" for s
    using that
  proof (induction s rule: skip_case.induct)
    case (1 s)
    show ?case
    proof (cases "current_type s = T_END \<or> (current_type s = T_END_OF_FILE \<and> rest (lexer s) = [])")
      case True
      then show ?thesis using 1 by (auto simp: skip_case.simps [of s] ready_def)
    next
      case False
      then have "gives False (Suc (length (remaining (after_next s)))) (skip_case (after_next s))"
        using 1(1) [of "nextToken (lexer s)" "fst (nextToken (lexer s))" "snd (nextToken (lexer s))"]
          wf_after_next [of s] unfolding after_next_def by auto
      moreover have "skip_case s = skip_case (after_next s)"
        using False by (auto simp: skip_case.simps [of s] after_next_def case_prod_beta Let_def)
      ultimately show ?thesis
        using gives_mono [of False "Suc (length (remaining (after_next s)))" _ "Suc (length (remaining s))"]
          remaining_after_next [OF 1(2)] by simp
    qed
  qed
  then show ?thesis by (auto simp: keeps_def ready_def)
qed

lemma eats_case: "eats c (Suc k) q \<Longrightarrow>
   eats c (Suc k) (if_match T_CASE (before next_token (before skip_case (before (skip T_END) (parse_error m)))) q)"
proof (cases c)
  case True
  then show "eats c (Suc k) q \<Longrightarrow> ?thesis" using ready_plain by (auto simp: eats_def if_match_def)
next
  case False
  have "keeps False k (before skip_case (before (skip T_END) (parse_error m)))"
    by (intro keeps_rules keeps_skip_case) auto
  then show "eats c (Suc k) q \<Longrightarrow> ?thesis" using False by (intro eats_match_next) auto
qed

section \<open>The levels of the grammar\<close>

locale sub_parsers =
  fixes c :: bool and n :: nat and expr :: "ASTNode parser" and sel :: "SelectNode parser"
  assumes expr_eats: "eats c n expr" and sel_eats: "eats c n sel"
begin

lemmas callbacks_keep = eats_keeps [OF expr_eats] eats_keeps [OF sel_eats]

lemma parsePrimary_eats: "eats c (Suc n) (parsePrimary expr sel)"
proof -
  have float: "(\<exists>a. float_literal s = Parsed a s) \<or> (\<exists>e. float_literal s = Throws e s) \<or>
      (float_literal s = Undefined \<and> \<not> c)" if "ready c (Suc n) s" "current_type s = T_FLOAT" for s
    using that ready_plain [of "Suc n" s] by (cases c) (auto simp: float_literal_def split: option.split sum.split)
  show ?thesis
    unfolding parsePrimary_def
    by (intro eats_match_pure eats_match_next eats_case eats_parse_error float eats_if_match
        eats_bnd_left [OF eats_consume] keeps_rules callbacks_keep)
      (auto simp: int_literal_def current_text_def split: sum.split)
qed

lemma parseUnary_eats: "k \<le> Suc n \<Longrightarrow> k \<le> m \<Longrightarrow> eats c k (parseUnary m expr sel)"
proof (induction m arbitrary: k)
  case 0
  then show ?case by (simp add: eats_0)
next
  case (Suc m)
  show ?case
    unfolding eats_def
  proof (intro allI impI)
    fix s assume s: "ready c k s"
    then obtain j where k: "k = Suc j" by (cases k) auto
    show "gives c (length (remaining s)) (parseUnary (Suc m) expr sel s)"
    proof (cases "map_of unary_operators (current_type s)")
      case None
      then show ?thesis
        using parsePrimary_eats ready_mono [OF s Suc.prems(1)] by (simp add: eats_def)
    next
      case (Some op)
      then have t: "current_type s \<noteq> T_END_OF_FILE" by (auto simp: unary_operators_def)
      have "keeps c j (bnd (parseUnary m expr sel) (\<lambda>e. ret (UnaryExprNode op e)))"
        using Suc.IH [of j] Suc.prems k by (intro keeps_rules eats_keeps) auto
      then show ?thesis using gives_before_next [OF _ t] s k Some by simp
    qed
  qed
qed

lemma parseMultiplicative_eats: "eats c (Suc n) (parseMultiplicative (Suc n) expr sel)"
  unfolding parseMultiplicative_def
  by (rule eats_level [OF parseUnary_eats]) (auto simp: mul_operators_def)

lemma parseAdditive_eats: "eats c (Suc n) (parseAdditive (Suc n) expr sel)"
  unfolding parseAdditive_def
  by (rule eats_level [OF parseMultiplicative_eats]) (auto simp: add_operators_def)

lemma rel_operators_next:
  assumes "rel_operators t = Some p"
  shows "t \<noteq> T_END_OF_FILE \<and> (\<exists>q. p = before next_token q \<and> keeps c j q)"
proof (cases "t = T_NOT")
  case True
  have "keeps c j (before (expect T_LIKE) (before next_token (ret OP_NOT_LIKE)))" by (intro keeps_rules)
  with True assms show ?thesis by (auto simp: rel_operators_def)
next
  case False
  with assms show ?thesis
    by (auto simp: rel_operators_def token_operators_def rel_table_def intro!: exI [of _ "ret _"] keeps_ret split: if_splits)
qed

lemma parseRelational_eats: "eats c (Suc n) (parseRelational (Suc n) expr sel)"
  unfolding parseRelational_def
  by (intro eats_bnd_left parseAdditive_eats keeps_binary_loop rel_operators_next) auto

lemma parse_is_null_keeps: "keeps c k (parse_is_null left)"
  unfolding parse_is_null_def by (intro keeps_rules) auto

lemma skip_not_keeps: "keeps c k skip_not"
  unfolding skip_not_def by (intro keeps_rules)

lemma parse_in_keeps: "keeps c (Suc n) (parse_in sel left)"
  unfolding parse_in_def
  by (intro keeps_ite keeps_ret keeps_bnd [OF skip_not_keeps] keeps_before_eats [OF eats_skip] keeps_rules callbacks_keep) auto

lemma parse_between_keeps: "keeps c (Suc n) (parse_between expr left)"
  unfolding parse_between_def
  by (intro keeps_ite keeps_ret keeps_bnd [OF skip_not_keeps] keeps_before_eats [OF eats_skip] keeps_rules callbacks_keep) auto

lemma parseEquality_eats: "eats c (Suc n) (parseEquality (Suc n) expr sel)"
  unfolding parseEquality_def
  by (intro eats_bnd_left parseRelational_eats keeps_bnd keeps_token_operators parse_is_null_keeps parse_in_keeps
      parse_between_keeps) (auto simp: eq_operators_def)

lemma parseLogicalAnd_eats: "eats c (Suc n) (parseLogicalAnd (Suc n) expr sel)"
  unfolding parseLogicalAnd_def by (rule eats_level [OF parseEquality_eats]) auto

lemma parseLogicalOr_eats: "eats c (Suc n) (parseLogicalOr (Suc n) expr sel)"
  unfolding parseLogicalOr_def by (rule eats_level [OF parseLogicalAnd_eats]) auto

text \<open>The clauses are parsed after \<^verbatim>\<open>SELECT\<close>, so they have the fuel \<open>n\<close>.\<close>

lemma parseSelectList_eats: "eats c n (parseSelectList (Suc n) expr)"
  unfolding parseSelectList_def
  by (intro eats_comma_loop eats_match_next_any eats_bnd_left [OF expr_eats] keeps_rules) auto

lemma optional_alias_keeps: "keeps c k optional_alias"
  unfolding optional_alias_def by (intro keeps_rules) auto

lemma parse_table_ref_eats: "eats c n (parse_table_ref sel)"
  unfolding parse_table_ref_def
  by (intro eats_bnd_left [OF eats_match_next_any] eats_bnd_left [OF eats_consume] keeps_case_prod keeps_rules
      optional_alias_keeps callbacks_keep) auto

lemma parseIdentifierList_eats: "k \<le> m \<Longrightarrow> eats c k (parseIdentifierList m)"
  unfolding parseIdentifierList_def by (intro eats_comma_loop eats_consume) auto

lemma parseJoin_eats: "eats c n (parseJoin (Suc n) expr)"
  unfolding parseJoin_def skip_outer_def
  by (intro eats_bnd_right eats_before_left [OF eats_skip_any] keeps_rules optional_alias_keeps callbacks_keep
      eats_keeps [OF parseIdentifierList_eats]) auto

lemma join_loop_keeps: "k \<le> n \<Longrightarrow> k \<le> m \<Longrightarrow> keeps c k (join_loop m expr (Suc n))"
proof (induction m arbitrary: k)
  case 0
  then show ?case by (simp add: keeps_def)
next
  case (Suc m)
  show ?case
  proof (cases k)
    case 0
    then show ?thesis by (simp add: keeps_def)
  next
    case k: (Suc j)
    have "keeps c j (bnd (join_loop m expr (Suc n)) (\<lambda>js. ret (x # js)))" for x
      using Suc k by (intro keeps_bnd keeps_ret) auto
    then have "keeps c k (bnd (parseJoin (Suc n) expr) (\<lambda>x. bnd (join_loop m expr (Suc n)) (\<lambda>js. ret (x # js))))"
      using eats_less [OF parseJoin_eats Suc.prems(1)] unfolding k by (intro keeps_bnd_eats)
    then show ?thesis by (simp add: keeps_if_matchAny keeps_ret)
  qed
qed

lemma optional_keeps: "keeps c k p \<Longrightarrow> keeps c k (optional t p)"
  unfolding optional_def by (intro keeps_rules)

lemma parseWhere_keeps: "keeps c n (parseWhere expr)"
  unfolding parseWhere_def by (intro keeps_rules callbacks_keep) auto

lemma parseGroupBy_keeps: "keeps c n (parseGroupBy (Suc n) expr)"
  unfolding parseGroupBy_def by (intro keeps_rules eats_keeps [OF eats_comma_loop [OF expr_eats]]) auto

lemma parseOrderBy_keeps: "keeps c n (parseOrderBy (Suc n) expr)"
  unfolding parseOrderBy_def
  by (intro keeps_before eats_keeps [OF eats_consume] eats_keeps [OF eats_skip_any] eats_keeps [OF eats_comma_loop]
      eats_bnd_left [OF expr_eats] keeps_rules) auto

lemma limit_number_keeps: "keeps c k (limit_number d)"
  unfolding limit_number_def keeps_def
proof (intro allI impI)
  fix s assume s: "ready c k s"
  have "keeps c k (before next_token (\<lambda>s1. case stoi w of
      Inl e \<Rightarrow> Throws (Conversion_error e) s1 | Inr i \<Rightarrow> Parsed i s1))" for w
    by (intro keeps_before keeps_next_token) (auto simp: keeps_def ready_def split: sum.split)
  from keeps_if_match [OF this keeps_ret] s show "gives c (Suc (length (remaining s)))
      (if_match T_INTEGER (before next_token (\<lambda>s1. case stoi (tok_text (current_token s)) of
         Inl e \<Rightarrow> Throws (Conversion_error e) s1 | Inr i \<Rightarrow> Parsed i s1)) (ret d) s)"
    unfolding keeps_def by blast
qed

lemma parseLimit_keeps: "keeps c k parseLimit"
  unfolding parseLimit_def by (intro keeps_rules limit_number_keeps) auto

lemma parse_set_operation_keeps: "keeps c n (parse_set_operation sel)"
  unfolding parse_set_operation_def keeps_def Let_def
proof (intro allI impI)
  fix s assume s: "ready c n s"
  have "keeps c n (if_matchAny [T_UNION, T_INTERSECT, T_EXCEPT]
     (before next_token (bnd (if_match T_ALL (before next_token (ret (if o1 = S_UNION then S_UNION_ALL else o1))) (ret o1))
        (\<lambda>o2. bnd sel (\<lambda>q. ret (o2, Some q))))) (ret (S_NONE, None)))" for o1
    by (intro keeps_rules callbacks_keep)
  with s show "gives c (Suc (length (remaining s))) (if_matchAny [T_UNION, T_INTERSECT, T_EXCEPT]
     (before next_token (bnd (if_match T_ALL (before next_token (ret (if
        (if current_type s = T_UNION then S_UNION else if current_type s = T_INTERSECT then S_INTERSECT else S_EXCEPT) = S_UNION
        then S_UNION_ALL else (if current_type s = T_UNION then S_UNION else if current_type s = T_INTERSECT then S_INTERSECT else S_EXCEPT))))
        (ret (if current_type s = T_UNION then S_UNION else if current_type s = T_INTERSECT then S_INTERSECT else S_EXCEPT)))
        (\<lambda>o2. bnd sel (\<lambda>q. ret (o2, Some q))))) (ret (S_NONE, None)) s)"
    unfolding keeps_def by blast
qed

lemmas clauses_keep = optional_keeps parseWhere_keeps parseGroupBy_keeps parseOrderBy_keeps parseLimit_keeps
  parse_set_operation_keeps join_loop_keeps eats_keeps [OF parseSelectList_eats]
  eats_keeps [OF eats_comma_loop [OF parse_table_ref_eats]]

lemma select_body_eats: "eats c (Suc n) (select_body (Suc n) expr sel)"
  unfolding select_body_def
  by (rule eats_before [OF eats_consume], simp)
    (intro clauses_keep callbacks_keep keeps_case_prod keeps_rules le_SucI order_refl)

end

text \<open>The two functions of the recursion meet the contract with every fuel.\<close>

lemma parse_functions_eat: "eats c n (parseExpression n) \<and> eats c n (parseSelect n)"
proof (induction n)
  case 0
  then show ?case by (simp add: eats_0)
next
  case (Suc n)
  then have s: "sub_parsers c n (parseExpression n) (parseSelect n)" by (simp add: sub_parsers_def)
  show ?case
    using sub_parsers.parseLogicalOr_eats [OF s] sub_parsers.select_body_eats [OF s] by (simp add: eats_def)
qed

interpretation grammar: sub_parsers c n "parseExpression n" "parseSelect n" for c n
  by unfold_locales (simp_all add: parse_functions_eat)

section \<open>Statements\<close>

lemma keeps_diag:
  assumes "\<And>s. ready c k s \<Longrightarrow> \<exists>q. p s = q s \<and> keeps c k q"
  shows "keeps c k p"
  using assms unfolding keeps_def by metis

lemma column_options_keeps: "k \<le> m \<Longrightarrow> keeps c k (column_options m col)"
proof (induction m arbitrary: k col)
  case 0
  then show ?case by (simp add: keeps_def)
next
  case (Suc m)
  show ?case
  proof (cases k)
    case 0
    then show ?thesis by (simp add: keeps_def)
  next
    case (Suc j)
    have ih: "keeps c j (column_options m cl)" for cl using Suc.IH [of j] Suc.prems Suc by simp
    let ?rest = "if_match T_NULL (before next_token (column_options m (col\<lparr>cd_nullable := True\<rparr>)))
       (if_match T_PRIMARY (before next_token (before (skip T_KEY) (column_options m (col\<lparr>cd_primary_key := True\<rparr>))))
         (if_match T_UNIQUE (before next_token (column_options m (col\<lparr>cd_unique := True\<rparr>)))
           (if_match T_DEFAULT (before next_token (before next_token (column_options m col))) (ret col))))"
    have r: "keeps c k ?rest" unfolding Suc by (intro keeps_match_next keeps_rules ih) auto
    have "keeps c j (before next_token (column_options m (col\<lparr>cd_nullable := False\<rparr>)))"
      by (intro keeps_before keeps_next_token ih)
    then have "gives c (Suc (length (remaining s))) (column_options (Suc m) col s)"
      if "ready c k s" "current_type s = T_NOT \<and> peeked_type s = T_NULL" for s
      using that Suc gives_mono [OF gives_before_next le_SucI [OF order_refl], of c j s] by simp
    moreover have "column_options (Suc m) col s = ?rest s" if "\<not> (current_type s = T_NOT \<and> peeked_type s = T_NULL)" for s
      using that by auto
    ultimately show ?thesis using r unfolding keeps_def by metis
  qed
qed

lemma parseDataType_keeps: "keeps c k parseDataType"
  unfolding parseDataType_def
proof (intro keeps_if_match keeps_parse_error keeps_diag, goal_cases)
  case (1 s)
  show ?case
    by (rule exI [of _ "before next_token (case map_of type_names (tok_text (current_token s)) of
             None \<Rightarrow> parse_error Invalid_type
           | Some t \<Rightarrow>
               if t = VARCHAR
               then if_match T_LPAREN
                 (before next_token (before (if_match T_INTEGER next_token (ret ()))
                    (before (skip T_RPAREN) (ret VARCHAR))))
                 (ret VARCHAR)
               else ret t)"])
      (auto intro!: keeps_rules split: option.split)
qed

lemma parenthesised_list_keeps: "k \<le> m \<Longrightarrow> keeps c k (parenthesised_list m)"
  unfolding parenthesised_list_def
  by (intro keeps_rules eats_keeps [OF grammar.parseIdentifierList_eats]) auto

lemma parse_constraint_keeps: "k \<le> m \<Longrightarrow> keeps c k (parse_constraint m)"
  unfolding parse_constraint_def by (intro keeps_rules parenthesised_list_keeps) auto

lemma parse_column_keeps: "k \<le> m \<Longrightarrow> keeps c k (parse_column m)"
  unfolding parse_column_def by (intro keeps_rules parseDataType_keeps column_options_keeps) auto

lemma parse_table_item_keeps: "k \<le> m \<Longrightarrow> keeps c k (parse_table_item m)"
  unfolding parse_table_item_def by (intro keeps_rules parse_constraint_keeps parse_column_keeps)

lemmas queries_keep = eats_keeps [OF grammar.expr_eats] eats_keeps [OF grammar.sel_eats]

lemma parseInsert_keeps: "keeps c n (parseInsert n)"
  unfolding parseInsert_def parseValuesList_def parseExpressionList_def
  by (intro keeps_rules keeps_comma_loop queries_keep eats_keeps [OF grammar.parseIdentifierList_eats]) auto

lemma parseUpdate_keeps: "keeps c n (parseUpdate n)"
  unfolding parseUpdate_def parseWhere_def
  by (intro keeps_rules keeps_comma_loop queries_keep grammar.optional_keeps) auto

lemma parseDelete_keeps: "keeps c n (parseDelete n)"
  unfolding parseDelete_def parseWhere_def by (intro keeps_rules queries_keep grammar.optional_keeps) auto

lemma parseCreateTable_keeps: "keeps c n (parseCreateTable n)"
  unfolding parseCreateTable_def by (intro keeps_rules keeps_comma_loop parse_table_item_keeps) auto

lemma parseCreateIndex_keeps: "keeps c n (parseCreateIndex n)"
  unfolding parseCreateIndex_def by (intro keeps_rules parenthesised_list_keeps) auto

lemma parseDropTable_keeps: "keeps c n parseDropTable"
  unfolding parseDropTable_def by (intro keeps_rules) auto

lemma transaction_statements_keep: "keeps c n parseBegin" "keeps c n parseCommit" "keeps c n parseRollback"
  unfolding parseBegin_def parseCommit_def parseRollback_def transaction_name_def by (intro keeps_rules; simp)+

lemma parseStatement_keeps: "keeps c n (parseStatement n)"
  unfolding parseStatement_def
  by (intro keeps_rules queries_keep parseInsert_keeps parseUpdate_keeps parseDelete_keeps parseCreateTable_keeps
      parseCreateIndex_keeps parseDropTable_keeps transaction_statements_keep)

lemma parse_gives:
  assumes "length (tokens (Lexer_new query)) < n"
    and "c \<longrightarrow> (\<forall>t \<in> set (tokens (Lexer_new query)). tok_type t \<noteq> T_CASE \<and> tok_type t \<noteq> T_FLOAT)"
  shows "gives c n (parse n query s)"
proof -
  let ?s = "after_next (s\<lparr>lexer := Lexer_new query\<rparr>)"
  have r: "remaining ?s = tokens (Lexer_new query)" by (simp add: remaining_after_next_tokens)
  then have s: "ready c n ?s" using assms by (simp add: ready_def plain_def)
  have "keeps c n (bnd (parseStatement n) (\<lambda>st. if_match T_END_OF_FILE (ret st) (parse_error Unprocessed_tokens)))"
    by (intro keeps_rules parseStatement_keeps)
  with s have "gives c (Suc (length (remaining ?s)))
      (bnd (parseStatement n) (\<lambda>st. if_match T_END_OF_FILE (ret st) (parse_error Unprocessed_tokens)) ?s)"
    unfolding keeps_def by blast
  from gives_mono [OF this, of n] show ?thesis
    using r assms(1) by (simp add: parse_def before_def bnd_def [of next_token] next_token_eq)
qed

section \<open>Properties\<close>

text \<open>
  C9: Parsing ends: with more fuel than the query has tokens \<^verbatim>\<open>parse\<close> does not run out
  of fuel, so each of its loops and recursions ends after at most so many steps; when the query
  has no \<^verbatim>\<open>CASE\<close> and no float literal it returns a statement or throws.
\<close>

theorem parse_returns:
  assumes "length (tokens (Lexer_new query)) < n"
  shows "parse n query s \<noteq> Out_of_fuel \<and>
    ((\<forall>t \<in> set (tokens (Lexer_new query)). tok_type t \<notin> {T_CASE, T_FLOAT}) \<longrightarrow>
      (\<exists>st s'. parse n query s = Parsed st s') \<or> (\<exists>e s'. parse n query s = Throws e s'))"
proof -
  have "parse n query s \<noteq> Out_of_fuel" using parse_gives [of query n False s] assms by (metis gives.simps(5))
  moreover have "(\<exists>st s'. parse n query s = Parsed st s') \<or> (\<exists>e s'. parse n query s = Throws e s')"
    if "\<forall>t \<in> set (tokens (Lexer_new query)). tok_type t \<notin> {T_CASE, T_FLOAT}"
    using parse_gives [of query n True s] assms that by (cases "parse n query s") auto
  ultimately show ?thesis by blast
qed

theorem parse_returns_witness:
  "parse 4 ''DELETE FROM T'' Parser_new \<noteq> Out_of_fuel"
proof -
  have "length (tokens (Lexer_new ''DELETE FROM T'')) < 4" by code_simp
  from parse_returns [OF this] show ?thesis by blast
qed

section \<open>BETWEEN\<close>

lemma bnd_Parsed: "bnd p f s = Parsed b s2 \<longleftrightarrow> (\<exists>a s1. p s = Parsed a s1 \<and> f a s1 = Parsed b s2)"
  by (cases "p s") (auto simp: bnd_def)

lemma binary_loop_after:
  assumes "binary_loop n ops operand left s = Parsed e s'" and "Q s"
    and "\<And>s a s'. operand s = Parsed a s' \<Longrightarrow> Q s'"
  shows "Q s' \<and> ops (current_type s') = None"
  using assms(1,2)
proof (induction n arbitrary: left s)
  case (Suc n)
  then show ?case using assms(3) by (auto simp: bnd_Parsed split: option.splits)
qed simp

lemma parseLogicalAnd_after: "parseLogicalAnd n expr sel s = Parsed e s' \<Longrightarrow> current_type s' \<noteq> T_AND"
  unfolding parseLogicalAnd_def bnd_Parsed
  using binary_loop_after [where Q = "\<lambda>_. True"] by (fastforce simp: token_operators_def)

lemma parseExpression_after: "parseExpression n s = Parsed e s' \<Longrightarrow> current_type s' \<noteq> T_AND"
proof (cases n)
  case (Suc m)
  assume "parseExpression n s = Parsed e s'"
  then obtain e1 s1 where
    "parseLogicalAnd n (parseExpression m) (parseSelect m) s = Parsed e1 s1"
    "binary_loop n (token_operators [(T_OR, OP_OR)]) (parseLogicalAnd n (parseExpression m) (parseSelect m)) e1 s1 = Parsed e s'"
    using Suc by (auto simp: parseLogicalOr_def bnd_Parsed)
  then show ?thesis
    using binary_loop_after [where Q = "\<lambda>s. current_type s \<noteq> T_AND"] parseLogicalAnd_after by blast
qed simp

text \<open>
  No \<^verbatim>\<open>BETWEEN\<close> is ever accepted: the lower bound is parsed as a whole
  expression, which takes the \<^verbatim>\<open>AND\<close> and the upper bound with it, so the
  \<^verbatim>\<open>AND\<close> that the code expects next cannot be there. Where the parser meets
  \<^verbatim>\<open>BETWEEN\<close> after an operand it never returns a node, whatever follows.
\<close>

lemma between_rejected:
  assumes "current_type s = T_BETWEEN"
  shows "parse_between (parseExpression n) left s \<noteq> Parsed e s'"
proof
  assume "parse_between (parseExpression n) left s = Parsed e s'"
  then obtain s1 lower s2 s3 where e: "parseExpression n s1 = Parsed lower s2" and k: "skip T_AND s2 = Parsed () s3"
    using assms by (auto simp: parse_between_def before_def bnd_Parsed)
  have "current_type s2 \<noteq> T_AND" using parseExpression_after [OF e] .
  with k show False by (auto simp: skip_def before_def bnd_Parsed expect_def parse_error_def Let_def)
qed

definition at_between :: Parser where
  "at_between = \<lparr>lexer = Lexer_new ''1 AND 3'', current_token = mk_token T_BETWEEN ''BETWEEN'' 1 1, last_error = []\<rparr>"

end
