(* ===== verification/ParserRoundtrip.thy ===== *)
theory ParserRoundtrip
  imports ParserFacts
begin

text \<open>
  Printing expressions and parsing them again. \<open>show_expr\<close> prints with the parentheses that the
  levels of the grammar require and no others; the parser gives the expression back.
\<close>

section \<open>The view of the parser\<close>

definition view :: "Parser \<Rightarrow> (TokenType \<times> string) list" where
  "view s = map token_view (remaining s)"

lemma view_Cons:
  assumes "view s = (t, w) # vs"
  shows "current_type s = t" and "tok_text (current_token s) = w"
  using assms by (auto simp: view_def remaining_def token_view_def current_type_def split: if_splits)

lemma view_Nil: "view s = [] \<Longrightarrow> current_type s = T_END_OF_FILE"
  by (auto simp: view_def remaining_def split: if_splits)

lemma view_after_next: "wf_parser s \<Longrightarrow> view (after_next s) = tl (view s)"
  by (simp add: view_def remaining_after_next map_tl)

lemma before_next: "before next_token p s = p (after_next s)"
  by (simp add: before_def bnd_def next_token_eq)

lemma bnd_Parsed_eq: "p s = Parsed a s' \<Longrightarrow> bnd p f s = f a s'"
  by (simp add: bnd_def)

lemma bnd_Parsed_False: "p s = Parsed False s' \<Longrightarrow> bnd p f s = f False s'"
  by (rule bnd_Parsed_eq)

lemma before_expect: "view s = (t, w) # vs \<Longrightarrow> before (expect t) p s = p s"
  by (simp add: before_def bnd_def expect_def view_Cons)

lemma skip_view: "view s = (t, w) # vs \<Longrightarrow> skip t s = Parsed () (after_next s)"
  by (simp add: skip_def before_def bnd_def expect_def view_Cons next_token_eq)

lemma consume_view: "view s = (t, w) # vs \<Longrightarrow> consume t s = Parsed w (after_next s)"
  by (simp add: consume_eq before_def bnd_def skip_view ret_def view_Cons)

section \<open>Printing\<close>

text \<open>
  The levels: 0 for \<^verbatim>\<open>OR\<close>, 1 for \<^verbatim>\<open>AND\<close>, 2 for the tests after an
  equality, 3 for equality, 4 relational, 5 additive, 6 multiplicative, 7 unary, 8 primary.
\<close>

fun op_level :: "Operator \<Rightarrow> nat" where
  "op_level OP_OR = 0" | "op_level OP_AND = 1"
| "op_level OP_EQ = 3" | "op_level OP_NE = 3"
| "op_level OP_LT = 4" | "op_level OP_LE = 4" | "op_level OP_GT = 4" | "op_level OP_GE = 4"
| "op_level OP_LIKE = 4" | "op_level OP_NOT_LIKE = 4"
| "op_level OP_PLUS = 5" | "op_level OP_MINUS = 5" | "op_level OP_CONCAT = 5"
| "op_level OP_MULTIPLY = 6" | "op_level OP_DIVIDE = 6" | "op_level OP_MODULO = 6"
| "op_level _ = 9"

fun op_tokens :: "Operator \<Rightarrow> (TokenType \<times> string) list" where
  "op_tokens OP_OR = [(T_OR, ''OR'')]" | "op_tokens OP_AND = [(T_AND, ''AND'')]"
| "op_tokens OP_EQ = [(T_EQ, ''=='')]" | "op_tokens OP_NE = [(T_NE, ''!='')]"
| "op_tokens OP_LT = [(T_LT, ''<'')]" | "op_tokens OP_LE = [(T_LE, ''<='')]"
| "op_tokens OP_GT = [(T_GT, ''>'')]" | "op_tokens OP_GE = [(T_GE, ''>='')]"
| "op_tokens OP_LIKE = [(T_LIKE, ''LIKE'')]"
| "op_tokens OP_NOT_LIKE = [(T_NOT, ''NOT''), (T_LIKE, ''LIKE'')]"
| "op_tokens OP_PLUS = [(T_PLUS, ''+'')]" | "op_tokens OP_MINUS = [(T_MINUS, ''-'')]"
| "op_tokens OP_CONCAT = [(T_CONCAT, ''||'')]" | "op_tokens OP_MULTIPLY = [(T_STAR, ''*'')]"
| "op_tokens OP_DIVIDE = [(T_SLASH, ''/'')]" | "op_tokens OP_MODULO = [(T_PERCENT, ''%'')]"
| "op_tokens OP_NOT = [(T_NOT, ''NOT'')]"
| "op_tokens OP_IS_NULL = [(T_IS, ''IS''), (T_NULL, ''NULL'')]"
| "op_tokens OP_IS_NOT_NULL = [(T_IS, ''IS''), (T_NOT, ''NOT''), (T_NULL, ''NULL'')]"
| "op_tokens _ = []"

definition literal_tokens :: "Value \<Rightarrow> (TokenType \<times> string) list" where
  "literal_tokens v =
     (if vtype v = INTEGER then [(T_INTEGER, dec_nat (unat (int_val v)))]
      else if vtype v = VARCHAR then [(T_STRING, str_val v)]
      else if vtype v = BOOLEAN then [(T_BOOLEAN, if bool_val v then ''TRUE'' else ''FALSE'')]
      else [(T_NULL, ''NULL'')])"

definition literal_ok :: "Value \<Rightarrow> bool" where
  "literal_ok v \<longleftrightarrow>
     (vtype v = INTEGER \<and> v = Value_int (int_val v) \<and> int_val v < 2 ^ 31) \<or>
     (vtype v = VARCHAR \<and> v = Value_string (str_val v) \<and> printable (T_STRING, str_val v)) \<or>
     (vtype v = BOOLEAN \<and> v = Value_bool (bool_val v)) \<or> v = Value_null"

definition in_parens :: "bool \<Rightarrow> (TokenType \<times> string) list \<Rightarrow> (TokenType \<times> string) list" where
  "in_parens b xs = (if b then (T_LPAREN, ''('') # xs @ [(T_RPAREN, '')'')] else xs)"

definition null_tests :: "Operator list" where
  "null_tests = [OP_IS_NULL, OP_IS_NOT_NULL]"

fun show_expr :: "nat \<Rightarrow> ASTNode \<Rightarrow> (TokenType \<times> string) list" where
  "show_expr k (LiteralNode v) = literal_tokens v"
| "show_expr k (ColumnRefNode t c) =
     (if t = [] then [(T_IDENTIFIER, c)] else [(T_IDENTIFIER, t), (T_DOT, ''.''), (T_IDENTIFIER, c)])"
| "show_expr k (BinaryExprNode op l (Some r)) =
     in_parens (op_level op < k) (show_expr (op_level op) l @ op_tokens op @ show_expr (Suc (op_level op)) r)"
| "show_expr k (UnaryExprNode op e) =
     (if op \<in> set null_tests then in_parens (2 < k) (show_expr 3 e @ op_tokens op)
      else in_parens (7 < k) (op_tokens op @ show_expr 7 e))"
| "show_expr k _ = []"

fun expr_ok :: "ASTNode \<Rightarrow> bool" where
  "expr_ok (LiteralNode v) \<longleftrightarrow> literal_ok v"
| "expr_ok (ColumnRefNode t c) \<longleftrightarrow>
     printable (T_IDENTIFIER, c) \<and> (t = [] \<or> printable (T_IDENTIFIER, t))"
| "expr_ok (BinaryExprNode op l (Some r)) \<longleftrightarrow> op_level op < 8 \<and> expr_ok l \<and> expr_ok r"
| "expr_ok (UnaryExprNode op e) \<longleftrightarrow> op \<in> set null_tests \<union> {OP_PLUS, OP_MINUS, OP_NOT} \<and> expr_ok e"
| "expr_ok _ \<longleftrightarrow> False"

section \<open>The levels as parsers\<close>

definition level_ops :: "nat \<Rightarrow> TokenType \<Rightarrow> Operator parser option" where
  "level_ops k =
     (if k = 0 then token_operators [(T_OR, OP_OR)] else if k = 1 then token_operators [(T_AND, OP_AND)]
      else if k = 3 then token_operators eq_operators else if k = 4 then rel_operators
      else if k = 5 then token_operators add_operators else token_operators mul_operators)"

definition level :: "nat \<Rightarrow> nat \<Rightarrow> ASTNode parser" where
  "level n k =
     (let expr = parseExpression n; sel = parseSelect n; N = Suc n in
      if k = 0 then parseLogicalOr N expr sel else if k = 1 then parseLogicalAnd N expr sel
      else if k = 2 then parseEquality N expr sel
      else if k = 3 then bnd (parseRelational N expr sel) (binary_loop N (token_operators eq_operators) (parseRelational N expr sel))
      else if k = 4 then parseRelational N expr sel else if k = 5 then parseAdditive N expr sel
      else if k = 6 then parseMultiplicative N expr sel
      else if k = 7 then parseUnary N expr sel else parsePrimary expr sel)"

text \<open>The tokens with which a level goes on after an operand.\<close>

definition goes_on :: "nat \<Rightarrow> TokenType list" where
  "goes_on k = [[T_OR], [T_AND], [T_IS, T_IN, T_BETWEEN], [T_EQ, T_NE], [T_LT, T_LE, T_GT, T_GE, T_LIKE, T_NOT],
     [T_PLUS, T_MINUS, T_CONCAT], [T_STAR, T_SLASH, T_PERCENT], [], [T_DOT]] ! k"

definition stops :: "nat \<Rightarrow> (TokenType \<times> string) list \<Rightarrow> bool" where
  "stops k ts \<longleftrightarrow> ts = [] \<or> (\<forall>j < 9. k \<le> j \<longrightarrow> fst (hd ts) \<notin> set (goes_on j))"

definition binary_levels :: "nat set" where
  "binary_levels = {0, 1, 3, 4, 5, 6}"

text \<open>
  \<open>parses\<close>: the level reads exactly these tokens and gives this node; \<open>loops_on\<close>: it
  reads them and then stands in its loop with this node as the left operand.
\<close>

definition parses :: "nat \<Rightarrow> nat \<Rightarrow> (TokenType \<times> string) list \<Rightarrow> ASTNode \<Rightarrow> bool" where
  "parses n k xs e \<longleftrightarrow>
     (\<forall>s ts. wf_parser s \<and> view s = xs @ ts \<and> length (view s) \<le> n \<and> stops k ts \<longrightarrow>
        (\<exists>s'. level n k s = Parsed e s' \<and> wf_parser s' \<and> view s' = ts))"

definition loops_on :: "nat \<Rightarrow> nat \<Rightarrow> (TokenType \<times> string) list \<Rightarrow> ASTNode \<Rightarrow> bool" where
  "loops_on n k xs e \<longleftrightarrow>
     (\<forall>s ts. wf_parser s \<and> view s = xs @ ts \<and> length (view s) \<le> n \<and> stops (Suc k) ts \<longrightarrow>
        (\<exists>s' m. level n k s = binary_loop m (level_ops k) (level n (Suc k)) e s' \<and> wf_parser s' \<and> view s' = ts \<and>
           length ts < m))"

lemma stops_Suc: "stops k ts \<Longrightarrow> stops (Suc k) ts"
  by (auto simp: stops_def)

lemma level_unfold:
  "k \<in> binary_levels \<Longrightarrow> level n k = bnd (level n (Suc k)) (binary_loop (Suc n) (level_ops k) (level n (Suc k)))"
  by (auto simp: binary_levels_def level_def level_ops_def Let_def parseLogicalOr_def parseLogicalAnd_def
      parseRelational_def parseAdditive_def parseMultiplicative_def eval_nat_numeral)

lemma loops_on_from_next:
  assumes "k \<in> binary_levels" and "parses n (Suc k) xs e"
  shows "loops_on n k xs e"
  unfolding loops_on_def
proof (intro allI impI)
  fix s ts assume s: "wf_parser s \<and> view s = xs @ ts \<and> length (view s) \<le> n \<and> stops (Suc k) ts"
  then obtain s' where "level n (Suc k) s = Parsed e s'" "wf_parser s'" "view s' = ts"
    using assms(2) unfolding parses_def by blast
  then show "\<exists>s' m. level n k s = binary_loop m (level_ops k) (level n (Suc k)) e s' \<and> wf_parser s' \<and> view s' = ts \<and>
      length ts < m"
    using s by (intro exI [of _ s'] exI [of _ "Suc n"]) (auto simp: level_unfold [OF assms(1)] bnd_Parsed_eq)
qed

lemma level_ops_stop:
  assumes "k \<in> binary_levels" and "stops k (view s)"
  shows "level_ops k (current_type s) = None"
proof (cases "view s")
  case Nil
  then show ?thesis
    using assms(1) view_Nil [OF Nil]
    by (auto simp: binary_levels_def level_ops_def token_operators_def rel_operators_def rel_table_def eq_operators_def
        add_operators_def mul_operators_def)
next
  case (Cons p vs)
  then have t: "fst p \<notin> set (goes_on k)" using assms by (auto simp: stops_def binary_levels_def)
  have "current_type s = fst p" using view_Cons(1) [of s "fst p" "snd p" vs] Cons by simp
  with t assms(1) show ?thesis
    by (auto simp: binary_levels_def goes_on_def level_ops_def token_operators_def rel_operators_def rel_table_def
        eq_operators_def add_operators_def mul_operators_def eval_nat_numeral)
qed

lemma parses_from_chain:
  assumes "k \<in> binary_levels" and "loops_on n k xs e"
  shows "parses n k xs e"
  unfolding parses_def
proof (intro allI impI)
  fix s ts assume s: "wf_parser s \<and> view s = xs @ ts \<and> length (view s) \<le> n \<and> stops k ts"
  then obtain s' m where m: "level n k s = binary_loop m (level_ops k) (level n (Suc k)) e s'" "wf_parser s'"
    "view s' = ts" "length ts < m"
    using assms(2) stops_Suc unfolding loops_on_def by blast
  moreover have "level_ops k (current_type s') = None" using level_ops_stop [OF assms(1)] s m(3) by simp
  ultimately show "\<exists>s'. level n k s = Parsed e s' \<and> wf_parser s' \<and> view s' = ts" by (cases m) auto
qed

section \<open>One more operand\<close>

lemma op_tokens_parse:
  assumes "op_level op < 8" and "wf_parser s" and "view s = op_tokens op @ vs"
  obtains p s1 where "level_ops (op_level op) (current_type s) = Some p" and "p s = Parsed op s1"
    and "wf_parser s1" and "view s1 = vs"
proof (cases "op = OP_NOT_LIKE")
  case True
  then have v: "view s = (T_NOT, ''NOT'') # (T_LIKE, ''LIKE'') # vs" using assms(3) by simp
  then have v1: "view (after_next s) = (T_LIKE, ''LIKE'') # vs" using view_after_next [OF assms(2)] by simp
  show thesis
    by (rule that [of "before next_token (before (expect T_LIKE) (before next_token (ret OP_NOT_LIKE)))"
          "after_next (after_next s)"])
      (auto simp: True view_Cons(1) [OF v] level_ops_def rel_operators_def before_next view_after_next v1 ret_def
        before_expect [OF v1])
next
  case False
  with assms(1) obtain t w where tw: "op_tokens op = [(t, w)]" "map_of (case op_level op of 0 \<Rightarrow> [(T_OR, OP_OR)]
      | Suc 0 \<Rightarrow> [(T_AND, OP_AND)] | Suc (Suc (Suc 0)) \<Rightarrow> eq_operators | Suc (Suc (Suc (Suc 0))) \<Rightarrow> rel_table
      | Suc (Suc (Suc (Suc (Suc 0)))) \<Rightarrow> add_operators | _ \<Rightarrow> mul_operators) t = Some op" "t \<noteq> T_NOT" "op_level op \<noteq> 2"
    by (cases op) (auto simp: eq_operators_def rel_table_def add_operators_def mul_operators_def eval_nat_numeral)
  then have v: "view s = (t, w) # vs" using assms(3) by simp
  have "level_ops (op_level op) t = Some (before next_token (ret op))"
    using tw(2,3,4) assms(1)
    by (auto simp: level_ops_def token_operators_def rel_operators_def eval_nat_numeral less_Suc_eq
        split: nat.splits if_splits)
  then show thesis
    using that [of "before next_token (ret op)" "after_next s"] view_Cons(1) [OF v] view_after_next [OF assms(2)] v
    by (simp add: before_next ret_def)
qed

lemma op_tokens_stop: "op_level op < 8 \<Longrightarrow> stops (Suc (op_level op)) (op_tokens op @ vs)"
  by (cases op) (auto simp: stops_def goes_on_def less_Suc_eq eval_nat_numeral)

lemma op_tokens_nonempty: "op_level op < 8 \<Longrightarrow> op_tokens op \<noteq> []"
  by (cases op) auto

lemma loops_on_step:
  assumes "op_level op < 8" and "loops_on n (op_level op) xs l" and "parses n (Suc (op_level op)) ys r"
  shows "loops_on n (op_level op) (xs @ op_tokens op @ ys) (BinaryExprNode op l (Some r))"
  unfolding loops_on_def
proof (intro allI impI)
  let ?k = "op_level op"
  fix s ts
  assume s: "wf_parser s \<and> view s = (xs @ op_tokens op @ ys) @ ts \<and> length (view s) \<le> n \<and> stops (Suc ?k) ts"
  then obtain s' m where m: "level n ?k s = binary_loop m (level_ops ?k) (level n (Suc ?k)) l s'" "wf_parser s'"
    "view s' = op_tokens op @ ys @ ts" "length (op_tokens op @ ys @ ts) < m"
    using assms(2) [unfolded loops_on_def, rule_format, of s "op_tokens op @ ys @ ts"]
      op_tokens_stop [OF assms(1), of "ys @ ts"] by auto
  then obtain i where i: "m = Suc i" by (cases m) auto
  obtain p s1 where p: "level_ops ?k (current_type s') = Some p" "p s' = Parsed op s1" "wf_parser s1" "view s1 = ys @ ts"
    using op_tokens_parse [OF assms(1) m(2,3)] by blast
  have "length (view s1) \<le> n" using s p(4) by auto
  with p(3,4) s obtain s2 where s2: "level n (Suc ?k) s1 = Parsed r s2" "wf_parser s2" "view s2 = ts"
    using assms(3) unfolding parses_def by blast
  have "length ts < i" using m(4) i op_tokens_nonempty [OF assms(1)] by (cases "op_tokens op") auto
  moreover have "level n ?k s = binary_loop i (level_ops ?k) (level n (Suc ?k)) (BinaryExprNode op l (Some r)) s2"
    using m(1) i p s2 by (simp add: bnd_Parsed_eq)
  ultimately show "\<exists>s' m. level n ?k s = binary_loop m (level_ops ?k) (level n (Suc ?k)) (BinaryExprNode op l (Some r)) s' \<and>
      wf_parser s' \<and> view s' = ts \<and> length ts < m"
    using s2 by blast
qed

section \<open>Unary operators, parentheses and tests\<close>

definition uparses :: "nat \<Rightarrow> (TokenType \<times> string) list \<Rightarrow> ASTNode \<Rightarrow> bool" where
  "uparses n xs e \<longleftrightarrow>
     (\<forall>m s ts. wf_parser s \<and> view s = xs @ ts \<and> length (view s) \<le> n \<and> length (view s) < m \<and> stops 7 ts \<longrightarrow>
        (\<exists>s'. parseUnary m (parseExpression n) (parseSelect n) s = Parsed e s' \<and> wf_parser s' \<and> view s' = ts))"

definition prefix_ops :: "TokenType list" where
  "prefix_ops = [T_PLUS, T_MINUS, T_NOT]"

lemma parses_from_uparses: "uparses n xs e \<Longrightarrow> parses n 7 xs e"
  unfolding uparses_def parses_def by (auto simp: level_def Let_def simp del: parseUnary.simps)

lemma uparses_from_primary:
  assumes "parses n 8 xs e" and "xs \<noteq> []" and "fst (hd xs) \<notin> set prefix_ops"
  shows "uparses n xs e"
  unfolding uparses_def
proof (intro allI impI)
  fix m s ts
  assume s: "wf_parser s \<and> view s = xs @ ts \<and> length (view s) \<le> n \<and> length (view s) < m \<and> stops 7 ts"
  obtain p vs where xs: "xs = p # vs" using assms(2) by (cases xs) auto
  then have "current_type s = fst p" using s view_Cons(1) [of s "fst p" "snd p" "vs @ ts"] by simp
  then have "map_of unary_operators (current_type s) = None"
    using assms(3) xs by (auto simp: unary_operators_def prefix_ops_def)
  moreover have "stops 8 ts" using s stops_Suc [of 7 ts] by simp
  then obtain s' where "level n 8 s = Parsed e s'" "wf_parser s'" "view s' = ts"
    using assms(1) s unfolding parses_def by blast
  ultimately show "\<exists>s'. parseUnary m (parseExpression n) (parseSelect n) s = Parsed e s' \<and> wf_parser s' \<and> view s' = ts"
    using s by (cases m) (auto simp: level_def Let_def)
qed

lemma uparses_prefix:
  assumes "uparses n xs e" and "op \<in> {OP_PLUS, OP_MINUS, OP_NOT}"
  shows "uparses n (op_tokens op @ xs) (UnaryExprNode op e)"
  unfolding uparses_def
proof (intro allI impI)
  fix m s ts
  assume s: "wf_parser s \<and> view s = (op_tokens op @ xs) @ ts \<and> length (view s) \<le> n \<and> length (view s) < m \<and> stops 7 ts"
  obtain t w where tw: "op_tokens op = [(t, w)]" "map_of unary_operators t = Some op"
    using assms(2) by (auto simp: unary_operators_def)
  obtain i where m: "m = Suc i" using s by (cases m) auto
  have v: "view s = (t, w) # xs @ ts" using s tw by simp
  have v1: "view (after_next s) = xs @ ts" using view_after_next [OF conjunct1 [OF s]] v by simp
  obtain s' where "parseUnary i (parseExpression n) (parseSelect n) (after_next s) = Parsed e s'" "wf_parser s'" "view s' = ts"
    using assms(1) [unfolded uparses_def, rule_format, of "after_next s" ts i] s v v1 m by auto
  then show "\<exists>s'. parseUnary m (parseExpression n) (parseSelect n) s = Parsed (UnaryExprNode op e) s' \<and> wf_parser s' \<and> view s' = ts"
    using m tw(2) view_Cons(1) [OF v] by (simp add: before_next bnd_Parsed_eq ret_def)
qed

lemma parses_parens:
  assumes "parses n 0 xs e" and "xs \<noteq> []" and "fst (hd xs) \<noteq> T_SELECT"
  shows "parses (Suc n) 8 ((T_LPAREN, ''('') # xs @ [(T_RPAREN, '')'')]) e"
  unfolding parses_def
proof (intro allI impI)
  fix s ts
  assume s: "wf_parser s \<and> view s = ((T_LPAREN, ''('') # xs @ [(T_RPAREN, '')'')]) @ ts \<and> length (view s) \<le> Suc n \<and> stops 8 ts"
  obtain p vs where xs: "xs = p # vs" using assms(2) by (cases xs) auto
  have v: "view s = (T_LPAREN, ''('') # xs @ (T_RPAREN, '')'') # ts" using s by simp
  have v1: "view (after_next s) = xs @ (T_RPAREN, '')'') # ts" using view_after_next [of s] s by simp
  have c1: "current_type (after_next s) \<noteq> T_SELECT"
    using assms(3) xs v1 view_Cons(1) [of "after_next s" "fst p" "snd p"] by simp
  have "stops 0 ((T_RPAREN, '')'') # ts)" by (simp add: stops_def goes_on_def less_Suc_eq eval_nat_numeral)
  then obtain s2 where s2: "level n 0 (after_next s) = Parsed e s2" "wf_parser s2" "view s2 = (T_RPAREN, '')'') # ts"
    using assms(1) [unfolded parses_def, rule_format, of "after_next s" "(T_RPAREN, '')'') # ts"] v v1 s by auto
  have "parseExpression (Suc n) (after_next s) = Parsed e s2" using s2(1) by (simp add: level_def Let_def)
  then have "parsePrimary (parseExpression (Suc n)) (parseSelect (Suc n)) s = Parsed e (after_next s2)"
    using skip_view [OF s2(3)] c1
    by (simp add: parsePrimary_def if_match_def view_Cons(1) [OF v] before_next bnd_def before_def [of "skip T_RPAREN"] ret_def)
  moreover have "view (after_next s2) = ts" using view_after_next [OF s2(2)] s2(3) by simp
  ultimately show "\<exists>s'. level (Suc n) 8 s = Parsed e s' \<and> wf_parser s' \<and> view s' = ts"
    by (simp add: level_def Let_def)
qed

lemma level_2: "level n 2 = bnd (level n 3) (\<lambda>l. bnd (parse_is_null l) (\<lambda>l. bnd (parse_in (parseSelect n) l) (parse_between (parseExpression n))))"
  by (auto simp: level_def Let_def parseEquality_def bnd_def split: parse.split)

lemma no_test:
  assumes "stops 2 (view s)"
  shows "parse_is_null l s = Parsed l s" and "parse_in sel l s = Parsed l s" and "parse_between expr l s = Parsed l s"
proof -
  have "current_type s \<notin> {T_IS, T_IN, T_BETWEEN, T_NOT}"
  proof (cases "view s")
    case Nil
    then show ?thesis using view_Nil [OF Nil] by simp
  next
    case (Cons p vs)
    then have "fst p \<notin> set (goes_on 2)" "fst p \<notin> set (goes_on 4)" using assms by (auto simp: stops_def)
    then show ?thesis using view_Cons(1) [of s "fst p" "snd p" vs] Cons by (auto simp: goes_on_def)
  qed
  then show "parse_is_null l s = Parsed l s" "parse_in sel l s = Parsed l s" "parse_between expr l s = Parsed l s"
    by (auto simp: parse_is_null_def if_match_def ret_def parse_in_def parse_between_def)
qed

lemma parses_2:
  assumes "parses n 3 xs e"
  shows "parses n 2 xs e"
  unfolding parses_def
proof (intro allI impI)
  fix s ts assume s: "wf_parser s \<and> view s = xs @ ts \<and> length (view s) \<le> n \<and> stops 2 ts"
  have "stops 3 ts" using s stops_Suc [of 2 ts] by simp
  then obtain s' where s': "level n 3 s = Parsed e s'" "wf_parser s'" "view s' = ts"
    using assms s unfolding parses_def by blast
  then show "\<exists>s'. level n 2 s = Parsed e s' \<and> wf_parser s' \<and> view s' = ts"
    using no_test [of s'] s by (simp add: level_2 bnd_Parsed_eq)
qed

lemma parses_null_test:
  assumes "parses n 3 xs e" and "op \<in> set null_tests"
  shows "parses n 2 (xs @ op_tokens op) (UnaryExprNode op e)"
  unfolding parses_def
proof (intro allI impI)
  fix s ts assume s: "wf_parser s \<and> view s = (xs @ op_tokens op) @ ts \<and> length (view s) \<le> n \<and> stops 2 ts"
  have "stops 3 (op_tokens op @ ts)"
    using assms(2) by (auto simp: null_tests_def stops_def goes_on_def less_Suc_eq eval_nat_numeral)
  then obtain s' where s': "level n 3 s = Parsed e s'" "wf_parser s'" "view s' = op_tokens op @ ts"
    using assms(1) s unfolding parses_def by fastforce
  obtain s2 where s2: "parse_is_null e s' = Parsed (UnaryExprNode op e) s2" "wf_parser s2" "view s2 = ts"
  proof (cases "op = OP_IS_NULL")
    case True
    have v1: "view (after_next s') = (T_NULL, ''NULL'') # ts" using view_after_next [OF s'(2)] s'(3) True by simp
    show thesis
      by (rule that [of "after_next (after_next s')"])
        (use True s' v1 skip_view [OF v1] view_Cons(1) [OF v1] view_Cons(1) [of s' T_IS] in
          \<open>auto simp: parse_is_null_def if_match_def before_next bnd_def before_def [of "skip T_NULL"] ret_def view_after_next\<close>)
  next
    case False
    then have op: "op = OP_IS_NOT_NULL" using assms(2) by (simp add: null_tests_def)
    have v1: "view (after_next s') = (T_NOT, ''NOT'') # (T_NULL, ''NULL'') # ts"
      using view_after_next [OF s'(2)] s'(3) op by simp
    have v2: "view (after_next (after_next s')) = (T_NULL, ''NULL'') # ts" using view_after_next v1 by simp
    show thesis
      by (rule that [of "after_next (after_next (after_next s'))"])
        (use op s' v1 v2 skip_view [OF v2] view_Cons(1) [OF v1] view_Cons(1) [of s' T_IS] in
          \<open>auto simp: parse_is_null_def if_match_def before_next bnd_def before_def [of "skip T_NULL"] ret_def view_after_next\<close>)
  qed
  then show "\<exists>s'. level n 2 s = Parsed (UnaryExprNode op e) s' \<and> wf_parser s' \<and> view s' = ts"
    using no_test [of s2] s s'(1) by (simp add: level_2 bnd_Parsed_eq)
qed

section \<open>All levels\<close>

lemma parses_down:
  assumes "parses n j xs e" and "k \<le> j" and "j \<le> 7"
  shows "parses n k xs e"
  using assms
proof (induction "j - k" arbitrary: k)
  case 0
  then show ?case by simp
next
  case (Suc d)
  then have n: "parses n (Suc k) xs e" by simp
  show ?case
  proof (cases "k = 2")
    case True
    then show ?thesis using parses_2 n by (simp add: eval_nat_numeral)
  next
    case False
    then have "k \<in> binary_levels" using Suc by (auto simp: binary_levels_def)
    then show ?thesis using parses_from_chain loops_on_from_next n by blast
  qed
qed

lemma parses_all:
  assumes "parses n 8 xs e" and "xs \<noteq> []" and "fst (hd xs) \<notin> set prefix_ops" and "k \<le> 8"
  shows "parses n k xs e"
  using assms parses_down [OF parses_from_uparses [OF uparses_from_primary [OF assms(1-3)]], of k]
  by (cases "k = 8") auto

lemma parses_parens_any:
  assumes "\<And>n. parses n 0 xs e" and "xs \<noteq> []" and "fst (hd xs) \<noteq> T_SELECT"
  shows "parses n 8 ((T_LPAREN, ''('') # xs @ [(T_RPAREN, '')'')]) e"
  using parses_parens [OF assms] by (cases n) (auto simp: parses_def)

definition expr_starts :: "TokenType list" where
  "expr_starts = [T_INTEGER, T_STRING, T_BOOLEAN, T_NULL, T_IDENTIFIER, T_LPAREN, T_PLUS, T_MINUS, T_NOT]"

lemma show_expr_start: "expr_ok e \<Longrightarrow> show_expr k e \<noteq> [] \<and> fst (hd (show_expr k e)) \<in> set expr_starts"
proof (induction e arbitrary: k rule: expr_ok.induct)
  case (1 v)
  then show ?case by (auto simp: literal_tokens_def expr_starts_def)
next
  case (3 op l r)
  have "show_expr (op_level op) l \<noteq> [] \<and> fst (hd (show_expr (op_level op) l)) \<in> set expr_starts" using 3 by simp
  then show ?case by (auto simp: in_parens_def expr_starts_def)
next
  case (4 op e)
  have "show_expr 3 e \<noteq> [] \<and> fst (hd (show_expr 3 e)) \<in> set expr_starts" using 4 by simp
  then show ?case using 4(2) by (auto simp: in_parens_def expr_starts_def null_tests_def)
qed (auto simp: expr_starts_def)

lemma in_parens_start: "xs \<noteq> [] \<Longrightarrow> b \<Longrightarrow> in_parens b xs \<noteq> [] \<and> fst (hd (in_parens b xs)) \<notin> set prefix_ops"
  by (simp add: in_parens_def prefix_ops_def)

text \<open>A node whose tokens its own level reads is read at every level, in parentheses where needed.\<close>

lemma parses_in_parens:
  assumes "\<And>n. parses n j xs e" and "j \<le> 7" and "xs \<noteq> []" and "fst (hd xs) \<noteq> T_SELECT" and "k \<le> 8"
  shows "parses n k (in_parens (j < k) xs) e"
proof (cases "j < k")
  case True
  have p: "parses n 0 xs e" for n using parses_down [OF assms(1)] assms(2) by simp
  show ?thesis
    using parses_all [OF parses_parens_any [OF p assms(3,4)]] True assms(5) by (simp add: in_parens_def prefix_ops_def)
next
  case False
  then show ?thesis using parses_down [OF assms(1)] assms(2) by (simp add: in_parens_def)
qed

lemma stoi_dec_nat:
  assumes "i < 2 ^ 31"
  shows "stoi (dec_nat i) = Inr (int i)"
proof -
  have "int i \<le> 2 ^ 31 - 1" using assms by simp
  then have "parse_int (- (2 ^ 31)) (2 ^ 31 - 1) (dec_string (int i)) = Inr (int i)" by (intro parse_int_dec_string) auto
  then show ?thesis by (simp add: stoi_def dec_string_def)
qed

lemma parses_literal:
  assumes "literal_ok v"
  shows "parses n 8 (literal_tokens v) (LiteralNode v)"
  unfolding parses_def
proof (intro allI impI)
  fix s ts assume s: "wf_parser s \<and> view s = literal_tokens v @ ts \<and> length (view s) \<le> n \<and> stops 8 ts"
  have n: "view (after_next s) = ts" using s by (auto simp: view_after_next literal_tokens_def split: if_splits)
  have "parsePrimary (parseExpression n) (parseSelect n) s = Parsed (LiteralNode v) (after_next s)"
  proof -
    consider (int) "vtype v = INTEGER" "v = Value_int (int_val v)" "int_val v < 2 ^ 31"
      | (str) "v = Value_string (str_val v)" | (bool) "v = Value_bool (bool_val v)" | (null) "v = Value_null"
      using assms unfolding literal_ok_def by blast
    then show ?thesis
    proof cases
      case int
      then have v: "view s = (T_INTEGER, dec_nat (unat (int_val v))) # ts" using s by (simp add: literal_tokens_def)
      have "unat (int_val v) < 2 ^ 31" using int(3) by (simp add: word_less_nat_alt)
      then have "stoi (dec_nat (unat (int_val v))) = Inr (int (unat (int_val v)))"
        by (rule stoi_dec_nat)
      then show ?thesis
        using int(2) by (simp add: parsePrimary_def if_match_def view_Cons [OF v] int_literal_def bnd_def before_next ret_def)
    next
      case str
      then have "vtype v = VARCHAR" by (metis Value_string_def Value.simps(1))
      then have v: "view s = (T_STRING, str_val v) # ts" using s by (simp add: literal_tokens_def)
      then show ?thesis
        using str by (simp add: parsePrimary_def if_match_def view_Cons [OF v] current_text_def bnd_def before_next ret_def)
    next
      case bool
      then have "vtype v = BOOLEAN" by (metis Value_bool_def Value.simps(1))
      then have v: "view s = (T_BOOLEAN, if bool_val v then ''TRUE'' else ''FALSE'') # ts" using s by (simp add: literal_tokens_def)
      then show ?thesis
        using bool [symmetric] by (cases "bool_val v") (simp_all add: parsePrimary_def if_match_def view_Cons [OF v] current_text_def bnd_def before_next ret_def)
    next
      case null
      then have v: "view s = (T_NULL, ''NULL'') # ts" using s by (simp add: literal_tokens_def Value_null_def)
      then show ?thesis using null by (simp add: parsePrimary_def if_match_def view_Cons [OF v] before_next ret_def)
    qed
  qed
  then show "\<exists>s'. level n 8 s = Parsed (LiteralNode v) s' \<and> wf_parser s' \<and> view s' = ts"
    using n by (simp add: level_def Let_def)
qed

lemma parses_column:
  "parses n 8 (show_expr 8 (ColumnRefNode t c)) (ColumnRefNode t c)"
  unfolding parses_def
proof (intro allI impI)
  fix s ts
  assume s: "wf_parser s \<and> view s = show_expr 8 (ColumnRefNode t c) @ ts \<and> length (view s) \<le> n \<and> stops 8 ts"
  show "\<exists>s'. level n 8 s = Parsed (ColumnRefNode t c) s' \<and> wf_parser s' \<and> view s' = ts"
  proof (cases "t = []")
    case True
    then have v: "view s = (T_IDENTIFIER, c) # ts" using s by simp
    have v1: "view (after_next s) = ts" using view_after_next [OF conjunct1 [OF s]] v by simp
    have "current_type (after_next s) \<noteq> T_DOT"
    proof (cases ts)
      case Nil
      then show ?thesis using view_Nil [of "after_next s"] v1 by simp
    next
      case (Cons p vs)
      then have "fst p \<notin> set (goes_on 8)" using s by (auto simp: stops_def)
      then show ?thesis using view_Cons(1) [of "after_next s" "fst p" "snd p" vs] v1 Cons by (simp add: goes_on_def)
    qed
    then have "parsePrimary (parseExpression n) (parseSelect n) s = Parsed (ColumnRefNode t c) (after_next s)"
      using True by (simp add: parsePrimary_def if_match_def view_Cons(1) [OF v] bnd_def consume_view [OF v] ret_def)
    then show ?thesis using v1 by (simp add: level_def Let_def)
  next
    case False
    then have v: "view s = (T_IDENTIFIER, t) # (T_DOT, ''.'') # (T_IDENTIFIER, c) # ts" using s by simp
    have v1: "view (after_next s) = (T_DOT, ''.'') # (T_IDENTIFIER, c) # ts"
      using view_after_next [OF conjunct1 [OF s]] v by simp
    have v2: "view (after_next (after_next s)) = (T_IDENTIFIER, c) # ts" using v1 by (simp add: view_after_next)
    have "parsePrimary (parseExpression n) (parseSelect n) s =
        Parsed (ColumnRefNode t c) (after_next (after_next (after_next s)))"
      by (simp add: parsePrimary_def if_match_def view_Cons(1) [OF v] view_Cons(1) [OF v1] bnd_def consume_view [OF v]
          consume_view [OF v2] before_next ret_def)
    then show ?thesis using v2 by (simp add: level_def Let_def view_after_next)
  qed
qed

definition reads_back :: "ASTNode \<Rightarrow> bool" where
  "reads_back e \<longleftrightarrow>
     (\<forall>n k. k \<le> 8 \<longrightarrow> parses n k (show_expr k e) e) \<and> (\<forall>n. uparses n (show_expr 7 e) e) \<and>
     (\<forall>n k. k \<in> binary_levels \<longrightarrow> loops_on n k (show_expr k e) e)"

lemma reads_back_atom:
  assumes "\<And>n. parses n 8 xs e" and "xs \<noteq> []" and "fst (hd xs) \<notin> set prefix_ops" and "\<And>k. show_expr k e = xs"
  shows "reads_back e"
proof -
  have p: "parses n k xs e" if "k \<le> 8" for n k using parses_all [OF assms(1-3) that] .
  moreover have "loops_on n k xs e" if "k \<in> binary_levels" for n k
    using loops_on_from_next [OF that p] that by (auto simp: binary_levels_def)
  ultimately show ?thesis
    using uparses_from_primary [OF assms(1-3)] by (simp add: reads_back_def assms(4))
qed

lemma reads_back_node:
  assumes "\<And>n. parses n j xs e" and "j \<le> 7" and "xs \<noteq> []" and "fst (hd xs) \<noteq> T_SELECT"
    and sh: "\<And>k. show_expr k e = in_parens (j < k) xs"
    and own: "\<And>n. j = 7 \<Longrightarrow> uparses n xs e" "\<And>n. j \<in> binary_levels \<Longrightarrow> loops_on n j xs e"
  shows "reads_back e"
proof -
  have p: "parses n k (show_expr k e) e" if "k \<le> 8" for n k
    using parses_in_parens [OF assms(1-4) that] by (simp add: sh)
  have "uparses n (show_expr 7 e) e" for n
  proof (cases "j = 7")
    case True
    then show ?thesis using own(1) by (simp add: sh in_parens_def)
  next
    case False
    then have "show_expr 7 e = show_expr 8 e" using assms(2) by (simp add: sh in_parens_def)
    moreover have "show_expr 8 e \<noteq> []" "fst (hd (show_expr 8 e)) \<notin> set prefix_ops"
      using assms(2) by (simp_all add: sh in_parens_def prefix_ops_def)
    ultimately show ?thesis using uparses_from_primary [of n "show_expr 8 e" e] p by simp
  qed
  moreover have "loops_on n k (show_expr k e) e" if "k \<in> binary_levels" for n k
  proof (cases "k = j")
    case True
    then show ?thesis using own(2) that by (simp add: sh in_parens_def)
  next
    case False
    then have "show_expr k e = show_expr (Suc k) e" by (auto simp: sh in_parens_def)
    then show ?thesis using loops_on_from_next [OF that, of n "show_expr (Suc k) e" e] p [of "Suc k" n] that
      by (auto simp: binary_levels_def)
  qed
  ultimately show ?thesis using p by (simp add: reads_back_def)
qed

lemma op_level_cases: "op_level op < 8 \<Longrightarrow> op_level op \<in> binary_levels"
  by (cases op) (auto simp: binary_levels_def)

lemma show_expr_not_select: "expr_ok e \<Longrightarrow> show_expr k e \<noteq> [] \<and> fst (hd (show_expr k e)) \<noteq> T_SELECT"
  using show_expr_start [of e k] by (auto simp: expr_starts_def)

lemma expr_reads_back: "expr_ok e \<Longrightarrow> reads_back e"
proof (induction e rule: expr_ok.induct)
  case (1 v)
  then show ?case
    using parses_literal by (intro reads_back_atom [of "literal_tokens v"]) (auto simp: literal_tokens_def prefix_ops_def)
next
  case (2 t c)
  then show ?case
    using parses_column by (intro reads_back_atom [of "show_expr 8 (ColumnRefNode t c)"]) (auto simp: prefix_ops_def)
next
  case (3 op l r)
  let ?j = "op_level op"
  have ok: "?j < 8" "expr_ok l" "reads_back l" "reads_back r" using 3 by auto
  let ?xs = "show_expr ?j l @ op_tokens op @ show_expr (Suc ?j) r"
  have c: "loops_on n ?j ?xs (BinaryExprNode op l (Some r))" for n
    using ok op_level_cases [OF ok(1)] by (intro loops_on_step) (auto simp: reads_back_def)
  have "?j \<noteq> 7" using op_level_cases [OF ok(1)] by (auto simp: binary_levels_def)
  then show ?case
    using parses_from_chain [OF op_level_cases [OF ok(1)] c] c ok show_expr_not_select [OF ok(2), of ?j]
    by (intro reads_back_node [of ?j ?xs]) (auto simp: hd_append op_level_cases binary_levels_def)
next
  case (4 op e)
  have ok: "expr_ok e" "reads_back e" using 4 by auto
  show ?case
  proof (cases "op \<in> set null_tests")
    case True
    have "parses n 2 (show_expr 3 e @ op_tokens op) (UnaryExprNode op e)" for n
      using parses_null_test [OF _ True] ok(2) by (simp add: reads_back_def)
    then show ?thesis
      using True show_expr_not_select [OF ok(1), of 3]
      by (intro reads_back_node [of 2 "show_expr 3 e @ op_tokens op"]) (auto simp: hd_append binary_levels_def)
  next
    case False
    then have op: "op \<in> {OP_PLUS, OP_MINUS, OP_NOT}" using 4(2) by auto
    have u: "uparses n (op_tokens op @ show_expr 7 e) (UnaryExprNode op e)" for n
      using uparses_prefix [OF _ op] ok(2) by (simp add: reads_back_def)
    show ?thesis
      using parses_from_uparses [OF u] u op False
      by (intro reads_back_node [of 7 "op_tokens op @ show_expr 7 e"]) (auto simp: binary_levels_def)
  qed
qed auto

lemma parseExpression_shown:
  assumes "expr_ok e" and "wf_parser s" and "view s = show_expr 0 e @ ts" and "length (view s) < n" and "stops 0 ts"
  shows "\<exists>s'. parseExpression n s = Parsed e s' \<and> wf_parser s' \<and> view s' = ts"
proof -
  obtain m where n: "n = Suc m" using assms(4) by (cases n) auto
  have "parses m 0 (show_expr 0 e) e" using expr_reads_back [OF assms(1)] by (simp add: reads_back_def)
  then have "\<exists>s'. level m 0 s = Parsed e s' \<and> wf_parser s' \<and> view s' = ts"
    using assms n unfolding parses_def by (metis less_Suc_eq_le)
  then show ?thesis by (simp add: n level_def Let_def)
qed

section \<open>From the text\<close>

lemma printable_fixed:
  "printable (T_BOOLEAN, ''TRUE'')" "printable (T_BOOLEAN, ''FALSE'')" "printable (T_NULL, ''NULL'')"
  "printable (T_LPAREN, ''('')" "printable (T_RPAREN, '')'')" "printable (T_DOT, ''.'')"
  "printable (T_SELECT, ''SELECT'')" "printable (T_STAR, ''*'')" "printable (T_FROM, ''FROM'')"
  "printable (T_WHERE, ''WHERE'')"
  by code_simp+

lemma printable_op_tokens: "list_all printable (op_tokens op)"
  by (induction op) code_simp+

lemma printable_integer: "printable (T_INTEGER, dec_nat n)"
proof -
  have "dec_nat n \<noteq> []" by (subst dec_nat.simps) simp
  then show ?thesis using dec_nat_digits [of n] by simp
qed

lemma printable_literal: "literal_ok v \<Longrightarrow> list_all printable (literal_tokens v)"
  using printable_fixed printable_integer
  by (auto simp: literal_ok_def literal_tokens_def Value_null_def simp del: printable.simps)

lemma printable_show_expr: "expr_ok e \<Longrightarrow> list_all printable (show_expr k e)"
proof (induction e arbitrary: k rule: expr_ok.induct)
  case (1 v)
  then show ?case by (simp add: printable_literal)
next
  case (2 t c)
  then show ?case using printable_fixed by (auto simp del: printable.simps)
next
  case (3 op l r)
  then show ?case using printable_fixed printable_op_tokens by (simp add: in_parens_def del: printable.simps)
next
  case (4 op e)
  then show ?case using printable_fixed printable_op_tokens by (auto simp: in_parens_def simp del: printable.simps)
qed auto

definition query_tokens :: "string \<Rightarrow> ASTNode \<Rightarrow> (TokenType \<times> string) list" where
  "query_tokens t e =
     [(T_SELECT, ''SELECT''), (T_STAR, ''*''), (T_FROM, ''FROM''), (T_IDENTIFIER, t), (T_WHERE, ''WHERE'')] @ show_expr 0 e"

definition where_query :: "string \<Rightarrow> ASTNode \<Rightarrow> SelectNode" where
  "where_query t e = SelectNode False [LiteralNode (Value_string ''*'')] [TableRef t [] None] [] (Some e)
     None None None None S_NONE None"

lemma no_clauses:
  assumes "current_type s = T_END_OF_FILE"
  shows "optional T_GROUP p1 s = Parsed None s" "optional T_HAVING p2 s = Parsed None s"
    "optional T_ORDER p3 s = Parsed None s" "optional T_LIMIT p4 s = Parsed None s"
    "parse_set_operation sel s = Parsed (S_NONE, None) s"
  by (auto simp: assms optional_def if_match_def ret_def parse_set_operation_def if_matchAny_def Let_def)

lemma parseSelect_query:
  assumes "expr_ok e" and "wf_parser s" and "view s = query_tokens t e" and "length (view s) < n"
  shows "\<exists>s'. parseSelect n s = Parsed (where_query t e) s' \<and> current_type s' = T_END_OF_FILE"
proof -
  obtain m where n: "n = Suc m" using assms(4) by (cases n) auto
  define s1 where "s1 = after_next s"
  define s2 where "s2 = after_next s1"
  define s3 where "s3 = after_next s2"
  define s4 where "s4 = after_next s3"
  define s5 where "s5 = after_next s4"
  note views = assms(3) [unfolded query_tokens_def, simplified]
  have v1: "view s1 = (T_STAR, ''*'') # (T_FROM, ''FROM'') # (T_IDENTIFIER, t) # (T_WHERE, ''WHERE'') # show_expr 0 e"
    using view_after_next [OF assms(2)] views by (simp add: s1_def)
  have v2: "view s2 = (T_FROM, ''FROM'') # (T_IDENTIFIER, t) # (T_WHERE, ''WHERE'') # show_expr 0 e"
    using v1 by (simp add: s2_def s1_def view_after_next)
  have v3: "view s3 = (T_IDENTIFIER, t) # (T_WHERE, ''WHERE'') # show_expr 0 e"
    using v2 by (simp add: s3_def s2_def view_after_next)
  have v4: "view s4 = (T_WHERE, ''WHERE'') # show_expr 0 e" using v3 by (simp add: s4_def s3_def view_after_next)
  have v5: "view s5 = show_expr 0 e @ []" using v4 by (simp add: s5_def s4_def view_after_next)
  have "length (view s5) < m" using assms(4) v5 n by (simp add: views)
  then obtain s6 where s6: "parseExpression m s5 = Parsed e s6" "view s6 = []"
    using parseExpression_shown [OF assms(1) _ v5, of m] by (auto simp: s5_def stops_def)
  have "consume T_SELECT s = Parsed ''SELECT'' s1" using consume_view [OF views] by (simp add: s1_def)
  moreover have "parseSelectList n (parseExpression m) s1 = Parsed [LiteralNode (Value_string ''*'')] s2"
    using view_Cons(1) [OF v1] view_Cons(1) [OF v2]
    by (simp add: n parseSelectList_def if_match_def before_next bnd_def ret_def s2_def)
  moreover have "comma_loop n (parse_table_ref (parseSelect m)) s3 = Parsed [TableRef t [] None] s4"
    using view_Cons(1) [OF v3] view_Cons(1) [OF v4] consume_view [OF v3]
    by (simp add: n parse_table_ref_def optional_alias_def if_match_def bnd_def ret_def s4_def)
  moreover have "join_loop n (parseExpression m) n s4 = Parsed [] s4"
    using view_Cons(1) [OF v4] by (simp add: n if_matchAny_def join_starts_def ret_def)
  moreover have "optional T_WHERE (parseWhere (parseExpression m)) s4 = Parsed (Some e) s6"
    using view_Cons(1) [OF v4] consume_view [OF v4] s6(1)
    by (simp add: optional_def if_match_def parseWhere_def before_def bnd_def ret_def s5_def)
  moreover have "if_match T_DISTINCT (before next_token (ret True)) (if_match T_ALL (before next_token (ret False)) (ret False)) s1 =
      Parsed False s1"
    using view_Cons(1) [OF v1] by (simp add: if_match_def ret_def)
  moreover have "if_match T_FROM (ret ()) (parse_error From_after_list) s2 = Parsed () s2"
    using view_Cons(1) [OF v2] by (simp add: if_match_def ret_def)
  ultimately have "select_body n (parseExpression m) (parseSelect m) s = Parsed (where_query t e) s6"
    by (simp add: no_clauses [OF view_Nil [OF s6(2)]] select_body_def before_def bnd_Parsed_eq bnd_Parsed_False
        next_token_eq s3_def [symmetric] where_query_def ret_def [of "SelectNode _ _ _ _ _ _ _ _ _ _ _"])
  then show ?thesis using view_Nil [OF s6(2)] by (simp add: n)
qed

section \<open>Properties\<close>

text \<open>
  C5: Printing and parsing expressions: an expression of literals, columns, unary and binary
  operators and tests for null, printed with only the parentheses that the precedence and the
  left association of the operators require, put into the text of a query and given to the
  parser, is the condition of the statement it returns. The text goes through the lexer, so the
  names and the strings have to be in upper case and the strings without quotes and escapes; integer
  literals are not negative. BETWEEN, IN, LIKE, function calls, CASE and subqueries are not covered.
\<close>

theorem expression_roundtrip:
  assumes "expr_ok e" and "printable (T_IDENTIFIER, t)" and "length (query_tokens t e) < n"
  shows "\<exists>s'. parse n (print_tokens (query_tokens t e)) s = Parsed (Select (where_query t e)) s'"
proof -
  let ?s = "after_next (s\<lparr>lexer := Lexer_new (print_tokens (query_tokens t e))\<rparr>)"
  have "list_all printable (query_tokens t e)"
    using printable_show_expr [OF assms(1), of 0] assms(2) printable_fixed
    by (simp add: query_tokens_def del: printable.simps)
  then have v: "view ?s = query_tokens t e"
    using tokens_printed_new by (simp add: view_def remaining_after_next_tokens)
  have "length (view ?s) < n" using v assms(3) by simp
  then obtain s' where s': "parseSelect n ?s = Parsed (where_query t e) s'" "current_type s' = T_END_OF_FILE"
    using parseSelect_query [OF assms(1) wf_after_next v] by blast
  have "current_type ?s = T_SELECT" using view_Cons(1) [of ?s T_SELECT "''SELECT''"] v by (simp add: query_tokens_def)
  then have "parseStatement n ?s = Parsed (Select (where_query t e)) s'"
    using s'(1) by (simp add: parseStatement_def if_match_def bnd_Parsed_eq ret_def)
  then show ?thesis
    using s'(2) by (simp add: parse_def before_next bnd_Parsed_eq if_match_def ret_def)
qed

definition example_expr :: ASTNode where
  "example_expr = BinaryExprNode OP_MULTIPLY
     (BinaryExprNode OP_PLUS (ColumnRefNode [] ''A'') (Some (LiteralNode (Value_int 1))))
     (Some (UnaryExprNode OP_MINUS (ColumnRefNode ''T'' ''B'')))"

theorem expression_roundtrip_witness:
  "\<exists>s'. parse 20 (print_tokens (query_tokens ''T'' example_expr)) Parser_new = Parsed (Select (where_query ''T'' example_expr)) s'"
proof -
  have "expr_ok example_expr" by code_simp
  moreover have "printable (T_IDENTIFIER, ''T'')" by code_simp
  moreover have "length (query_tokens ''T'' example_expr) < 20" by code_simp
  ultimately show ?thesis by (rule expression_roundtrip)
qed

end
