(* ===== verification/Utils.thy ===== *)
theory Utils
  imports StdText
begin

text \<open>
  \<^verbatim>\<open>include/utils.h\<close>: the helpers on strings, numbers and bytes. Random choices of
  \<^verbatim>\<open>uuid::generate\<close> are arguments. The helpers that print the time, call the file system
  or work on \<^verbatim>\<open>double\<close> are left out.
\<close>

unbundle bit_operations_syntax

section \<open>Strings\<close>

definition trim_set :: "char set" where
  "trim_set = {CHR '' '', CHR 0x09, CHR 0x0A, CHR 0x0D}"

text \<open>
  \<^verbatim>\<open>find_first_not_of\<close> and \<^verbatim>\<open>find_last_not_of\<close>; the positions are below the length.
\<close>

definition find_first_not_of :: "char set \<Rightarrow> string \<Rightarrow> nat option" where
  "find_first_not_of A s = find (\<lambda>i. s ! i \<notin> A) [0..<length s]"

definition find_last_not_of :: "char set \<Rightarrow> string \<Rightarrow> nat option" where
  "find_last_not_of A s = find (\<lambda>i. s ! i \<notin> A) (rev [0..<length s])"

definition find_last_of :: "char set \<Rightarrow> string \<Rightarrow> nat option" where
  "find_last_of A s = find (\<lambda>i. s ! i \<in> A) (rev [0..<length s])"

definition trim :: "string \<Rightarrow> string" where
  "trim s =
     (case find_first_not_of trim_set s of
        None \<Rightarrow> []
      | Some f \<Rightarrow> (case find_last_not_of trim_set s of None \<Rightarrow> [] | Some l \<Rightarrow> take (l - f + 1) (drop f s)))"

definition to_lower :: "char \<Rightarrow> char" where
  "to_lower c = (if is_upper c then char_of (of_char c + 32 :: nat) else c)"

definition toLower :: "string \<Rightarrow> string" where
  "toLower s = map to_lower s"

definition toUpper :: "string \<Rightarrow> string" where
  "toUpper s = map to_upper s"

text \<open>\<^verbatim>\<open>std::getline\<close> in a loop: at the end of the input it gives no further line.\<close>

function split_string :: "string \<Rightarrow> char \<Rightarrow> string list" where
  "split_string s d =
     (if s = [] then []
      else let tok = takeWhile (\<lambda>c. c \<noteq> d) s; r = split_string (drop (length tok + 1) s) d
           in if tok = [] then r else tok # r)"
  by pat_completeness auto
termination by (relation "measure (\<lambda>(s, d). length s)") auto

declare split_string.simps [simp del]

fun join_strings :: "string list \<Rightarrow> string \<Rightarrow> string" where
  "join_strings [] d = []"
| "join_strings (p # ps) d = fold (\<lambda>q r. r @ d @ q) ps p"

definition startsWith :: "string \<Rightarrow> string \<Rightarrow> bool" where
  "startsWith s p \<longleftrightarrow> length p \<le> length s \<and> take (length p) s = p"

definition endsWith :: "string \<Rightarrow> string \<Rightarrow> bool" where
  "endsWith s p \<longleftrightarrow> length p \<le> length s \<and> drop (length s - length p) s = p"

partial_function (option) replace_loop :: "string \<Rightarrow> string \<Rightarrow> string \<Rightarrow> nat \<Rightarrow> string option" where
  "replace_loop from to s p =
     (case find_sub from s p of
        None \<Rightarrow> Some s
      | Some i \<Rightarrow> replace_loop from to (take i s @ to @ drop (i + length from) s) (i + length to))"

definition replace_string :: "string \<Rightarrow> string \<Rightarrow> string \<Rightarrow> string option" where
  "replace_string s from to = replace_loop from to s 0"

section \<open>Paths\<close>

definition separators :: "char set" where
  "separators = {CHR ''/'', CHR 0x5C}"

definition dirname :: "string \<Rightarrow> string" where
  "dirname p = (case find_last_of separators p of None \<Rightarrow> ''.'' | Some i \<Rightarrow> take i p)"

definition basename :: "string \<Rightarrow> string" where
  "basename p = (case find_last_of separators p of None \<Rightarrow> p | Some i \<Rightarrow> drop (i + 1) p)"

definition extension :: "string \<Rightarrow> string" where
  "extension p = (case find_last_of {CHR ''.''} p of None \<Rightarrow> [] | Some i \<Rightarrow> drop i p)"

section \<open>Numbers\<close>

definition clamp :: "'a::linorder \<Rightarrow> 'a \<Rightarrow> 'a \<Rightarrow> 'a" where
  "clamp v lo hi = max lo (min hi v)"

definition smear :: "nat \<Rightarrow> u64 \<Rightarrow> u64" where
  "smear k n = n OR drop_bit k n"

definition nextPowerOfTwo :: "u64 \<Rightarrow> u64" where
  "nextPowerOfTwo n = smear 32 (smear 16 (smear 8 (smear 4 (smear 2 (smear 1 (n - 1)))))) + 1"

definition alignUp :: "u64 \<Rightarrow> u64 \<Rightarrow> u64" where
  "alignUp s a = (s + a - 1) AND NOT (a - 1)"

definition alignDown :: "u64 \<Rightarrow> u64 \<Rightarrow> u64" where
  "alignDown s a = s AND NOT (a - 1)"

definition isAligned :: "u64 \<Rightarrow> u64 \<Rightarrow> bool" where
  "isAligned p a \<longleftrightarrow> p AND (a - 1) = 0"

section \<open>Base64\<close>

definition b64_table :: string where
  "b64_table = ''ABCDEFGHIJKLMNOPQRSTUVWXYZabcdefghijklmnopqrstuvwxyz0123456789+/''"

definition b64_char :: "u32 \<Rightarrow> char" where
  "b64_char v = b64_table ! unat (v AND 0x3F)"

fun emit_sextets :: "u32 \<Rightarrow> nat \<Rightarrow> string" where
  "emit_sextets temp bits =
     (if bits \<ge> 6 then b64_char (drop_bit (bits - 6) temp) # emit_sextets temp (bits - 6) else [])"

declare emit_sextets.simps [simp del]

fun encode_loop :: "u32 \<Rightarrow> nat \<Rightarrow> bytes \<Rightarrow> string" where
  "encode_loop temp bits [] = (if bits > 0 then [b64_char (push_bit (6 - bits) temp)] else [])"
| "encode_loop temp bits (b # bs) =
     (let temp = push_bit 8 temp OR ucast b; bits = bits + 8
      in emit_sextets temp bits @ encode_loop temp (bits mod 6) bs)"

definition pad4 :: "string \<Rightarrow> string" where
  "pad4 s = s @ replicate ((4 - length s mod 4) mod 4) (CHR ''='')"

definition base64_encode :: "bytes \<Rightarrow> string" where
  "base64_encode bs = pad4 (encode_loop 0 0 bs)"

text \<open>
  \<^verbatim>\<open>strchr\<close> finds the terminating zero of the table too, at position 64.
\<close>

definition b64_index :: "char \<Rightarrow> u8 option" where
  "b64_index c =
     (if c = CHR 0x00 then Some 64
      else map_option of_nat (find (\<lambda>i. b64_table ! i = c) [0..<length b64_table]))"

fun decode_loop :: "u32 \<Rightarrow> nat \<Rightarrow> string \<Rightarrow> bytes" where
  "decode_loop temp bits [] = []"
| "decode_loop temp bits (c # cs) =
     (if c = CHR ''='' then []
      else case b64_index c of
        None \<Rightarrow> decode_loop temp bits cs
      | Some v \<Rightarrow>
          let temp = push_bit 6 temp OR ucast v; bits = bits + 6 in
          if bits \<ge> 8 then ucast (drop_bit (bits - 8) temp) # decode_loop temp (bits - 8) cs
          else decode_loop temp bits cs)"

definition base64_decode :: "string \<Rightarrow> bytes" where
  "base64_decode s = decode_loop 0 0 s"

section \<open>CRC32\<close>

definition crc32_table :: "u32 list" where
  "crc32_table = [
     0x00000000, 0x77073096, 0xEE0E612C, 0x990951BA, 0x076DC419, 0x706AF48F, 0xE963A535, 0x9E6495A3,
     0x0EDB8832, 0x79DCB8A4, 0xE0D5E91E, 0x97D2D988, 0x09B64C2B, 0x7EB17CBD, 0xE7B82D07, 0x90BF1D91,
     0x1DB71064, 0x6AB020F2, 0xF3B97148, 0x84BE41DE, 0x1ADAD47D, 0x6DDDE4EB, 0xF4D4B551, 0x83D385C7,
     0x136C9856, 0x646BA8C0, 0xFD62F97A, 0x8A65C9EC, 0x14015C4F, 0x63066CD9, 0xFA0F3D63, 0x8D080DF5,
     0x3B6E20C8, 0x4C69105E, 0xD56041E4, 0xA2677172, 0x3C03E4D1, 0x4B04D447, 0xD20D85FD, 0xA50AB56B,
     0x35B5A8FA, 0x42B2986C, 0xDBBBC9D6, 0xACBCF940, 0x32D86CE3, 0x45DF5C75, 0xDCD60DCF, 0xABD13D59,
     0x26D930AC, 0x51DE003A, 0xC8D75180, 0xBFD06116, 0x21B4F4B5, 0x56B3C423, 0xCFBA9599, 0xB8BDA50F,
     0x2802B89E, 0x5F058808, 0xC60CD9B2, 0xB10BE924, 0x2F6F7C87, 0x58684C11, 0xC1611DAB, 0xB6662D3D,
     0x76DC4190, 0x01DB7106, 0x98D220BC, 0xEFD5102A, 0x71B18589, 0x06B6B51F, 0x9FBFE4A5, 0xE8B8D433,
     0x7807C9A2, 0x0F00F934, 0x9609A88E, 0xE10E9818, 0x7F6A0DBB, 0x086D3D2D, 0x91646C97, 0xE6635C01,
     0x6B6B51F4, 0x1C6C6162, 0x856530D8, 0xF262004E, 0x6C0695ED, 0x1B01A57B, 0x8208F4C1, 0xF50FC457,
     0x65B0D9C6, 0x12B7E950, 0x8BBEB8EA, 0xFCB9887C, 0x62DD1DDF, 0x15DA2D49, 0x8CD37CF3, 0xFBD44C65,
     0x4DB26158, 0x3AB551CE, 0xA3BC0074, 0xD4BB30E2, 0x4ADFA541, 0x3DD895D7, 0xA4D1C46D, 0xD3D6F4FB,
     0x4369E96A, 0x346ED9FC, 0xAD678846, 0xDA60B8D0, 0x44042D73, 0x33031DE5, 0xAA0A4C5F, 0xDD0D7CC9,
     0x5005713C, 0x270241AA, 0xBE0B1010, 0xC90C2086, 0x5768B525, 0x206F85B3, 0xB966D409, 0xCE61E49F,
     0x5EDEF90E, 0x29D9C998, 0xB0D09822, 0xC7D7A8B4, 0x59B33D17, 0x2EB40D81, 0xB7BD5C3B, 0xC0BA6CAD,
     0xEDB88320, 0x9ABFB3B6, 0x03B6E20C, 0x74B1D29A, 0xEAD54739, 0x9DD277AF, 0x04DB2615, 0x73DC1683,
     0xE3630B12, 0x94643B84, 0x0D6D6A3E, 0x7A6A5AA8, 0xE40ECF0B, 0x9309FF9D, 0x0A00AE27, 0x7D079EB1,
     0xF00F9344, 0x8708A3D2, 0x1E01F268, 0x6906C2FE, 0xF762575D, 0x806567CB, 0x196C3671, 0x6E6B06E7,
     0xFED41B76, 0x89D32BE0, 0x10DA7A5A, 0x67DD4ACC, 0xF9B9DF6F, 0x8EBEEFF9, 0x17B7BE43, 0x60B08ED5,
     0xD6D6A3E8, 0xA1D1937E, 0x38D8C2C4, 0x4FDFF252, 0xD1BB67F1, 0xA6BC5767, 0x3FB506DD, 0x48B2364B,
     0xD80D2BDA, 0xAF0A1B4C, 0x36034AF6, 0x41047A60, 0xDF60EFC3, 0xA867DF55, 0x316E8EEF, 0x4669BE79,
     0xCB61B38C, 0xBC66831A, 0x256FD2A0, 0x5268E236, 0xCC0C7795, 0xBB0B4703, 0x220216B9, 0x5505262F,
     0xC5BA3BBE, 0xB2BD0B28, 0x2BB45A92, 0x5CB36A04, 0xC2D7FFA7, 0xB5D0CF31, 0x2CD99E8B, 0x5BDEAE1D,
     0x9B64C2B0, 0xEC63F226, 0x756AA39C, 0x026D930A, 0x9C0906A9, 0xEB0E363F, 0x72076785, 0x05005713,
     0x95BF4A82, 0xE2B87A14, 0x7BB12BAE, 0x0CB61B38, 0x92D28E9B, 0xE5D5BE0D, 0x7CDCEFB7, 0x0BDBDF21,
     0x86D3D2D4, 0xF1D4E242, 0x68DDB3F8, 0x1FDA836E, 0x81BE16CD, 0xF6B9265B, 0x6FB077E1, 0x18B74777,
     0x88085AE6, 0xFF0F6A70, 0x66063BCA, 0x11010B5C, 0x8F659EFF, 0xF862AE69, 0x616BFFD3, 0x166CCF45,
     0xA00AE278, 0xD70DD2EE, 0x4E048354, 0x3903B3C2, 0xA7672661, 0xD06016F7, 0x4969474D, 0x3E6E77DB,
     0xAED16A4A, 0xD9D65ADC, 0x40DF0B66, 0x37D83BF0, 0xA9BCAE53, 0xDEBB9EC5, 0x47B2CF7F, 0x30B5FFE9,
     0xBDBDF21C, 0xCABAC28A, 0x53B39330, 0x24B4A3A6, 0xBAD03605, 0xCDD70693, 0x54DE5729, 0x23D967BF,
     0xB3667A2E, 0xC4614AB8, 0x5D681B02, 0x2A6F2B94, 0xB40BBE37, 0xC30C8EA1, 0x5A05DF1B, 0x2D02EF8D]"

definition crc_byte :: "u32 \<Rightarrow> u8 \<Rightarrow> u32" where
  "crc_byte crc b = crc32_table ! unat ((crc XOR ucast b) AND 0xFF) XOR drop_bit 8 crc"

definition crc32_calculate :: "bytes \<Rightarrow> u32 \<Rightarrow> u32" where
  "crc32_calculate bs crc = NOT (fold (\<lambda>b c. crc_byte c b) bs (NOT crc))"

section \<open>UUIDs\<close>

definition hex_digit :: "nat \<Rightarrow> char" where
  "hex_digit d = (if d < 10 then char_of (48 + d) else char_of (87 + d))"

text \<open>
  The draws of \<^verbatim>\<open>dis\<close> and \<^verbatim>\<open>dis2\<close> in the order of the calls; each draw of
  \<^verbatim>\<open>dis\<close> is between 0 and 15, the one of \<^verbatim>\<open>dis2\<close> between 8 and 11.
\<close>

definition uuid_generate :: "(nat \<Rightarrow> nat) \<Rightarrow> nat \<Rightarrow> string" where
  "uuid_generate dis dis2 =
     map (\<lambda>i. hex_digit (dis i)) [0..<8] @ ''-'' @ map (\<lambda>i. hex_digit (dis i)) [8..<12] @ ''-4'' @
     map (\<lambda>i. hex_digit (dis i)) [12..<15] @ ''-'' @ [hex_digit dis2] @ map (\<lambda>i. hex_digit (dis i)) [15..<18] @
     ''-'' @ map (\<lambda>i. hex_digit (dis i)) [18..<30]"

definition is_xdigit :: "char \<Rightarrow> bool" where
  "is_xdigit c \<longleftrightarrow> is_digit c \<or> (of_char c :: nat) \<in> {65..70} \<or> (of_char c :: nat) \<in> {97..102}"

definition uuid_isValid :: "string \<Rightarrow> bool" where
  "uuid_isValid s \<longleftrightarrow> length s = 36 \<and>
     list_all (\<lambda>i. if i \<in> {8, 13, 18, 23} then s ! i = CHR ''-'' else is_xdigit (s ! i)) [0..<36]"

section \<open>The CRC against its definition\<close>

text \<open>One step of the division by the polynomial, least significant bit first.\<close>

definition crc_step :: "u32 \<Rightarrow> u32" where
  "crc_step c = (if bit c 0 then drop_bit 1 c XOR 0xEDB88320 else drop_bit 1 c)"

definition crc_bits :: "nat \<Rightarrow> u32 \<Rightarrow> u32" where
  "crc_bits n c = (crc_step ^^ n) c"

definition crc_basis :: "u32 list" where
  "crc_basis = [0x77073096, 0xEE0E612C, 0x076DC419, 0x0EDB8832, 0x1DB71064, 0x3B6E20C8, 0x76DC4190, 0xEDB88320]"

definition xor_table :: "u32 list \<Rightarrow> u32 list" where
  "xor_table bs = foldl (\<lambda>t b. t @ map (\<lambda>x. x XOR b) t) [0] bs"

lemma xor_table_snoc: "xor_table (bs @ [b]) = xor_table bs @ map (\<lambda>x. x XOR b) (xor_table bs)"
  by (simp add: xor_table_def)

lemma crc32_table_xor: "crc32_table = xor_table crc_basis"
proof -
  let ?q = "\<lambda>k. take 64 (drop (64 * k) crc32_table)"
  have q: "xor_table (take 6 crc_basis) = ?q 0" by (simp add: crc32_table_def xor_table_def crc_basis_def)
  have q1: "map (\<lambda>x. x XOR 0x76DC4190) (?q 0) = ?q 1" by (simp add: crc32_table_def)
  have q2: "map (\<lambda>x. x XOR 0xEDB88320) (?q 0) = ?q 2" by (simp add: crc32_table_def)
  have q3: "map (\<lambda>x. x XOR 0xEDB88320) (?q 1) = ?q 3" by (simp add: crc32_table_def)
  have "crc_basis = (take 6 crc_basis @ [0x76DC4190]) @ [0xEDB88320]" by (simp add: crc_basis_def)
  then have "xor_table crc_basis = xor_table ((take 6 crc_basis @ [0x76DC4190]) @ [0xEDB88320])" by (rule arg_cong)
  also have "\<dots> = (?q 0 @ ?q 1) @ (?q 2 @ ?q 3)" by (simp only: xor_table_snoc q q1 q2 q3 map_append)
  finally have "xor_table crc_basis = (?q 0 @ ?q 1) @ (?q 2 @ ?q 3)" .
  moreover have "length crc32_table = 256" by (simp add: crc32_table_def)
  then have "crc32_table = ?q 0 @ ?q 1 @ ?q 2 @ ?q 3"
    using take_add [of 64 64 crc32_table] take_add [of 128 64 crc32_table] take_add [of 192 64 crc32_table] by simp
  ultimately show ?thesis by simp
qed

lemma crc_basis_bits: "k < 8 \<Longrightarrow> crc_bits 8 (2 ^ k) = crc_basis ! k"
proof -
  have "list_all (\<lambda>k. crc_bits 8 (2 ^ k) = crc_basis ! k) [0..<8]" by code_simp
  then show "k < 8 \<Longrightarrow> ?thesis" by (simp add: list_all_iff)
qed

lemma crc_step_xor: "crc_step (x XOR y) = crc_step x XOR crc_step y"
  by (simp add: crc_step_def bit_xor_iff ac_simps)

lemma crc_bits_xor: "crc_bits n (x XOR y) = crc_bits n x XOR crc_bits n y"
  unfolding crc_bits_def by (induction n) (simp_all add: crc_step_xor)

lemma crc_step_0 [simp]: "crc_step 0 = 0"
  by (simp add: crc_step_def)

lemma crc_bits_0 [simp]: "crc_bits n 0 = 0"
  unfolding crc_bits_def by (induction n) simp_all

lemma length_xor_table: "length (xor_table bs) = 2 ^ length bs"
  by (induction bs rule: rev_induct) (simp_all add: xor_table_snoc, simp add: xor_table_def)

text \<open>A table of the sums of a basis holds the values of the linear function with that basis.\<close>

lemma nth_xor_table:
  fixes L :: "u32 \<Rightarrow> u32"
  assumes "\<And>x y. L (x XOR y) = L x XOR L y" and "length bs < 32" and "\<And>k. k < length bs \<Longrightarrow> L (2 ^ k) = bs ! k"
    and "i < 2 ^ length bs"
  shows "xor_table bs ! i = L (of_nat i)"
  using assms(2-4)
proof (induction bs arbitrary: i rule: rev_induct)
  case Nil
  have "L 0 = 0" using assms(1) [of 0 0] by simp
  with Nil show ?case by (simp add: xor_table_def)
next
  case (snoc b bs)
  let ?n = "length bs"
  have ih: "xor_table bs ! j = L (of_nat j)" if "j < 2 ^ ?n" for j
    using snoc.IH [OF _ _ that] snoc.prems by (simp add: nth_append)
  have b: "L (2 ^ ?n) = b" using snoc.prems(2) [of ?n] by simp
  show ?case
  proof (cases "i < 2 ^ ?n")
    case True
    then show ?thesis using ih by (simp add: xor_table_snoc nth_append length_xor_table)
  next
    case False
    define j where "j = i - 2 ^ ?n"
    have j: "j < 2 ^ ?n" "i = j + 2 ^ ?n" using False snoc.prems(3) by (simp_all add: j_def)
    have "(of_nat i :: u32) = of_nat j XOR 2 ^ ?n"
    proof (rule bit_word_eqI)
      fix k assume "k < LENGTH(32)"
      have nb: "\<not> bit j m" if "?n \<le> m" for m
        using j(1) that by (metis bit_take_bit_iff not_le take_bit_nat_eq_self_iff)
      have "i = j OR 2 ^ ?n"
        using j(2) nb by (subst disjunctive_add [symmetric]) (auto simp: bit_exp_iff)
      then show "bit (of_nat i :: u32) k = bit (of_nat j XOR 2 ^ ?n :: u32) k"
        using nb by (auto simp: bit_of_nat_iff bit_xor_iff bit_or_iff bit_exp_iff possible_bit_def)
    qed
    then have "L (of_nat i) = L (of_nat j) XOR b" using assms(1) b by simp
    then show ?thesis using False j ih [OF j(1)] by (simp add: xor_table_snoc nth_append length_xor_table)
  qed
qed

lemma crc32_table_bits: "i < 256 \<Longrightarrow> crc32_table ! i = crc_bits 8 (of_nat i)"
  unfolding crc32_table_xor
  using crc_basis_bits by (intro nth_xor_table crc_bits_xor) (auto simp: crc_basis_def)

lemma crc_bits_clear: "(\<And>k. k < n \<Longrightarrow> \<not> bit w k) \<Longrightarrow> crc_bits n w = drop_bit n w"
proof (induction n arbitrary: w)
  case 0
  then show ?case by (simp add: crc_bits_def)
next
  case (Suc n)
  have "crc_bits (Suc n) w = crc_bits n (crc_step w)" by (simp add: crc_bits_def funpow_swap1)
  also have "crc_step w = drop_bit 1 w" using Suc.prems [of 0] by (simp add: crc_step_def)
  also have "crc_bits n (drop_bit 1 w) = drop_bit n (drop_bit 1 w)"
    using Suc.prems by (intro Suc.IH) (simp add: bit_drop_bit_eq)
  finally show ?case by (simp add: ac_simps)
qed

lemma xor_zero_word: "x XOR y = 0 \<longleftrightarrow> x = (y :: 'a::len word)"
  by (auto simp: bit_eq_iff bit_xor_iff)

lemma xor_cancel_word: "x XOR z = y XOR z \<longleftrightarrow> x = (y :: 'a::len word)"
  by (auto simp: bit_eq_iff bit_xor_iff)

lemma unat_and_mask_8: "unat (w AND mask 8 :: u32) < 256"
  using take_bit_nat_less_exp [of 8 "unat w"] by (simp flip: take_bit_eq_mask add: unsigned_take_bit_eq)

lemma crc_byte_bits: "crc_byte c b = crc_bits 8 (c XOR ucast b)"
proof -
  let ?x = "c XOR ucast b :: u32" and ?m = "mask 8 :: u32"
  have "?x = (?x AND ?m) XOR (?x AND NOT ?m)"
    by (rule bit_word_eqI) (auto simp: bit_xor_iff bit_and_iff bit_not_iff)
  then have "crc_bits 8 ?x = crc_bits 8 (?x AND ?m) XOR crc_bits 8 (?x AND NOT ?m)"
    by (metis crc_bits_xor)
  moreover have "crc_bits 8 (?x AND NOT ?m) = drop_bit 8 (?x AND NOT ?m)"
    by (rule crc_bits_clear) (simp add: bit_and_iff bit_not_iff bit_mask_iff)
  moreover have "drop_bit 8 (?x AND NOT ?m) = drop_bit 8 c"
    by (rule bit_word_eqI) (auto simp: bit_drop_bit_eq bit_and_iff bit_not_iff bit_mask_iff bit_xor_iff bit_ucast_iff
        dest: bit_imp_le_length)
  moreover have "crc32_table ! unat (?x AND ?m) = crc_bits 8 (?x AND ?m)"
  proof -
    have "unat (?x AND ?m) < 256" by (rule unat_and_mask_8)
    then show ?thesis using crc32_table_bits [of "unat (?x AND ?m)"] by simp
  qed
  moreover have "(0xFF :: u32) = ?m" by (simp add: mask_eq_exp_minus_1)
  ultimately show ?thesis by (simp add: crc_byte_def)
qed

lemma crc_step_zero: "crc_step z = 0 \<Longrightarrow> z = 0"
proof (rule bit_word_eqI)
  fix k assume z: "crc_step z = 0" and k: "k < LENGTH(32)"
  have b0: "\<not> bit z 0"
  proof
    assume "bit z 0"
    then have "drop_bit 1 z = 0xEDB88320" using z by (simp add: crc_step_def xor_zero_word)
    then have "bit (drop_bit 1 z) 31" by simp
    then show False by (auto simp: bit_drop_bit_eq dest: bit_imp_le_length)
  qed
  then have "drop_bit 1 z = 0" using z by (simp add: crc_step_def)
  moreover have "bit z (Suc j) = bit (drop_bit 1 z) j" for j by (simp add: bit_drop_bit_eq)
  ultimately have "\<not> bit z (Suc j)" for j by simp
  with b0 show "bit z k = bit 0 k" by (cases k) auto
qed

lemma crc_bits_inj: "crc_bits n x = crc_bits n y \<Longrightarrow> x = y"
proof -
  assume "crc_bits n x = crc_bits n y"
  then have "crc_bits n (x XOR y) = 0" by (simp add: crc_bits_xor)
  then have "x XOR y = 0" unfolding crc_bits_def by (induction n) (auto dest: crc_step_zero)
  then show ?thesis by (simp add: xor_zero_word)
qed

lemma crc_fold_inj: "fold (\<lambda>b c. crc_byte c b) bs x = fold (\<lambda>b c. crc_byte c b) bs y \<Longrightarrow> x = y"
proof (induction bs arbitrary: x y)
  case (Cons b bs)
  then have "crc_bits 8 (x XOR ucast b) = crc_bits 8 (y XOR ucast b)" by (auto simp: crc_byte_bits)
  then have "x XOR ucast b = y XOR ucast b" by (rule crc_bits_inj)
  then show ?case by (simp add: xor_cancel_word)
qed simp

section \<open>Base64\<close>

text \<open>The lowest bits of a word, the most significant first.\<close>

definition low_bits :: "nat \<Rightarrow> 'a::len word \<Rightarrow> bool list" where
  "low_bits n w = map (bit w) (rev [0..<n])"

lemma length_low_bits [simp]: "length (low_bits n w) = n"
  by (simp add: low_bits_def)

lemma low_bits_0 [simp]: "low_bits 0 w = []"
  by (simp add: low_bits_def)

lemma low_bits_Suc: "low_bits (Suc n) w = bit w n # low_bits n w"
  by (simp add: low_bits_def)

lemma low_bits_add: "low_bits (m + n) w = low_bits m (drop_bit n w) @ low_bits n w"
  by (induction m) (simp_all add: low_bits_Suc bit_drop_bit_eq ac_simps)

lemma low_bits_ucast: "low_bits 8 (ucast w :: u8) = low_bits 8 (w :: u32)"
  by (simp add: low_bits_def bit_ucast_iff)

lemma low_bits_cong: "(\<And>k. k < n \<Longrightarrow> bit v k = bit w k) \<Longrightarrow> low_bits n v = low_bits n w"
  by (simp add: low_bits_def)

lemma low_bits_push: "k + n \<le> 32 \<Longrightarrow> n \<le> LENGTH('b) \<Longrightarrow> (\<And>j. n \<le> j \<Longrightarrow> \<not> bit b j) \<Longrightarrow>
   low_bits (k + n) (push_bit n temp OR ucast (b :: 'b::len word) :: u32) = low_bits k temp @ low_bits n b"
  unfolding low_bits_add
  by (intro arg_cong2 [where f = "(@)"])
    (auto simp: low_bits_def bit_drop_bit_eq bit_or_iff bit_push_bit_iff bit_ucast_iff)

lemma low_bits_inj: "low_bits 8 (v :: u8) = low_bits 8 w \<Longrightarrow> v = w"
  by (rule bit_word_eqI) (auto simp: low_bits_def)

lemma concat_low_bits_inj: "concat (map (low_bits 8) vs) = concat (map (low_bits 8) ws) \<Longrightarrow> vs = (ws :: bytes)"
proof (induction vs arbitrary: ws)
  case Nil
  then show ?case by (cases ws) (auto simp: low_bits_def)
next
  case (Cons v vs)
  then obtain w us where ws: "ws = w # us" by (cases ws) (auto simp: low_bits_def)
  with Cons.prems have "low_bits 8 v = low_bits 8 w" "concat (map (low_bits 8) vs) = concat (map (low_bits 8) us)"
    using append_eq_append_conv [of "low_bits 8 v" "low_bits 8 w"] by auto
  then show ?case using Cons.IH ws low_bits_inj by auto
qed

text \<open>The characters of the alphabet and the six bits they stand for.\<close>

lemma and_63: "v AND 0x3F = take_bit 6 (v :: u32)"
  by (simp add: take_bit_eq_mask mask_eq_exp_minus_1)

lemma b64_index_char: "b64_index (b64_char v) = Some (ucast (take_bit 6 v))" "b64_char v \<noteq> CHR ''=''"
proof -
  have "list_all (\<lambda>i. b64_index (b64_table ! i) = Some (of_nat i) \<and> b64_table ! i \<noteq> CHR ''='') [0..<64]" by code_simp
  moreover have "unat (take_bit 6 v) < 64"
    using take_bit_nat_less_exp [of 6 "unat v"] by (simp add: unsigned_take_bit_eq)
  ultimately show "b64_index (b64_char v) = Some (ucast (take_bit 6 v))" "b64_char v \<noteq> CHR ''=''"
    by (auto simp: list_all_iff b64_char_def and_63)
qed

definition char_bits :: "char \<Rightarrow> bool list" where
  "char_bits c = (case b64_index c of Some v \<Rightarrow> low_bits 6 v | None \<Rightarrow> [])"

lemma char_bits_b64_char: "char_bits (b64_char v) = low_bits 6 v"
  by (simp add: char_bits_def b64_index_char low_bits_def bit_ucast_iff bit_take_bit_iff)

definition sextet_char :: "char \<Rightarrow> bool" where
  "sextet_char c \<longleftrightarrow> (\<exists>v. c = b64_char v)"

lemma emit_sextets_bits:
  "list_all sextet_char (emit_sextets temp n) \<and>
   concat (map char_bits (emit_sextets temp n)) @ low_bits (n mod 6) temp = low_bits n temp"
proof (induction temp n rule: emit_sextets.induct)
  case (1 temp n)
  show ?case
  proof (cases "6 \<le> n")
    case True
    have "low_bits n temp = low_bits 6 (drop_bit (n - 6) temp) @ low_bits (n - 6) temp"
      using low_bits_add [of 6 "n - 6" temp] True by simp
    moreover have "(n - 6) mod 6 = n mod 6" using True by (simp add: le_mod_geq)
    ultimately show ?thesis
      using 1 True by (auto simp: emit_sextets.simps [of temp n] char_bits_b64_char sextet_char_def)
  qed (simp add: emit_sextets.simps [of temp n])
qed

lemma encode_loop_bits:
  "n < 6 \<Longrightarrow> list_all sextet_char (encode_loop temp n bs) \<and>
     (\<exists>pad. length pad < 6 \<and>
        concat (map char_bits (encode_loop temp n bs)) = low_bits n temp @ concat (map (low_bits 8) bs) @ pad)"
proof (induction bs arbitrary: temp n)
  case Nil
  show ?case
  proof (cases "n = 0")
    case False
    have "low_bits 6 (push_bit (6 - n) temp) = low_bits (n + (6 - n)) (push_bit (6 - n) temp)" using Nil by simp
    also have "\<dots> = low_bits n temp @ low_bits (6 - n) (push_bit (6 - n) temp)"
      using Nil by (subst low_bits_add) (auto simp: low_bits_def bit_drop_bit_eq bit_push_bit_iff)
    finally show ?thesis
      using False Nil by (auto simp: char_bits_b64_char sextet_char_def intro!: exI [of _ "low_bits (6 - n) (push_bit (6 - n) temp)"])
  qed simp
next
  case (Cons b bs)
  let ?t = "push_bit 8 temp OR ucast b :: u32"
  have "(n + 8) mod 6 < 6" by simp
  then obtain pad where pad: "list_all sextet_char (encode_loop ?t ((n + 8) mod 6) bs)" "length pad < 6"
    "concat (map char_bits (encode_loop ?t ((n + 8) mod 6) bs)) = low_bits ((n + 8) mod 6) ?t @ concat (map (low_bits 8) bs) @ pad"
    using Cons.IH by blast
  have "low_bits (n + 8) ?t = low_bits n temp @ low_bits 8 b"
    using Cons.prems by (intro low_bits_push) (auto dest: bit_imp_le_length)
  with pad emit_sextets_bits [of ?t "n + 8"] show ?case by (auto simp: Let_def intro!: exI [of _ pad])
qed

lemma length_concat_char_bits: "list_all sextet_char cs \<Longrightarrow> length (concat (map char_bits cs)) = 6 * length cs"
  by (induction cs) (auto simp: sextet_char_def char_bits_b64_char)

lemma take_after_byte: "length xs = 8 \<Longrightarrow> take (8 * Suc k) (xs @ ys) = xs @ take (8 * k) ys"
  by simp

lemma decode_loop_bits:
  "n < 8 \<Longrightarrow> list_all sextet_char cs \<Longrightarrow>
   concat (map (low_bits 8) (decode_loop temp n (cs @ replicate p (CHR ''='')))) =
     take (8 * ((n + 6 * length cs) div 8)) (low_bits n temp @ concat (map char_bits cs))"
proof (induction cs arbitrary: temp n)
  case Nil
  then show ?case by (cases p) auto
next
  case (Cons c cs)
  obtain v where c: "c = b64_char v" using Cons.prems by (auto simp: sextet_char_def)
  let ?v = "ucast (take_bit 6 v) :: u8"
  let ?t = "push_bit 6 temp OR ucast ?v :: u32"
  have v: "low_bits 6 ?v = low_bits 6 v" by (simp add: low_bits_def bit_ucast_iff bit_take_bit_iff)
  have t: "low_bits (n + 6) ?t = low_bits n temp @ low_bits 6 v"
    unfolding v [symmetric] using Cons.prems by (intro low_bits_push) (auto simp: bit_ucast_iff bit_take_bit_iff)
  show ?case
  proof (cases "8 \<le> n + 6")
    case True
    let ?b = "ucast (drop_bit (n + 6 - 8) ?t) :: u8"
    let ?m = "n + 6 - 8" and ?X = "concat (map char_bits cs)" and ?R = "replicate p (CHR ''='')"
    have "8 + ?m = n + 6" using True by simp
    from low_bits_add [of 8 ?m ?t, unfolded this]
    have s: "low_bits n temp @ low_bits 6 v = low_bits 8 ?b @ low_bits ?m ?t" by (simp only: low_bits_ucast t)
    have d: "decode_loop temp n ((c # cs) @ ?R) = ?b # decode_loop ?t ?m (cs @ ?R)"
      using True by (simp add: c b64_index_char Let_def)
    have l: "(n + 6 * length (c # cs)) div 8 = Suc ((?m + 6 * length cs) div 8)"
    proof -
      have "n + 6 * length (c # cs) = (?m + 6 * length cs) + 8" using True by simp
      then show ?thesis by simp
    qed
    have "take (8 * Suc k) (low_bits n temp @ concat (map char_bits (c # cs))) = low_bits 8 ?b @ take (8 * k) (low_bits ?m ?t @ ?X)" for k
    proof -
      have "low_bits n temp @ concat (map char_bits (c # cs)) = low_bits 8 ?b @ (low_bits ?m ?t @ ?X)"
        using arg_cong [OF s, of "\<lambda>x. x @ ?X"] by (simp only: c char_bits_b64_char list.map concat.simps append_assoc)
      then show ?thesis using take_after_byte [of "low_bits 8 ?b" k] by (simp only: length_low_bits)
    qed
    moreover have "concat (map (low_bits 8) (decode_loop ?t ?m (cs @ ?R))) = take (8 * ((?m + 6 * length cs) div 8)) (low_bits ?m ?t @ ?X)"
      using Cons.prems by (intro Cons.IH) auto
    ultimately show ?thesis by (simp only: l d list.map concat.simps)
  next
    case False
    have "decode_loop temp n ((c # cs) @ replicate p (CHR ''='')) = decode_loop ?t (n + 6) (cs @ replicate p (CHR ''=''))"
      using False by (simp add: c b64_index_char Let_def)
    moreover have "n + 6 * length (c # cs) = n + 6 + 6 * length cs" by simp
    ultimately show ?thesis
      using Cons.IH [of "n + 6" ?t] Cons.prems(2) False t
      by (simp only: c char_bits_b64_char list.map concat.simps list.pred_inject append_assoc not_le)
  qed
qed

lemma base64_decode_encode: "base64_decode (base64_encode bs) = bs"
proof -
  let ?cs = "encode_loop 0 0 bs"
  obtain pad where cs: "list_all sextet_char ?cs" "length pad < 6"
    "concat (map char_bits ?cs) = concat (map (low_bits 8) bs) @ pad"
    using encode_loop_bits [of 0 0 bs] by auto
  have l: "length (concat (map (low_bits 8) bs)) = 8 * length bs" by (induction bs) auto
  then have "6 * length ?cs = 8 * length bs + length pad"
    using length_concat_char_bits [OF cs(1)] cs(3) by simp
  then have "(6 * length ?cs) div 8 = length bs" using cs(2) by linarith
  then have "concat (map (low_bits 8) (base64_decode (base64_encode bs))) = concat (map (low_bits 8) bs)"
    using decode_loop_bits [of 0 ?cs 0] cs l by (simp add: base64_decode_def base64_encode_def pad4_def)
  then show ?thesis by (rule concat_low_bits_inj)
qed

section \<open>Powers of two and alignment\<close>

lemma smear_spreads:
  assumes "\<And>j. bit x j \<longleftrightarrow> (\<exists>i\<le>d. bit m (j + i))"
  shows "bit (smear (Suc d) x) j \<longleftrightarrow> (\<exists>i\<le>Suc (2 * d). bit m (j + i))"
proof -
  have "bit (smear (Suc d) x) j \<longleftrightarrow> (\<exists>i\<le>d. bit m (j + i)) \<or> (\<exists>i\<le>d. bit m (j + (Suc d + i)))"
    using assms [of j] assms [of "Suc d + j"] by (simp add: smear_def bit_or_iff bit_drop_bit_eq ac_simps)
  also have "\<dots> \<longleftrightarrow> (\<exists>i\<le>Suc (2 * d). bit m (j + i))"
  proof
    assume "(\<exists>i\<le>d. bit m (j + i)) \<or> (\<exists>i\<le>d. bit m (j + (Suc d + i)))"
    then consider i where "i \<le> d" "bit m (j + i)" | i where "i \<le> d" "bit m (j + (Suc d + i))" by blast
    then show "\<exists>i\<le>Suc (2 * d). bit m (j + i)"
    proof cases
      case (1 i)
      then show ?thesis by (intro exI [of _ i]) simp
    next
      case (2 i)
      then show ?thesis by (intro exI [of _ "Suc d + i"]) simp
    qed
  next
    assume "\<exists>i\<le>Suc (2 * d). bit m (j + i)"
    then obtain i where i: "i \<le> Suc (2 * d)" "bit m (j + i)" by blast
    show "(\<exists>i\<le>d. bit m (j + i)) \<or> (\<exists>i\<le>d. bit m (j + (Suc d + i)))"
    proof (cases "i \<le> d")
      case False
      then have "i - Suc d \<le> d" "j + (Suc d + (i - Suc d)) = j + i" using i by simp_all
      then show ?thesis using i(2) by metis
    qed (use i in blast)
  qed
  finally show ?thesis .
qed

lemma smear_all:
  "bit (smear 32 (smear 16 (smear 8 (smear 4 (smear 2 (smear 1 m)))))) j \<longleftrightarrow> (\<exists>i\<le>63. bit m (j + i))"
proof -
  have "bit m j \<longleftrightarrow> (\<exists>i\<le>0. bit m (j + i))" for j by simp
  from smear_spreads [OF smear_spreads [OF smear_spreads [OF smear_spreads [OF smear_spreads [OF smear_spreads [OF this]]]]]]
  show ?thesis by (simp add: eval_nat_numeral)
qed

lemma top_bit:
  fixes m :: u64
  assumes "m \<noteq> 0"
  obtains p where "bit m p" and "\<And>j. bit m j \<Longrightarrow> j \<le> p" and "2 ^ p \<le> unat m" and "unat m < 2 ^ Suc p"
proof -
  have "\<exists>j. bit m j" using assms by (auto simp: bit_eq_iff)
  moreover have "\<forall>j. bit m j \<longrightarrow> j \<le> 64" by (auto dest: bit_imp_le_length)
  ultimately obtain p where p: "bit m p" "\<And>j. bit m j \<Longrightarrow> j \<le> p"
    using GreatestI_ex_nat [of "bit m" 64] Greatest_le_nat [of "bit m" _ 64] by blast
  have "unat m = take_bit (Suc p) (unat m)"
    using p(2) by (auto simp: bit_eq_iff bit_take_bit_iff bit_unsigned_iff) (meson le_imp_less_Suc)
  then have "unat m < 2 ^ Suc p" by (metis take_bit_nat_less_exp)
  moreover have "2 ^ p \<le> unat m"
  proof (rule ccontr)
    assume "\<not> 2 ^ p \<le> unat m"
    then have "take_bit p (unat m) = unat m" by (simp add: take_bit_nat_eq_self_iff)
    then have "\<not> bit (unat m) p" by (metis bit_take_bit_iff less_irrefl)
    then show False using p(1) by (simp add: bit_unsigned_iff bit_imp_le_length)
  qed
  ultimately show thesis using that p by blast
qed

lemma nextPowerOfTwo_exact:
  assumes "0 < n" and "n \<le> 2 ^ 63"
  obtains k where "nextPowerOfTwo n = 2 ^ k" and "k < 64" and "unat n \<le> 2 ^ k" and "\<And>j. unat n \<le> 2 ^ j \<Longrightarrow> k \<le> j"
proof (cases "n = 1")
  case True
  then show thesis using that [of 0] by (simp add: nextPowerOfTwo_def smear_def)
next
  case False
  let ?m = "n - 1"
  have "?m \<noteq> 0" using False by (simp add: diff_eq_eq)
  then obtain p where p: "bit ?m p" "\<And>j. bit ?m j \<Longrightarrow> j \<le> p" "2 ^ p \<le> unat ?m" "unat ?m < 2 ^ Suc p" using top_bit by blast
  have "0 < unat n" using assms(1) by (simp add: word_less_nat_alt)
  then have un: "unat n = Suc (unat ?m)" using assms(1) by (simp add: unat_minus_one word_gt_0)
  have "unat n \<le> 2 ^ 63" using assms(2) by (simp add: word_le_nat_alt)
  then have "(2::nat) ^ p < 2 ^ 63" using p(3) un by linarith
  then have p63: "p < 63" by (simp only: power_strict_increasing_iff)
  have "smear 32 (smear 16 (smear 8 (smear 4 (smear 2 (smear 1 ?m))))) = mask (Suc p)"
  proof (rule bit_word_eqI)
    fix j assume j: "j < LENGTH(64)"
    have "(\<exists>i\<le>63. bit ?m (j + i)) \<longleftrightarrow> j \<le> p"
      using p(1,2) j p63 by (metis add_leD1 diff_le_self le_add_diff_inverse le_trans less_or_eq_imp_le)
    then show "bit (smear 32 (smear 16 (smear 8 (smear 4 (smear 2 (smear 1 ?m)))))) j = bit (mask (Suc p) :: u64) j"
      using j smear_all [of ?m j] by (simp add: bit_mask_iff less_Suc_eq_le)
  qed
  then have "nextPowerOfTwo n = 2 ^ Suc p" by (simp add: nextPowerOfTwo_def mask_eq_exp_minus_1)
  moreover have "Suc p \<le> j" if "unat n \<le> 2 ^ j" for j
  proof -
    have "(2::nat) ^ p < 2 ^ j" using p(3) un that by linarith
    then show ?thesis by (simp add: Suc_le_eq)
  qed
  ultimately show thesis using that [of "Suc p"] p63 p(4) un by simp
qed

lemma unat_alignDown:
  assumes "k < 64"
  shows "unat (alignDown s (2 ^ k)) = unat s div 2 ^ k * 2 ^ k"
proof -
  have "alignDown s (2 ^ k) = s AND NOT (mask k)" by (simp add: alignDown_def mask_eq_exp_minus_1)
  also have "\<dots> = push_bit k (drop_bit k s)"
    by (rule bit_word_eqI) (auto simp: bit_and_iff bit_not_iff bit_mask_iff bit_push_bit_iff bit_drop_bit_eq)
  finally have a: "alignDown s (2 ^ k) = push_bit k (drop_bit k s)" .
  have s: "take_bit 64 (unat s) = unat s" using unsigned_less [of s, where ?'a = nat] by (simp add: take_bit_nat_eq_self)
  have "unat s div 2 ^ k * 2 ^ k < 2 ^ 64"
    by (rule le_less_trans [OF div_times_less_eq_dividend]) (use unsigned_less [of s, where ?'a = nat] in simp)
  then show ?thesis
    by (simp add: a unsigned_push_bit_eq unsigned_drop_bit_eq push_bit_nat_def drop_bit_nat_def s take_bit_nat_eq_self)
qed

lemma unat_alignUp:
  assumes "k < 64" and "unat s + 2 ^ k \<le> 2 ^ 64"
  shows "unat (alignUp s (2 ^ k)) = (unat s + 2 ^ k - 1) div 2 ^ k * 2 ^ k"
proof -
  have "alignUp s (2 ^ k) = alignDown (s + (2 ^ k - 1)) (2 ^ k)"
    by (simp add: alignUp_def alignDown_def algebra_simps)
  moreover have "unat (s + (2 ^ k - 1)) = unat s + 2 ^ k - 1"
  proof -
    have "(2::u64) ^ k - 1 = mask k" by (simp add: mask_eq_exp_minus_1)
    moreover have e: "(mask k :: u64) = of_nat (mask k)" by (simp add: of_nat_mask_eq)
    have "unat (mask k :: u64) = mask k"
      by (simp only: e unsigned_of_nat) (use assms(1) in \<open>simp add: min_def\<close>)
    ultimately have "unat ((2::u64) ^ k - 1) = 2 ^ k - 1" by (simp add: mask_eq_exp_minus_1)
    moreover have "0 < (2::nat) ^ k" by simp
    then have "unat s + (2 ^ k - 1) < 2 ^ 64" "unat s + (2 ^ k - 1) = unat s + 2 ^ k - 1" using assms(2) by linarith+
    ultimately show ?thesis by (simp add: unat_word_ariths(1))
  qed
  ultimately show ?thesis using unat_alignDown [OF assms(1)] by simp
qed

section \<open>Strings\<close>

lemma find_upt_first:
  assumes "find P [p..<n] = Some i"
  shows "p \<le> i \<and> i < n \<and> P i \<and> (\<forall>j. p \<le> j \<and> j < i \<longrightarrow> \<not> P j)"
proof -
  from assms obtain k where k: "k < length [p..<n]" "P ([p..<n] ! k)" "i = [p..<n] ! k" "\<And>j. j < k \<Longrightarrow> \<not> P ([p..<n] ! j)"
    by (auto simp: find_Some_iff)
  then have i: "i = p + k" "p + k < n" by auto
  have "\<not> P j" if "p \<le> j" "j < i" for j using k(4) [of "j - p"] that i by simp
  then show ?thesis using k i by auto
qed

text \<open>What \<^verbatim>\<open>replace\<close> should give: the leftmost occurrences, from left to right.\<close>

function replaced :: "string \<Rightarrow> string \<Rightarrow> string \<Rightarrow> string" where
  "replaced from to s =
     (if s = [] \<or> from = [] then s
      else if prefix from s then to @ replaced from to (drop (length from) s)
      else hd s # replaced from to (tl s))"
  by pat_completeness auto
termination by (relation "measure (\<lambda>(f, t, s). length s)") (auto simp: prefix_def)

declare replaced.simps [simp del]

lemma replaced_none: "from \<noteq> [] \<Longrightarrow> (\<And>i. i \<le> length s \<Longrightarrow> \<not> prefix from (drop i s)) \<Longrightarrow> replaced from to s = s"
proof (induction s)
  case Nil
  then show ?case by (simp add: replaced.simps)
next
  case (Cons c s)
  have "\<not> prefix from (drop i s)" if "i \<le> length s" for i using Cons.prems(2) [of "Suc i"] that by simp
  moreover have "\<not> prefix from (c # s)" using Cons.prems(2) [of 0] by simp
  ultimately show ?case using Cons by (simp add: replaced.simps [of "from" to "c # s"])
qed

lemma replaced_first:
  "from \<noteq> [] \<Longrightarrow> prefix from (drop i s) \<Longrightarrow> (\<And>j. j < i \<Longrightarrow> \<not> prefix from (drop j s)) \<Longrightarrow>
   replaced from to s = take i s @ to @ replaced from to (drop (i + length from) s)"
proof (induction s arbitrary: i)
  case Nil
  then show ?case by simp
next
  case (Cons c s)
  show ?case
  proof (cases i)
    case 0
    then show ?thesis using Cons.prems by (simp add: replaced.simps [of "from" to "c # s"])
  next
    case (Suc k)
    have "\<not> prefix from (drop j s)" if "j < k" for j using Cons.prems(3) [of "Suc j"] that Suc by simp
    then have "replaced from to s = take k s @ to @ replaced from to (drop (k + length from) s)"
      using Cons.IH [of k] Cons.prems Suc by simp
    moreover have "\<not> prefix from (c # s)" using Cons.prems(3) [of 0] Suc by simp
    ultimately show ?thesis using Suc Cons.prems(1) by (simp add: replaced.simps [of "from" to "c # s"])
  qed
qed

lemma replace_loop_replaced:
  assumes "from \<noteq> []" and "p \<le> length s"
  shows "replace_loop from to s p = Some (take p s @ replaced from to (drop p s))"
  using assms(2)
proof (induction "length s - p" arbitrary: s p rule: less_induct)
  case less
  show ?case
  proof (cases "find_sub from s p")
    case None
    then have "\<not> prefix from (drop i (drop p s))" if "i \<le> length (drop p s)" for i
      using that less.prems by (auto simp: find_sub_def find_None_iff ac_simps)
    then have "replaced from to (drop p s) = drop p s" using replaced_none [OF assms(1)] by blast
    then show ?thesis using None by (simp add: replace_loop.simps [of "from" to s p])
  next
    case (Some i)
    then have i: "p \<le> i" "i \<le> length s" "prefix from (drop i s)" "\<And>j. p \<le> j \<and> j < i \<Longrightarrow> \<not> prefix from (drop j s)"
      using find_upt_first [OF Some [unfolded find_sub_def]] by auto
    let ?s = "take i s @ to @ drop (i + length from) s"
    have l: "i + length from \<le> length s" using i(2,3) prefix_length_le [OF i(3)] by simp
    have "0 < length from" using assms(1) by simp
    moreover have "length ?s - (i + length to) = length s - (i + length from)" using i by simp
    ultimately have "length ?s - (i + length to) < length s - p" using i l by linarith
    moreover have "i + length to \<le> length ?s" using i by simp
    ultimately have "replace_loop from to ?s (i + length to) =
        Some (take (i + length to) ?s @ replaced from to (drop (i + length to) ?s))"
      using less.hyps by blast
    also have "take (i + length to) ?s = take i s @ to" using i by simp
    also have "drop (i + length to) ?s = drop (i + length from) s" using i by simp
    finally have "replace_loop from to s p = Some (take i s @ to @ replaced from to (drop (i + length from) s))"
      using Some by (simp add: replace_loop.simps [of "from" to s p])
    moreover have "replaced from to (drop p s) = take (i - p) (drop p s) @ to @ replaced from to (drop (i + length from) s)"
      using replaced_first [OF assms(1), of "i - p" "drop p s" to] i by (simp add: ac_simps)
    moreover have "take i s = take p s @ take (i - p) (drop p s)" using i(1) by (metis le_add_diff_inverse take_add)
    ultimately show ?thesis by simp
  qed
qed

lemmas replace_loop_induct = replace_loop.raw_induct [rotated, consumes 1, case_names step]

lemma find_sub_empty: "p \<le> length s \<Longrightarrow> find_sub [] s p = Some p"
  by (simp add: find_sub_def upt_conv_Cons del: upt_Suc)

lemma replace_loop_empty: "replace_loop from to s p = Some r \<Longrightarrow> from = [] \<Longrightarrow> p \<le> length s \<Longrightarrow> False"
proof (induction "from" to s p r rule: replace_loop_induct)
  case (step f "from" to s p r)
  then have "f [] to (take p s @ to @ drop p s) (p + length to) = Some r" using find_sub_empty by simp
  then show ?case using step(1) step.prems by fastforce
qed

lemma join_strings_Cons: "join_strings (p # q # ps) d = p @ d @ join_strings (q # ps) d"
proof -
  have "fold (\<lambda>q r. r @ d @ q) ps (a @ b) = a @ fold (\<lambda>q r. r @ d @ q) ps b" for a b
    by (induction ps arbitrary: b) simp_all
  from this [of "p @ d" q] show ?thesis by simp
qed

lemma split_string_nonempty:
  assumes "w \<noteq> []" and "d \<notin> set w"
  shows "split_string (w @ d # s) d = w # split_string s d" and "split_string w d = [w]"
proof -
  have "takeWhile (\<lambda>c. c \<noteq> d) (w @ d # s) = w" using assms(2) by (subst takeWhile_append2) auto
  then show "split_string (w @ d # s) d = w # split_string s d"
    using assms(1) by (simp add: split_string.simps [of "w @ d # s" d] Let_def)
  have "takeWhile (\<lambda>c. c \<noteq> d) w = w" using assms(2) by (auto simp: takeWhile_eq_all_conv)
  then show "split_string w d = [w]" using assms(1) by (simp add: split_string.simps [of w d] split_string.simps [of "[]"] Let_def del: takeWhile_eq_all_conv)
qed

lemma split_join: "list_all (\<lambda>w. w \<noteq> [] \<and> d \<notin> set w) ws \<Longrightarrow> split_string (join_strings ws [d]) d = ws"
proof (induction ws)
  case Nil
  then show ?case by (simp add: split_string.simps)
next
  case (Cons w ws)
  then show ?case
    using split_string_nonempty [of w d] by (cases ws) (simp_all add: join_strings_Cons del: join_strings.simps(2), simp)
qed

lemma is_xdigit_hex_digit: "d < 16 \<Longrightarrow> is_xdigit (hex_digit d)"
  by (auto simp: is_xdigit_def hex_digit_def is_digit_def)

lemma uuid_generate_valid:
  assumes "\<And>i. dis i < 16" and "dis2 < 16"
  shows "uuid_isValid (uuid_generate dis dis2)"
proof -
  have "is_xdigit (hex_digit (dis i))" "is_xdigit (hex_digit dis2)" for i using is_xdigit_hex_digit assms by simp_all
  moreover have "is_xdigit (CHR ''4'')" by (simp add: is_xdigit_def is_digit_def)
  ultimately show ?thesis
    by (simp add: uuid_isValid_def uuid_generate_def upt_rec numeral_eq_Suc)
qed

lemma find_last_of_split:
  assumes "find_last_of A p = Some i"
  shows "i < length p \<and> p ! i \<in> A \<and> p = take i p @ [p ! i] @ drop (i + 1) p \<and> A \<inter> set (drop (i + 1) p) = {}"
proof -
  from assms obtain k where k: "k < length p" "rev [0..<length p] ! k = i" "p ! i \<in> A"
    "\<And>j. j < k \<Longrightarrow> p ! (rev [0..<length p] ! j) \<notin> A"
    by (auto simp: find_last_of_def find_Some_iff)
  then have i: "i = length p - Suc k" "i < length p" by (auto simp: rev_nth)
  have "p ! j \<notin> A" if "i < j" "j < length p" for j
    using k(4) [of "length p - Suc j"] that i by (simp add: rev_nth)
  then have "A \<inter> set (drop (i + 1) p) = {}" by (auto simp: in_set_conv_nth)
  then show ?thesis using i k(3) id_take_nth_drop [OF i(2)] by simp
qed

lemma path_parts:
  assumes "find_last_of separators p = Some i"
  shows "p = dirname p @ [p ! i] @ basename p \<and> separators \<inter> set (basename p) = {}"
  using find_last_of_split [OF assms] by (simp add: dirname_def basename_def assms)

section \<open>Properties\<close>

text \<open>
  C33: Decoding the Base64 text of any bytes gives the bytes back, although the accumulator of 32
  bits overflows on the way; the text has a length divisible by four.
\<close>

theorem base64_roundtrip:
  "base64_decode (base64_encode bs) = bs \<and> 4 dvd length (base64_encode bs)"
proof -
  have "4 dvd n + (4 - n mod 4) mod 4" for n :: nat
  proof (cases "n mod 4 = 0")
    case False
    have "n mod 4 < 4" by simp
    moreover have "(4 - n mod 4) mod 4 = 4 - n mod 4" using False by simp
    ultimately have "n + (4 - n mod 4) mod 4 = 4 * (n div 4) + 4" using mult_div_mod_eq [of 4 n] by linarith
    then show ?thesis by simp
  qed (simp add: dvd_eq_mod_eq_0)
  then show ?thesis using base64_decode_encode by (simp add: base64_encode_def pad4_def)
qed

text \<open>
  C34: The table-driven checksum is the bit-by-bit division by the reflected polynomial
  \<^verbatim>\<open>0xEDB88320\<close>; it can be computed in pieces by passing on the previous value; and two
  messages that differ in one byte never have the same checksum.
\<close>

theorem crc32_bitwise:
  "crc32_calculate bs crc = NOT (fold (\<lambda>b c. crc_bits 8 (c XOR ucast b)) bs (NOT crc)) \<and>
   crc32_calculate (xs @ ys) crc = crc32_calculate ys (crc32_calculate xs crc) \<and>
   (crc32_calculate (xs @ b # ys) crc = crc32_calculate (xs @ b' # ys) crc) = (b = b')"
proof -
  let ?f = "fold (\<lambda>b c. crc_byte c b)"
  let ?c = "?f xs (NOT crc)"
  have "crc32_calculate bs crc = NOT (fold (\<lambda>b c. crc_bits 8 (c XOR ucast b)) bs (NOT crc))"
    by (simp add: crc32_calculate_def crc_byte_bits)
  moreover have "crc32_calculate (xs @ ys) crc = crc32_calculate ys (crc32_calculate xs crc)"
    by (simp add: crc32_calculate_def)
  moreover have "b = b'" if "crc32_calculate (xs @ b # ys) crc = crc32_calculate (xs @ b' # ys) crc"
  proof -
    from that have "?f ys (crc_byte ?c b) = ?f ys (crc_byte ?c b')" by (simp add: crc32_calculate_def)
    then have "crc_bits 8 (?c XOR ucast b) = crc_bits 8 (?c XOR ucast b')" using crc_fold_inj by (simp add: crc_byte_bits)
    then have "(ucast b XOR ?c :: u32) = ucast b' XOR ?c" using crc_bits_inj by (metis xor.commute)
    then have "(ucast b :: u32) = ucast b'" by (simp add: xor_cancel_word)
    then have "unat (ucast b :: u32) = unat (ucast b' :: u32)" by simp
    then show ?thesis by (simp add: unat_ucast_up word_unat_eq_iff)
  qed
  ultimately show ?thesis by blast
qed

text \<open>
  C36: \<^verbatim>\<open>nextPowerOfTwo\<close> gives the least power of two that is not below its argument, for
  every argument from one to \<^verbatim>\<open>2^63\<close>.
\<close>

theorem nextPowerOfTwo_least:
  assumes "0 < n" and "n \<le> 2 ^ 63"
  shows "\<exists>k < 64. nextPowerOfTwo n = 2 ^ k \<and> unat n \<le> 2 ^ k \<and> (\<forall>j. unat n \<le> 2 ^ j \<longrightarrow> k \<le> j)"
  using nextPowerOfTwo_exact [OF assms] by metis

theorem nextPowerOfTwo_least_witness:
  "\<exists>k < 64. nextPowerOfTwo 100 = 2 ^ k \<and> unat (100 :: u64) \<le> 2 ^ k \<and> (\<forall>j. unat (100 :: u64) \<le> 2 ^ j \<longrightarrow> k \<le> j)"
  by (rule nextPowerOfTwo_least) simp_all

text \<open>
  C35: \<^verbatim>\<open>replace\<close> returns, and gives the text with the leftmost occurrences of the pattern
  replaced from left to right, exactly when the pattern is not empty; with an empty pattern its
  loop never ends.
\<close>

theorem replace_string_exact:
  "replace_string s from to = (if from = [] then None else Some (replaced from to s))"
proof (cases "from = []")
  case True
  then show ?thesis using replace_loop_empty [of "[]" to s 0] by (cases "replace_loop [] to s 0") (auto simp: replace_string_def)
next
  case False
  then show ?thesis using replace_loop_replaced [of "from" 0 s to] by (simp add: replace_string_def)
qed

end
