(* ===== verification/Json.thy ===== *)
theory Json
  imports Prelude
begin

text \<open>
  The interface of the JSON library (\<^verbatim>\<open>nlohmann::json\<close>, a package outside the
  repository) as far as catalog and schema call it. A record of functions stands for the
  library; \<open>json_laws\<close> states its documented behaviour on the documents the program builds.
  A reading may throw an exception, and \<^verbatim>\<open>operator[]\<close> of a constant object with an
  unknown key is undefined.
\<close>

section \<open>Computations that may throw\<close>

datatype 'a fallible = Val 'a | Exn | UB

primrec fbind :: "'a fallible \<Rightarrow> ('a \<Rightarrow> 'b fallible) \<Rightarrow> 'b fallible" where
  "fbind (Val x) f = f x"
| "fbind Exn f = Exn"
| "fbind UB f = UB"

lemma fbind_Val_iff: "fbind m f = Val y \<longleftrightarrow> (\<exists>x. m = Val x \<and> f x = Val y)"
  by (cases m) auto

fun fmapM :: "('a \<Rightarrow> 'b fallible) \<Rightarrow> 'a list \<Rightarrow> 'b list fallible" where
  "fmapM f [] = Val []"
| "fmapM f (x # xs) = fbind (f x) (\<lambda>y. fbind (fmapM f xs) (\<lambda>ys. Val (y # ys)))"

lemma fmapM_map: "(\<And>x. x \<in> set xs \<Longrightarrow> f (g x) = Val (h x)) \<Longrightarrow> fmapM f (map g xs) = Val (map h xs)"
  by (induction xs) auto

text \<open>
  A loop over the elements of an array that changes the state element by element; an
  exception leaves the state as it is at that moment.
\<close>

fun load_each :: "('j \<Rightarrow> 'a fallible) \<Rightarrow> ('a \<Rightarrow> 's \<Rightarrow> 's) \<Rightarrow> 'j list \<Rightarrow> 's \<Rightarrow> unit fallible \<times> 's" where
  "load_each rd add [] s = (Val (), s)"
| "load_each rd add (j # js) s =
     (case rd j of Val x \<Rightarrow> load_each rd add js (add x s) | Exn \<Rightarrow> (Exn, s) | UB \<Rightarrow> (UB, s))"

fun then_load :: "unit fallible \<times> 's \<Rightarrow> ('s \<Rightarrow> unit fallible \<times> 's) \<Rightarrow> unit fallible \<times> 's" where
  "then_load (Val _, s) f = f s"
| "then_load (Exn, s) f = (Exn, s)"
| "then_load (UB, s) f = (UB, s)"

lemma load_each_map:
  "(\<And>x. x \<in> set xs \<Longrightarrow> rd (g x) = Val (h x)) \<Longrightarrow>
   load_each rd add (map g xs) s = (Val (), fold (\<lambda>x. add (h x)) xs s)"
  by (induction xs arbitrary: s) auto

section \<open>The library\<close>

text \<open>
  Constructors, \<^verbatim>\<open>operator[]\<close> on a variable (which adds a missing key) and on a
  constant, \<^verbatim>\<open>value\<close>, \<^verbatim>\<open>contains\<close>, iteration, \<^verbatim>\<open>items\<close>, the
  conversions \<^verbatim>\<open>get\<close>, printing and parsing.
\<close>

record 'j json_lib =
  j_num :: "int \<Rightarrow> 'j"
  j_text :: "string \<Rightarrow> 'j"
  j_bool :: "bool \<Rightarrow> 'j"
  j_array :: "'j list \<Rightarrow> 'j"
  j_object :: "(string \<times> 'j) list \<Rightarrow> 'j"
  j_index :: "'j \<Rightarrow> string \<Rightarrow> 'j fallible"
  j_at :: "'j \<Rightarrow> string \<Rightarrow> 'j fallible"
  j_value :: "'j \<Rightarrow> string \<Rightarrow> 'j option fallible"
  j_contains :: "'j \<Rightarrow> string \<Rightarrow> bool"
  j_each :: "'j \<Rightarrow> 'j list"
  j_items :: "'j \<Rightarrow> (string \<times> 'j) list"
  j_list :: "'j \<Rightarrow> 'j list fallible"
  j_int :: "'j \<Rightarrow> int fallible"
  j_str :: "'j \<Rightarrow> string fallible"
  j_flag :: "'j \<Rightarrow> bool fallible"
  j_dump :: "'j \<Rightarrow> string fallible"
  j_parse :: "string \<Rightarrow> 'j fallible"

definition json_laws :: "'j json_lib \<Rightarrow> bool" where
  "json_laws L \<longleftrightarrow>
     (\<forall>m k v. wf_map m \<and> map_of m k = Some v \<longrightarrow>
        j_index L (j_object L m) k = Val v \<and> j_at L (j_object L m) k = Val v \<and>
        j_value L (j_object L m) k = Val (Some v) \<and> j_contains L (j_object L m) k) \<and>
     (\<forall>m. wf_map m \<longrightarrow> wf_map (j_items L (j_object L m)) \<and> map_of (j_items L (j_object L m)) = map_of m) \<and>
     (\<forall>xs. j_each L (j_array L xs) = xs \<and> j_list L (j_array L xs) = Val xs) \<and>
     (\<forall>i. - (2 ^ 63) \<le> i \<and> i < 2 ^ 64 \<longrightarrow> j_int L (j_num L i) = Val i) \<and>
     (\<forall>s. j_str L (j_text L s) = Val s) \<and> (\<forall>b. j_flag L (j_bool L b) = Val b)"

lemma json_laws_object:
  assumes "json_laws L" and "wf_map m" and "map_of m k = Some v"
  shows "j_index L (j_object L m) k = Val v" and "j_at L (j_object L m) k = Val v"
    and "j_value L (j_object L m) k = Val (Some v)" and "j_contains L (j_object L m) k"
  using assms unfolding json_laws_def by blast+

lemma json_laws_values:
  assumes "json_laws L"
  shows "j_each L (j_array L xs) = xs" and "j_list L (j_array L xs) = Val xs"
    and "- (2 ^ 63) \<le> i \<Longrightarrow> i < 2 ^ 64 \<Longrightarrow> j_int L (j_num L i) = Val i"
    and "j_str L (j_text L s) = Val s" and "j_flag L (j_bool L b) = Val b"
  using assms unfolding json_laws_def by blast+

lemma json_laws_items:
  assumes "json_laws L" and "wf_map m"
  shows "wf_map (j_items L (j_object L m))" and "map_of (j_items L (j_object L m)) = map_of m"
  using assms unfolding json_laws_def by blast+

lemma json_laws_uint:
  assumes "json_laws L" and "LENGTH('a) \<le> 64"
  shows "j_int L (j_num L (uint (w :: 'a::len word))) = Val (uint w)"
proof (rule json_laws_values(3) [OF assms(1)])
  have "uint w < 2 ^ LENGTH('a)" by (rule uint_lt2p)
  also have "(2 :: int) ^ LENGTH('a) \<le> 2 ^ 64" using assms(2) by (intro power_increasing) auto
  finally show "uint w < 2 ^ 64" .
  show "- (2 ^ 63) \<le> uint w" by (rule order_trans [OF _ uint_ge_0]) simp
qed

lemma json_laws_sint:
  assumes "json_laws L" and "LENGTH('a) \<le> 64"
  shows "j_int L (j_num L (sint (w :: 'a::len word))) = Val (sint w)"
proof (rule json_laws_values(3) [OF assms(1)])
  have "(2 :: int) ^ (LENGTH('a) - 1) \<le> 2 ^ 63" using assms(2) by (intro power_increasing) auto
  then show "- (2 ^ 63) \<le> sint w" and "sint w < 2 ^ 64" using sint_ge [of w] sint_lt [of w] by auto
qed

definition get_int :: "'j json_lib \<Rightarrow> 'j \<Rightarrow> string \<Rightarrow> int fallible" where
  "get_int L j k = fbind (j_at L j k) (j_int L)"

definition get_str :: "'j json_lib \<Rightarrow> 'j \<Rightarrow> string \<Rightarrow> string fallible" where
  "get_str L j k = fbind (j_at L j k) (j_str L)"

definition get_flag :: "'j json_lib \<Rightarrow> 'j \<Rightarrow> string \<Rightarrow> bool fallible" where
  "get_flag L j k = fbind (j_at L j k) (j_flag L)"

definition get_list :: "'j json_lib \<Rightarrow> ('j \<Rightarrow> 'a fallible) \<Rightarrow> 'j \<Rightarrow> string \<Rightarrow> 'a list fallible" where
  "get_list L rd j k = fbind (j_at L j k) (\<lambda>x. fbind (j_list L x) (fmapM rd))"

text \<open>\<^verbatim>\<open>j.value(k, d)\<close> with the conversion of the type of the default.\<close>

definition value_or :: "'j json_lib \<Rightarrow> ('j \<Rightarrow> 'a fallible) \<Rightarrow> 'j \<Rightarrow> string \<Rightarrow> 'a \<Rightarrow> 'a fallible" where
  "value_or L rd j k d = fbind (j_value L j k) (\<lambda>x. case x of None \<Rightarrow> Val d | Some v \<Rightarrow> rd v)"

lemma get_object:
  assumes "json_laws L" and "wf_map m" and "map_of m k \<noteq> None"
  shows "get_int L (j_object L m) k = j_int L (the (map_of m k))"
    and "get_str L (j_object L m) k = j_str L (the (map_of m k))"
    and "get_flag L (j_object L m) k = j_flag L (the (map_of m k))"
    and "get_list L rd (j_object L m) k = fbind (j_list L (the (map_of m k))) (fmapM rd)"
    and "value_or L rv (j_object L m) k d = rv (the (map_of m k))"
    and "j_at L (j_object L m) k = Val (the (map_of m k))"
    and "j_index L (j_object L m) k = Val (the (map_of m k))"
  using assms(3) json_laws_object [OF assms(1,2)]
  by (auto simp: get_int_def get_str_def get_flag_def get_list_def value_or_def)

lemma j_contains_object:
  assumes "json_laws L" and "wf_map m" and "map_of m k \<noteq> None"
  shows "j_contains L (j_object L m) k"
  using assms json_laws_object(4) [OF assms(1,2)] by auto

section \<open>A library that satisfies the laws\<close>

text \<open>
  A small document type with these operations. Its only use is to show that the laws can hold.
\<close>

datatype doc = DNum int | DText string | DBool bool | DArray "doc list" | DObject "(string \<times> doc) list"

definition doc_member :: "doc \<Rightarrow> string \<Rightarrow> doc option" where
  "doc_member d k = (case d of DObject m \<Rightarrow> map_of m k | _ \<Rightarrow> None)"

definition doc_lib :: "(doc \<Rightarrow> string) \<Rightarrow> (string \<Rightarrow> doc fallible) \<Rightarrow> doc json_lib" where
  "doc_lib print parse = \<lparr>j_num = DNum, j_text = DText, j_bool = DBool, j_array = DArray, j_object = DObject,
     j_index = (\<lambda>d k. case doc_member d k of None \<Rightarrow> Exn | Some v \<Rightarrow> Val v),
     j_at = (\<lambda>d k. case doc_member d k of None \<Rightarrow> UB | Some v \<Rightarrow> Val v),
     j_value = (\<lambda>d k. Val (doc_member d k)), j_contains = (\<lambda>d k. doc_member d k \<noteq> None),
     j_each = (\<lambda>d. case d of DArray ds \<Rightarrow> ds | _ \<Rightarrow> []),
     j_items = (\<lambda>d. case d of DObject m \<Rightarrow> m | _ \<Rightarrow> []),
     j_list = (\<lambda>d. case d of DArray ds \<Rightarrow> Val ds | _ \<Rightarrow> Exn),
     j_int = (\<lambda>d. case d of DNum i \<Rightarrow> Val i | _ \<Rightarrow> Exn),
     j_str = (\<lambda>d. case d of DText s \<Rightarrow> Val s | _ \<Rightarrow> Exn),
     j_flag = (\<lambda>d. case d of DBool b \<Rightarrow> Val b | _ \<Rightarrow> Exn),
     j_dump = (\<lambda>d. Val (print d)), j_parse = parse\<rparr>"

lemma doc_lib_sel [simp]:
  "j_num (doc_lib p q) = DNum" "j_text (doc_lib p q) = DText" "j_bool (doc_lib p q) = DBool"
  "j_array (doc_lib p q) = DArray" "j_object (doc_lib p q) = DObject"
  "j_dump (doc_lib p q) = (\<lambda>d. Val (p d))" "j_parse (doc_lib p q) = q"
  by (simp_all add: doc_lib_def)

lemma doc_lib_laws: "json_laws (doc_lib print parse)"
  by (auto simp: json_laws_def doc_lib_def doc_member_def)

end
