(* ===== verification/Catalog.thy ===== *)
theory Catalog
  imports Status Types StdText Json
begin

text \<open>
  \<^verbatim>\<open>metadata/catalog.h\<close> and \<^verbatim>\<open>metadata/catalog.cpp\<close>: the system catalog with
  its tables, indexes, constraints, sequences and views. The reader-writer mutex is part of the
  state: a thread that locks a \<^verbatim>\<open>std::shared_mutex\<close> it already owns, in whatever mode,
  has undefined behaviour, the outcome \<open>Undef\<close>. The directories of the tables are operations of
  an argument; when one of them throws, the changes made before it stay. A pointer into the
  catalog is the value it points to.
\<close>

section \<open>Data\<close>

text \<open>\<open>CT_RAW n\<close> is the value \<open>5 + n\<close>, which names no enumerator.\<close>

datatype ConstraintType = CT_PRIMARY_KEY | CT_FOREIGN_KEY | CT_UNIQUE | CT_CHECK | CT_NOT_NULL | CT_RAW nat

primrec ct_code :: "ConstraintType \<Rightarrow> nat" where
  "ct_code CT_PRIMARY_KEY = 0"
| "ct_code CT_FOREIGN_KEY = 1"
| "ct_code CT_UNIQUE = 2"
| "ct_code CT_CHECK = 3"
| "ct_code CT_NOT_NULL = 4"
| "ct_code (CT_RAW n) = 5 + n"

definition ct_of_code :: "nat \<Rightarrow> ConstraintType" where
  "ct_of_code n = (if n < 5 then [CT_PRIMARY_KEY, CT_FOREIGN_KEY, CT_UNIQUE, CT_CHECK, CT_NOT_NULL] ! n
     else CT_RAW (n - 5))"

record ConstraintInfo =
  con_type :: ConstraintType
  con_name :: string
  con_table :: string
  con_columns :: "string list"
  ref_table :: string
  ref_columns :: "string list"
  check_expr :: string
  deferrable :: bool
  initially_deferred :: bool

definition ConstraintInfo_new :: ConstraintInfo where
  "ConstraintInfo_new = \<lparr>con_type = CT_NOT_NULL, con_name = [], con_table = [], con_columns = [],
     ref_table = [], ref_columns = [], check_expr = [], deferrable = False, initially_deferred = False\<rparr>"

record SequenceInfo =
  seq_name :: string
  start_value :: "64 word"
  current_value :: "64 word"
  increment :: "64 word"
  min_value :: "64 word"
  max_value :: "64 word"
  cycle :: bool

definition SequenceInfo_new :: SequenceInfo where
  "SequenceInfo_new = \<lparr>seq_name = [], start_value = 1, current_value = 1, increment = 1,
     min_value = 1, max_value = 9223372036854775807, cycle = False\<rparr>"

record ViewInfo =
  view_name :: string
  view_query :: string
  view_columns :: "string list"
  materialized :: bool
  last_refresh :: u64

definition ViewInfo_new :: ViewInfo where
  "ViewInfo_new = \<lparr>view_name = [], view_query = [], view_columns = [], materialized = False, last_refresh = 0\<rparr>"

record CatalogStats =
  table_count :: u64
  index_count :: u64
  view_count :: u64
  sequence_count :: u64
  function_count :: u64
  trigger_count :: u64
  cache_hits :: u64
  cache_misses :: u64

definition CatalogStats_new :: CatalogStats where
  "CatalogStats_new = \<lparr>table_count = 0, index_count = 0, view_count = 0, sequence_count = 0,
     function_count = 0, trigger_count = 0, cache_hits = 0, cache_misses = 0\<rparr>"

text \<open>The objects of the cache are pointers; a pointer is a number.\<close>

record CacheEntry =
  timestamp :: u64
  object :: nat

datatype rw_lock = Unlocked | SharedLock | UniqueLock

record Catalog =
  tables :: "(string \<times> TableSchema) list"
  table_id_map :: "(TableId \<times> string) list"
  cat_indexes :: "(string \<times> IndexId) list"
  index_id_map :: "(IndexId \<times> string) list"
  table_indexes :: "(string \<times> IndexId list) list"
  constraints :: "(string \<times> ConstraintInfo) list"
  table_constraints :: "(string \<times> string list) list"
  sequences :: "(string \<times> SequenceInfo) list"
  views :: "(string \<times> ViewInfo) list"
  next_table_id :: TableId
  next_index_id :: IndexId
  object_cache :: "(string \<times> CacheEntry) list"
  cat_stats :: CatalogStats
  rw_mutex :: rw_lock

definition Catalog_new :: Catalog where
  "Catalog_new = \<lparr>tables = [], table_id_map = [], cat_indexes = [], index_id_map = [], table_indexes = [],
     constraints = [], table_constraints = [], sequences = [], views = [], next_table_id = 1,
     next_index_id = 1, object_cache = [], cat_stats = CatalogStats_new, rw_mutex = Unlocked\<rparr>"

text \<open>The directory operations of the standard library: whether they succeed or throw.\<close>

record dir_ops =
  create_directories :: "string \<Rightarrow> bool"
  rename_dir :: "string \<Rightarrow> string \<Rightarrow> bool"
  remove_all :: "string \<Rightarrow> bool"

datatype 'a ret = Returns 'a | Throws

definition table_dir :: "string \<Rightarrow> string" where
  "table_dir name = ''data/tables'' @ ''/'' @ name"

section \<open>Locks\<close>

definition lock_unique :: "Catalog \<Rightarrow> Catalog outcome" where
  "lock_unique c = (if rw_mutex c = Unlocked then Finished (c\<lparr>rw_mutex := UniqueLock\<rparr>) else Undef)"

definition lock_shared :: "Catalog \<Rightarrow> Catalog outcome" where
  "lock_shared c = (if rw_mutex c = Unlocked then Finished (c\<lparr>rw_mutex := SharedLock\<rparr>) else Undef)"

definition unlock :: "'a \<times> Catalog \<Rightarrow> 'a \<times> Catalog" where
  "unlock rc = (fst rc, (snd rc)\<lparr>rw_mutex := Unlocked\<rparr>)"

text \<open>The scoped locks release the mutex on every way out.\<close>

definition locked :: "(Catalog \<Rightarrow> Catalog outcome) \<Rightarrow> (Catalog \<Rightarrow> ('a \<times> Catalog) outcome) \<Rightarrow> Catalog \<Rightarrow> ('a \<times> Catalog) outcome" where
  "locked lk body c = and_then (lk c) (\<lambda>c. and_then (body c) (\<lambda>rc. Finished (unlock rc)))"

section \<open>Identifiers and dependencies\<close>

definition getNextTableId :: "Catalog \<Rightarrow> TableId \<times> Catalog" where
  "getNextTableId c = (next_table_id c, c\<lparr>next_table_id := next_table_id c + 1\<rparr>)"

definition getNextIndexId :: "Catalog \<Rightarrow> IndexId \<times> Catalog" where
  "getNextIndexId c = (next_index_id c, c\<lparr>next_index_id := next_index_id c + 1\<rparr>)"

definition getIndexId :: "string \<Rightarrow> Catalog \<Rightarrow> (IndexId \<times> Catalog) outcome" where
  "getIndexId name = locked lock_shared (\<lambda>c.
     Finished (case map_of (cat_indexes c) name of Some i \<Rightarrow> i | None \<Rightarrow> 0, c))"

definition getIndexName :: "IndexId \<Rightarrow> Catalog \<Rightarrow> (string \<times> Catalog) outcome" where
  "getIndexName i = locked lock_shared (\<lambda>c.
     Finished (case map_of (index_id_map c) i of Some n \<Rightarrow> n | None \<Rightarrow> [], c))"

fun index_names :: "IndexId list \<Rightarrow> Catalog \<Rightarrow> (string list \<times> Catalog) outcome" where
  "index_names [] c = Finished ([], c)"
| "index_names (i # is) c =
     and_then (getIndexName i c) (\<lambda>(n, c). and_then (index_names is c) (\<lambda>(ns, c). Finished (n # ns, c)))"

definition listIndexes :: "string \<Rightarrow> Catalog \<Rightarrow> (string list \<times> Catalog) outcome" where
  "listIndexes table = locked lock_shared (\<lambda>c.
     case map_of (table_indexes c) table of None \<Rightarrow> Finished ([], c) | Some is \<Rightarrow> index_names is c)"

definition getDependencies :: "string \<Rightarrow> Catalog \<Rightarrow> (string list \<times> Catalog) outcome" where
  "getDependencies name c =
     (let vs = [''VIEW:'' @ n. (n, v) \<leftarrow> views c, find_sub name (view_query v) 0 \<noteq> None];
          cs = [''CONSTRAINT:'' @ n. (n, k) \<leftarrow> constraints c, con_table k = name \<or> ref_table k = name];
          is = concat [is. (t, is) \<leftarrow> table_indexes c, t = name]
      in and_then (index_names is c) (\<lambda>(ns, c). Finished (vs @ cs @ map (\<lambda>n. ''INDEX:'' @ n) ns, c)))"

definition canDrop :: "string \<Rightarrow> Catalog \<Rightarrow> (bool \<times> Catalog) outcome" where
  "canDrop name c = and_then (getDependencies name c) (\<lambda>(deps, c). Finished (deps = [], c))"

section \<open>Tables\<close>

definition createTable :: "dir_ops \<Rightarrow> string \<Rightarrow> TableSchema \<Rightarrow> Catalog \<Rightarrow> (StatusCode ret \<times> Catalog) outcome" where
  "createTable fs name schema = locked lock_unique (\<lambda>c.
     if map_of (tables c) name \<noteq> None then Finished (Returns ALREADY_EXISTS, c)
     else
       let (new_schema, c) = (if tab_id schema = 0 then let (i, c) = getNextTableId c in (schema\<lparr>tab_id := i\<rparr>, c)
                              else (schema, c));
           c = c\<lparr>tables := AList.update name new_schema (tables c),
                 table_id_map := AList.update (tab_id new_schema) name (table_id_map c)\<rparr>
       in if \<not> create_directories fs (table_dir name) then Finished (Throws, c)
          else Finished (Returns OK, c\<lparr>cat_stats := (cat_stats c)\<lparr>table_count := table_count (cat_stats c) + 1\<rparr>\<rparr>))"

text \<open>
  \<^verbatim>\<open>index_id_map_[id]\<close> adds an empty name when the identifier is unknown, and the next
  line removes it again.
\<close>

fun drop_indexes :: "IndexId list \<Rightarrow> Catalog \<Rightarrow> Catalog" where
  "drop_indexes [] c = c"
| "drop_indexes (i # is) c =
     (let n = (case map_of (index_id_map c) i of Some n \<Rightarrow> n | None \<Rightarrow> []) in
      drop_indexes is (c\<lparr>cat_indexes := AList.delete n (cat_indexes c), index_id_map := AList.delete i (index_id_map c)\<rparr>))"

definition dropTable :: "dir_ops \<Rightarrow> string \<Rightarrow> Catalog \<Rightarrow> (StatusCode ret \<times> Catalog) outcome" where
  "dropTable fs name = locked lock_unique (\<lambda>c.
     case map_of (tables c) name of None \<Rightarrow> Finished (Returns NOT_FOUND, c)
     | Some schema \<Rightarrow> and_then (canDrop name c) (\<lambda>(ok, c).
         if \<not> ok then Finished (Returns ERROR, c)
         else
           let c = (case map_of (table_indexes c) name of None \<Rightarrow> c
                    | Some is \<Rightarrow> (drop_indexes is c)\<lparr>table_indexes := AList.delete name (table_indexes c)\<rparr>);
               c = (case map_of (table_constraints c) name of None \<Rightarrow> c
                    | Some ns \<Rightarrow> c\<lparr>constraints := fold AList.delete ns (constraints c),
                                  table_constraints := AList.delete name (table_constraints c)\<rparr>);
               c = c\<lparr>tables := AList.delete name (tables c), table_id_map := AList.delete (tab_id schema) (table_id_map c)\<rparr>
           in if \<not> remove_all fs (table_dir name) then Finished (Throws, c)
              else Finished (Returns OK, c\<lparr>cat_stats := (cat_stats c)\<lparr>table_count := table_count (cat_stats c) - 1\<rparr>\<rparr>)))"

definition renameTable :: "dir_ops \<Rightarrow> string \<Rightarrow> string \<Rightarrow> Catalog \<Rightarrow> (StatusCode ret \<times> Catalog) outcome" where
  "renameTable fs old_name new_name = locked lock_unique (\<lambda>c.
     case map_of (tables c) old_name of None \<Rightarrow> Finished (Returns NOT_FOUND, c)
     | Some schema \<Rightarrow>
         if map_of (tables c) new_name \<noteq> None then Finished (Returns ALREADY_EXISTS, c)
         else
           let schema = schema\<lparr>tab_name := new_name\<rparr>;
               c = c\<lparr>tables := AList.update new_name schema (AList.delete old_name (tables c)),
                     table_id_map := AList.update (tab_id schema) new_name (table_id_map c)\<rparr>
           in Finished (if rename_dir fs (table_dir old_name) (table_dir new_name) then Returns OK else Throws, c))"

definition getTable :: "string \<Rightarrow> Catalog \<Rightarrow> (TableSchema option \<times> Catalog) outcome" where
  "getTable name = locked lock_shared (\<lambda>c. Finished
     (case map_of (tables c) name of
        Some s \<Rightarrow> (Some s, c\<lparr>cat_stats := (cat_stats c)\<lparr>cache_hits := cache_hits (cat_stats c) + 1\<rparr>\<rparr>)
      | None \<Rightarrow> (None, c\<lparr>cat_stats := (cat_stats c)\<lparr>cache_misses := cache_misses (cat_stats c) + 1\<rparr>\<rparr>)))"

definition getTableById :: "TableId \<Rightarrow> Catalog \<Rightarrow> (TableSchema option \<times> Catalog) outcome" where
  "getTableById i = locked lock_shared (\<lambda>c.
     case map_of (table_id_map c) i of Some n \<Rightarrow> getTable n c | None \<Rightarrow> Finished (None, c))"

definition listTables :: "Catalog \<Rightarrow> (string list \<times> Catalog) outcome" where
  "listTables = locked lock_shared (\<lambda>c. Finished (map fst (tables c), c))"

definition getAllTables :: "Catalog \<Rightarrow> (TableSchema list \<times> Catalog) outcome" where
  "getAllTables = locked lock_shared (\<lambda>c. Finished (map snd (tables c), c))"

definition tableExists :: "string \<Rightarrow> Catalog \<Rightarrow> (bool \<times> Catalog) outcome" where
  "tableExists name = locked lock_shared (\<lambda>c. Finished (map_of (tables c) name \<noteq> None, c))"

section \<open>Indexes\<close>

definition push_to :: "'k \<Rightarrow> 'v \<Rightarrow> ('k \<times> 'v list) list \<Rightarrow> ('k \<times> 'v list) list" where
  "push_to k v m = AList.update k ((case map_of m k of Some vs \<Rightarrow> vs | None \<Rightarrow> []) @ [v]) m"

definition createIndex :: "string \<Rightarrow> string \<Rightarrow> string list \<Rightarrow> bool \<Rightarrow> Catalog \<Rightarrow> (StatusCode \<times> Catalog) outcome" where
  "createIndex name table cols unique = locked lock_unique (\<lambda>c.
     if map_of (cat_indexes c) name \<noteq> None then Finished (ALREADY_EXISTS, c)
     else (case map_of (tables c) table of None \<Rightarrow> Finished (NOT_FOUND, c)
     | Some schema \<Rightarrow>
         let (i, c) = getNextIndexId c;
             c = c\<lparr>cat_indexes := AList.update name i (cat_indexes c),
                   index_id_map := AList.update i name (index_id_map c),
                   table_indexes := push_to table i (table_indexes c),
                   tables := AList.update table (schema\<lparr>indexes := fold (\<lambda>col. AList.update col i) cols (indexes schema)\<rparr>) (tables c)\<rparr>
         in Finished (OK, c\<lparr>cat_stats := (cat_stats c)\<lparr>index_count := index_count (cat_stats c) + 1\<rparr>\<rparr>)))"

fun erase_from_first :: "'v \<Rightarrow> ('k \<times> 'v list) list \<Rightarrow> ('k \<times> 'v list) list" where
  "erase_from_first v [] = []"
| "erase_from_first v ((k, vs) # m) =
     (if v \<in> set vs then (k, remove1 v vs) # m else (k, vs) # erase_from_first v m)"

definition dropIndex :: "string \<Rightarrow> Catalog \<Rightarrow> (StatusCode \<times> Catalog) outcome" where
  "dropIndex name = locked lock_unique (\<lambda>c.
     case map_of (cat_indexes c) name of None \<Rightarrow> Finished (NOT_FOUND, c)
     | Some i \<Rightarrow>
         let c = c\<lparr>tables := map (\<lambda>(n, s). (n, s\<lparr>indexes := filter (\<lambda>(col, j). j \<noteq> i) (indexes s)\<rparr>)) (tables c),
                   table_indexes := erase_from_first i (table_indexes c),
                   cat_indexes := AList.delete name (cat_indexes c),
                   index_id_map := AList.delete i (index_id_map c)\<rparr>
         in Finished (OK, c\<lparr>cat_stats := (cat_stats c)\<lparr>index_count := index_count (cat_stats c) - 1\<rparr>\<rparr>))"

definition dropIndexById :: "IndexId \<Rightarrow> Catalog \<Rightarrow> (StatusCode \<times> Catalog) outcome" where
  "dropIndexById i = locked lock_unique (\<lambda>c.
     case map_of (index_id_map c) i of None \<Rightarrow> Finished (NOT_FOUND, c) | Some n \<Rightarrow> dropIndex n c)"

definition indexExists :: "string \<Rightarrow> Catalog \<Rightarrow> (bool \<times> Catalog) outcome" where
  "indexExists name = locked lock_shared (\<lambda>c. Finished (map_of (cat_indexes c) name \<noteq> None, c))"

section \<open>Constraints\<close>

definition addConstraint :: "string \<Rightarrow> ConstraintInfo \<Rightarrow> Catalog \<Rightarrow> (StatusCode \<times> Catalog) outcome" where
  "addConstraint table k = locked lock_unique (\<lambda>c.
     if map_of (constraints c) (con_name k) \<noteq> None then Finished (ALREADY_EXISTS, c)
     else Finished (OK, c\<lparr>constraints := AList.update (con_name k) k (constraints c),
                          table_constraints := push_to table (con_name k) (table_constraints c)\<rparr>))"

definition dropConstraint :: "string \<Rightarrow> string \<Rightarrow> Catalog \<Rightarrow> (StatusCode \<times> Catalog) outcome" where
  "dropConstraint table name = locked lock_unique (\<lambda>c.
     case map_of (constraints c) name of None \<Rightarrow> Finished (NOT_FOUND, c)
     | Some k \<Rightarrow>
         let c = c\<lparr>constraints := AList.delete name (constraints c)\<rparr>
         in Finished (OK, (case map_of (table_constraints c) table of None \<Rightarrow> c
              | Some ns \<Rightarrow> c\<lparr>table_constraints := AList.update table (remove1 name ns) (table_constraints c)\<rparr>)))"

definition getConstraints :: "string \<Rightarrow> Catalog \<Rightarrow> (ConstraintInfo list \<times> Catalog) outcome" where
  "getConstraints table = locked lock_shared (\<lambda>c.
     Finished (case map_of (table_constraints c) table of None \<Rightarrow> []
               | Some ns \<Rightarrow> List.map_filter (map_of (constraints c)) ns, c))"

section \<open>Sequences\<close>

definition createSequence :: "SequenceInfo \<Rightarrow> Catalog \<Rightarrow> (StatusCode \<times> Catalog) outcome" where
  "createSequence q = locked lock_unique (\<lambda>c.
     if map_of (sequences c) (seq_name q) \<noteq> None then Finished (ALREADY_EXISTS, c)
     else Finished (OK, c\<lparr>sequences := AList.update (seq_name q) q (sequences c),
            cat_stats := (cat_stats c)\<lparr>sequence_count := sequence_count (cat_stats c) + 1\<rparr>\<rparr>))"

definition dropSequence :: "string \<Rightarrow> Catalog \<Rightarrow> (StatusCode \<times> Catalog) outcome" where
  "dropSequence name = locked lock_unique (\<lambda>c.
     case map_of (sequences c) name of None \<Rightarrow> Finished (NOT_FOUND, c)
     | Some q \<Rightarrow> Finished (OK, c\<lparr>sequences := AList.delete name (sequences c),
            cat_stats := (cat_stats c)\<lparr>sequence_count := sequence_count (cat_stats c) - 1\<rparr>\<rparr>))"

text \<open>The addition of two \<^verbatim>\<open>int64_t\<close> is undefined when it overflows.\<close>

definition add_int64 :: "64 word \<Rightarrow> 64 word \<Rightarrow> 64 word outcome" where
  "add_int64 a b = (let s = sint a + sint b in
     if - (2 ^ 63) \<le> s \<and> s < 2 ^ 63 then Finished (word_of_int s) else Undef)"

definition advance_sequence :: "SequenceInfo \<Rightarrow> SequenceInfo outcome" where
  "advance_sequence q = and_then (add_int64 (current_value q) (increment q)) (\<lambda>v. Finished
     (if sint v > sint (max_value q)
      then (if cycle q then q\<lparr>current_value := min_value q\<rparr> else q\<lparr>current_value := max_value q\<rparr>)
      else q\<lparr>current_value := v\<rparr>))"

definition nextValue :: "string \<Rightarrow> Catalog \<Rightarrow> (64 word \<times> Catalog) outcome" where
  "nextValue name = locked lock_unique (\<lambda>c.
     case map_of (sequences c) name of None \<Rightarrow> Finished (-1, c)
     | Some q \<Rightarrow> and_then (advance_sequence q) (\<lambda>q'.
         Finished (current_value q, c\<lparr>sequences := AList.update name q' (sequences c)\<rparr>)))"

definition getSequence :: "string \<Rightarrow> Catalog \<Rightarrow> (SequenceInfo option \<times> Catalog) outcome" where
  "getSequence name = locked lock_shared (\<lambda>c. Finished (map_of (sequences c) name, c))"

definition sequenceExists :: "string \<Rightarrow> Catalog \<Rightarrow> (bool \<times> Catalog) outcome" where
  "sequenceExists name = locked lock_shared (\<lambda>c. Finished (map_of (sequences c) name \<noteq> None, c))"

section \<open>Views\<close>

definition createView :: "ViewInfo \<Rightarrow> Catalog \<Rightarrow> (StatusCode \<times> Catalog) outcome" where
  "createView v = locked lock_unique (\<lambda>c.
     if map_of (views c) (view_name v) \<noteq> None then Finished (ALREADY_EXISTS, c)
     else Finished (OK, c\<lparr>views := AList.update (view_name v) v (views c),
            cat_stats := (cat_stats c)\<lparr>view_count := view_count (cat_stats c) + 1\<rparr>\<rparr>))"

definition dropView :: "string \<Rightarrow> Catalog \<Rightarrow> (StatusCode \<times> Catalog) outcome" where
  "dropView name = locked lock_unique (\<lambda>c.
     case map_of (views c) name of None \<Rightarrow> Finished (NOT_FOUND, c)
     | Some v \<Rightarrow> Finished (OK, c\<lparr>views := AList.delete name (views c),
            cat_stats := (cat_stats c)\<lparr>view_count := view_count (cat_stats c) - 1\<rparr>\<rparr>))"

definition getView :: "string \<Rightarrow> Catalog \<Rightarrow> (ViewInfo option \<times> Catalog) outcome" where
  "getView name = locked lock_shared (\<lambda>c. Finished (map_of (views c) name, c))"

definition listViews :: "Catalog \<Rightarrow> (string list \<times> Catalog) outcome" where
  "listViews = locked lock_shared (\<lambda>c. Finished (map fst (views c), c))"

definition viewExists :: "string \<Rightarrow> Catalog \<Rightarrow> (bool \<times> Catalog) outcome" where
  "viewExists name = locked lock_shared (\<lambda>c. Finished (map_of (views c) name \<noteq> None, c))"

section \<open>Statistics and the object cache\<close>

definition resetStats :: "Catalog \<Rightarrow> Catalog" where
  "resetStats c = c\<lparr>cat_stats := CatalogStats_new\<rparr>"

definition clearCache :: "Catalog \<Rightarrow> Catalog" where
  "clearCache c = c\<lparr>object_cache := []\<rparr>"

definition invalidateTable :: "string \<Rightarrow> Catalog \<Rightarrow> Catalog" where
  "invalidateTable name c = c\<lparr>object_cache := AList.delete (''table:'' @ name) (object_cache c)\<rparr>"

fun oldest_entry :: "string \<times> CacheEntry \<Rightarrow> (string \<times> CacheEntry) list \<Rightarrow> string \<times> CacheEntry" where
  "oldest_entry best [] = best"
| "oldest_entry best (e # es) = oldest_entry (if timestamp (snd e) < timestamp (snd best) then e else best) es"

definition updateCache :: "u64 \<Rightarrow> string \<Rightarrow> nat \<Rightarrow> Catalog \<Rightarrow> Catalog" where
  "updateCache now key obj c =
     (let m = AList.update key \<lparr>timestamp = now, object = obj\<rparr> (object_cache c) in
      c\<lparr>object_cache := (if length m > 1000 then AList.delete (fst (oldest_entry (hd m) m)) m else m)\<rparr>)"

definition getFromCache :: "string \<Rightarrow> Catalog \<Rightarrow> nat option" where
  "getFromCache key c = map_option object (map_of (object_cache c) key)"

section \<open>Persistence\<close>

definition int_of_code :: "nat \<Rightarrow> int" where
  "int_of_code n = sint (of_nat n :: 32 word)"

definition code_of_int :: "int \<Rightarrow> nat" where
  "code_of_int i = unat (word_of_int i :: 32 word)"

definition column_json :: "'j json_lib \<Rightarrow> ColumnSchema \<Rightarrow> 'j" where
  "column_json L col = j_object L
     [(''id'', j_num L (uint (col_id col))), (''name'', j_text L (col_name col)),
      (''type'', j_num L (int_of_code (dt_code (col_type col)))), (''length'', j_num L (uint (col_length col))),
      (''nullable'', j_bool L (nullable col)), (''is_primary_key'', j_bool L (is_primary_key col))]"

definition table_json :: "'j json_lib \<Rightarrow> string \<times> TableSchema \<Rightarrow> 'j" where
  "table_json L = (\<lambda>(name, s). j_object L
     [(''name'', j_text L name), (''id'', j_num L (uint (tab_id s))),
      (''columns'', j_array L (map (column_json L) (columns s))),
      (''primary_key'', j_array L (map (\<lambda>i. j_num L (uint i)) (primary_key s)))])"

definition index_json :: "'j json_lib \<Rightarrow> string \<times> IndexId \<Rightarrow> 'j" where
  "index_json L = (\<lambda>(name, i). j_object L [(''name'', j_text L name), (''id'', j_num L (uint i))])"

definition constraint_json :: "'j json_lib \<Rightarrow> string \<times> ConstraintInfo \<Rightarrow> 'j" where
  "constraint_json L = (\<lambda>(name, k). j_object L
     [(''name'', j_text L name), (''type'', j_num L (int_of_code (ct_code (con_type k)))),
      (''table'', j_text L (con_table k)), (''columns'', j_array L (map (j_text L) (con_columns k))),
      (''ref_table'', j_text L (ref_table k)), (''ref_columns'', j_array L (map (j_text L) (ref_columns k))),
      (''check_expr'', j_text L (check_expr k))])"

definition sequence_json :: "'j json_lib \<Rightarrow> string \<times> SequenceInfo \<Rightarrow> 'j" where
  "sequence_json L = (\<lambda>(name, q). j_object L
     [(''name'', j_text L name), (''start'', j_num L (sint (start_value q))),
      (''current'', j_num L (sint (current_value q))), (''increment'', j_num L (sint (increment q))),
      (''min'', j_num L (sint (min_value q))), (''max'', j_num L (sint (max_value q))),
      (''cycle'', j_bool L (cycle q))])"

definition view_json :: "'j json_lib \<Rightarrow> string \<times> ViewInfo \<Rightarrow> 'j" where
  "view_json L = (\<lambda>(name, v). j_object L
     [(''name'', j_text L name), (''query'', j_text L (view_query v)),
      (''columns'', j_array L (map (j_text L) (view_columns v))), (''materialized'', j_bool L (materialized v))])"

definition catalog_json :: "'j json_lib \<Rightarrow> Catalog \<Rightarrow> 'j" where
  "catalog_json L c = j_object L
     [(''version'', j_num L 1), (''next_table_id'', j_num L (uint (next_table_id c))),
      (''next_index_id'', j_num L (uint (next_index_id c))),
      (''tables'', j_array L (map (table_json L) (tables c))),
      (''indexes'', j_array L (map (index_json L) (cat_indexes c))),
      (''constraints'', j_array L (map (constraint_json L) (constraints c))),
      (''sequences'', j_array L (map (sequence_json L) (sequences c))),
      (''views'', j_array L (map (view_json L) (views c)))]"

definition catalog_serialize :: "'j json_lib \<Rightarrow> Catalog \<Rightarrow> string fallible" where
  "catalog_serialize L c = j_dump L (catalog_json L c)"

definition column_of_json :: "'j json_lib \<Rightarrow> 'j \<Rightarrow> ColumnSchema fallible" where
  "column_of_json L j =
     fbind (get_int L j ''id'') (\<lambda>i. fbind (get_str L j ''name'') (\<lambda>n.
     fbind (get_int L j ''type'') (\<lambda>t. fbind (value_or L (j_int L) j ''length'' 0) (\<lambda>len.
     fbind (value_or L (j_flag L) j ''nullable'' True) (\<lambda>nl.
     fbind (value_or L (j_flag L) j ''is_primary_key'' False) (\<lambda>pk.
     Val (ColumnSchema_default\<lparr>col_id := word_of_int i, col_name := n, col_type := dt_of_code (code_of_int t),
       col_length := word_of_int len, nullable := nl, is_primary_key := pk\<rparr>)))))))"

definition TableSchema_default :: TableSchema where
  "TableSchema_default = \<lparr>tab_id = 0, tab_name = [], columns = [], primary_key = [], indexes = [], options = []\<rparr>"

definition table_of_json :: "'j json_lib \<Rightarrow> 'j \<Rightarrow> TableSchema fallible" where
  "table_of_json L j =
     fbind (get_int L j ''id'') (\<lambda>i. fbind (get_str L j ''name'') (\<lambda>n.
     fbind (j_at L j ''columns'') (\<lambda>cs. fbind (fmapM (column_of_json L) (j_each L cs)) (\<lambda>cols.
     fbind (get_list L (j_int L) j ''primary_key'') (\<lambda>pk.
     Val (TableSchema_default\<lparr>tab_id := word_of_int i, tab_name := n, columns := cols,
       primary_key := map word_of_int pk\<rparr>))))))"

definition index_of_json :: "'j json_lib \<Rightarrow> 'j \<Rightarrow> (string \<times> IndexId) fallible" where
  "index_of_json L j = fbind (get_str L j ''name'') (\<lambda>n. fbind (get_int L j ''id'') (\<lambda>i. Val (n, word_of_int i)))"

definition constraint_of_json :: "'j json_lib \<Rightarrow> 'j \<Rightarrow> ConstraintInfo fallible" where
  "constraint_of_json L j =
     fbind (get_str L j ''name'') (\<lambda>n. fbind (get_int L j ''type'') (\<lambda>t.
     fbind (get_str L j ''table'') (\<lambda>tb. fbind (get_list L (j_str L) j ''columns'') (\<lambda>cs.
     fbind (value_or L (j_str L) j ''ref_table'' []) (\<lambda>rt.
     fbind (value_or L (\<lambda>x. fbind (j_list L x) (fmapM (j_str L))) j ''ref_columns'' []) (\<lambda>rc.
     fbind (value_or L (j_str L) j ''check_expr'' []) (\<lambda>ch.
     Val (ConstraintInfo_new\<lparr>con_name := n, con_type := ct_of_code (code_of_int t), con_table := tb,
       con_columns := cs, ref_table := rt, ref_columns := rc, check_expr := ch\<rparr>))))))))"

definition sequence_of_json :: "'j json_lib \<Rightarrow> 'j \<Rightarrow> SequenceInfo fallible" where
  "sequence_of_json L j =
     fbind (get_str L j ''name'') (\<lambda>n. fbind (get_int L j ''start'') (\<lambda>st.
     fbind (get_int L j ''current'') (\<lambda>cu. fbind (get_int L j ''increment'') (\<lambda>inc.
     fbind (get_int L j ''min'') (\<lambda>mi. fbind (get_int L j ''max'') (\<lambda>ma. fbind (get_flag L j ''cycle'') (\<lambda>cy.
     Val \<lparr>seq_name = n, start_value = word_of_int st, current_value = word_of_int cu,
       increment = word_of_int inc, min_value = word_of_int mi, max_value = word_of_int ma, cycle = cy\<rparr>)))))))"

definition view_of_json :: "'j json_lib \<Rightarrow> 'j \<Rightarrow> ViewInfo fallible" where
  "view_of_json L j =
     fbind (get_str L j ''name'') (\<lambda>n. fbind (get_str L j ''query'') (\<lambda>q.
     fbind (get_list L (j_str L) j ''columns'') (\<lambda>cs. fbind (value_or L (j_flag L) j ''materialized'' False) (\<lambda>m.
     Val (ViewInfo_new\<lparr>view_name := n, view_query := q, view_columns := cs, materialized := m\<rparr>)))))"

definition buildIdMaps :: "Catalog \<Rightarrow> Catalog" where
  "buildIdMaps c = c\<lparr>table_id_map := fold (\<lambda>(n, s). AList.update (tab_id s) n) (tables c) (table_id_map c),
     index_id_map := fold (\<lambda>(n, i). AList.update i n) (cat_indexes c) (index_id_map c)\<rparr>"

text \<open>A section of the document, which may be missing when \<open>opt\<close> holds.\<close>

definition load_section :: "'j json_lib \<Rightarrow> bool \<Rightarrow> string \<Rightarrow> ('j \<Rightarrow> 'a fallible) \<Rightarrow> ('a \<Rightarrow> 's \<Rightarrow> 's) \<Rightarrow> 'j \<Rightarrow> 's \<Rightarrow> unit fallible \<times> 's" where
  "load_section L opt k rd add j s =
     (if opt \<and> \<not> j_contains L j k then (Val (), s)
      else (case j_index L j k of Val x \<Rightarrow> load_each rd add (j_each L x) s | Exn \<Rightarrow> (Exn, s) | UB \<Rightarrow> (UB, s)))"

definition load_ids :: "'j json_lib \<Rightarrow> 'j \<Rightarrow> Catalog \<Rightarrow> unit fallible \<times> Catalog" where
  "load_ids L j c =
     (case fbind (fbind (j_index L j ''version'') (j_int L))
             (\<lambda>v. if (word_of_int v :: 32 word) \<noteq> 1 then Exn else fbind (j_index L j ''next_table_id'') (j_int L)) of
        Exn \<Rightarrow> (Exn, c) | UB \<Rightarrow> (UB, c)
      | Val t \<Rightarrow>
          let c = c\<lparr>next_table_id := word_of_int t\<rparr> in
          (case fbind (j_index L j ''next_index_id'') (j_int L) of
             Exn \<Rightarrow> (Exn, c) | UB \<Rightarrow> (UB, c) | Val i \<Rightarrow> (Val (), c\<lparr>next_index_id := word_of_int i\<rparr>)))"

definition add_table :: "TableSchema \<Rightarrow> Catalog \<Rightarrow> Catalog" where
  "add_table s c = c\<lparr>tables := AList.update (tab_name s) s (tables c)\<rparr>"

definition add_index :: "string \<times> IndexId \<Rightarrow> Catalog \<Rightarrow> Catalog" where
  "add_index = (\<lambda>(n, i) c. c\<lparr>cat_indexes := AList.update n i (cat_indexes c), index_id_map := AList.update i n (index_id_map c)\<rparr>)"

definition add_constraint :: "ConstraintInfo \<Rightarrow> Catalog \<Rightarrow> Catalog" where
  "add_constraint k c = c\<lparr>constraints := AList.update (con_name k) k (constraints c),
     table_constraints := push_to (con_table k) (con_name k) (table_constraints c)\<rparr>"

definition add_sequence :: "SequenceInfo \<Rightarrow> Catalog \<Rightarrow> Catalog" where
  "add_sequence q c = c\<lparr>sequences := AList.update (seq_name q) q (sequences c)\<rparr>"

definition add_view :: "ViewInfo \<Rightarrow> Catalog \<Rightarrow> Catalog" where
  "add_view v c = c\<lparr>views := AList.update (view_name v) v (views c)\<rparr>"

definition catalog_deserialize :: "'j json_lib \<Rightarrow> string \<Rightarrow> Catalog \<Rightarrow> unit fallible \<times> Catalog" where
  "catalog_deserialize L txt c =
     (case j_parse L txt of Exn \<Rightarrow> (Exn, c) | UB \<Rightarrow> (UB, c)
      | Val j \<Rightarrow>
          then_load (then_load (then_load (then_load (then_load (then_load (load_ids L j c)
            (load_section L False ''tables'' (table_of_json L) add_table j))
            (load_section L False ''indexes'' (index_of_json L) add_index j))
            (load_section L True ''constraints'' (constraint_of_json L) add_constraint j))
            (load_section L True ''sequences'' (sequence_of_json L) add_sequence j))
            (load_section L True ''views'' (view_of_json L) add_view j))
            (\<lambda>c. (Val (), buildIdMaps c)))"

text \<open>The content of \<^verbatim>\<open>catalog.json\<close>, if the file can be opened.\<close>

definition catalog_load :: "'j json_lib \<Rightarrow> string option \<Rightarrow> Catalog \<Rightarrow> (StatusCode \<times> Catalog) outcome" where
  "catalog_load L file c =
     (case file of None \<Rightarrow> Finished (NOT_FOUND, c)
      | Some txt \<Rightarrow> (case catalog_deserialize L txt c of (Val _, c) \<Rightarrow> Finished (OK, c) | (Exn, c) \<Rightarrow> Finished (ERROR, c) | (UB, c) \<Rightarrow> Undef))"

definition catalog_init :: "'j json_lib \<Rightarrow> string option \<Rightarrow> Catalog \<Rightarrow> (bool \<times> Catalog) outcome" where
  "catalog_init L file c = and_then (catalog_load L file c) (\<lambda>(st, c). Finished (st = OK, c))"

text \<open>
  The file is emptied when it is opened; printing may throw, which leaves it empty.
\<close>

definition catalog_save :: "'j json_lib \<Rightarrow> bool \<Rightarrow> Catalog \<Rightarrow> string option \<Rightarrow> StatusCode ret \<times> string option" where
  "catalog_save L can_open c file =
     (if \<not> can_open then (Returns IO_ERROR, file)
      else (case catalog_serialize L c of Val txt \<Rightarrow> (Returns OK, Some txt) | _ \<Rightarrow> (Throws, Some [])))"

end
