(* ===== verification/CatalogFacts.thy ===== *)
theory CatalogFacts
  imports Catalog
begin

text \<open>
  The catalog keeps its maps consistent under every sequence of calls, what dropping and renaming
  a table does to the objects that depend on it, the numbers a sequence hands out, and what
  survives saving and loading.
\<close>

section \<open>The invariant\<close>

definition table_maps_ok :: "(string \<times> TableSchema) list \<Rightarrow> (TableId \<times> string) list \<Rightarrow> TableId \<Rightarrow> bool" where
  "table_maps_ok T M nxt \<longleftrightarrow> 0 < nxt \<and> wf_map T \<and> wf_map M \<and>
     (\<forall>n s. map_of T n = Some s \<longrightarrow> tab_name s = n \<and> map_of M (tab_id s) = Some n \<and> 0 < tab_id s \<and> tab_id s < nxt) \<and>
     (\<forall>i n. map_of M i = Some n \<longrightarrow> (\<exists>s. map_of T n = Some s \<and> tab_id s = i))"

definition listed :: "(string \<times> IndexId list) list \<Rightarrow> string \<Rightarrow> IndexId \<Rightarrow> bool" where
  "listed TI t i \<longleftrightarrow> (\<exists>is. map_of TI t = Some is \<and> i \<in> set is)"

definition index_maps_ok :: "(string \<times> IndexId) list \<Rightarrow> (IndexId \<times> string) list \<Rightarrow> (string \<times> IndexId list) list \<Rightarrow> IndexId \<Rightarrow> bool" where
  "index_maps_ok I M TI nxt \<longleftrightarrow> 0 < nxt \<and> wf_map I \<and> wf_map M \<and> wf_map TI \<and>
     (\<forall>n i. map_of I n = Some i \<longleftrightarrow> map_of M i = Some n) \<and>
     (\<forall>i n. map_of M i = Some n \<longrightarrow> 0 < i \<and> i < nxt) \<and>
     (\<forall>t is. map_of TI t = Some is \<longrightarrow> distinct is) \<and>
     (\<forall>t i. listed TI t i \<longrightarrow> map_of M i \<noteq> None) \<and>
     (\<forall>i. map_of M i \<noteq> None \<longrightarrow> (\<exists>!t. listed TI t i))"

definition refs_ok :: "(string \<times> TableSchema) list \<Rightarrow> (IndexId \<times> string) list \<Rightarrow> bool" where
  "refs_ok T M \<longleftrightarrow> (\<forall>n s col i. map_of T n = Some s \<and> (col, i) \<in> set (indexes s) \<longrightarrow> map_of M i \<noteq> None)"

definition constraints_ok :: "(string \<times> ConstraintInfo) list \<Rightarrow> (string \<times> string list) list \<Rightarrow> bool" where
  "constraints_ok K TC \<longleftrightarrow> wf_map K \<and> wf_map TC \<and> (\<forall>n k. map_of K n = Some k \<longrightarrow> con_name k = n)"

definition cat_inv :: "Catalog \<Rightarrow> bool" where
  "cat_inv c \<longleftrightarrow> rw_mutex c = Unlocked \<and>
     table_maps_ok (tables c) (table_id_map c) (next_table_id c) \<and>
     index_maps_ok (cat_indexes c) (index_id_map c) (table_indexes c) (next_index_id c) \<and>
     refs_ok (tables c) (index_id_map c) \<and>
     constraints_ok (constraints c) (table_constraints c) \<and>
     wf_map (sequences c) \<and> (\<forall>n q. map_of (sequences c) n = Some q \<longrightarrow> seq_name q = n) \<and>
     wf_map (views c) \<and> (\<forall>n v. map_of (views c) n = Some v \<longrightarrow> view_name v = n) \<and>
     wf_map (object_cache c) \<and> length (object_cache c) \<le> 1000"

lemma cat_inv_new: "cat_inv Catalog_new"
  by (simp add: cat_inv_def Catalog_new_def table_maps_ok_def index_maps_ok_def refs_ok_def
      constraints_ok_def listed_def)

section \<open>Locks\<close>

text \<open>Every operation that returns was called with the mutex free and leaves it free.\<close>

lemma locked_unique:
  "locked lock_unique body c = Finished (r, c') \<longleftrightarrow>
   rw_mutex c = Unlocked \<and> (\<exists>d. body (c\<lparr>rw_mutex := UniqueLock\<rparr>) = Finished (r, d) \<and> c' = d\<lparr>rw_mutex := Unlocked\<rparr>)"
  by (auto simp: locked_def lock_unique_def unlock_def and_then_Finished)

lemma locked_shared:
  "locked lock_shared body c = Finished (r, c') \<longleftrightarrow>
   rw_mutex c = Unlocked \<and> (\<exists>d. body (c\<lparr>rw_mutex := SharedLock\<rparr>) = Finished (r, d) \<and> c' = d\<lparr>rw_mutex := Unlocked\<rparr>)"
  by (auto simp: locked_def lock_shared_def unlock_def and_then_Finished)

lemma locked_run:
  "rw_mutex c = Unlocked \<Longrightarrow>
   locked lock_unique body c = and_then (body (c\<lparr>rw_mutex := UniqueLock\<rparr>)) (\<lambda>rc. Finished (unlock rc))"
  "rw_mutex c = Unlocked \<Longrightarrow>
   locked lock_shared body c = and_then (body (c\<lparr>rw_mutex := SharedLock\<rparr>)) (\<lambda>rc. Finished (unlock rc))"
  by (simp_all add: locked_def lock_unique_def lock_shared_def)

lemma getIndexName_owned: "rw_mutex c \<noteq> Unlocked \<Longrightarrow> getIndexName i c = Undef"
  by (simp add: getIndexName_def locked_def lock_shared_def)

lemma index_names_owned:
  "rw_mutex c \<noteq> Unlocked \<Longrightarrow> index_names is c = (if is = [] then Finished ([], c) else Undef)"
  by (cases "is") (simp_all add: getIndexName_owned)

section \<open>Tables\<close>

lemma table_maps_fresh:
  assumes "table_maps_ok T M nxt"
  shows "map_of M nxt = None"
  using assms unfolding table_maps_ok_def by (metis not_None_eq order.irrefl)

lemma table_maps_okI:
  assumes "0 < nxt" and "wf_map T" and "wf_map M"
    and "\<And>n s. map_of T n = Some s \<Longrightarrow> tab_name s = n \<and> map_of M (tab_id s) = Some n \<and> 0 < tab_id s \<and> tab_id s < nxt"
    and "\<And>i n. map_of M i = Some n \<Longrightarrow> \<exists>s. map_of T n = Some s \<and> tab_id s = i"
  shows "table_maps_ok T M nxt"
  using assms unfolding table_maps_ok_def by blast

lemma table_maps_okD:
  assumes "table_maps_ok T M nxt"
  shows "0 < nxt" and "wf_map T" and "wf_map M"
    and "map_of T n = Some s \<Longrightarrow> tab_name s = n \<and> map_of M (tab_id s) = Some n \<and> 0 < tab_id s \<and> tab_id s < nxt"
    and "map_of M i = Some n \<Longrightarrow> \<exists>s. map_of T n = Some s \<and> tab_id s = i"
  using assms unfolding table_maps_ok_def by blast+

lemma table_maps_create:
  assumes ok: "table_maps_ok T M nxt" and new: "map_of T (tab_name s) = None" and s: "tab_id s = nxt"
    and nxt: "nxt \<noteq> - 1"
  shows "table_maps_ok (AList.update (tab_name s) s T) (AList.update nxt (tab_name s) M) (nxt + 1)"
proof (rule table_maps_okI)
  fix n t assume "map_of (AList.update (tab_name s) s T) n = Some t"
  then consider "n = tab_name s" "t = s" | "n \<noteq> tab_name s" "map_of T n = Some t" by (auto split: if_splits)
  then show "tab_name t = n \<and> map_of (AList.update nxt (tab_name s) M) (tab_id t) = Some n \<and> 0 < tab_id t \<and> tab_id t < nxt + 1"
  proof cases
    case 1
    with s nxt table_maps_okD(1) [OF ok] show ?thesis by (simp add: less_plus_one_iff)
  next
    case 2
    from table_maps_okD(4) [OF ok 2(2)] nxt s show ?thesis by (auto simp: less_plus_one_iff)
  qed
next
  fix i n assume "map_of (AList.update nxt (tab_name s) M) i = Some n"
  then consider "i = nxt" "n = tab_name s" | "i \<noteq> nxt" "map_of M i = Some n" by (auto split: if_splits)
  then show "\<exists>t. map_of (AList.update (tab_name s) s T) n = Some t \<and> tab_id t = i"
    using table_maps_okD(5) [OF ok, of i n] new s by cases auto
next
  show "0 < nxt + 1" using nxt by (simp add: less_plus_one_iff)
qed (use table_maps_okD(1-3) [OF ok] in simp_all)

lemma table_maps_drop:
  assumes ok: "table_maps_ok T M nxt" and n: "map_of T n = Some s"
  shows "table_maps_ok (AList.delete n T) (AList.delete (tab_id s) M) nxt"
proof (rule table_maps_okI)
  fix m t assume "map_of (AList.delete n T) m = Some t"
  then have m: "m \<noteq> n" "map_of T m = Some t" by (auto split: if_splits)
  with table_maps_okD(4) [OF ok n] table_maps_okD(4) [OF ok m(2)]
  show "tab_name t = m \<and> map_of (AList.delete (tab_id s) M) (tab_id t) = Some m \<and> 0 < tab_id t \<and> tab_id t < nxt" by auto
next
  fix i m assume "map_of (AList.delete (tab_id s) M) i = Some m"
  then have "i \<noteq> tab_id s" "map_of M i = Some m" by (auto split: if_splits)
  with table_maps_okD(5) [OF ok] n show "\<exists>t. map_of (AList.delete n T) m = Some t \<and> tab_id t = i" by fastforce
qed (use table_maps_okD(1-3) [OF ok] in simp_all)

lemma table_maps_rename:
  assumes ok: "table_maps_ok T M nxt" and n: "map_of T n = Some s" and n': "map_of T n' = None"
  shows "table_maps_ok (AList.update n' (s\<lparr>tab_name := n'\<rparr>) (AList.delete n T)) (AList.update (tab_id s) n' M) nxt"
    (is "table_maps_ok ?T ?M nxt")
proof (rule table_maps_okI)
  note s = table_maps_okD(4) [OF ok n]
  fix m t assume "map_of ?T m = Some t"
  then consider "m = n'" "t = s\<lparr>tab_name := n'\<rparr>" | "m \<noteq> n" "m \<noteq> n'" "map_of T m = Some t" by (auto split: if_splits)
  then show "tab_name t = m \<and> map_of ?M (tab_id t) = Some m \<and> 0 < tab_id t \<and> tab_id t < nxt"
  proof cases
    case 2
    with table_maps_okD(4) [OF ok 2(3)] s show ?thesis by auto
  qed (use s in simp)
next
  fix i m assume "map_of ?M i = Some m"
  then consider "i = tab_id s" "m = n'" | "i \<noteq> tab_id s" "map_of M i = Some m" by (auto split: if_splits)
  then show "\<exists>t. map_of ?T m = Some t \<and> tab_id t = i"
  proof cases
    case 2
    then obtain t where "map_of T m = Some t" "tab_id t = i" using table_maps_okD(5) [OF ok] by blast
    with 2 n n' show ?thesis by auto
  qed simp
qed (use table_maps_okD(1-3) [OF ok] in simp_all)

text \<open>Changing the index references of schemas changes neither names nor identifiers.\<close>

lemma table_maps_refs:
  assumes ok: "table_maps_ok T M nxt" and T': "wf_map T'"
    and same: "\<And>n. map_option (\<lambda>s. (tab_id s, tab_name s)) (map_of T' n) = map_option (\<lambda>s. (tab_id s, tab_name s)) (map_of T n)"
  shows "table_maps_ok T' M nxt"
proof (rule table_maps_okI)
  fix n s assume "map_of T' n = Some s"
  with same [of n] obtain t where "map_of T n = Some t" "tab_id s = tab_id t" "tab_name s = tab_name t"
    by (cases "map_of T n") auto
  with table_maps_okD(4) [OF ok] show "tab_name s = n \<and> map_of M (tab_id s) = Some n \<and> 0 < tab_id s \<and> tab_id s < nxt" by simp
next
  fix i n assume "map_of M i = Some n"
  with table_maps_okD(5) [OF ok] obtain t where "map_of T n = Some t" "tab_id t = i" by blast
  with same [of n] show "\<exists>s. map_of T' n = Some s \<and> tab_id s = i" by auto
qed (use T' table_maps_okD(1,3) [OF ok] in simp_all)


section \<open>Indexes\<close>

lemma listed_push: "listed (push_to t v m) t' i \<longleftrightarrow> listed m t' i \<or> t' = t \<and> i = v"
  by (cases "map_of m t") (auto simp: listed_def push_to_def)

lemma wf_map_push [simp]: "wf_map m \<Longrightarrow> wf_map (push_to k v m)"
  by (simp add: push_to_def)

lemma keys_erase_from_first [simp]: "keys_of (erase_from_first v m) = keys_of m"
  by (induction v m rule: erase_from_first.induct) simp_all

lemma wf_map_erase [simp]: "wf_map (erase_from_first v m) \<longleftrightarrow> wf_map m"
  by (simp add: wf_map_def)

lemma map_of_erase_from_first:
  assumes "wf_map m" and "\<And>t t'. listed m t i \<Longrightarrow> listed m t' i \<Longrightarrow> t = t'"
  shows "map_of (erase_from_first i m) t = map_option (remove1 i) (map_of m t)"
  using assms
proof (induction i m rule: erase_from_first.induct)
  case (2 v k vs m)
  have k: "k \<notin> set (keys_of m)" and wf: "wf_map m" using "2.prems"(1) by (simp_all add: wf_map_def)
  then have up: "listed ((k, vs) # m) t v" if "listed m t v" for t
    using that map_of_eq_None_iff [of m k] by (auto simp: listed_def)
  show ?case
  proof (cases "v \<in> set vs")
    case True
    then have "listed ((k, vs) # m) k v" by (simp add: listed_def)
    with up "2.prems"(2) have "\<not> listed m t v" if "t \<noteq> k" using that by blast
    then have "map_option (remove1 v) (map_of m t) = map_of m t" if "t \<noteq> k"
      using that by (cases "map_of m t") (simp_all add: listed_def remove1_idem)
    with True show ?thesis by (cases "t = k") simp_all
  next
    case False
    have "map_of (erase_from_first v m) t = map_option (remove1 v) (map_of m t)"
      using False wf up "2.prems"(2) by (intro "2.IH") blast+
    with False show ?thesis by (simp add: remove1_idem)
  qed
qed simp

lemma index_maps_okI:
  assumes "0 < nxt" and "wf_map I" and "wf_map M" and "wf_map TI"
    and "\<And>n i. map_of I n = Some i \<longleftrightarrow> map_of M i = Some n"
    and "\<And>i n. map_of M i = Some n \<Longrightarrow> 0 < i \<and> i < nxt"
    and "\<And>t is. map_of TI t = Some is \<Longrightarrow> distinct is"
    and "\<And>t i. listed TI t i \<Longrightarrow> map_of M i \<noteq> None"
    and "\<And>i n. map_of M i = Some n \<Longrightarrow> \<exists>!t. listed TI t i"
  shows "index_maps_ok I M TI nxt"
  using assms unfolding index_maps_ok_def by blast

lemma index_maps_okD:
  assumes "index_maps_ok I M TI nxt"
  shows "0 < nxt" and "wf_map I" and "wf_map M" and "wf_map TI"
    and "map_of I n = Some i \<longleftrightarrow> map_of M i = Some n"
    and "map_of M i = Some n \<Longrightarrow> 0 < i \<and> i < nxt"
    and "map_of TI t = Some is \<Longrightarrow> distinct is"
    and "listed TI t i \<Longrightarrow> map_of M i \<noteq> None"
    and "map_of M i = Some n \<Longrightarrow> \<exists>!t. listed TI t i"
  using assms unfolding index_maps_ok_def by blast+

lemma index_maps_create:
  assumes ok: "index_maps_ok I M TI nxt" and new: "map_of I n = None" and nxt: "nxt \<noteq> - 1"
  shows "index_maps_ok (AList.update n nxt I) (AList.update nxt n M) (push_to t nxt TI) (nxt + 1)"
proof -
  have fresh: "map_of M nxt = None" using index_maps_okD(6) [OF ok, of nxt] by (cases "map_of M nxt") auto
  then have unlisted: "\<not> listed TI t' nxt" for t' using index_maps_okD(8) [OF ok] by blast
  have I: "map_of I m \<noteq> Some nxt" and M: "map_of M i \<noteq> Some n" for m i
    using index_maps_okD(5) [OF ok] fresh new by (metis option.distinct(1))+
  show ?thesis
  proof (rule index_maps_okI)
    show "map_of (AList.update n nxt I) m = Some i \<longleftrightarrow> map_of (AList.update nxt n M) i = Some m" for m i
      using index_maps_okD(5) [OF ok, of m i] I M by auto
    show "0 < i \<and> i < nxt + 1" if "map_of (AList.update nxt n M) i = Some m" for i m
      using that index_maps_okD(1) [OF ok] index_maps_okD(6) [OF ok, of i m] nxt
      by (auto simp: less_plus_one_iff split: if_splits)
    show "distinct is" if "map_of (push_to t nxt TI) t' = Some is" for t' "is"
      using that index_maps_okD(7) [OF ok, of t'] unlisted [of t] index_maps_okD(7) [OF ok, of t]
      by (auto simp: push_to_def listed_def split: if_splits option.splits)
    show "map_of (AList.update nxt n M) i \<noteq> None" if "listed (push_to t nxt TI) t' i" for t' i
      using that index_maps_okD(8) [OF ok, of t' i] by (auto simp: listed_push)
    show "\<exists>!t'. listed (push_to t nxt TI) t' i" if "map_of (AList.update nxt n M) i = Some m" for i m
      using that index_maps_okD(9) [OF ok, of i m] unlisted by (auto simp: listed_push split: if_splits)
    show "0 < nxt + 1" using nxt by (simp add: less_plus_one_iff)
  qed (use index_maps_okD(2-4) [OF ok] in simp_all)
qed

lemma index_maps_drop:
  assumes ok: "index_maps_ok I M TI nxt" and n: "map_of I n = Some i"
  shows "index_maps_ok (AList.delete n I) (AList.delete i M) (erase_from_first i TI) nxt"
proof -
  have i: "map_of M i = Some n" using index_maps_okD(5) [OF ok] n by blast
  have "map_of (erase_from_first i TI) t = map_option (remove1 i) (map_of TI t)" for t
    using index_maps_okD(9) [OF ok i] by (intro map_of_erase_from_first index_maps_okD(4) [OF ok]) blast
  note m = this
  have l: "listed (erase_from_first i TI) t j \<longleftrightarrow> listed TI t j \<and> j \<noteq> i" for t j
    using index_maps_okD(7) [OF ok, of t] by (auto simp: listed_def m)
  show ?thesis
  proof (rule index_maps_okI)
    show "map_of (AList.delete n I) m = Some j \<longleftrightarrow> map_of (AList.delete i M) j = Some m" for m j
      using index_maps_okD(5) [OF ok, of m j] index_maps_okD(5) [OF ok, of n j] index_maps_okD(5) [OF ok, of m i] n i by auto
    show "0 < j \<and> j < nxt" if "map_of (AList.delete i M) j = Some m" for j m
      using that index_maps_okD(6) [OF ok, of j m] by (auto split: if_splits)
    show "distinct is" if "map_of (erase_from_first i TI) t = Some is" for t "is"
      using that index_maps_okD(7) [OF ok, of t] by (auto simp: m distinct_remove1)
    show "map_of (AList.delete i M) j \<noteq> None" if "listed (erase_from_first i TI) t j" for t j
      using that index_maps_okD(8) [OF ok, of t j] by (auto simp: l)
    show "\<exists>!t. listed (erase_from_first i TI) t j" if "map_of (AList.delete i M) j = Some m" for j m
      using that index_maps_okD(9) [OF ok, of j m] by (auto simp: l split: if_splits)
  qed (use index_maps_okD(1-4) [OF ok] in simp_all)
qed

lemma index_maps_drop_table:
  assumes ok: "index_maps_ok I M TI nxt" and e: "map_of TI t = Some []"
  shows "index_maps_ok I M (AList.delete t TI) nxt"
proof -
  have l: "listed (AList.delete t TI) t' i \<longleftrightarrow> listed TI t' i" for t' i using e by (auto simp: listed_def)
  show ?thesis
  proof (rule index_maps_okI)
    show "distinct is" if "map_of (AList.delete t TI) t' = Some is" for t' "is"
      using that index_maps_okD(7) [OF ok, of t'] by (auto split: if_splits)
  qed (use index_maps_okD [OF ok] in \<open>simp_all add: l\<close>)
qed

section \<open>References of schemas to indexes\<close>

lemma refs_okI:
  assumes "\<And>n s col i. map_of T n = Some s \<Longrightarrow> (col, i) \<in> set (indexes s) \<Longrightarrow> map_of M i \<noteq> None"
  shows "refs_ok T M"
  using assms unfolding refs_ok_def by blast

lemma refs_okD: "refs_ok T M \<Longrightarrow> map_of T n = Some s \<Longrightarrow> (col, i) \<in> set (indexes s) \<Longrightarrow> \<exists>y. map_of M i = Some y"
  unfolding refs_ok_def by blast

lemma refs_update_columns:
  "(k, v) \<in> set (fold (\<lambda>col. AList.update col i) cols m) \<Longrightarrow> v = i \<or> (k, v) \<in> set m"
proof (induction cols arbitrary: m)
  case (Cons col cols)
  then have "v = i \<or> (k, v) \<in> set (AList.update col i m)" by simp
  then show ?case using set_update_subset [of col i m] by auto
qed auto

section \<open>What stands in the way of dropping a table\<close>

definition mentioned :: "string \<Rightarrow> Catalog \<Rightarrow> bool" where
  "mentioned name c \<longleftrightarrow> (\<exists>v \<in> set (map snd (views c)). \<exists>i \<le> length (view_query v). prefix name (drop i (view_query v))) \<or>
     (\<exists>k \<in> set (map snd (constraints c)). con_table k = name \<or> ref_table k = name)"

lemma find_sub_None: "find_sub p s 0 = None \<longleftrightarrow> (\<forall>i \<le> length s. \<not> prefix p (drop i s))"
  by (auto simp: find_sub_def find_None_iff le_eq_less_or_eq)

lemma concat_indexes:
  "wf_map m \<Longrightarrow> concat [is. (t, is) \<leftarrow> m, t = name] = (case map_of m name of Some is \<Rightarrow> is | None \<Rightarrow> [])"
proof (induction m)
  case (Cons x m)
  obtain t "is" where x: "x = (t, is)" by (cases x)
  have t: "map_of m t = None" and wf: "wf_map m" using Cons.prems by (simp_all add: x wf_map_def map_of_eq_None_iff)
  with Cons.IH [OF wf] show ?case by (cases "t = name") (simp_all add: x)
qed simp

lemma canDrop_owned:
  assumes "rw_mutex c \<noteq> Unlocked" and "wf_map (table_indexes c)"
  shows "canDrop name c = (if \<exists>i. listed (table_indexes c) name i then Undef else Finished (\<not> mentioned name c, c))"
proof -
  let ?is = "concat [is. (t, is) \<leftarrow> table_indexes c, t = name]"
  have "?is = [] \<longleftrightarrow> \<not> (\<exists>i. listed (table_indexes c) name i)"
    using concat_indexes [OF assms(2), of name] by (cases "map_of (table_indexes c) name") (auto simp: listed_def neq_Nil_conv)
  moreover have "[''VIEW:'' @ n. (n, v) \<leftarrow> views c, find_sub name (view_query v) 0 \<noteq> None] = [] \<and>
      [''CONSTRAINT:'' @ n. (n, k) \<leftarrow> constraints c, con_table k = name \<or> ref_table k = name] = [] \<longleftrightarrow> \<not> mentioned name c"
    unfolding mentioned_def by (auto simp: find_sub_None split: if_splits)
  ultimately show ?thesis
    using index_names_owned [OF assms(1), of ?is] by (auto simp: canDrop_def getDependencies_def Let_def)
qed

section \<open>Every call keeps the invariant\<close>

lemma cat_invD:
  assumes "cat_inv c"
  shows "rw_mutex c = Unlocked" and "table_maps_ok (tables c) (table_id_map c) (next_table_id c)"
    and "index_maps_ok (cat_indexes c) (index_id_map c) (table_indexes c) (next_index_id c)"
    and "refs_ok (tables c) (index_id_map c)" and "constraints_ok (constraints c) (table_constraints c)"
  using assms by (simp_all add: cat_inv_def)

text \<open>Most calls change one group of maps; the others keep their part of the invariant.\<close>

lemma cat_inv_change:
  assumes "cat_inv c" and "rw_mutex c' = Unlocked"
    and "table_maps_ok (tables c') (table_id_map c') (next_table_id c')"
    and "index_maps_ok (cat_indexes c') (index_id_map c') (table_indexes c') (next_index_id c')"
    and "refs_ok (tables c') (index_id_map c')" and "constraints_ok (constraints c') (table_constraints c')"
    and "sequences c' = sequences c" and "views c' = views c" and "object_cache c' = object_cache c"
  shows "cat_inv c'"
  using assms by (simp add: cat_inv_def)

lemma createTable_inv:
  assumes r: "createTable fs name s c = Finished (r, c')" and inv: "cat_inv c"
    and s: "tab_id s = 0" "tab_name s = name" "indexes s = []" and nxt: "next_table_id c \<noteq> - 1"
  shows "cat_inv c'"
proof (cases "map_of (tables c) name")
  case None
  let ?s = "s\<lparr>tab_id := next_table_id c\<rparr>"
  have T: "tables c' = AList.update name ?s (tables c)" "table_id_map c' = AList.update (next_table_id c) name (table_id_map c)"
      "next_table_id c' = next_table_id c + 1"
    and same: "rw_mutex c' = Unlocked" "cat_indexes c' = cat_indexes c" "index_id_map c' = index_id_map c"
      "table_indexes c' = table_indexes c" "next_index_id c' = next_index_id c" "constraints c' = constraints c"
      "table_constraints c' = table_constraints c" "sequences c' = sequences c" "views c' = views c" "object_cache c' = object_cache c"
    using r None s by (auto simp: createTable_def locked_unique getNextTableId_def Let_def split: if_splits)
  have "table_maps_ok (AList.update (tab_name ?s) ?s (tables c)) (AList.update (next_table_id c) (tab_name ?s) (table_id_map c)) (next_table_id c + 1)"
    using None s nxt by (intro table_maps_create [OF cat_invD(2) [OF inv]]) simp_all
  then have "table_maps_ok (tables c') (table_id_map c') (next_table_id c')" using s by (simp add: T)
  moreover have "refs_ok (tables c') (index_id_map c')"
    by (rule refs_okI) (use refs_okD [OF cat_invD(4) [OF inv]] s in \<open>auto simp: T same split: if_splits\<close>)
  ultimately show ?thesis using cat_invD [OF inv] by (intro cat_inv_change [OF inv]) (simp_all add: same)
next
  case (Some t)
  with r have "c' = c\<lparr>rw_mutex := Unlocked\<rparr>" by (auto simp: createTable_def locked_unique)
  with inv show ?thesis by (simp add: cat_inv_def)
qed

lemma drop_indexes_Nil: "\<not> (\<exists>i. listed m t i) \<Longrightarrow> map_of m t = Some is \<Longrightarrow> is = []"
  by (auto simp: listed_def)

lemma constraints_ok_delete: "constraints_ok K TC \<Longrightarrow> constraints_ok (AList.delete n K) TC"
  by (auto simp: constraints_ok_def split: if_splits)

lemma constraints_ok_deletes: "constraints_ok K TC \<Longrightarrow> constraints_ok (fold AList.delete ns K) TC"
  by (induction ns arbitrary: K) (simp_all add: constraints_ok_delete)

definition dropped :: "string \<Rightarrow> TableSchema \<Rightarrow> Catalog \<Rightarrow> Catalog" where
  "dropped name s c = c\<lparr>tables := AList.delete name (tables c), table_id_map := AList.delete (tab_id s) (table_id_map c),
     table_indexes := AList.delete name (table_indexes c),
     constraints := (case map_of (table_constraints c) name of Some ns \<Rightarrow> fold AList.delete ns (constraints c) | None \<Rightarrow> constraints c),
     table_constraints := AList.delete name (table_constraints c)\<rparr>"

definition counted :: "bool \<Rightarrow> Catalog \<Rightarrow> Catalog" where
  "counted b c = (if b then c\<lparr>cat_stats := (cat_stats c)\<lparr>table_count := table_count (cat_stats c) - 1\<rparr>\<rparr> else c)"

lemma delete_unknown: "map_of m k = None \<Longrightarrow> AList.delete k m = m"
  by (simp add: map_of_eq_None_iff delete_id)

lemma dropTable_decided:
  assumes "cat_inv c"
  shows "dropTable fs name c =
    (case map_of (tables c) name of None \<Rightarrow> Finished (Returns NOT_FOUND, c)
     | Some s \<Rightarrow> if \<exists>i. listed (table_indexes c) name i then Undef
         else if mentioned name c then Finished (Returns ERROR, c)
         else Finished (if remove_all fs (table_dir name) then Returns OK else Throws,
                        counted (remove_all fs (table_dir name)) (dropped name s c)))"
proof (cases "map_of (tables c) name")
  case None
  then show ?thesis using cat_invD(1) [OF assms] by (simp add: dropTable_def locked_run unlock_def)
next
  case (Some s)
  let ?c = "c\<lparr>rw_mutex := UniqueLock\<rparr>"
  have d: "canDrop name ?c = (if \<exists>i. listed (table_indexes c) name i then Undef else Finished (\<not> mentioned name c, ?c))"
    using canDrop_owned [of ?c name] index_maps_okD(4) [OF cat_invD(3) [OF assms]] by (simp add: mentioned_def)
  have un: "c\<lparr>rw_mutex := Unlocked\<rparr> = c" using cat_invD(1) [OF assms] by simp
  show ?thesis
  proof (cases "(\<exists>i. listed (table_indexes c) name i) \<or> mentioned name c")
    case True
    with Some un show ?thesis using cat_invD(1) [OF assms] by (auto simp: dropTable_def locked_run d unlock_def)
  next
    case False
    then have ti: "map_of (table_indexes c) name = None \<or> map_of (table_indexes c) name = Some []"
      using drop_indexes_Nil [of "table_indexes c" name] by (cases "map_of (table_indexes c) name") blast+
    then show ?thesis using Some False cat_invD(1) [OF assms]
      by (cases "map_of (table_constraints c) name")
        (auto simp: dropTable_def locked_run d unlock_def dropped_def counted_def delete_unknown Let_def)
  qed
qed

lemma cat_inv_unlock: "cat_inv c \<Longrightarrow> cat_inv (c\<lparr>rw_mutex := Unlocked\<rparr>)"
  by (simp add: cat_inv_def)

lemma cat_inv_stats: "cat_inv (c\<lparr>cat_stats := st\<rparr>) \<longleftrightarrow> cat_inv c"
  by (simp add: cat_inv_def)

lemma dropped_inv:
  assumes inv: "cat_inv c" and n: "map_of (tables c) name = Some s" and l: "\<not> (\<exists>i. listed (table_indexes c) name i)"
  shows "cat_inv (dropped name s c)"
proof (rule cat_inv_change [OF inv])
  show "table_maps_ok (tables (dropped name s c)) (table_id_map (dropped name s c)) (next_table_id (dropped name s c))"
    using table_maps_drop [OF cat_invD(2) [OF inv] n] by (simp add: dropped_def)
  have "map_of (table_indexes c) name = None \<or> map_of (table_indexes c) name = Some []"
    using drop_indexes_Nil [OF l] by (cases "map_of (table_indexes c) name") blast+
  then show "index_maps_ok (cat_indexes (dropped name s c)) (index_id_map (dropped name s c))
      (table_indexes (dropped name s c)) (next_index_id (dropped name s c))"
    using cat_invD(3) [OF inv] index_maps_drop_table [OF cat_invD(3) [OF inv]]
    by (auto simp: dropped_def delete_unknown)
  show "refs_ok (tables (dropped name s c)) (index_id_map (dropped name s c))"
    by (rule refs_okI) (use refs_okD [OF cat_invD(4) [OF inv]] in \<open>auto simp: dropped_def split: if_splits\<close>)
  have "constraints_ok K (AList.delete name (table_constraints c))" if "constraints_ok K (table_constraints c)" for K
    using that by (simp add: constraints_ok_def)
  then show "constraints_ok (constraints (dropped name s c)) (table_constraints (dropped name s c))"
    using cat_invD(5) [OF inv] constraints_ok_deletes by (auto simp: dropped_def split: option.splits)
qed (simp_all add: dropped_def cat_invD(1) [OF inv])

lemma dropTable_inv:
  assumes "dropTable fs name c = Finished (r, c')" and "cat_inv c"
  shows "cat_inv c'"
  using assms dropped_inv [OF assms(2)] unfolding dropTable_decided [OF assms(2)]
  by (auto simp: counted_def cat_inv_stats split: option.splits if_splits)

lemma renameTable_inv:
  assumes r: "renameTable fs old new c = Finished (r, c')" and inv: "cat_inv c"
  shows "cat_inv c'"
proof (cases "\<exists>s. map_of (tables c) old = Some s \<and> map_of (tables c) new = None")
  case True
  then obtain s where s: "map_of (tables c) old = Some s" "map_of (tables c) new = None" by blast
  have c': "c' = c\<lparr>tables := AList.update new (s\<lparr>tab_name := new\<rparr>) (AList.delete old (tables c)),
      table_id_map := AList.update (tab_id s) new (table_id_map c), rw_mutex := Unlocked\<rparr>"
    using r s by (auto simp: renameTable_def locked_unique Let_def)
  have "refs_ok (tables c') (index_id_map c')"
    by (rule refs_okI) (use refs_okD [OF cat_invD(4) [OF inv]] s in \<open>auto simp: c' split: if_splits\<close>)
  with table_maps_rename [OF cat_invD(2) [OF inv] s] cat_invD [OF inv] show ?thesis
    by (intro cat_inv_change [OF inv]) (simp_all add: c')
next
  case False
  then have "c' = c\<lparr>rw_mutex := Unlocked\<rparr>"
    using r by (auto simp: renameTable_def locked_unique split: option.splits)
  with inv show ?thesis by (simp add: cat_inv_unlock)
qed

lemma createIndex_inv:
  assumes r: "createIndex name table cols u c = Finished (r, c')" and inv: "cat_inv c" and nxt: "next_index_id c \<noteq> - 1"
  shows "cat_inv c'"
proof (cases "\<exists>s. map_of (cat_indexes c) name = None \<and> map_of (tables c) table = Some s")
  case True
  then obtain s where n: "map_of (cat_indexes c) name = None" and s: "map_of (tables c) table = Some s" by blast
  let ?i = "next_index_id c"
  let ?T = "AList.update table (s\<lparr>indexes := fold (\<lambda>col. AList.update col ?i) cols (indexes s)\<rparr>) (tables c)"
  have c': "tables c' = ?T" "table_id_map c' = table_id_map c" "next_table_id c' = next_table_id c"
      "cat_indexes c' = AList.update name ?i (cat_indexes c)" "index_id_map c' = AList.update ?i name (index_id_map c)"
      "table_indexes c' = push_to table ?i (table_indexes c)" "next_index_id c' = ?i + 1"
      "rw_mutex c' = Unlocked" "constraints c' = constraints c" "table_constraints c' = table_constraints c"
      "sequences c' = sequences c" "views c' = views c" "object_cache c' = object_cache c"
    using r n s by (auto simp: createIndex_def locked_unique getNextIndexId_def Let_def)
  have "table_maps_ok ?T (table_id_map c) (next_table_id c)"
    by (rule table_maps_refs [OF cat_invD(2) [OF inv]])
      (use s table_maps_okD(2) [OF cat_invD(2) [OF inv]] in auto)
  moreover have "refs_ok (tables c') (index_id_map c')"
    by (rule refs_okI)
      (use refs_okD [OF cat_invD(4) [OF inv]] s in
        \<open>auto simp: c' dest!: refs_update_columns split: if_splits\<close>)
  ultimately show ?thesis
    using index_maps_create [OF cat_invD(3) [OF inv] n nxt, of table] cat_invD(5) [OF inv]
    by (intro cat_inv_change [OF inv]) (simp_all add: c')
next
  case False
  then have "c' = c\<lparr>rw_mutex := Unlocked\<rparr>"
    using r by (auto simp: createIndex_def locked_unique split: option.splits if_splits)
  with inv show ?thesis by (simp add: cat_inv_unlock)
qed

lemma dropIndex_inv:
  assumes r: "dropIndex name c = Finished (r, c')" and inv: "cat_inv c"
  shows "cat_inv c'"
proof (cases "map_of (cat_indexes c) name")
  case None
  then have "c' = c\<lparr>rw_mutex := Unlocked\<rparr>" using r by (auto simp: dropIndex_def locked_unique)
  with inv show ?thesis by (simp add: cat_inv_unlock)
next
  case (Some i)
  let ?f = "\<lambda>s. s\<lparr>indexes := filter (\<lambda>(col, j). j \<noteq> i) (indexes s)\<rparr>"
  have c': "tables c' = map (\<lambda>(n, s). (n, ?f s)) (tables c)" "table_id_map c' = table_id_map c" "next_table_id c' = next_table_id c"
      "cat_indexes c' = AList.delete name (cat_indexes c)" "index_id_map c' = AList.delete i (index_id_map c)"
      "table_indexes c' = erase_from_first i (table_indexes c)" "next_index_id c' = next_index_id c"
      "rw_mutex c' = Unlocked" "constraints c' = constraints c" "table_constraints c' = table_constraints c"
      "sequences c' = sequences c" "views c' = views c" "object_cache c' = object_cache c"
    using r Some by (auto simp: dropIndex_def locked_unique Let_def)
  have m: "map_of (tables c') n = map_option ?f (map_of (tables c) n)" for n
    by (simp add: c' map_of_map)
  have "wf_map (tables c')" using table_maps_okD(2) [OF cat_invD(2) [OF inv]] unfolding c' by simp
  then have "table_maps_ok (tables c') (table_id_map c) (next_table_id c)"
    by (rule table_maps_refs [OF cat_invD(2) [OF inv]]) (simp add: m option.map_comp comp_def)
  moreover have "refs_ok (tables c') (index_id_map c')"
    by (rule refs_okI) (use refs_okD [OF cat_invD(4) [OF inv]] in \<open>auto simp: m c'(5) split: if_splits\<close>)
  ultimately show ?thesis
    using index_maps_drop [OF cat_invD(3) [OF inv] Some] cat_invD(5) [OF inv]
    by (intro cat_inv_change [OF inv]) (simp_all add: c'(2-))
qed

text \<open>Locking twice, dropping an index by its identifier returns only for an unknown identifier.\<close>

lemma dropIndexById_decided:
  assumes "rw_mutex c = Unlocked"
  shows "dropIndexById i c = (if map_of (index_id_map c) i = None then Finished (NOT_FOUND, c) else Undef)"
  using assms by (auto simp: dropIndexById_def locked_run unlock_def dropIndex_def locked_def lock_unique_def)

lemma constraints_ok_add:
  "constraints_ok K TC \<Longrightarrow> constraints_ok (AList.update (con_name k) k K) (push_to t (con_name k) TC)"
  by (auto simp: constraints_ok_def split: if_splits)

lemma addConstraint_inv:
  assumes r: "addConstraint table k c = Finished (r, c')" and inv: "cat_inv c"
  shows "cat_inv c'"
proof (cases "map_of (constraints c) (con_name k)")
  case None
  with r have "c' = c\<lparr>constraints := AList.update (con_name k) k (constraints c),
      table_constraints := push_to table (con_name k) (table_constraints c), rw_mutex := Unlocked\<rparr>"
    by (auto simp: addConstraint_def locked_unique)
  with constraints_ok_add [OF cat_invD(5) [OF inv]] cat_invD(2-4) [OF inv] show ?thesis
    by (intro cat_inv_change [OF inv]) simp_all
next
  case (Some k')
  with r have "c' = c\<lparr>rw_mutex := Unlocked\<rparr>" by (auto simp: addConstraint_def locked_unique)
  with inv show ?thesis by (simp add: cat_inv_unlock)
qed

lemma dropConstraint_inv:
  assumes r: "dropConstraint table name c = Finished (r, c')" and inv: "cat_inv c"
  shows "cat_inv c'"
proof (rule cat_inv_change [OF inv])
  have "constraints_ok K (AList.update t ns (table_constraints c))" if "constraints_ok K (table_constraints c)" for K t ns
    using that by (simp add: constraints_ok_def)
  then show "constraints_ok (constraints c') (table_constraints c')"
    using r cat_invD(5) [OF inv] constraints_ok_delete
    by (auto simp: dropConstraint_def locked_unique Let_def split: option.splits)
  show "table_maps_ok (tables c') (table_id_map c') (next_table_id c')"
    and "index_maps_ok (cat_indexes c') (index_id_map c') (table_indexes c') (next_index_id c')"
    and "refs_ok (tables c') (index_id_map c')"
    using r cat_invD(2-4) [OF inv] by (auto simp: dropConstraint_def locked_unique Let_def split: option.splits)
qed (use r in \<open>auto simp: dropConstraint_def locked_unique Let_def split: option.splits\<close>)

text \<open>The calls on sequences, views and the cache.\<close>

lemma advance_sequence_name: "advance_sequence q = Finished q' \<Longrightarrow> seq_name q' = seq_name q"
  by (auto simp: advance_sequence_def and_then_Finished split: if_splits)

lemma sequence_calls_inv:
  assumes "cat_inv c"
  shows "createSequence q c = Finished (r, c') \<Longrightarrow> cat_inv c'"
    and "dropSequence n c = Finished (r, c') \<Longrightarrow> cat_inv c'"
    and "nextValue n c = Finished (v, c') \<Longrightarrow> cat_inv c'"
  using assms
  by (auto simp: createSequence_def dropSequence_def nextValue_def locked_unique cat_inv_def and_then_Finished
      advance_sequence_name split: option.splits if_splits)

lemma view_calls_inv:
  assumes "cat_inv c"
  shows "createView v c = Finished (r, c') \<Longrightarrow> cat_inv c'"
    and "dropView n c = Finished (r, c') \<Longrightarrow> cat_inv c'"
  using assms by (auto simp: createView_def dropView_def locked_unique cat_inv_def split: option.splits if_splits)

lemma oldest_entry_mem: "oldest_entry e es \<in> insert e (set es)"
  by (induction es arbitrary: e) (auto split: if_splits)

lemma length_delete_known: "wf_map m \<Longrightarrow> k \<in> set (keys_of m) \<Longrightarrow> Suc (length (AList.delete k m)) = length m"
proof (induction m)
  case (Cons x m)
  then show ?case by (cases "fst x = k") (auto simp: wf_map_def delete_id split: if_splits prod.splits)
qed simp

lemma updateCache_inv:
  assumes "cat_inv c"
  shows "cat_inv (updateCache now key obj c)"
proof -
  let ?m = "AList.update key \<lparr>timestamp = now, object = obj\<rparr> (object_cache c)"
  have wf: "wf_map ?m" and len: "length ?m \<le> 1001" using assms by (auto simp: cat_inv_def alist_length_update)
  have ne: "?m \<noteq> []" by (simp add: update_nonempty)
  then have "fst (oldest_entry (hd ?m) ?m) \<in> set (keys_of ?m)"
    using oldest_entry_mem [of "hd ?m" ?m] by (metis image_eqI insertE list.set_map list.set_sel(1))
  then have "length (AList.delete (fst (oldest_entry (hd ?m) ?m)) ?m) \<le> 1000"
    using length_delete_known [OF wf] len by fastforce
  then show ?thesis using assms wf by (auto simp: cat_inv_def updateCache_def Let_def)
qed

lemma cache_calls_inv:
  assumes "cat_inv c"
  shows "cat_inv (clearCache c)" and "cat_inv (invalidateTable n c)" and "cat_inv (resetStats c)"
  using assms length_delete_le [of "''table:'' @ n" "object_cache c"]
  by (auto simp: cat_inv_def clearCache_def invalidateTable_def resetStats_def)

section \<open>Sequences of calls\<close>

text \<open>
  The calls on a catalog that numbers its tables itself: the schemas that \<^verbatim>\<open>createTable\<close> gets
  are new ones, stored under their own name, with the identifier still to be given and without an
  index. The identifier counters have not wrapped, and the catalog is not loaded from a file.
\<close>

inductive cat_step :: "Catalog \<Rightarrow> Catalog \<Rightarrow> bool" where
  "createTable fs (tab_name s) s c = Finished (r, c') \<Longrightarrow> tab_id s = 0 \<Longrightarrow> indexes s = [] \<Longrightarrow>
     next_table_id c \<noteq> - 1 \<Longrightarrow> cat_step c c'"
| "dropTable fs name c = Finished (r, c') \<Longrightarrow> cat_step c c'"
| "renameTable fs old new c = Finished (r, c') \<Longrightarrow> cat_step c c'"
| "createIndex name table cols u c = Finished (st, c') \<Longrightarrow> next_index_id c \<noteq> - 1 \<Longrightarrow> cat_step c c'"
| "dropIndex name c = Finished (st, c') \<Longrightarrow> cat_step c c'"
| "dropIndexById i c = Finished (st, c') \<Longrightarrow> cat_step c c'"
| "addConstraint table k c = Finished (st, c') \<Longrightarrow> cat_step c c'"
| "dropConstraint table name c = Finished (st, c') \<Longrightarrow> cat_step c c'"
| "createSequence q c = Finished (st, c') \<Longrightarrow> cat_step c c'"
| "dropSequence name c = Finished (st, c') \<Longrightarrow> cat_step c c'"
| "nextValue name c = Finished (v, c') \<Longrightarrow> cat_step c c'"
| "createView w c = Finished (st, c') \<Longrightarrow> cat_step c c'"
| "dropView name c = Finished (st, c') \<Longrightarrow> cat_step c c'"
| "getTable name c = Finished (t, c') \<Longrightarrow> cat_step c c'"
| "cat_step c (clearCache c)"
| "cat_step c (invalidateTable name c)"
| "cat_step c (updateCache now key obj c)"
| "cat_step c (resetStats c)"

lemma getTable_inv: "getTable n c = Finished (t, c') \<Longrightarrow> cat_inv c \<Longrightarrow> cat_inv c'"
  by (auto simp: getTable_def locked_shared cat_inv_def split: option.splits)

lemma dropIndexById_inv:
  assumes "dropIndexById i c = Finished (st, c')" and "cat_inv c"
  shows "cat_inv c'"
  using assms dropIndexById_decided [OF cat_invD(1) [OF assms(2)]] by (auto split: if_splits)

lemmas calls_inv = createTable_inv dropTable_inv renameTable_inv createIndex_inv dropIndex_inv
  dropIndexById_inv addConstraint_inv dropConstraint_inv sequence_calls_inv view_calls_inv getTable_inv
  cache_calls_inv updateCache_inv

lemma cat_step_inv: "cat_step c c' \<Longrightarrow> cat_inv c \<Longrightarrow> cat_inv c'"
  by (induction rule: cat_step.induct) (rule calls_inv; (assumption | rule refl))+

lemma reachable_inv: "cat_step\<^sup>*\<^sup>* Catalog_new c \<Longrightarrow> cat_inv c"
  by (induction rule: rtranclp_induct) (auto intro: cat_inv_new cat_step_inv)

text \<open>A catalog with two tables, one of them with an index, and a sequence.\<close>

definition sample_dirs :: dir_ops where
  "sample_dirs = \<lparr>create_directories = (\<lambda>_. True), rename_dir = (\<lambda>_ _. True), remove_all = (\<lambda>_. True)\<rparr>"

definition sample_schema :: "string \<Rightarrow> TableSchema" where
  "sample_schema n = TableSchema_default\<lparr>tab_name := n, columns := [ColumnSchema_default\<lparr>col_name := ''a''\<rparr>]\<rparr>"

definition result_of :: "('a \<times> Catalog) outcome \<Rightarrow> Catalog" where
  "result_of r = (case r of Finished (_, c) \<Rightarrow> c | _ \<Rightarrow> Catalog_new)"

definition sample_catalog :: Catalog where
  "sample_catalog = result_of (createSequence (SequenceInfo_new\<lparr>seq_name := ''q'', max_value := 2\<rparr>)
     (result_of (createIndex ''i'' ''t'' [''a''] False
     (result_of (createTable sample_dirs ''u'' (sample_schema ''u'')
     (result_of (createTable sample_dirs ''t'' (sample_schema ''t'') Catalog_new)))))))"

lemma sample_reachable: "cat_step\<^sup>*\<^sup>* Catalog_new sample_catalog"
proof -
  let ?c1 = "result_of (createTable sample_dirs ''t'' (sample_schema ''t'') Catalog_new)"
  let ?c2 = "result_of (createTable sample_dirs ''u'' (sample_schema ''u'') ?c1)"
  let ?c3 = "result_of (createIndex ''i'' ''t'' [''a''] False ?c2)"
  have "createTable sample_dirs (tab_name (sample_schema ''t'')) (sample_schema ''t'') Catalog_new = Finished (Returns OK, ?c1)"
    "createTable sample_dirs (tab_name (sample_schema ''u'')) (sample_schema ''u'') ?c1 = Finished (Returns OK, ?c2)"
    "createIndex ''i'' ''t'' [''a''] False ?c2 = Finished (OK, ?c3)"
    "createSequence (SequenceInfo_new\<lparr>seq_name := ''q'', max_value := 2\<rparr>) ?c3 = Finished (OK, sample_catalog)"
    "next_table_id Catalog_new \<noteq> - 1" "next_table_id ?c1 \<noteq> - 1" "next_index_id ?c2 \<noteq> - 1"
    "tab_id (sample_schema ''t'') = 0" "indexes (sample_schema ''t'') = []" "tab_id (sample_schema ''u'') = 0" "indexes (sample_schema ''u'') = []"
    by code_simp+
  then have "cat_step Catalog_new ?c1" "cat_step ?c1 ?c2" "cat_step ?c2 ?c3" "cat_step ?c3 sample_catalog"
    by (blast intro: cat_step.intros)+
  then show ?thesis by (meson converse_rtranclp_into_rtranclp rtranclp.rtrancl_refl)
qed

text \<open>
  C13: a catalog that gives the identifiers itself stays consistent. After any sequence of calls on a
  new catalog, other than loading a file and creating a table with an identifier or indexes of
  its own, names and identifiers of tables determine each other, names and identifiers of indexes
  determine each other, every index is listed for exactly one table, a column refers only to an index
  that exists, and the object cache has at most a thousand entries.
\<close>

theorem catalog_consistent:
  assumes "cat_step\<^sup>*\<^sup>* Catalog_new c"
  shows "(map_of (table_id_map c) i = Some n \<longleftrightarrow> (\<exists>s. map_of (tables c) n = Some s \<and> tab_id s = i)) \<and>
    (map_of (cat_indexes c) m = Some j \<longleftrightarrow> map_of (index_id_map c) j = Some m) \<and>
    ((\<exists>m. map_of (index_id_map c) j = Some m) = (\<exists>t. listed (table_indexes c) t j)) \<and>
    (\<forall>t t'. listed (table_indexes c) t j \<longrightarrow> listed (table_indexes c) t' j \<longrightarrow> t = t') \<and>
    (\<forall>s col. map_of (tables c) n = Some s \<longrightarrow> (col, j) \<in> set (indexes s) \<longrightarrow> map_of (index_id_map c) j \<noteq> None) \<and>
    length (object_cache c) \<le> 1000"
proof -
  have inv: "cat_inv c" by (rule reachable_inv [OF assms])
  note T = table_maps_okD [OF cat_invD(2) [OF inv]] and I = index_maps_okD [OF cat_invD(3) [OF inv]]
  have "map_of (table_id_map c) i = Some n \<longleftrightarrow> (\<exists>s. map_of (tables c) n = Some s \<and> tab_id s = i)" using T(4,5) by blast
  moreover have "(\<exists>m. map_of (index_id_map c) j = Some m) = (\<exists>t. listed (table_indexes c) t j)" using I(8,9) by blast
  moreover have "t = t'" if "listed (table_indexes c) t j" "listed (table_indexes c) t' j" for t t'
    using that I(8) [OF that(1)] I(9) [of j] by blast
  moreover have "length (object_cache c) \<le> 1000" using inv by (simp add: cat_inv_def)
  ultimately show ?thesis using I(5) refs_okD [OF cat_invD(4) [OF inv]] by blast
qed

theorem catalog_consistent_witness:
  "map_of (cat_indexes sample_catalog) ''i'' = Some 1 \<and> map_of (index_id_map sample_catalog) 1 = Some ''i''"
proof -
  have "map_of (cat_indexes sample_catalog) ''i'' = Some 1" by code_simp
  then show ?thesis using catalog_consistent [OF sample_reachable, of _ _ "''i''" 1] by blast
qed

text \<open>
  A caller that gives an identifier breaks this: the counter does not learn of it, and the next
  table gets the same one.
\<close>

lemma given_identifier_shared:
  "\<exists>c1 c2. createTable sample_dirs ''t'' ((sample_schema ''t'')\<lparr>tab_id := 1\<rparr>) Catalog_new = Finished (Returns OK, c1) \<and>
     createTable sample_dirs ''u'' (sample_schema ''u'') c1 = Finished (Returns OK, c2) \<and>
     map_option tab_id (map_of (tables c2) ''t'') = Some 1 \<and> map_option tab_id (map_of (tables c2) ''u'') = Some 1 \<and>
     map_of (table_id_map c2) 1 = Some ''u''"
proof -
  let ?r = "createTable sample_dirs ''t'' ((sample_schema ''t'')\<lparr>tab_id := 1\<rparr>) Catalog_new"
  let ?q = "createTable sample_dirs ''u'' (sample_schema ''u'') (result_of ?r)"
  have "?r = Finished (Returns OK, result_of ?r)" "?q = Finished (Returns OK, result_of ?q)"
    "map_option tab_id (map_of (tables (result_of ?q)) ''t'') = Some 1" "map_option tab_id (map_of (tables (result_of ?q)) ''u'') = Some 1"
    "map_of (table_id_map (result_of ?q)) 1 = Some ''u''"
    by code_simp+
  then show ?thesis by blast
qed

section \<open>Dropping and renaming tables\<close>

lemma fold_delete: "fold AList.delete ns m = filter (\<lambda>x. fst x \<notin> set ns) m"
  by (induction ns arbitrary: m) (auto simp: AList.delete_eq case_prod_beta intro!: filter_cong)

text \<open>
  C16: the exact effect of dropping a table. An unknown table is not found. A table with an index is
  never dropped: the search for dependencies takes the shared lock that the call already holds
  exclusively, which is undefined. A table that the text of a view contains or that a constraint
  names is refused and nothing changes. Otherwise the table and its identifier are gone, the
  constraints that are listed for it and the list itself too, the number of tables is one less if its
  directory could be removed (else the call throws), and everything else in the catalog is as before.
\<close>

theorem dropTable_exact:
  assumes "cat_step\<^sup>*\<^sup>* Catalog_new c"
  shows "dropTable fs name c = (case map_of (tables c) name of None \<Rightarrow> Finished (Returns NOT_FOUND, c)
     | Some s \<Rightarrow> if \<exists>i. listed (table_indexes c) name i then Undef
         else if mentioned name c then Finished (Returns ERROR, c)
         else Finished (if remove_all fs (table_dir name) then Returns OK else Throws,
           c\<lparr>tables := filter (\<lambda>x. fst x \<noteq> name) (tables c),
             table_id_map := filter (\<lambda>x. fst x \<noteq> tab_id s) (table_id_map c),
             table_indexes := filter (\<lambda>x. fst x \<noteq> name) (table_indexes c),
             constraints := filter (\<lambda>x. \<not> (\<exists>ns. map_of (table_constraints c) name = Some ns \<and> fst x \<in> set ns)) (constraints c),
             table_constraints := filter (\<lambda>x. fst x \<noteq> name) (table_constraints c),
             cat_stats := (cat_stats c)\<lparr>table_count := table_count (cat_stats c) -
               (if remove_all fs (table_dir name) then 1 else 0)\<rparr>\<rparr>))"
proof -
  have del: "AList.delete k m = filter (\<lambda>x. fst x \<noteq> k) m" for k :: 'k and m :: "('k \<times> 'x) list"
    by (auto simp: AList.delete_eq case_prod_beta intro!: filter_cong)
  have eff: "counted b (dropped name s c) = c\<lparr>tables := filter (\<lambda>x. fst x \<noteq> name) (tables c),
      table_id_map := filter (\<lambda>x. fst x \<noteq> tab_id s) (table_id_map c),
      table_indexes := filter (\<lambda>x. fst x \<noteq> name) (table_indexes c),
      constraints := filter (\<lambda>x. \<not> (\<exists>ns. map_of (table_constraints c) name = Some ns \<and> fst x \<in> set ns)) (constraints c),
      table_constraints := filter (\<lambda>x. fst x \<noteq> name) (table_constraints c),
      cat_stats := (cat_stats c)\<lparr>table_count := table_count (cat_stats c) - (if b then 1 else 0)\<rparr>\<rparr>" for b s
    by (cases "map_of (table_constraints c) name") (simp_all add: counted_def dropped_def fold_delete del)
  show ?thesis unfolding dropTable_decided [OF reachable_inv [OF assms]] eff ..
qed

theorem dropTable_exact_witness:
  "dropTable sample_dirs ''t'' sample_catalog = Undef \<and>
   (\<exists>c'. dropTable sample_dirs ''u'' sample_catalog = Finished (Returns OK, c') \<and> map_of (tables c') ''u'' = None)"
proof -
  have t: "map_of (tables sample_catalog) ''t'' \<noteq> None" "map_of (tables sample_catalog) ''u'' \<noteq> None" by code_simp+
  have l: "map_of (table_indexes sample_catalog) ''t'' = Some [1]" "map_of (table_indexes sample_catalog) ''u'' = None"
    and e: "views sample_catalog = []" "constraints sample_catalog = []" "remove_all sample_dirs (table_dir ''u'')" by code_simp+
  have "\<exists>i. listed (table_indexes sample_catalog) ''t'' i" "\<not> (\<exists>i. listed (table_indexes sample_catalog) ''u'' i)"
    "\<not> mentioned ''u'' sample_catalog"
    by (simp_all add: listed_def l mentioned_def e)
  moreover have filtered: "map_of (filter (\<lambda>x. fst x \<noteq> ''u'') m) ''u'' = None" for m :: "(string \<times> TableSchema) list"
    by (induction m) auto
  ultimately show ?thesis
    using t e dropTable_exact [OF sample_reachable, where fs = sample_dirs and name = "''t''"]
      dropTable_exact [OF sample_reachable, where fs = sample_dirs and name = "''u''"] filtered
    by (auto split: if_splits)
qed

text \<open>
  Renaming a table loses its indexes. The table is found under the new name only, but its
  indexes stay listed under the old one; the new name has no index in the way, so that the table
  can be dropped while its indexes stay in the catalog, and a new table of the old name inherits
  them.
\<close>

lemma renameTable_orphans:
  assumes "cat_step\<^sup>*\<^sup>* Catalog_new c" and "map_of (tables c) old = Some s" and "map_of (tables c) new = None"
    and "rename_dir fs (table_dir old) (table_dir new)"
  shows "\<exists>c'. renameTable fs old new c = Finished (Returns OK, c') \<and>
    map_of (tables c') = (map_of (tables c))(old := None, new \<mapsto> s\<lparr>tab_name := new\<rparr>) \<and>
    table_indexes c' = table_indexes c \<and> cat_indexes c' = cat_indexes c \<and> index_id_map c' = index_id_map c"
proof -
  have "cat_inv c" by (rule reachable_inv [OF assms(1)])
  then show ?thesis using assms(2-) by (auto simp: renameTable_def locked_run unlock_def Let_def cat_invD(1))
qed

section \<open>Sequences\<close>

fun next_values :: "nat \<Rightarrow> string \<Rightarrow> Catalog \<Rightarrow> (int list \<times> Catalog) outcome" where
  "next_values 0 n c = Finished ([], c)"
| "next_values (Suc k) n c = and_then (nextValue n c) (\<lambda>(v, c).
     and_then (next_values k n c) (\<lambda>(vs, c). Finished (sint v # vs, c)))"

lemma sint_word_of_int:
  "- (2 ^ 63) \<le> i \<Longrightarrow> i < 2 ^ 63 \<Longrightarrow> sint (word_of_int i :: 64 word) = i"
  using signed_take_bit_int_eq_self [of 63 i] by (simp add: signed_of_int)

lemma advance_sequence_up:
  assumes "0 < sint (increment q)" and "\<not> cycle q"
  shows "if sint (current_value q) + sint (increment q) < 2 ^ 63
    then \<exists>v. advance_sequence q = Finished (q\<lparr>current_value := v\<rparr>) \<and>
      sint v = min (sint (current_value q) + sint (increment q)) (sint (max_value q))
    else advance_sequence q = Undef"
proof (cases "sint (current_value q) + sint (increment q) < 2 ^ 63")
  case True
  let ?s = "sint (current_value q) + sint (increment q)"
  have r: "- (2 ^ 63) \<le> ?s" using assms sint_ge [of "current_value q"] by simp
  then have "sint (current_value q + increment q) = ?s" using sint_word_of_int [of ?s] True by simp
  with r True assms(2) show ?thesis by (auto simp: advance_sequence_def add_int64_def Let_def min_def)
qed (simp add: advance_sequence_def add_int64_def)

lemma nextValue_run:
  assumes "rw_mutex c = Unlocked" and "map_of (sequences c) n = Some q" and "advance_sequence q = Finished q'"
  shows "nextValue n c = Finished (current_value q, c\<lparr>sequences := AList.update n q' (sequences c)\<rparr>)"
  using assms by (simp add: nextValue_def locked_run unlock_def)

lemma min_step: "0 \<le> x \<Longrightarrow> min (min (a + d) m + x) m = min (a + (x + d)) m" for x :: int
  by (auto simp: min_def)

text \<open>The numbers over the integers: the current value, then steps of the increment up to the maximum.\<close>

definition sequence_number :: "SequenceInfo \<Rightarrow> nat \<Rightarrow> int" where
  "sequence_number q i = (if i = 0 then sint (current_value q)
     else min (sint (current_value q) + int i * sint (increment q)) (sint (max_value q)))"

lemma sequence_number_Suc:
  assumes "0 < sint (increment q)" and "sint v = min (sint (current_value q) + sint (increment q)) (sint (max_value q))"
  shows "sequence_number (q\<lparr>current_value := v\<rparr>) i = sequence_number q (Suc i)"
proof -
  have "int (Suc i) * sint (increment q) = int i * sint (increment q) + sint (increment q)" by (simp add: distrib_right)
  with min_step [of "int i * sint (increment q)"] assms show ?thesis by (cases i) (simp_all add: sequence_number_def)
qed

lemma next_values_up:
  assumes "rw_mutex c = Unlocked" and "map_of (sequences c) n = Some q" and "0 < sint (increment q)" and "\<not> cycle q"
  shows "if \<forall>i < k. sequence_number q i + sint (increment q) < 2 ^ 63
    then \<exists>c'. next_values k n c = Finished (map (sequence_number q) [0..<k], c')
    else next_values k n c = Undef"
  using assms
proof (induction k arbitrary: c q)
  case (Suc k)
  have all: "(\<forall>i < Suc k. P i) \<longleftrightarrow> P 0 \<and> (\<forall>i < k. P (Suc i))" for P by (metis Suc_less_eq less_Suc_eq_0_disj)
  have zero: "sequence_number q 0 = sint (current_value q)" by (simp add: sequence_number_def)
  note adv = advance_sequence_up [OF Suc.prems(3,4)]
  show ?case
  proof (cases "sint (current_value q) + sint (increment q) < 2 ^ 63")
    case True
    then obtain v where v: "advance_sequence q = Finished (q\<lparr>current_value := v\<rparr>)"
        "sint v = min (sint (current_value q) + sint (increment q)) (sint (max_value q))"
      using adv by auto
    let ?c = "c\<lparr>sequences := AList.update n (q\<lparr>current_value := v\<rparr>) (sequences c)\<rparr>" and ?q = "q\<lparr>current_value := v\<rparr>"
    have shift: "sequence_number ?q = (\<lambda>i. sequence_number q (Suc i))"
      using sequence_number_Suc [OF Suc.prems(3) v(2)] by (simp add: fun_eq_iff)
    have IH: "if \<forall>i < k. sequence_number q (Suc i) + sint (increment q) < 2 ^ 63
      then \<exists>c'. next_values k n ?c = Finished (map (\<lambda>i. sequence_number q (Suc i)) [0..<k], c')
      else next_values k n ?c = Undef"
      using Suc.IH [of ?c ?q, unfolded shift] Suc.prems by simp
    have "next_values (Suc k) n c = and_then (next_values k n ?c) (\<lambda>(vs, c). Finished (sint (current_value q) # vs, c))"
      using nextValue_run [OF Suc.prems(1,2) v(1)] by simp
    with IH True show ?thesis
      unfolding all zero map_upt_Suc by (cases "\<forall>i < k. sequence_number q (Suc i) + sint (increment q) < 2 ^ 63") auto
  next
    case False
    then have "nextValue n c = Undef" using adv Suc.prems(1,2) by (simp add: nextValue_def locked_run)
    with False show ?thesis unfolding all zero by simp
  qed
qed simp

text \<open>
  C17: the numbers of a sequence that counts upwards without cycling. The first call gives the
  current value, each further call adds the increment until the maximum is passed; from then on
  every call gives the maximum again, so that the numbers are no longer distinct. This holds as long
  as no call adds beyond the largest 64-bit number, and a call that does is undefined: a
  sequence with the default maximum never reaches the state in which it repeats it.
\<close>

theorem sequence_values:
  assumes "rw_mutex c = Unlocked" and "map_of (sequences c) n = Some q" and "\<not> cycle q" and "0 < sint (increment q)"
  shows "if \<forall>i < k. sequence_number q i + sint (increment q) < 2 ^ 63
    then \<exists>c'. next_values k n c = Finished (map (sequence_number q) [0..<k], c')
    else next_values k n c = Undef"
  using next_values_up [OF assms(1,2,4,3)] .

theorem sequence_values_witness:
  "\<exists>c'. next_values 4 ''q'' sample_catalog = Finished ([1, 2, 2, 2], c')"
proof -
  let ?q = "SequenceInfo_new\<lparr>seq_name := ''q'', max_value := 2\<rparr>"
  have "rw_mutex sample_catalog = Unlocked" "map_of (sequences sample_catalog) ''q'' = Some ?q" by code_simp+
  moreover have "\<forall>i < 4. sequence_number ?q i + sint (increment ?q) < 2 ^ 63"
    by (simp add: sequence_number_def SequenceInfo_new_def min_def)
  ultimately show ?thesis using sequence_values [of sample_catalog "''q''" ?q 4]
    by (simp add: sequence_number_def SequenceInfo_new_def upt_rec [of 0 4] upt_rec [of 1 4] upt_rec [of 2 4] upt_rec [of 3 4] upt_rec [of 4 4] numeral_eq_Suc)
qed

section \<open>Saving and loading\<close>

definition saved_column :: "ColumnSchema \<Rightarrow> ColumnSchema" where
  "saved_column col = ColumnSchema_default\<lparr>col_id := col_id col, col_name := col_name col, col_type := col_type col,
     col_length := col_length col, nullable := nullable col, is_primary_key := is_primary_key col\<rparr>"

definition saved_table :: "TableSchema \<Rightarrow> TableSchema" where
  "saved_table s = s\<lparr>columns := map saved_column (columns s), indexes := [], options := []\<rparr>"

definition saved_constraint :: "ConstraintInfo \<Rightarrow> ConstraintInfo" where
  "saved_constraint k = k\<lparr>deferrable := False, initially_deferred := False\<rparr>"

definition saved_view :: "ViewInfo \<Rightarrow> ViewInfo" where
  "saved_view v = v\<lparr>last_refresh := 0\<rparr>"

text \<open>The type codes are values of the C++ enumerations.\<close>

definition codes_ok :: "Catalog \<Rightarrow> bool" where
  "codes_ok c \<longleftrightarrow> list_all (\<lambda>(n, s). list_all (\<lambda>col. dt_code (col_type col) < 2 ^ 32) (columns s)) (tables c) \<and>
     list_all (\<lambda>(n, k). ct_code (con_type k) < 2 ^ 32) (constraints c)"

lemma code_of_int_of_code: "n < 2 ^ 32 \<Longrightarrow> code_of_int (int_of_code n) = n"
  by (simp add: code_of_int_def int_of_code_def unat_of_nat)

lemma ct_of_code_code [simp]: "ct_of_code (ct_code t) = t"
  by (cases t) (simp_all add: ct_of_code_def)

lemma map_of_literal: "wf_map ((k, v) # m) \<longleftrightarrow> k \<notin> set (keys_of m) \<and> wf_map m"
  by (simp add: wf_map_def)

lemma j_int_code: "json_laws L \<Longrightarrow> j_int L (j_num L (int_of_code n)) = Val (int_of_code n)"
  unfolding int_of_code_def by (rule json_laws_sint) simp_all

lemma fmapM_strings: "json_laws L \<Longrightarrow> fmapM (j_str L) (map (j_text L) ss) = Val ss"
  by (induction ss) (simp_all add: json_laws_values)

lemma fmapM_ids:
  "json_laws L \<Longrightarrow> fmapM (j_int L) (map (\<lambda>w. j_num L (uint w)) ws) = Val (map uint (ws :: ColumnId list))"
  by (induction ws) (simp_all add: json_laws_uint)

lemma column_json_roundtrip:
  assumes L: "json_laws L" and "dt_code (col_type col) < 2 ^ 32"
  shows "column_of_json L (column_json L col) = Val (saved_column col)"
  using assms(2)
  by (simp add: column_of_json_def column_json_def get_object [OF L] map_of_literal json_laws_values [OF L]
      json_laws_uint [OF L] j_int_code [OF L] code_of_int_of_code saved_column_def)

lemma table_json_roundtrip:
  assumes L: "json_laws L" and "list_all (\<lambda>col. dt_code (col_type col) < 2 ^ 32) (columns s)"
  shows "table_of_json L (table_json L (n, s)) = Val (saved_table (s\<lparr>tab_name := n\<rparr>))"
proof -
  have "fmapM (column_of_json L) (map (column_json L) (columns s)) = Val (map saved_column (columns s))"
    using assms(2) by (intro fmapM_map column_json_roundtrip [OF L]) (simp add: list_all_iff)
  then show ?thesis
    by (simp add: table_of_json_def table_json_def get_object [OF L] map_of_literal json_laws_values [OF L]
        json_laws_uint [OF L] fmapM_ids [OF L] saved_table_def TableSchema_default_def comp_def)
qed

lemma index_json_roundtrip:
  assumes L: "json_laws L"
  shows "index_of_json L (index_json L x) = Val x"
  by (simp add: index_of_json_def index_json_def get_object [OF L] map_of_literal json_laws_values [OF L]
      json_laws_uint [OF L] split: prod.splits)

lemma constraint_json_roundtrip:
  assumes L: "json_laws L" and "ct_code (con_type k) < 2 ^ 32"
  shows "constraint_of_json L (constraint_json L (n, k)) = Val (saved_constraint (k\<lparr>con_name := n\<rparr>))"
  using assms(2)
  by (simp add: constraint_of_json_def constraint_json_def get_object [OF L] map_of_literal json_laws_values [OF L]
      j_int_code [OF L] fmapM_strings [OF L] code_of_int_of_code saved_constraint_def ConstraintInfo_new_def)

lemma sequence_json_roundtrip:
  assumes L: "json_laws L"
  shows "sequence_of_json L (sequence_json L (n, q)) = Val (q\<lparr>seq_name := n\<rparr>)"
  by (simp add: sequence_of_json_def sequence_json_def get_object [OF L] map_of_literal json_laws_values [OF L]
      json_laws_sint [OF L])

lemma view_json_roundtrip:
  assumes L: "json_laws L"
  shows "view_of_json L (view_json L (n, v)) = Val (saved_view (v\<lparr>view_name := n\<rparr>))"
  by (simp add: view_of_json_def view_json_def get_object [OF L] map_of_literal json_laws_values [OF L]
      fmapM_strings [OF L] saved_view_def ViewInfo_new_def)

lemma fold_update_new: "wf_map (m @ xs) \<Longrightarrow> fold (\<lambda>(k, v). AList.update k v) xs m = m @ xs"
proof (induction xs arbitrary: m)
  case (Cons x xs)
  obtain k v where x: "x = (k, v)" by (cases x)
  have "k \<notin> set (keys_of m)" using Cons.prems by (auto simp: wf_map_def x)
  then have u: "AList.update k v m = m @ [(k, v)]" by (induction m) auto
  have "fold (\<lambda>(k, v). AList.update k v) xs (m @ [(k, v)]) = (m @ [(k, v)]) @ xs"
    using Cons.prems by (intro Cons.IH) (simp add: x)
  then show ?case by (simp add: x u)
qed simp

text \<open>The loops over the sections fill empty maps with the elements in their order.\<close>

lemma load_section_catalog:
  assumes L: "json_laws L" and k: "wf_map m" "map_of m k = Some (j_array L (map g xs))"
    and rd: "\<And>x. x \<in> set xs \<Longrightarrow> rd (g x) = Val (h x)"
  shows "load_section L opt k rd add (j_object L m) s = (Val (), fold (\<lambda>x. add (h x)) xs s)"
  using load_each_map [of xs rd g h add s] rd k
  by (auto simp: load_section_def j_contains_object [OF L] get_object [OF L] json_laws_values [OF L])

lemma fold_add_table:
  "fold (\<lambda>x. add_table (h x)) xs c = c\<lparr>tables := fold (\<lambda>(k, v). AList.update k v) (map (\<lambda>x. (tab_name (h x), h x)) xs) (tables c)\<rparr>"
  by (induction xs arbitrary: c) (simp_all add: add_table_def)

lemma fold_add_index:
  "fold add_index xs c = c\<lparr>cat_indexes := fold (\<lambda>(k, v). AList.update k v) xs (cat_indexes c),
     index_id_map := fold (\<lambda>(k, v). AList.update k v) (map (\<lambda>(n, i). (i, n)) xs) (index_id_map c)\<rparr>"
  by (induction xs arbitrary: c) (auto simp: add_index_def)

lemma fold_add_constraint:
  "fold (\<lambda>x. add_constraint (h x)) xs c =
   c\<lparr>constraints := fold (\<lambda>(k, v). AList.update k v) (map (\<lambda>x. (con_name (h x), h x)) xs) (constraints c),
     table_constraints := fold (\<lambda>x. push_to (con_table (h x)) (con_name (h x))) xs (table_constraints c)\<rparr>"
  by (induction xs arbitrary: c) (simp_all add: add_constraint_def)

lemma fold_add_sequence:
  "fold (\<lambda>x. add_sequence (h x)) xs c =
   c\<lparr>sequences := fold (\<lambda>(k, v). AList.update k v) (map (\<lambda>x. (seq_name (h x), h x)) xs) (sequences c)\<rparr>"
  by (induction xs arbitrary: c) (simp_all add: add_sequence_def)

lemma fold_add_view:
  "fold (\<lambda>x. add_view (h x)) xs c =
   c\<lparr>views := fold (\<lambda>(k, v). AList.update k v) (map (\<lambda>x. (view_name (h x), h x)) xs) (views c)\<rparr>"
  by (induction xs arbitrary: c) (simp_all add: add_view_def)

lemmas fold_adds = fold_add_table fold_add_index fold_add_constraint fold_add_sequence fold_add_view

text \<open>What the elements of the sections are read back as.\<close>

definition read_table :: "string \<times> TableSchema \<Rightarrow> TableSchema" where
  "read_table x = saved_table ((snd x)\<lparr>tab_name := fst x\<rparr>)"

definition read_constraint :: "string \<times> ConstraintInfo \<Rightarrow> ConstraintInfo" where
  "read_constraint x = saved_constraint ((snd x)\<lparr>con_name := fst x\<rparr>)"

definition read_sequence :: "string \<times> SequenceInfo \<Rightarrow> SequenceInfo" where
  "read_sequence x = (snd x)\<lparr>seq_name := fst x\<rparr>"

definition read_view :: "string \<times> ViewInfo \<Rightarrow> ViewInfo" where
  "read_view x = saved_view ((snd x)\<lparr>view_name := fst x\<rparr>)"

definition loaded :: "Catalog \<Rightarrow> Catalog" where
  "loaded c = buildIdMaps (fold (\<lambda>x. add_view (read_view x)) (views c)
     (fold (\<lambda>x. add_sequence (read_sequence x)) (sequences c)
     (fold (\<lambda>x. add_constraint (read_constraint x)) (constraints c)
     (fold add_index (cat_indexes c)
     (fold (\<lambda>x. add_table (read_table x)) (tables c)
     (Catalog_new\<lparr>next_table_id := next_table_id c, next_index_id := next_index_id c\<rparr>))))))"

lemma read_elements:
  assumes L: "json_laws L" and codes: "codes_ok c"
  shows "x \<in> set (tables c) \<Longrightarrow> table_of_json L (table_json L x) = Val (read_table x)"
    and "y \<in> set (constraints c) \<Longrightarrow> constraint_of_json L (constraint_json L y) = Val (read_constraint y)"
    and "sequence_of_json L (sequence_json L z) = Val (read_sequence z)"
    and "view_of_json L (view_json L w) = Val (read_view w)"
  using codes table_json_roundtrip [OF L, of "snd x" "fst x"] constraint_json_roundtrip [OF L, of "snd y" "fst y"]
    sequence_json_roundtrip [OF L, of "fst z" "snd z"] view_json_roundtrip [OF L, of "fst w" "snd w"]
  by (auto simp: codes_ok_def list_all_iff read_table_def read_constraint_def read_sequence_def read_view_def)

lemma deserialize_catalog_json:
  assumes L: "json_laws L" and p: "j_parse L txt = Val (catalog_json L c)" and codes: "codes_ok c"
  shows "catalog_deserialize L txt Catalog_new = (Val (), loaded c)"
proof -
  let ?m = "[(''version'', j_num L 1), (''next_table_id'', j_num L (uint (next_table_id c))),
      (''next_index_id'', j_num L (uint (next_index_id c))),
      (''tables'', j_array L (map (table_json L) (tables c))),
      (''indexes'', j_array L (map (index_json L) (cat_indexes c))),
      (''constraints'', j_array L (map (constraint_json L) (constraints c))),
      (''sequences'', j_array L (map (sequence_json L) (sequences c))),
      (''views'', j_array L (map (view_json L) (views c)))]"
  note rd = read_elements [OF L codes]
  have wf: "wf_map ?m" by (simp add: map_of_literal)
  have "load_ids L (j_object L ?m) Catalog_new =
      (Val (), Catalog_new\<lparr>next_table_id := next_table_id c, next_index_id := next_index_id c\<rparr>)"
    by (simp add: load_ids_def get_object [OF L] wf json_laws_values [OF L] json_laws_uint [OF L] Let_def)
  moreover have "load_section L b ''tables'' (table_of_json L) add_table (j_object L ?m) s =
      (Val (), fold (\<lambda>x. add_table (read_table x)) (tables c) s)" for b s
    by (rule load_section_catalog [OF L wf, where g = "table_json L" and h = read_table]) (simp_all add: rd(1))
  moreover have "load_section L b ''indexes'' (index_of_json L) add_index (j_object L ?m) s =
      (Val (), fold add_index (cat_indexes c) s)" for b s
    by (rule load_section_catalog [OF L wf, where g = "index_json L" and h = "\<lambda>x. x"]) (simp_all add: index_json_roundtrip [OF L])
  moreover have "load_section L b ''constraints'' (constraint_of_json L) add_constraint (j_object L ?m) s =
      (Val (), fold (\<lambda>x. add_constraint (read_constraint x)) (constraints c) s)" for b s
    by (rule load_section_catalog [OF L wf, where g = "constraint_json L" and h = read_constraint]) (simp_all add: rd(2))
  moreover have "load_section L b ''sequences'' (sequence_of_json L) add_sequence (j_object L ?m) s =
      (Val (), fold (\<lambda>x. add_sequence (read_sequence x)) (sequences c) s)" for b s
    by (rule load_section_catalog [OF L wf, where g = "sequence_json L" and h = read_sequence]) (simp_all add: rd(3))
  moreover have "load_section L b ''views'' (view_of_json L) add_view (j_object L ?m) s =
      (Val (), fold (\<lambda>x. add_view (read_view x)) (views c) s)" for b s
    by (rule load_section_catalog [OF L wf, where g = "view_json L" and h = read_view]) (simp_all add: rd(4))
  moreover have "j_parse L txt = Val (j_object L ?m)" using p by (simp add: catalog_json_def)
  ultimately show ?thesis unfolding catalog_deserialize_def loaded_def by (simp only: fallible.case then_load.simps)
qed

lemma map_of_fold_update:
  "map_of (fold (\<lambda>(k, v). AList.update k v) xs m) = map_of m ++ map_of (rev xs)"
proof (induction xs arbitrary: m)
  case (Cons x xs)
  then show ?case by (cases x) (auto simp: map_add_def fun_eq_iff split: option.splits)
qed simp

lemma map_of_rev_wf: "wf_map m \<Longrightarrow> map_of (rev m) = map_of m"
  by (subst map_of_inject_set) (simp_all add: wf_map_def rev_map [symmetric])

lemma map_of_swap:
  assumes "wf_map (map (\<lambda>(n, i). (i, n)) m)" and "wf_map m"
  shows "map_of (map (\<lambda>(n, i). (i, n)) m) i = Some n \<longleftrightarrow> map_of m n = Some i"
proof -
  have "(i, n) \<in> set (map (\<lambda>(n, i). (i, n)) m) \<longleftrightarrow> (n, i) \<in> set m" by force
  then show ?thesis by (simp only: wf_map_member [OF assms(1), symmetric] wf_map_member [OF assms(2), symmetric])
qed

lemma wf_map_swap:
  assumes "wf_map m" and "\<And>n n' i. map_of m n = Some i \<Longrightarrow> map_of m n' = Some i \<Longrightarrow> n = n'"
  shows "wf_map (map (\<lambda>(n, i). (i, n)) m)"
proof -
  have "inj_on snd (set m)"
    by (rule inj_onI) (use assms wf_map_member [OF assms(1)] in \<open>metis prod.collapse\<close>)
  moreover have "distinct m" using assms(1) by (simp add: wf_map_def distinct_map)
  ultimately show ?thesis by (simp add: wf_map_def distinct_map comp_def case_prod_unfold)
qed

lemma read_names [simp]:
  "tab_name (read_table x) = fst x" "tab_id (read_table x) = tab_id (snd x)"
  "con_name (read_constraint y) = fst y" "seq_name (read_sequence z) = fst z" "view_name (read_view w) = fst w"
  by (simp_all add: read_table_def read_constraint_def read_sequence_def read_view_def saved_table_def
      saved_constraint_def saved_view_def)

text \<open>Filling an empty map from elements with distinct names.\<close>

lemma fold_update_Nil: "wf_map m \<Longrightarrow> fold (\<lambda>(k, v). AList.update k v) m [] = m"
  using fold_update_new [of "[]" m] by simp

lemma buildIdMaps_swap:
  "buildIdMaps c = c\<lparr>table_id_map := fold (\<lambda>(k, v). AList.update k v) (map (\<lambda>(n, s). (tab_id s, n)) (tables c)) (table_id_map c),
     index_id_map := fold (\<lambda>(k, v). AList.update k v) (map (\<lambda>(n, i). (i, n)) (cat_indexes c)) (index_id_map c)\<rparr>"
  by (simp add: buildIdMaps_def fold_map comp_def case_prod_unfold)

lemma same_name:
  "tab_name s = n \<Longrightarrow> saved_table (s\<lparr>tab_name := n\<rparr>) = saved_table s"
  "con_name k = n \<Longrightarrow> saved_constraint (k\<lparr>con_name := n\<rparr>) = saved_constraint k"
  "view_name v = n \<Longrightarrow> saved_view (v\<lparr>view_name := n\<rparr>) = saved_view v"
  by auto

lemma loaded_maps:
  assumes "cat_inv c"
  shows "tables (loaded c) = map (\<lambda>(n, s). (n, saved_table s)) (tables c)"
    and "constraints (loaded c) = map (\<lambda>(n, k). (n, saved_constraint k)) (constraints c)"
    and "views (loaded c) = map (\<lambda>(n, v). (n, saved_view v)) (views c)"
    and "sequences (loaded c) = sequences c" and "cat_indexes (loaded c) = cat_indexes c"
proof -
  note T = table_maps_okD [OF cat_invD(2) [OF assms]] and I = index_maps_okD [OF cat_invD(3) [OF assms]]
  have K: "wf_map (constraints c)" "wf_map (sequences c)" "wf_map (views c)"
    using assms by (simp_all add: cat_inv_def constraints_ok_def)
  have n: "tab_name s = n" if "(n, s) \<in> set (tables c)" for n s using that T(4) wf_map_member [OF T(2)] by blast
  have "con_name k = n" if "(n, k) \<in> set (constraints c)" for n k
    using that assms wf_map_member [OF K(1)] by (auto simp: cat_inv_def constraints_ok_def)
  moreover have "seq_name q = n" if "(n, q) \<in> set (sequences c)" for n q
    using that assms wf_map_member [OF K(2)] by (auto simp: cat_inv_def)
  moreover have "view_name v = n" if "(n, v) \<in> set (views c)" for n v
    using that assms wf_map_member [OF K(3)] by (auto simp: cat_inv_def)
  ultimately have r: "map (\<lambda>x. (fst x, read_table x)) (tables c) = map (\<lambda>(n, s). (n, saved_table s)) (tables c)"
      "map (\<lambda>x. (fst x, read_constraint x)) (constraints c) = map (\<lambda>(n, k). (n, saved_constraint k)) (constraints c)"
      "map (\<lambda>x. (fst x, read_view x)) (views c) = map (\<lambda>(n, v). (n, saved_view v)) (views c)"
      "map (\<lambda>x. (fst x, read_sequence x)) (sequences c) = sequences c"
    using n by (auto simp: read_table_def read_constraint_def read_view_def read_sequence_def intro!: map_idI same_name)
  show "tables (loaded c) = map (\<lambda>(n, s). (n, saved_table s)) (tables c)"
    and "constraints (loaded c) = map (\<lambda>(n, k). (n, saved_constraint k)) (constraints c)"
    and "views (loaded c) = map (\<lambda>(n, v). (n, saved_view v)) (views c)"
    and "sequences (loaded c) = sequences c" and "cat_indexes (loaded c) = cat_indexes c"
    unfolding loaded_def buildIdMaps_swap
    by (simp_all add: fold_adds Catalog_new_def r fold_update_Nil T(2) K I(2))
qed

lemma map_of_fold_swap:
  assumes "wf_map m" and "wf_map (map (\<lambda>(n, i). (i, n)) m)" and "map_of M = Map.empty \<or> map_of M = map_of (map (\<lambda>(n, i). (i, n)) m)"
  shows "map_of (fold (\<lambda>(k, v). AList.update k v) (map (\<lambda>(n, i). (i, n)) m) M) i = Some n \<longleftrightarrow> map_of m n = Some i"
proof -
  have "map_of (fold (\<lambda>(k, v). AList.update k v) (map (\<lambda>(n, i). (i, n)) m) M) = map_of (map (\<lambda>(n, i). (i, n)) m)"
    unfolding map_of_fold_update map_of_rev_wf [OF assms(2)] using assms(3)
    by (auto simp: map_add_def fun_eq_iff split: option.splits)
  then show ?thesis by (simp only: map_of_swap [OF assms(2,1)])
qed

lemma map_eqI: "(\<And>k v. f k = Some v \<longleftrightarrow> g k = Some v) \<Longrightarrow> f = g"
  by (rule ext) (metis not_None_eq)

lemma loaded_ids:
  assumes "cat_inv c"
  shows "map_of (table_id_map (loaded c)) = map_of (table_id_map c)"
    and "map_of (index_id_map (loaded c)) = map_of (index_id_map c)"
proof -
  note T = table_maps_okD [OF cat_invD(2) [OF assms]] and I = index_maps_okD [OF cat_invD(3) [OF assms]]
  let ?ids = "map (\<lambda>(n, s). (n, tab_id s)) (tables c)"
  have ids: "map_of ?ids n = Some i \<longleftrightarrow> map_of (table_id_map c) i = Some n" for n i
    using T(4) [of n] T(5) [of i n] by (auto simp: map_of_map)
  have "wf_map ?ids" using T(2) by simp
  have wf: "wf_map (map (\<lambda>(n, i). (i, n)) ?ids)" by (rule wf_map_swap [OF \<open>wf_map ?ids\<close>]) (simp only: ids option.inject)
  have wf': "wf_map (map (\<lambda>(n, i). (i, n)) (cat_indexes c))" by (rule wf_map_swap [OF I(2)]) (simp only: I(5) option.inject)
  have "map (\<lambda>(n, s). (tab_id s, n)) (tables (loaded c)) = map (\<lambda>(n, i). (i, n)) ?ids"
    by (simp add: loaded_maps [OF assms] saved_table_def case_prod_unfold)
  moreover have "table_id_map (loaded c) = fold (\<lambda>(k, v). AList.update k v) (map (\<lambda>(n, s). (tab_id s, n)) (tables (loaded c))) []"
    by (simp add: loaded_def buildIdMaps_swap fold_adds Catalog_new_def)
  ultimately have "map_of (table_id_map (loaded c)) i = Some n \<longleftrightarrow> map_of (table_id_map c) i = Some n" for i n
    using map_of_fold_swap [OF \<open>wf_map ?ids\<close> wf, of "[]" i n] ids [of n i] by simp
  then show "map_of (table_id_map (loaded c)) = map_of (table_id_map c)" by (rule map_eqI)
  let ?I = "fold (\<lambda>(k, v). AList.update k v) (map (\<lambda>(n, i). (i, n)) (cat_indexes c)) []"
  have "index_id_map (loaded c) = fold (\<lambda>(k, v). AList.update k v) (map (\<lambda>(n, i). (i, n)) (cat_indexes (loaded c))) ?I"
    by (simp add: loaded_def buildIdMaps_swap fold_adds Catalog_new_def)
  moreover have "map_of ?I = map_of (map (\<lambda>(n, i). (i, n)) (cat_indexes c))"
    unfolding map_of_fold_update map_of_rev_wf [OF wf'] by simp
  ultimately have "map_of (index_id_map (loaded c)) i = Some n \<longleftrightarrow> map_of (index_id_map c) i = Some n" for i n
    using map_of_fold_swap [OF I(2) wf', of ?I i n] I(5) [of n i] by (simp add: loaded_maps [OF assms])
  then show "map_of (index_id_map (loaded c)) = map_of (index_id_map c)" by (rule map_eqI)
qed

lemma catalog_json_doc: "catalog_json (doc_lib p q) c = catalog_json (doc_lib p' q') c"
proof -
  have "column_json (doc_lib p q) = column_json (doc_lib p' q')" by (rule ext) (simp add: column_json_def)
  then show ?thesis
    by (simp add: catalog_json_def table_json_def index_json_def constraint_json_def sequence_json_def view_json_def)
qed

lemma loaded_rest:
  "next_table_id (loaded c) = next_table_id c" "next_index_id (loaded c) = next_index_id c" "table_indexes (loaded c) = []"
  by (simp_all add: loaded_def buildIdMaps_swap fold_adds Catalog_new_def)

text \<open>
  C15: what survives a restart. Loading the file that \<^verbatim>\<open>save\<close> wrote into a new catalog
  gives back the tables with their identifiers, primary keys and columns (of a column its
  number, name, type, length, nullability and whether it is in the primary key), the names and
  identifiers of the indexes, the constraints, the sequences, the views and both counters. Lost are
  the precision, scale, uniqueness, auto-increment, default and comment of columns, the options of
  tables, the deferrable flags of constraints, the time of the last refresh of views, which table
  an index belongs to and which columns it covers. That the JSON library reads back the
  document it printed is a hypothesis.
\<close>

theorem catalog_save_load:
  assumes "json_laws L" and "cat_step\<^sup>*\<^sup>* Catalog_new c" and "codes_ok c"
    and "catalog_save L True c file = (Returns OK, Some txt)" and "j_parse L txt = Val (catalog_json L c)"
  shows "\<exists>c'. catalog_load L (Some txt) Catalog_new = Finished (OK, c') \<and>
    tables c' = map (\<lambda>(n, s). (n, saved_table s)) (tables c) \<and> map_of (table_id_map c') = map_of (table_id_map c) \<and>
    cat_indexes c' = cat_indexes c \<and> map_of (index_id_map c') = map_of (index_id_map c) \<and>
    constraints c' = map (\<lambda>(n, k). (n, saved_constraint k)) (constraints c) \<and>
    sequences c' = sequences c \<and> views c' = map (\<lambda>(n, v). (n, saved_view v)) (views c) \<and>
    next_table_id c' = next_table_id c \<and> next_index_id c' = next_index_id c \<and> table_indexes c' = []"
proof -
  have inv: "cat_inv c" by (rule reachable_inv [OF assms(2)])
  have "catalog_load L (Some txt) Catalog_new = Finished (OK, loaded c)"
    using deserialize_catalog_json [OF assms(1,5,3)] by (simp add: catalog_load_def)
  then show ?thesis using loaded_maps [OF inv] loaded_ids [OF inv] loaded_rest by blast
qed

theorem catalog_save_load_witness:
  "\<exists>L txt c'. catalog_save L True sample_catalog None = (Returns OK, Some txt) \<and>
    catalog_load (L :: doc json_lib) (Some txt) Catalog_new = Finished (OK, c') \<and>
    cat_indexes c' = [(''i'', 1)] \<and> table_indexes c' = []"
proof -
  let ?d = "catalog_json (doc_lib (\<lambda>_. []) (\<lambda>_. Exn)) sample_catalog"
  let ?L = "doc_lib (\<lambda>_. ''doc'') (\<lambda>_. Val ?d)"
  have t: "list_all (\<lambda>(n, s). list_all (\<lambda>col. col_type col = INTEGER) (columns s)) (tables sample_catalog)"
    "constraints sample_catalog = []" and i: "cat_indexes sample_catalog = [(''i'', 1)]" by code_simp+
  have "codes_ok sample_catalog" unfolding codes_ok_def using t by (fastforce simp: list_all_iff)
  moreover have s: "catalog_save ?L True sample_catalog None = (Returns OK, Some ''doc'')"
    by (simp add: catalog_save_def catalog_serialize_def)
  moreover have "j_parse ?L ''doc'' = Val (catalog_json ?L sample_catalog)"
    by (simp del: not_None_eq) (rule catalog_json_doc)
  ultimately obtain c' where "catalog_load ?L (Some ''doc'') Catalog_new = Finished (OK, c')"
      "cat_indexes c' = cat_indexes sample_catalog" "table_indexes c' = []"
    using catalog_save_load [OF doc_lib_laws sample_reachable, of _ _ None "''doc''"] by blast
  with s i show ?thesis by (intro exI conjI) (assumption | simp)+
qed

end
