(* ===== verification/Table.thy ===== *)
theory Table
  imports BufferPool Types
begin

text \<open>
  \<^verbatim>\<open>storage/table.h\<close> and \<^verbatim>\<open>storage/table.cpp\<close>: a table over the buffer pool, and
  its iterator. A pointer to a page is the number of the frame it points into; a null pointer or a
  frame that is no longer in the pool makes a use of the pointer \<^const>\<open>None\<close>, as does a call
  of the pool that does not return. Pages are changed in place in their frames. The clock
  (milliseconds) is an argument, and so is \<^verbatim>\<open>std::sort\<close>, which may order equal rows in
  any way.
\<close>

section \<open>Data\<close>

record ScanOptions =
  descending :: bool
  scan_limit :: nat
  scan_order :: "(string \<times> bool) list"

record TableIterator =
  it_table :: "TableId option"
  it_page_id :: PageId
  it_slot :: u16
  it_page :: "PageId option"

record Table =
  schema :: TableSchema
  first_page :: "PageId option"
  last_page :: "PageId option"
  cached_record_count :: u64
  stats_update_time :: u64

definition page_at :: "PageId option \<Rightarrow> BufferPool \<Rightarrow> Page option" where
  "page_at p bp = Option.bind p (\<lambda>i. map_option frame_page (map_of (frames bp) i))"

definition put_page :: "PageId option \<Rightarrow> Page \<Rightarrow> BufferPool \<Rightarrow> BufferPool" where
  "put_page p pg bp =
     (case p of None \<Rightarrow> bp
      | Some i \<Rightarrow> (case map_of (frames bp) i of None \<Rightarrow> bp
                  | Some f \<Rightarrow> bp\<lparr>frames := AList.update i (f\<lparr>frame_page := pg\<rparr>) (frames bp)\<rparr>))"

definition getRecordCount :: "Page \<Rightarrow> u16" where
  "getRecordCount p = record_count (header p)"

section \<open>Opening a table\<close>

partial_function (option) last_page_loop ::
    "Env \<Rightarrow> TableId \<Rightarrow> PageId option \<Rightarrow> BufferPool \<Rightarrow> (PageId option \<times> BufferPool) option" where
  "last_page_loop env t p bp =
     (case page_at p bp of None \<Rightarrow> None
      | Some pg \<Rightarrow>
          if getNextPage pg = INVALID_PAGE_ID then Some (p, bp)
          else (case fetchPage env t (getNextPage pg) FETCH_READ bp of None \<Rightarrow> None
                | Some (p', bp') \<Rightarrow> last_page_loop env t p' bp'))"

definition Table_new :: "Env \<Rightarrow> TableSchema \<Rightarrow> BufferPool \<Rightarrow> (Table \<times> BufferPool) option" where
  "Table_new env s bp =
     (let t = \<lparr>schema = s, first_page = None, last_page = None, cached_record_count = 0, stats_update_time = 0\<rparr> in
      case fetchPage env (tab_id s) 0 FETCH_READ bp of None \<Rightarrow> None
      | Some (None, bp) \<Rightarrow>
          (case createNewPage env (tab_id s) DATA_PAGE bp of None \<Rightarrow> None
           | Some (i, bp) \<Rightarrow> Some (t\<lparr>first_page := Some i, last_page := Some i\<rparr>, bp))
      | Some (Some i, bp) \<Rightarrow>
          (case last_page_loop env (tab_id s) (Some i) bp of None \<Rightarrow> None
           | Some (l, bp) \<Rightarrow> Some (t\<lparr>first_page := Some i, last_page := l\<rparr>, bp)))"

section \<open>Validation\<close>

definition validateColumn :: "Table \<Rightarrow> nat \<Rightarrow> Value \<Rightarrow> bool" where
  "validateColumn t i v =
     (if i \<ge> length (columns (schema t)) then False
      else let col = columns (schema t) ! i in
        if vtype v \<noteq> col_type col then False
        else if \<not> nullable col \<and> vtype v = INTEGER \<and> int_val v = 0 \<and> str_val v = [] then False
        else True)"

fun validate_columns :: "Table \<Rightarrow> nat \<Rightarrow> Value list \<Rightarrow> bool" where
  "validate_columns t i [] = True"
| "validate_columns t i (v # vs) = (if \<not> validateColumn t i v then False else validate_columns t (i + 1) vs)"

definition table_validateRecord :: "Table \<Rightarrow> Value list \<Rightarrow> bool" where
  "table_validateRecord t vs =
     (if length vs \<noteq> length (columns (schema t)) then False else validate_columns t 0 vs)"

fun column_index_from :: "ColumnSchema list \<Rightarrow> nat \<Rightarrow> string \<Rightarrow> u64" where
  "column_index_from [] i n = -1"
| "column_index_from (c # cs) i n = (if col_name c = n then of_nat i else column_index_from cs (i + 1) n)"

definition table_getColumnIndex :: "Table \<Rightarrow> string \<Rightarrow> u64" where
  "table_getColumnIndex t n = column_index_from (columns (schema t)) 0 n"

definition getColumnType :: "Table \<Rightarrow> nat \<Rightarrow> DataType" where
  "getColumnType t i = (if i < length (columns (schema t)) then col_type (columns (schema t) ! i) else INTEGER)"

section \<open>Records\<close>

definition table_getPage :: "Env \<Rightarrow> Table \<Rightarrow> PageId \<Rightarrow> BufferPool \<Rightarrow> (PageId option \<times> BufferPool) option" where
  "table_getPage env t i bp = fetchPage env (tab_id (schema t)) i FETCH_READ bp"

definition getOrCreateFirstPage :: "Env \<Rightarrow> Table \<Rightarrow> BufferPool \<Rightarrow> (PageId option \<times> Table \<times> BufferPool) option" where
  "getOrCreateFirstPage env t bp =
     (if first_page t \<noteq> None then Some (first_page t, t, bp)
      else (case createNewPage env (tab_id (schema t)) DATA_PAGE bp of None \<Rightarrow> None
            | Some (i, bp) \<Rightarrow> Some (Some i, t\<lparr>first_page := Some i\<rparr>, bp)))"

definition appendNewPage :: "Env \<Rightarrow> Table \<Rightarrow> BufferPool \<Rightarrow> (PageId \<times> Table \<times> BufferPool) option" where
  "appendNewPage env t bp =
     (case createNewPage env (tab_id (schema t)) DATA_PAGE bp of None \<Rightarrow> None
      | Some (i, bp) \<Rightarrow>
          Option.bind
            (case last_page t of None \<Rightarrow> Some (INVALID_PAGE_ID, bp)
             | Some l \<Rightarrow> (case page_at (Some l) bp of None \<Rightarrow> None
                 | Some lp \<Rightarrow>
                     let bp = put_page (Some l) (setNextPage i lp) bp
                     in Some (getPageId lp, unpinPage (getPageId lp) True bp)))
            (\<lambda>(prev, bp). case page_at (Some i) bp of None \<Rightarrow> None
               | Some np \<Rightarrow>
                   Some (i, t\<lparr>last_page := Some i, first_page := (case first_page t of None \<Rightarrow> Some i | f \<Rightarrow> f)\<rparr>,
                         put_page (Some i) (setPrevPage prev np) bp)))"

definition table_insertRecord :: "Env \<Rightarrow> Table \<Rightarrow> Value list \<Rightarrow> BufferPool \<Rightarrow> (StatusCode \<times> RecordId option \<times> Table \<times> BufferPool) option" where
  "table_insertRecord env t vs bp =
     (if \<not> table_validateRecord t vs then Some (ERROR, None, t, bp)
      else (case page_at (last_page t) bp of None \<Rightarrow> None
      | Some lp \<Rightarrow>
          (case insertRecord lp vs of None \<Rightarrow> None
           | Some (Some rid, lp') \<Rightarrow>
               Some (OK, Some rid, t\<lparr>cached_record_count := cached_record_count t + 1\<rparr>,
                     unpinPage (getPageId lp') True (put_page (last_page t) lp' bp))
           | Some (None, lp') \<Rightarrow>
               (case appendNewPage env t (put_page (last_page t) lp' bp) of None \<Rightarrow> None
                | Some (i, t, bp) \<Rightarrow>
                    (case page_at (Some i) bp of None \<Rightarrow> None
                     | Some np \<Rightarrow>
                         (case insertRecord np vs of None \<Rightarrow> None
                          | Some (None, np') \<Rightarrow> Some (ERROR, None, t, put_page (Some i) np' bp)
                          | Some (Some rid, np') \<Rightarrow>
                              Some (OK, Some rid, t\<lparr>cached_record_count := cached_record_count t + 1\<rparr>,
                                    put_page (Some i) np' bp)))))))"

definition table_getRecord :: "Env \<Rightarrow> Table \<Rightarrow> RecordId \<Rightarrow> BufferPool \<Rightarrow> (StatusCode \<times> Value list \<times> BufferPool) option" where
  "table_getRecord env t rid bp =
     (case table_getPage env t (drop_bit 32 rid) bp of None \<Rightarrow> None
      | Some (None, bp) \<Rightarrow> Some (NOT_FOUND, [], bp)
      | Some (Some i, bp) \<Rightarrow>
          (case page_at (Some i) bp of None \<Rightarrow> None
           | Some p \<Rightarrow> (case getRecord p rid of None \<Rightarrow> None
               | Some None \<Rightarrow> Some (NOT_FOUND, [], bp)
               | Some (Some vs) \<Rightarrow> Some (OK, vs, bp))))"

definition table_updateRecord :: "Env \<Rightarrow> Table \<Rightarrow> RecordId \<Rightarrow> Value list \<Rightarrow> BufferPool \<Rightarrow> (StatusCode \<times> BufferPool) option" where
  "table_updateRecord env t rid vs bp =
     (if \<not> table_validateRecord t vs then Some (ERROR, bp)
      else (case table_getPage env t (drop_bit 32 rid) bp of None \<Rightarrow> None
      | Some (None, bp) \<Rightarrow> Some (NOT_FOUND, bp)
      | Some (Some i, bp) \<Rightarrow>
          (case page_at (Some i) bp of None \<Rightarrow> None
           | Some p \<Rightarrow> (case updateRecord p rid vs of None \<Rightarrow> None
               | Some (b, p') \<Rightarrow> Some (if b then OK else NOT_FOUND, put_page (Some i) p' bp)))))"

definition table_deleteRecord :: "Env \<Rightarrow> Table \<Rightarrow> RecordId \<Rightarrow> BufferPool \<Rightarrow> (StatusCode \<times> Table \<times> BufferPool) option" where
  "table_deleteRecord env t rid bp =
     (case table_getPage env t (drop_bit 32 rid) bp of None \<Rightarrow> None
      | Some (None, bp) \<Rightarrow> Some (NOT_FOUND, t, bp)
      | Some (Some i, bp) \<Rightarrow>
          (case page_at (Some i) bp of None \<Rightarrow> None
           | Some p \<Rightarrow> (case deleteRecord p rid of None \<Rightarrow> None
               | Some (b, p') \<Rightarrow>
                   if b then Some (OK, t\<lparr>cached_record_count := cached_record_count t - 1\<rparr>, put_page (Some i) p' bp)
                   else Some (NOT_FOUND, t, put_page (Some i) p' bp))))"

fun table_insertRecords :: "Env \<Rightarrow> Table \<Rightarrow> Value list list \<Rightarrow> RecordId list \<Rightarrow> BufferPool \<Rightarrow>
    (RecordId list \<times> Table \<times> BufferPool) option" where
  "table_insertRecords env t [] rids bp = Some (rids, t, bp)"
| "table_insertRecords env t (r # rs) rids bp =
     (case table_insertRecord env t r bp of None \<Rightarrow> None
      | Some (OK, Some rid, t, bp) \<Rightarrow> table_insertRecords env t rs (rids @ [rid]) bp
      | Some (_, _, t, bp) \<Rightarrow> Some (rids, t, bp))"

fun table_deleteRecords :: "Env \<Rightarrow> Table \<Rightarrow> RecordId list \<Rightarrow> nat \<Rightarrow> BufferPool \<Rightarrow> (nat \<times> Table \<times> BufferPool) option" where
  "table_deleteRecords env t [] n bp = Some (n, t, bp)"
| "table_deleteRecords env t (rid # rids) n bp =
     (case table_deleteRecord env t rid bp of None \<Rightarrow> None
      | Some (st, t, bp) \<Rightarrow> table_deleteRecords env t rids (if st = OK then n + 1 else n) bp)"

section \<open>The iterator\<close>

definition loadCurrentPage :: "Env \<Rightarrow> TableIterator \<Rightarrow> BufferPool \<Rightarrow> (TableIterator \<times> BufferPool) option" where
  "loadCurrentPage env it bp =
     (case it_table it of None \<Rightarrow> Some (it, bp)
      | Some t \<Rightarrow>
          if it_page_id it = INVALID_PAGE_ID then Some (it, bp)
          else (case fetchPage env t (it_page_id it) FETCH_READ bp of None \<Rightarrow> None
                | Some (p, bp) \<Rightarrow> Some (it\<lparr>it_page := p\<rparr>, bp)))"

partial_function (option) advanceToNextValid :: "Env \<Rightarrow> TableIterator \<Rightarrow> BufferPool \<Rightarrow> (TableIterator \<times> BufferPool) option" where
  "advanceToNextValid env it bp =
     (if it_page_id it = INVALID_PAGE_ID then Some (it, bp)
      else if it_page it \<noteq> None \<and> page_at (it_page it) bp = None then None
      else if it_page it \<noteq> None \<and> it_slot it < getRecordCount (the (page_at (it_page it) bp)) then Some (it, bp)
      else
        let n = (case page_at (it_page it) bp of Some p \<Rightarrow> getNextPage p | None \<Rightarrow> INVALID_PAGE_ID);
            it = it\<lparr>it_page_id := n\<rparr>
        in if n = INVALID_PAGE_ID then advanceToNextValid env it bp
           else (case loadCurrentPage env it bp of None \<Rightarrow> None
                 | Some (it, bp) \<Rightarrow> advanceToNextValid env (it\<lparr>it_slot := 0\<rparr>) bp))"

definition TableIterator_new :: "Env \<Rightarrow> TableId option \<Rightarrow> PageId \<Rightarrow> u16 \<Rightarrow> BufferPool \<Rightarrow> (TableIterator \<times> BufferPool) option" where
  "TableIterator_new env t i slot bp =
     (let it = \<lparr>it_table = t, it_page_id = i, it_slot = slot, it_page = None\<rparr> in
      if i = INVALID_PAGE_ID then Some (it, bp)
      else (case loadCurrentPage env it bp of None \<Rightarrow> None
            | Some (it, bp) \<Rightarrow>
                (case it_page it of None \<Rightarrow> Some (it, bp)
                 | Some q \<Rightarrow> (case page_at (Some q) bp of None \<Rightarrow> None
                     | Some p \<Rightarrow> if it_slot it \<ge> getRecordCount p then advanceToNextValid env it bp else Some (it, bp)))))"

definition iterator_next :: "Env \<Rightarrow> TableIterator \<Rightarrow> BufferPool \<Rightarrow> (TableIterator \<times> BufferPool) option" where
  "iterator_next env it bp =
     (if it_page_id it \<noteq> INVALID_PAGE_ID then advanceToNextValid env (it\<lparr>it_slot := it_slot it + 1\<rparr>) bp
      else Some (it, bp))"

definition iterator_eq :: "TableIterator \<Rightarrow> TableIterator \<Rightarrow> bool" where
  "iterator_eq a b \<longleftrightarrow> it_page_id a = it_page_id b \<and> it_slot a = it_slot b"

definition getRecordId :: "TableIterator \<Rightarrow> RecordId" where
  "getRecordId it = push_bit 32 (it_page_id it) OR ucast (it_slot it)"

text \<open>A record that cannot be read gives no values.\<close>

definition iterator_value :: "TableIterator \<Rightarrow> BufferPool \<Rightarrow> (RecordId \<times> Value list) option" where
  "iterator_value it bp =
     (case it_page it of None \<Rightarrow> Some (getRecordId it, [])
      | Some q \<Rightarrow> (case page_at (Some q) bp of None \<Rightarrow> None
          | Some p \<Rightarrow> (case getRecord p (getRecordId it) of None \<Rightarrow> None
              | Some vs \<Rightarrow> Some (getRecordId it, (case vs of Some vs \<Rightarrow> vs | None \<Rightarrow> [])))))"

definition table_end :: "Table \<Rightarrow> TableIterator" where
  "table_end t = \<lparr>it_table = Some (tab_id (schema t)), it_page_id = INVALID_PAGE_ID, it_slot = 0, it_page = None\<rparr>"

definition table_begin :: "Env \<Rightarrow> Table \<Rightarrow> BufferPool \<Rightarrow> (TableIterator \<times> BufferPool) option" where
  "table_begin env t bp =
     (case page_at (first_page t) bp of None \<Rightarrow> None
      | Some p \<Rightarrow> TableIterator_new env (Some (tab_id (schema t))) (getPageId p) 0 bp)"

section \<open>Scans\<close>

partial_function (option) scan_loop :: "Env \<Rightarrow> Table \<Rightarrow> nat \<Rightarrow> TableIterator \<Rightarrow> Value list list \<Rightarrow> BufferPool \<Rightarrow>
    (Value list list \<times> BufferPool) option" where
  "scan_loop env t limit it results bp =
     (if iterator_eq it (table_end t) then Some (results, bp)
      else (case iterator_value it bp of None \<Rightarrow> None
      | Some (rid, vs) \<Rightarrow>
          let results = results @ [vs] in
          if limit > 0 \<and> length results \<ge> limit then Some (results, bp)
          else (case iterator_next env it bp of None \<Rightarrow> None
                | Some (it, bp) \<Rightarrow> scan_loop env t limit it results bp)))"

text \<open>The rows come from pages, so that the unions of their values are initialised.\<close>

fun row_less :: "Table \<Rightarrow> (string \<times> bool) list \<Rightarrow> Value list \<Rightarrow> Value list \<Rightarrow> bool" where
  "row_less t [] a b = False"
| "row_less t ((col, asc) # os) a b =
     (let idx = unat (table_getColumnIndex t col) in
      if idx \<ge> length a \<or> idx \<ge> length b then row_less t os a b
      else if sint (int_val (a ! idx)) < sint (int_val (b ! idx)) then asc
      else if sint (int_val (a ! idx)) > sint (int_val (b ! idx)) then \<not> asc
      else row_less t os a b)"

definition table_scan :: "((Value list \<Rightarrow> Value list \<Rightarrow> bool) \<Rightarrow> Value list list \<Rightarrow> Value list list) \<Rightarrow> Env \<Rightarrow> Table \<Rightarrow>
    ScanOptions \<Rightarrow> BufferPool \<Rightarrow> (Value list list \<times> BufferPool) option" where
  "table_scan std_sort env t opts bp =
     (case table_begin env t bp of None \<Rightarrow> None
      | Some (it, bp) \<Rightarrow>
          (case scan_loop env t (scan_limit opts) it [] bp of None \<Rightarrow> None
           | Some (results, bp) \<Rightarrow>
               Some (if scan_order opts \<noteq> [] then std_sort (row_less t (scan_order opts)) results else results, bp)))"

partial_function (option) find_loop :: "Env \<Rightarrow> Table \<Rightarrow> Value list \<Rightarrow> TableIterator \<Rightarrow> BufferPool \<Rightarrow> (TableIterator \<times> BufferPool) option" where
  "find_loop env t key it bp =
     (if iterator_eq it (table_end t) then Some (table_end t, bp)
      else (case iterator_value it bp of None \<Rightarrow> None
      | Some (rid, vs) \<Rightarrow>
          if vs \<noteq> [] \<and> (key = [] \<or> set_bytes (key ! 0) < 4) then None
          else if vs \<noteq> [] \<and> int_val (vs ! 0) = int_val (key ! 0) then Some (it, bp)
          else (case iterator_next env it bp of None \<Rightarrow> None
                | Some (it, bp) \<Rightarrow> find_loop env t key it bp)))"

definition table_find :: "Env \<Rightarrow> Table \<Rightarrow> Value list \<Rightarrow> BufferPool \<Rightarrow> (TableIterator \<times> BufferPool) option" where
  "table_find env t key bp = Option.bind (table_begin env t bp) (\<lambda>(it, bp). find_loop env t key it bp)"

partial_function (option) count_loop :: "Env \<Rightarrow> Table \<Rightarrow> TableIterator \<Rightarrow> u64 \<Rightarrow> BufferPool \<Rightarrow> (u64 \<times> BufferPool) option" where
  "count_loop env t it n bp =
     (if iterator_eq it (table_end t) then Some (n, bp)
      else (case iterator_next env it bp of None \<Rightarrow> None
            | Some (it, bp) \<Rightarrow> count_loop env t it (n + 1) bp))"

definition table_getRecordCount :: "Env \<Rightarrow> u64 \<Rightarrow> Table \<Rightarrow> BufferPool \<Rightarrow> (u64 \<times> Table \<times> BufferPool) option" where
  "table_getRecordCount env now t bp =
     (if now - stats_update_time t > 5000
      then Option.bind (table_begin env t bp) (\<lambda>(it, bp). Option.bind (count_loop env t it 0 bp) (\<lambda>(n, bp).
        Some (n, t\<lparr>cached_record_count := n, stats_update_time := now\<rparr>, bp)))
      else Some (cached_record_count t, t, bp))"

partial_function (option) page_count_loop :: "Env \<Rightarrow> Table \<Rightarrow> PageId option \<Rightarrow> nat \<Rightarrow> BufferPool \<Rightarrow> (nat \<times> BufferPool) option" where
  "page_count_loop env t p n bp =
     (case p of None \<Rightarrow> Some (n, bp)
      | Some i \<Rightarrow> (case page_at p bp of None \<Rightarrow> None
          | Some pg \<Rightarrow> (case table_getPage env t (getNextPage pg) bp of None \<Rightarrow> None
              | Some (p', bp') \<Rightarrow> page_count_loop env t p' (n + 1) bp')))"

definition getPageCount :: "Env \<Rightarrow> Table \<Rightarrow> BufferPool \<Rightarrow> (nat \<times> BufferPool) option" where
  "getPageCount env t bp = page_count_loop env t (first_page t) 0 bp"

section \<open>A new table takes no record\<close>

lemma page_at_put: "page_at q bp = Some p \<Longrightarrow> page_at r (put_page q p' bp) = (if r = q then Some p' else page_at r bp)"
  by (auto simp: page_at_def put_page_def bind_eq_Some_conv split: option.splits bind_splits)

lemma page_at_unpin: "page_at r (unpinPage i d bp) = page_at r bp"
  by (auto simp: page_at_def unpinPage_def unpin_def Let_def split: option.splits bind_splits)

lemma createNewPage_page:
  "createNewPage env t ty bp = Some (i, bp') \<Longrightarrow> page_at (Some i) bp' = Some (setType ty (Page_new i t))"
  by (auto simp: createNewPage_def page_at_def add_frame_def BufferFrame_new_def Let_def split: option.splits)

lemma evictPage_counter: "evictPage env bp = Some bp' \<Longrightarrow> next_new_page bp' = next_new_page bp"
proof -
  have v: "next_new_page (snd (selectVictim bp)) = next_new_page bp"
    by (cases "strategy bp") (simp_all add: selectVictim_def selectVictimClock_def case_prod_beta Let_def split: option.split)
  have d: "drop_frame i b = Some b' \<Longrightarrow> next_new_page b' = next_new_page b" for i b b'
    by (auto simp: drop_frame_def split: if_splits)
  show "evictPage env bp = Some bp' \<Longrightarrow> next_new_page bp' = next_new_page bp"
    using v by (cases "selectVictim bp") (auto simp: evictPage_def Let_def split: option.splits if_splits dest!: d)
qed

lemma evict_while_counter: "evict_while env limit bp = Some bp' \<Longrightarrow> next_new_page bp' = next_new_page bp"
proof (induction rule: evict_while_induct)
  case (step ev env limit bp bp')
  then show ?case
    by (cases "length (frames bp) \<ge> limit") (auto simp: bind_eq_Some_conv dest: evictPage_counter)
qed

lemma createNewPage_counter:
  "createNewPage env t ty bp = Some (i, bp') \<Longrightarrow> i = next_new_page bp \<and> next_new_page bp' = next_new_page bp + 1"
  by (auto simp: createNewPage_def add_frame_def Let_def split: option.splits dest!: evict_while_counter)

lemma put_page_counter [simp]: "next_new_page (put_page q p bp) = next_new_page bp"
  by (auto simp: put_page_def split: option.splits)

lemma unpinPage_counter [simp]: "next_new_page (unpinPage i d bp) = next_new_page bp"
  by (auto simp: unpinPage_def Let_def split: option.splits)

lemma free_space_setters [simp]:
  "getFreeSpace (setNextPage i p) = getFreeSpace p" "getFreeSpace (setPrevPage i p) = getFreeSpace p"
  "getFreeSpace (setType ty p) = getFreeSpace p" "getFreeSpace (Page_new i t) = 0"
  by (simp_all add: getFreeSpace_def setNextPage_def setPrevPage_def setType_def markDirty_def Page_new_def
      Page_zeroed_def Let_def page_sizes)

lemma insertRecord_no_space:
  assumes "getFreeSpace p = 0" and "insert_size r + SLOT_SIZE < 2 ^ 64"
  shows "insertRecord p r = Some (None, p)"
proof -
  have "unat (of_nat (insert_size r) + of_nat SLOT_SIZE :: u64) = insert_size r + SLOT_SIZE"
    using assms(2) by (simp add: unat_of_nat flip: of_nat_add)
  then have "(of_nat (insert_size r) + of_nat SLOT_SIZE :: u64) \<noteq> 0"
    by (metis SLOT_SIZE_def add_is_0 unsigned_0 zero_neq_numeral)
  with assms(1) have "\<not> hasSpaceFor p (insert_size r)" by (simp add: hasSpaceFor_def)
  then show ?thesis by (simp add: insertRecord_def Let_def)
qed

definition full_tail :: "Table \<Rightarrow> BufferPool \<Rightarrow> bool" where
  "full_tail t bp \<longleftrightarrow> (\<exists>p. page_at (last_page t) bp = Some p \<and> getFreeSpace p = 0)"

lemma appendNewPage_full:
  assumes "appendNewPage env t bp = Some (i, t', bp')" and "full_tail t bp"
  shows "last_page t' = Some i \<and> full_tail t' bp' \<and> cached_record_count t' = cached_record_count t \<and> schema t' = schema t \<and>
    i = next_new_page bp \<and> next_new_page bp' = next_new_page bp + 1"
proof -
  obtain bp1 where c: "createNewPage env (tab_id (schema t)) DATA_PAGE bp = Some (i, bp1)"
    using assms(1) by (auto simp: appendNewPage_def bind_eq_Some_conv split: option.splits)
  note p = createNewPage_page [OF c]
  show ?thesis using assms(1) p createNewPage_counter [OF c]
    by (auto simp: appendNewPage_def c full_tail_def bind_eq_Some_conv page_at_put page_at_unpin Let_def
        split: option.splits if_splits)
qed

text \<open>An attempt on a table whose last page is full: an error, and one more full page if the record is valid.\<close>

definition refused :: "Table \<Rightarrow> BufferPool \<Rightarrow> nat \<Rightarrow> Table \<Rightarrow> BufferPool \<Rightarrow> bool" where
  "refused t bp k t' bp' \<longleftrightarrow> full_tail t' bp' \<and> cached_record_count t' = cached_record_count t \<and> schema t' = schema t \<and>
     next_new_page bp' = next_new_page bp + of_nat k \<and> last_page t' = (if 0 < k then Some (next_new_page bp' - 1) else last_page t)"

lemma insert_full_tail:
  assumes "table_insertRecord env t vs bp = Some (st, rid, t', bp')" and "full_tail t bp"
    and "insert_size vs + SLOT_SIZE < 2 ^ 64"
  shows "st = ERROR \<and> rid = None \<and> refused t bp (if table_validateRecord t vs then 1 else 0) t' bp'"
proof -
  obtain lp where lp: "page_at (last_page t) bp = Some lp" "getFreeSpace lp = 0"
    using assms(2) by (auto simp: full_tail_def)
  have ft: "full_tail t (put_page (last_page t) lp bp)" using lp by (simp add: full_tail_def page_at_put)
  have np: "insertRecord p vs = Some (None, p)" if "getFreeSpace p = 0" for p
    by (rule insertRecord_no_space [OF that assms(3)])
  show ?thesis
  proof (cases "table_validateRecord t vs")
    case True
    then obtain i t1 bp1 where a: "appendNewPage env t (put_page (last_page t) lp bp) = Some (i, t1, bp1)"
      using assms(1) lp np by (auto simp: table_insertRecord_def split: option.splits)
    from appendNewPage_full [OF a ft] obtain p where p: "page_at (Some i) bp1 = Some p" "getFreeSpace p = 0"
      and t1: "last_page t1 = Some i" "cached_record_count t1 = cached_record_count t" "schema t1 = schema t"
        "i = next_new_page bp" "next_new_page bp1 = next_new_page bp + 1" by (auto simp: full_tail_def)
    have "st = ERROR" "rid = None" "t' = t1" "bp' = put_page (Some i) p bp1"
      using True assms(1) lp np a p by (auto simp: table_insertRecord_def)
    with True p t1 show ?thesis by (simp add: refused_def full_tail_def page_at_put)
  qed (use assms in \<open>simp add: table_insertRecord_def refused_def\<close>)
qed

text \<open>A series of calls of \<^verbatim>\<open>insertRecord\<close>, going on after an error.\<close>

fun insert_attempts :: "Env \<Rightarrow> Table \<Rightarrow> Value list list \<Rightarrow> BufferPool \<Rightarrow>
    ((StatusCode \<times> RecordId option) list \<times> Table \<times> BufferPool) option" where
  "insert_attempts env t [] bp = Some ([], t, bp)"
| "insert_attempts env t (r # rs) bp =
     (case table_insertRecord env t r bp of None \<Rightarrow> None
      | Some (st, rid, t, bp) \<Rightarrow> map_option (\<lambda>(res, t, bp). ((st, rid) # res, t, bp)) (insert_attempts env t rs bp))"

lemma refused_trans:
  assumes "refused t bp j t1 bp1" and "refused t1 bp1 k t2 bp2"
  shows "refused t bp (j + k) t2 bp2"
  using assms by (cases k) (auto simp: refused_def full_tail_def algebra_simps)

lemma table_validateRecord_schema: "schema t = schema t' \<Longrightarrow> table_validateRecord t vs = table_validateRecord t' vs"
proof -
  assume s: "schema t = schema t'"
  then have "validate_columns t i us = validate_columns t' i us" for i us
    by (induction us arbitrary: i) (simp_all add: validateColumn_def)
  with s show ?thesis by (simp add: table_validateRecord_def)
qed

lemma attempts_full_tail:
  assumes "insert_attempts env t rs bp = Some (res, t', bp')" and "full_tail t bp"
    and "\<forall>r \<in> set rs. insert_size r + SLOT_SIZE < 2 ^ 64"
  shows "res = replicate (length rs) (ERROR, None) \<and> refused t bp (length (filter (table_validateRecord t) rs)) t' bp'"
  using assms
proof (induction rs arbitrary: t bp res)
  case (Cons r rs)
  then obtain st rid t1 bp1 res1 where i: "table_insertRecord env t r bp = Some (st, rid, t1, bp1)"
    and n: "insert_attempts env t1 rs bp1 = Some (res1, t', bp')" "res = (st, rid) # res1"
    by (auto split: option.splits)
  let ?k = "if table_validateRecord t r then 1 else 0"
  have a: "st = ERROR" "rid = None" "refused t bp ?k t1 bp1" using insert_full_tail [OF i] Cons.prems(2,3) by auto
  then have "full_tail t1 bp1" and v: "table_validateRecord t1 = table_validateRecord t"
    using table_validateRecord_schema [of t1 t] by (auto simp: refused_def)
  from Cons.IH [OF n(1) this(1)] Cons.prems(3)
  have "res1 = replicate (length rs) (ERROR, None)" "refused t1 bp1 (length (filter (table_validateRecord t) rs)) t' bp'"
    by (simp_all add: v)
  with refused_trans [OF a(3)] a n(2) show ?case by fastforce
qed (simp add: refused_def)

lemma Table_new_full:
  assumes "fetchPage env (tab_id s) 0 FETCH_READ bp = Some (None, bp1)" and "Table_new env s bp = Some (t, bp')"
  shows "full_tail t bp' \<and> cached_record_count t = 0"
  using assms createNewPage_page
  by (fastforce simp: Table_new_def full_tail_def Let_def split: option.splits)

section \<open>Iterating over a table\<close>

lemma advance_invalid: "it_page_id it = INVALID_PAGE_ID \<Longrightarrow> advanceToNextValid env it bp = Some (it, bp)"
  by (simp add: advanceToNextValid.simps)

lemma advance_last_page:
  assumes "it_page_id it \<noteq> INVALID_PAGE_ID" and "page_at (it_page it) bp = Some p" and "getNextPage p = INVALID_PAGE_ID"
  shows "advanceToNextValid env it bp =
    Some (if it_slot it < getRecordCount p then it else it\<lparr>it_page_id := INVALID_PAGE_ID\<rparr>, bp)"
proof -
  have "it_page it \<noteq> None" using assms(2) by (cases "it_page it") (simp_all add: page_at_def)
  with assms show ?thesis
    by (subst advanceToNextValid.simps) (simp add: Let_def advance_invalid)
qed

text \<open>An iterator that has been on a record of the last page is never equal to the end.\<close>

definition stuck :: "Page \<Rightarrow> TableIterator \<Rightarrow> BufferPool \<Rightarrow> bool" where
  "stuck p it bp \<longleftrightarrow> it_page_id it = INVALID_PAGE_ID \<and> it_slot it \<noteq> 0 \<or>
     it_page_id it \<noteq> INVALID_PAGE_ID \<and> page_at (it_page it) bp = Some p \<and> it_slot it < getRecordCount p"

lemma stuck_not_end: "stuck p it bp \<Longrightarrow> \<not> iterator_eq it (table_end t)"
  by (auto simp: stuck_def iterator_eq_def table_end_def)

lemma stuck_next:
  assumes "stuck p it bp" and "getNextPage p = INVALID_PAGE_ID"
  shows "\<exists>it'. iterator_next env it bp = Some (it', bp) \<and> stuck p it' bp"
proof (cases "it_page_id it = INVALID_PAGE_ID")
  case True
  with assms show ?thesis by (simp add: iterator_next_def stuck_def)
next
  case False
  let ?it = "it\<lparr>it_slot := it_slot it + 1\<rparr>"
  have p: "page_at (it_page it) bp = Some p" and lt: "it_slot it < getRecordCount p"
    using assms(1) False by (auto simp: stuck_def)
  have "it_slot it \<noteq> - 1" using lt by (metis word_order.extremum_strict)
  then have "it_slot ?it \<noteq> 0" by (simp add: eq_neg_iff_add_eq_0)
  moreover have "iterator_next env it bp =
      Some (if it_slot ?it < getRecordCount p then ?it else ?it\<lparr>it_page_id := INVALID_PAGE_ID\<rparr>, bp)"
    using advance_last_page [of ?it bp p env] False p assms(2) by (simp add: iterator_next_def)
  ultimately show ?thesis using False p by (auto simp: stuck_def)
qed

lemmas count_loop_induct = count_loop.raw_induct [rotated, consumes 1, case_names step]
lemmas scan_loop_induct = scan_loop.raw_induct [rotated, consumes 1, case_names step]

lemma count_loop_stuck:
  assumes "getNextPage p = INVALID_PAGE_ID" and "stuck p it bp"
  shows "count_loop env t it n bp = None"
proof -
  have "\<not> stuck p it bp" if "count_loop env t it n bp = Some r" for r
    using that
  proof (induction rule: count_loop_induct)
    case (step f env t it n bp r)
    show ?case
    proof
      assume s: "stuck p it bp"
      with stuck_next [OF s assms(1), of env] obtain it' where "iterator_next env it bp = Some (it', bp)" "stuck p it' bp" by blast
      with step stuck_not_end [OF s] show False by (auto split: option.splits)
    qed
  qed
  with assms(2) show ?thesis by (cases "count_loop env t it n bp") auto
qed

lemma scan_loop_stuck:
  assumes "getNextPage p = INVALID_PAGE_ID" and "stuck p it bp"
  shows "scan_loop env t 0 it rs bp = None"
proof -
  have "l = 0 \<Longrightarrow> \<not> stuck p it bp" if "scan_loop env t l it rs bp = Some r" for r l
    using that
  proof (induction rule: scan_loop_induct)
    case (step f env t l it rs bp r)
    show ?case
    proof
      assume s: "stuck p it bp"
      with stuck_next [OF s assms(1), of env] obtain it' where "iterator_next env it bp = Some (it', bp)" "stuck p it' bp" by blast
      with step stuck_not_end [OF s] show False by (cases r) (auto simp: Let_def split: option.splits)
    qed
  qed
  with assms(2) show ?thesis by (cases "scan_loop env t 0 it rs bp") auto
qed

lemma begin_one_page:
  assumes "first_page t = Some i" and "map_of (frames bp) i = Some f" and "\<not> latched f" and "getPageId (frame_page f) = i"
    and "i \<noteq> INVALID_PAGE_ID" and "getNextPage (frame_page f) = INVALID_PAGE_ID"
  shows "\<exists>bp' it. table_begin env t bp = Some (it, bp') \<and>
    (if getRecordCount (frame_page f) = 0 then iterator_eq it (table_end t) else stuck (frame_page f) it bp')"
proof -
  let ?t = "tab_id (schema t)" and ?p = "frame_page f"
  obtain bp' where f: "fetchPage env ?t i FETCH_READ bp = Some (Some i, bp')"
    and b: "frames bp' = AList.update i (frame_for FETCH_READ f) (frames bp)"
    using assms(2,3) by (simp add: fetchPage_def Let_def updateLRU_def)
  let ?it = "\<lparr>it_table = Some ?t, it_page_id = i, it_slot = 0, it_page = Some i\<rparr>"
  have p: "page_at (it_page ?it) bp' = Some ?p" by (simp add: page_at_def b frame_for_def)
  have "page_at (first_page t) bp = Some ?p" using assms(1,2) by (simp add: page_at_def)
  then have "table_begin env t bp = (if getRecordCount ?p = 0 then Some (?it\<lparr>it_page_id := INVALID_PAGE_ID\<rparr>, bp') else Some (?it, bp'))"
    using assms(4,5) p advance_last_page [of ?it bp' ?p env] assms(6)
    by (simp add: table_begin_def TableIterator_new_def loadCurrentPage_def f Let_def)
  with p assms(5) show ?thesis
    by (auto simp: stuck_def iterator_eq_def table_end_def word_neq_0_conv)
qed

text \<open>A pool with free frames: the calls return.\<close>

lemma createNewPage_room:
  assumes "length (frames bp) < pool_size bp"
  shows "\<exists>bp'. createNewPage env t ty bp = Some (next_new_page bp, bp') \<and> pool_size bp' = pool_size bp \<and>
    length (frames bp') \<le> Suc (length (frames bp)) \<and> (\<forall>i. i \<noteq> next_new_page bp \<longrightarrow> page_at (Some i) bp' = page_at (Some i) bp)"
  using assms
  by (auto simp: createNewPage_def evict_while.simps [of env "pool_size bp"] add_frame_def Let_def page_at_def
      alist_length_update)

lemma put_page_room: "page_at q bp = Some p \<Longrightarrow> length (frames (put_page q p' bp)) = length (frames bp) \<and> pool_size (put_page q p' bp) = pool_size bp"
  by (cases q) (auto simp: page_at_def put_page_def alist_length_update map_of_eq_None_iff split: option.splits
      dest: map_of_SomeD image_eqI [of _ fst])

lemma unpin_room: "pool_size (unpinPage i d bp) = pool_size bp" "length (frames (unpinPage i d bp)) = length (frames bp)"
  by (auto simp: unpinPage_def Let_def alist_length_update map_of_eq_None_iff split: option.splits
      dest: map_of_SomeD image_eqI [of _ fst])

lemma insert_returns:
  assumes "full_tail t bp" and "length (frames bp) < pool_size bp" and "insert_size vs + SLOT_SIZE < 2 ^ 64"
  shows "\<exists>st rid t' bp'. table_insertRecord env t vs bp = Some (st, rid, t', bp') \<and> pool_size bp' = pool_size bp \<and>
    length (frames bp') \<le> Suc (length (frames bp))"
proof -
  obtain l lp where l: "last_page t = Some l" and lp: "page_at (Some l) bp = Some lp" "getFreeSpace lp = 0"
    using assms(1) by (cases "last_page t") (auto simp: full_tail_def page_at_def)
  have np: "insertRecord p vs = Some (None, p)" if "getFreeSpace p = 0" for p
    by (rule insertRecord_no_space [OF that assms(3)])
  let ?bp = "put_page (Some l) lp bp"
  obtain i bp1 where c: "createNewPage env (tab_id (schema t)) DATA_PAGE ?bp = Some (i, bp1)"
    and o: "\<forall>j. j \<noteq> i \<longrightarrow> page_at (Some j) bp1 = page_at (Some j) ?bp"
    and n: "pool_size bp1 = pool_size bp" "length (frames bp1) \<le> Suc (length (frames bp))"
    using createNewPage_room [of ?bp env "tab_id (schema t)" DATA_PAGE] put_page_room [OF lp(1)] assms(2) by auto
  note i = createNewPage_page [OF c]
  obtain q where q: "page_at (Some l) bp1 = Some q" using o i lp by (cases "l = i") (auto simp: page_at_put)
  let ?bp2 = "unpinPage (getPageId q) True (put_page (Some l) (setNextPage i q) bp1)"
  obtain u where u: "page_at (Some i) ?bp2 = Some u" using i page_at_put [OF q] by (cases "i = l") (auto simp: page_at_unpin)
  have s2: "pool_size ?bp2 = pool_size bp" "length (frames ?bp2) \<le> Suc (length (frames bp))"
    using n put_page_room [OF q, of "setNextPage i q"] by (simp_all add: unpin_room)
  let ?bp3 = "put_page (Some i) (setPrevPage (getPageId q) u) ?bp2"
  have s3: "pool_size ?bp3 = pool_size bp" "length (frames ?bp3) \<le> Suc (length (frames bp))"
    "page_at (Some i) ?bp3 = Some (setPrevPage (getPageId q) u)"
    using s2 put_page_room [OF u] page_at_put [OF u] by simp_all
  obtain t' where a: "appendNewPage env t ?bp = Some (i, t', ?bp3)"
    using c q u l by (simp add: appendNewPage_def Let_def)
  have "getFreeSpace (setPrevPage (getPageId q) u) = 0"
    using appendNewPage_full [OF a] lp l s3(3) by (auto simp: full_tail_def page_at_put)
  then have "table_insertRecord env t vs bp = (if table_validateRecord t vs
      then Some (ERROR, None, t', put_page (Some i) (setPrevPage (getPageId q) u) ?bp3) else Some (ERROR, None, t, bp))"
    using np lp l a s3(3) by (simp add: table_insertRecord_def)
  then show ?thesis using s3 put_page_room [OF s3(3)] by (cases "table_validateRecord t vs") simp_all
qed

lemma attempts_return:
  assumes "full_tail t bp" and "length (frames bp) + length rs \<le> pool_size bp" and "\<forall>r \<in> set rs. insert_size r + SLOT_SIZE < 2 ^ 64"
  shows "\<exists>res t' bp'. insert_attempts env t rs bp = Some (res, t', bp')"
  using assms
proof (induction rs arbitrary: t bp)
  case (Cons r rs)
  obtain st rid t1 bp1 where i: "table_insertRecord env t r bp = Some (st, rid, t1, bp1)"
    and n: "pool_size bp1 = pool_size bp" "length (frames bp1) \<le> Suc (length (frames bp))"
    using insert_returns [OF Cons.prems(1), of r env] Cons.prems(2,3) by auto
  have "full_tail t1 bp1" using insert_full_tail [OF i Cons.prems(1)] Cons.prems(3) by (simp add: refused_def)
  with Cons.IH [of t1 bp1] Cons.prems(2,3) n i show ?case by auto
qed simp

text \<open>
  C37: a new table stays empty. When page 0 of the table cannot be read, opening the table makes a
  new page, and every call of \<^verbatim>\<open>insertRecord\<close> on that object, however many are made
  one after another, fails: the status is an error, no record is counted, and each valid record
  has made the table one page longer, a page without room again. The calls do return, at the
  latest as long as the pool has a free frame for each. (The encoded records are shorter than the address
  space.)
\<close>

theorem new_table_stays_empty:
  assumes "fetchPage env (tab_id s) 0 FETCH_READ bp = Some (None, bp1)" and "Table_new env s bp = Some (t, bp2)"
    and "\<forall>r \<in> set rs. insert_size r + SLOT_SIZE < 2 ^ 64"
  shows "(\<forall>res t3 bp3. insert_attempts env t rs bp2 = Some (res, t3, bp3) \<longrightarrow>
      res = replicate (length rs) (ERROR, None) \<and> cached_record_count t3 = 0 \<and>
      next_new_page bp3 = next_new_page bp2 + of_nat (length (filter (table_validateRecord t) rs)) \<and>
      (list_ex (table_validateRecord t) rs \<longrightarrow> last_page t3 = Some (next_new_page bp3 - 1)) \<and>
      (\<exists>p. page_at (last_page t3) bp3 = Some p \<and> getFreeSpace p = 0)) \<and>
    (length (frames bp2) + length rs \<le> pool_size bp2 \<longrightarrow> insert_attempts env t rs bp2 \<noteq> None)"
proof -
  have n: "full_tail t bp2" "cached_record_count t = 0" using Table_new_full [OF assms(1,2)] by simp_all
  have ex: "list_ex (table_validateRecord t) rs \<longleftrightarrow> 0 < length (filter (table_validateRecord t) rs)"
    by (auto simp: list_ex_iff filter_empty_conv)
  have "res = replicate (length rs) (ERROR, None) \<and> cached_record_count t3 = 0 \<and>
      next_new_page bp3 = next_new_page bp2 + of_nat (length (filter (table_validateRecord t) rs)) \<and>
      (list_ex (table_validateRecord t) rs \<longrightarrow> last_page t3 = Some (next_new_page bp3 - 1)) \<and>
      (\<exists>p. page_at (last_page t3) bp3 = Some p \<and> getFreeSpace p = 0)"
    if "insert_attempts env t rs bp2 = Some (res, t3, bp3)" for res t3 bp3
    using attempts_full_tail [OF that n(1) assms(3)] n(2) unfolding refused_def full_tail_def ex
    by (elim conjE, intro conjI impI) (simp_all only: if_True)
  then show ?thesis using attempts_return [OF n(1) _ assms(3), of env] by (metis option.distinct(1))
qed

text \<open>
  C14: a scan ends only over an empty page. On a table with one page, counting the records and
  scanning without a limit return exactly when the page has no record: an iterator that leaves the
  last page keeps its slot number and never equals \<^verbatim>\<open>end()\<close>, whose slot is zero.
\<close>

theorem table_scan_returns_iff:
  assumes "first_page t = Some i" and "map_of (frames bp) i = Some f" and "\<not> latched f" and "getPageId (frame_page f) = i"
    and "i \<noteq> INVALID_PAGE_ID" and "getNextPage (frame_page f) = INVALID_PAGE_ID"
    and "5000 < now - stats_update_time t" and "scan_limit opts = 0"
  shows "((\<exists>r. table_getRecordCount env now t bp = Some r) \<longleftrightarrow> getRecordCount (frame_page f) = 0) \<and>
    ((\<exists>r. table_scan std_sort env t opts bp = Some r) \<longleftrightarrow> getRecordCount (frame_page f) = 0)"
proof -
  obtain it bp' where b: "table_begin env t bp = Some (it, bp')"
      "if getRecordCount (frame_page f) = 0 then iterator_eq it (table_end t) else stuck (frame_page f) it bp'"
    using begin_one_page [OF assms(1-6)] by blast
  show ?thesis
  proof (cases "getRecordCount (frame_page f) = 0")
    case True
    with b have e: "iterator_eq it (table_end t)" by simp
    then have "count_loop env t it 0 bp' = Some (0, bp')" "scan_loop env t 0 it [] bp' = Some ([], bp')"
      by (simp_all add: count_loop.simps scan_loop.simps)
    with True assms(7,8) b(1) show ?thesis by (simp add: table_getRecordCount_def table_scan_def)
  next
    case False
    with b have s: "stuck (frame_page f) it bp'" by simp
    have "count_loop env t it 0 bp' = None" "scan_loop env t 0 it [] bp' = None"
      using count_loop_stuck [OF assms(6) s] scan_loop_stuck [OF assms(6) s] by auto
    with False assms(7,8) b(1) show ?thesis by (simp add: table_getRecordCount_def table_scan_def)
  qed
qed

definition empty_schema :: TableSchema where
  "empty_schema = \<lparr>tab_id = 3, tab_name = ''t'', columns = [], primary_key = [], indexes = [], options = []\<rparr>"

lemma fetch_missing_file:
  "\<exists>bp. fetchPage example_env 3 0 FETCH_READ (BufferPool_new 2 (FileManager_new []) 1) = Some (None, bp) \<and>
     frames bp = [] \<and> pool_size bp = 2 \<and> next_new_page bp = 1"
proof -
  have "\<exists>fm. readFromDisk example_env 3 0 (FileManager_new []) = Some (None, fm)"
  proof -
    have "map_option fst (readFromDisk example_env 3 0 (FileManager_new [])) = Some None" by code_simp
    then show ?thesis by auto
  qed
  then show ?thesis
    by (auto simp: fetchPage_def BufferPool_new_def MAX_POOL_SIZE_def Let_def evict_while.simps [of example_env 2])
qed

theorem new_table_stays_empty_witness:
  "\<exists>t bp2 t4 bp4. Table_new example_env empty_schema (BufferPool_new 2 (FileManager_new []) 1) = Some (t, bp2) \<and>
     insert_attempts example_env t [[]] bp2 = Some ([(ERROR, None)], t4, bp4)"
proof -
  let ?bp = "BufferPool_new 2 (FileManager_new []) 1"
  obtain bp where f: "fetchPage example_env (tab_id empty_schema) 0 FETCH_READ ?bp = Some (None, bp)"
    and bp: "frames bp = []" "pool_size bp = 2" "next_new_page bp = 1"
    using fetch_missing_file by (auto simp: empty_schema_def)
  obtain bp2 where c: "createNewPage example_env 3 DATA_PAGE bp = Some (1, bp2)" "pool_size bp2 = 2" "length (frames bp2) \<le> 1"
    using createNewPage_room [of bp example_env 3 DATA_PAGE] bp by auto
  let ?t = "\<lparr>schema = empty_schema, first_page = Some 1, last_page = Some 1, cached_record_count = 0, stats_update_time = 0\<rparr>"
  have t: "Table_new example_env empty_schema ?bp = Some (?t, bp2)"
    using f c(1) by (simp add: Table_new_def Let_def empty_schema_def)
  have "insert_attempts example_env ?t [[]] bp2 \<noteq> None"
    using new_table_stays_empty [OF f t, of "[[]]"] c(2,3) by (simp add: insert_size_def page_sizes)
  then obtain res t4 bp4 where "insert_attempts example_env ?t [[]] bp2 = Some (res, t4, bp4)" by auto
  with new_table_stays_empty [OF f t, of "[[]]"] t show ?thesis by (fastforce simp: insert_size_def page_sizes)
qed

theorem table_scan_returns_iff_witness:
  "let p = Page_zeroed 1 3; f = BufferFrame_new (p\<lparr>header := (header p)\<lparr>record_count := 1\<rparr>\<rparr>);
       bp = (BufferPool_new 2 (FileManager_new []) 2)\<lparr>frames := [(1, f)]\<rparr>;
       t = \<lparr>schema = empty_schema, first_page = Some 1, last_page = Some 1, cached_record_count = 0, stats_update_time = 0\<rparr>
   in table_getRecordCount example_env 10000 t bp = None"
proof -
  let ?p = "Page_zeroed 1 3"
  let ?f = "BufferFrame_new (?p\<lparr>header := (header ?p)\<lparr>record_count := 1\<rparr>\<rparr>)"
  let ?bp = "(BufferPool_new 2 (FileManager_new []) 2)\<lparr>frames := [(1, ?f)]\<rparr>"
  let ?t = "\<lparr>schema = empty_schema, first_page = Some 1, last_page = Some 1, cached_record_count = 0, stats_update_time = 0\<rparr>"
  have "(\<exists>r. table_getRecordCount example_env 10000 ?t ?bp = Some r) \<longleftrightarrow> getRecordCount (frame_page ?f) = 0"
    using table_scan_returns_iff [of ?t 1 ?bp ?f 10000 "\<lparr>descending = False, scan_limit = 0, scan_order = []\<rparr>" example_env "\<lambda>_ rs. rs"]
    by (simp add: BufferFrame_new_def Page_zeroed_def getPageId_def getNextPage_def INVALID_PAGE_ID_def)
  then show ?thesis by (simp add: Let_def getRecordCount_def BufferFrame_new_def del: split_paired_Ex split_paired_All)
qed

end
