(* ===== verification/Executor.thy ===== *)
theory Executor
  imports Ast Catalog Table "HOL-Library.Signed_Division"
begin

text \<open>
  \<^verbatim>\<open>engine/query_executor.h\<close> and \<^verbatim>\<open>engine/query_executor.cpp\<close>: the evaluation of
  expressions and the operators of execution plans. An operator is a record; its virtual functions
  are those of the class \<^verbatim>\<open>ExecutorOperator\<close>, and an operator over a child takes the
  functions of the child as an argument, as the virtual call does. A call that loops forever is the
  outcome \<open>Hangs\<close>, undefined behaviour the outcome \<open>Undef\<close>. Profilers and counters are left
  out.
\<close>

type_synonym row = "Value list"

section \<open>Expressions\<close>

text \<open>The result of \<^verbatim>\<open>int\<close> arithmetic; an overflow is undefined.\<close>

definition int_result :: "int \<Rightarrow> Value outcome" where
  "int_result i = (if - (2 ^ 31) \<le> i \<and> i < 2 ^ 31 then Finished (Value_int (word_of_int i)) else Undef)"

definition on_ints :: "Value \<Rightarrow> Value \<Rightarrow> (int \<Rightarrow> int \<Rightarrow> Value outcome) \<Rightarrow> Value outcome" where
  "on_ints l r f = and_then (read_int l) (\<lambda>a. and_then (read_int r) (\<lambda>b. f a b))"

definition on_bools :: "Value \<Rightarrow> Value \<Rightarrow> bool \<Rightarrow> Value outcome" where
  "on_bools l r decided = and_then (read_bool l) (\<lambda>a.
     if a = decided then Finished (Value_bool decided) else and_then (read_bool r) (\<lambda>b. Finished (Value_bool b)))"

definition binary_value :: "Operator \<Rightarrow> Value \<Rightarrow> Value \<Rightarrow> Value outcome" where
  "binary_value op l r =
     (case op of
        OP_EQ \<Rightarrow> on_ints l r (\<lambda>a b. Finished (Value_bool (a = b)))
      | OP_NE \<Rightarrow> on_ints l r (\<lambda>a b. Finished (Value_bool (a \<noteq> b)))
      | OP_LT \<Rightarrow> on_ints l r (\<lambda>a b. Finished (Value_bool (a < b)))
      | OP_LE \<Rightarrow> on_ints l r (\<lambda>a b. Finished (Value_bool (a \<le> b)))
      | OP_GT \<Rightarrow> on_ints l r (\<lambda>a b. Finished (Value_bool (a > b)))
      | OP_GE \<Rightarrow> on_ints l r (\<lambda>a b. Finished (Value_bool (a \<ge> b)))
      | OP_AND \<Rightarrow> on_bools l r False
      | OP_OR \<Rightarrow> on_bools l r True
      | OP_PLUS \<Rightarrow> on_ints l r (\<lambda>a b. int_result (a + b))
      | OP_MINUS \<Rightarrow> on_ints l r (\<lambda>a b. int_result (a - b))
      | OP_MULTIPLY \<Rightarrow> on_ints l r (\<lambda>a b. int_result (a * b))
      | OP_DIVIDE \<Rightarrow> and_then (read_int r) (\<lambda>b.
          if b \<noteq> 0 then and_then (read_int l) (\<lambda>a. int_result (a sdiv b)) else Finished Value_null)
      | _ \<Rightarrow> Finished Value_null)"

text \<open>
  The name of a column is not looked at: every reference reads the first value. A bare node has the
  tag of a literal but no value, so that reading it is undefined.
\<close>

fun evaluateExpression :: "ASTNode \<Rightarrow> row \<Rightarrow> Value outcome" where
  "evaluateExpression (LiteralNode v) row = Finished v"
| "evaluateExpression (ColumnRefNode t c) row =
     (let index = 0 in if index < length row then Finished (row ! index) else Finished Value_null)"
| "evaluateExpression (BinaryExprNode op l (Some r)) row =
     and_then (evaluateExpression l row) (\<lambda>a. and_then (evaluateExpression r row) (\<lambda>b. binary_value op a b))"
| "evaluateExpression (BinaryExprNode op l None) row =
     and_then (evaluateExpression l row) (\<lambda>a. binary_value op a Value_null)"
| "evaluateExpression BareNode row = Undef"
| "evaluateExpression _ row = Finished Value_null"

section \<open>Operators\<close>

type_synonym 'c next_fun = "'c \<Rightarrow> row \<Rightarrow> (StatusCode \<times> row \<times> 'c) outcome"

record 'c ExecutorOperator =
  op_open :: "'c \<Rightarrow> (StatusCode \<times> 'c) outcome"
  op_next :: "'c next_fun"
  op_close :: "'c \<Rightarrow> 'c"
  op_rewind :: "'c \<Rightarrow> 'c outcome"

subsection \<open>Scans\<close>

text \<open>
  The iterator of a sequential scan is made without a table and so never touches the pool; its
  functions get an arbitrary one.
\<close>

record SeqScanOperator =
  seq_table_name :: string
  seq_filter :: "ASTNode option"
  seq_iterator :: TableIterator

definition TableIterator_default :: TableIterator where
  "TableIterator_default = \<lparr>it_table = None, it_page_id = INVALID_PAGE_ID, it_slot = 0, it_page = None\<rparr>"

definition SeqScanOperator_new :: "string \<Rightarrow> ASTNode option \<Rightarrow> SeqScanOperator" where
  "SeqScanOperator_new n flt = \<lparr>seq_table_name = n, seq_filter = flt, seq_iterator = TableIterator_default\<rparr>"

definition of_option :: "'a option \<Rightarrow> 'a outcome" where
  "of_option x = (case x of None \<Rightarrow> Hangs | Some y \<Rightarrow> Finished y)"

definition returned :: "'a outcome option \<Rightarrow> 'a outcome" where
  "returned x = (case x of None \<Rightarrow> Hangs | Some y \<Rightarrow> y)"

definition seq_open :: "Env \<Rightarrow> BufferPool \<Rightarrow> Catalog \<Rightarrow> SeqScanOperator \<Rightarrow> (StatusCode \<times> SeqScanOperator) outcome" where
  "seq_open env bp cat o1 =
     and_then (getTable (seq_table_name o1) cat) (\<lambda>(table, _).
       if table = None then Finished (NOT_FOUND, o1)
       else and_then (of_option (TableIterator_new env None 0 0 bp)) (\<lambda>(it, _).
         Finished (OK, o1\<lparr>seq_iterator := it\<rparr>)))"

definition seq_evaluateFilter :: "row \<Rightarrow> bool" where
  "seq_evaluateFilter r = True"

text \<open>The recursive call skips a row that the filter rejects.\<close>

partial_function (option) seq_loop :: "Env \<Rightarrow> BufferPool \<Rightarrow> SeqScanOperator \<Rightarrow> row \<Rightarrow>
    (StatusCode \<times> row \<times> SeqScanOperator) outcome option" where
  "seq_loop env bp o1 r =
     (if iterator_eq (seq_iterator o1) TableIterator_default then Some (Finished (NOT_FOUND, r, o1))
      else (case (iterator_value (seq_iterator o1) bp, iterator_next env (seq_iterator o1) bp) of
        (Some (rid, values), Some (it, _)) \<Rightarrow>
          if seq_filter o1 \<noteq> None \<and> \<not> seq_evaluateFilter values then seq_loop env bp (o1\<lparr>seq_iterator := it\<rparr>) r
          else Some (Finished (OK, values, o1\<lparr>seq_iterator := it\<rparr>))
      | _ \<Rightarrow> Some Undef))"

definition seq_next :: "Env \<Rightarrow> BufferPool \<Rightarrow> SeqScanOperator next_fun" where
  "seq_next env bp o1 r = returned (seq_loop env bp o1 r)"

definition seq_operator :: "Env \<Rightarrow> BufferPool \<Rightarrow> Catalog \<Rightarrow> SeqScanOperator ExecutorOperator" where
  "seq_operator env bp cat = \<lparr>op_open = seq_open env bp cat, op_next = seq_next env bp,
     op_close = (\<lambda>o1. o1), op_rewind = (\<lambda>o1. Finished o1)\<rparr>"

text \<open>The index of an index scan is never opened; using it is undefined.\<close>

record IndexScanOperator =
  idx_table_name :: string
  idx_index_name :: string
  idx_filter :: "ASTNode option"

definition idx_open :: "Catalog \<Rightarrow> IndexScanOperator \<Rightarrow> (StatusCode \<times> IndexScanOperator) outcome" where
  "idx_open cat o1 =
     and_then (getTable (idx_table_name o1) cat) (\<lambda>(table, cat).
       if table = None then Finished (NOT_FOUND, o1)
       else and_then (getIndexId (idx_index_name o1) cat) (\<lambda>_. Finished (OK, o1)))"

definition idx_next :: "IndexScanOperator next_fun" where
  "idx_next o1 r = Undef"

definition idx_operator :: "Catalog \<Rightarrow> IndexScanOperator ExecutorOperator" where
  "idx_operator cat = \<lparr>op_open = idx_open cat, op_next = idx_next, op_close = (\<lambda>o1. o1), op_rewind = (\<lambda>o1. Undef)\<rparr>"

subsection \<open>Filter and projection\<close>

record 'c FilterOperator =
  flt_child :: 'c
  flt_condition :: "ASTNode option"

definition open_child :: "'c ExecutorOperator \<Rightarrow> ('o \<Rightarrow> 'c) \<Rightarrow> ('c \<Rightarrow> 'o) \<Rightarrow> 'o \<Rightarrow> (StatusCode \<times> 'o) outcome" where
  "open_child C child put o1 = and_then (op_open C (child o1)) (\<lambda>(st, c). Finished (if st \<noteq> OK then st else OK, put c))"

definition flt_evaluateCondition :: "row \<Rightarrow> bool" where
  "flt_evaluateCondition r = True"

partial_function (option) flt_loop :: "'c next_fun \<Rightarrow> 'c \<Rightarrow> row \<Rightarrow> (StatusCode \<times> row \<times> 'c) outcome option" where
  "flt_loop nxt c r =
     (case nxt c r of
        Finished (st, r', c') \<Rightarrow>
          if st \<noteq> OK then Some (Finished (st, r', c'))
          else if flt_evaluateCondition r' then Some (Finished (OK, r', c'))
          else flt_loop nxt c' r'
      | Hangs \<Rightarrow> Some Hangs | Undef \<Rightarrow> Some Undef)"

definition flt_next :: "'c ExecutorOperator \<Rightarrow> 'c FilterOperator next_fun" where
  "flt_next C o1 r = and_then (returned (flt_loop (op_next C) (flt_child o1) r)) (\<lambda>(st, r, c).
     Finished (st, r, o1\<lparr>flt_child := c\<rparr>))"

definition flt_operator :: "'c ExecutorOperator \<Rightarrow> 'c FilterOperator ExecutorOperator" where
  "flt_operator C = \<lparr>op_open = (\<lambda>o1. open_child C flt_child (\<lambda>c. o1\<lparr>flt_child := c\<rparr>) o1), op_next = flt_next C,
     op_close = (\<lambda>o1. o1\<lparr>flt_child := op_close C (flt_child o1)\<rparr>),
     op_rewind = (\<lambda>o1. and_then (op_rewind C (flt_child o1)) (\<lambda>c. Finished (o1\<lparr>flt_child := c\<rparr>)))\<rparr>"

record 'c ProjectOperator =
  prj_child :: 'c
  prj_expressions :: "ASTNode list"
  prj_aliases :: "string list"

definition prj_evaluateExpression :: "ASTNode \<Rightarrow> row \<Rightarrow> Value" where
  "prj_evaluateExpression e r = Value_null"

definition prj_next :: "'c ExecutorOperator \<Rightarrow> 'c ProjectOperator next_fun" where
  "prj_next C o1 r = and_then (op_next C (prj_child o1) []) (\<lambda>(st, child_row, c).
     Finished (if st \<noteq> OK then (st, r, o1\<lparr>prj_child := c\<rparr>)
       else (OK, map (\<lambda>e. prj_evaluateExpression e child_row) (prj_expressions o1), o1\<lparr>prj_child := c\<rparr>)))"

definition prj_operator :: "'c ExecutorOperator \<Rightarrow> 'c ProjectOperator ExecutorOperator" where
  "prj_operator C = \<lparr>op_open = (\<lambda>o1. open_child C prj_child (\<lambda>c. o1\<lparr>prj_child := c\<rparr>) o1), op_next = prj_next C,
     op_close = (\<lambda>o1. o1\<lparr>prj_child := op_close C (prj_child o1)\<rparr>),
     op_rewind = (\<lambda>o1. and_then (op_rewind C (prj_child o1)) (\<lambda>c. Finished (o1\<lparr>prj_child := c\<rparr>)))\<rparr>"

subsection \<open>Reading all rows of a child\<close>

text \<open>
  \<^verbatim>\<open>while (child->next(row) == Status::OK) rows.push_back(row)\<close>; a row that is not \<open>ok\<close> makes
  the body of the loop undefined.
\<close>

partial_function (option) load_rows :: "'c next_fun \<Rightarrow> (row \<Rightarrow> bool) \<Rightarrow> 'c \<Rightarrow> row \<Rightarrow> row list \<Rightarrow> (row list \<times> 'c) outcome option" where
  "load_rows nxt ok c r rows =
     (case nxt c r of
        Finished (st, r', c') \<Rightarrow>
          if st \<noteq> OK then Some (Finished (rows, c'))
          else if ok r' then load_rows nxt ok c' r' (rows @ [r']) else Some Undef
      | Hangs \<Rightarrow> Some Hangs | Undef \<Rightarrow> Some Undef)"

subsection \<open>Join\<close>

datatype JoinAlgorithm = NESTED_LOOP | HASH | MERGE

record ('l, 'r) JoinOperator =
  jn_left :: 'l
  jn_right :: 'r
  jn_condition :: "ASTNode option"
  join_type :: JoinType
  algorithm :: JoinAlgorithm
  current_left_row :: row
  right_rows :: "row list"
  right_index :: nat
  hash_table :: "(u64 \<times> row) list"

definition JoinOperator_new :: "'l \<Rightarrow> 'r \<Rightarrow> ASTNode option \<Rightarrow> JoinType \<Rightarrow> JoinAlgorithm \<Rightarrow> ('l, 'r) JoinOperator" where
  "JoinOperator_new l r cond ty alg = \<lparr>jn_left = l, jn_right = r, jn_condition = cond, join_type = ty,
     algorithm = alg, current_left_row = [], right_rows = [], right_index = 0, hash_table = []\<rparr>"

text \<open>The hash reads the integer of every value.\<close>

definition hashable :: "row \<Rightarrow> bool" where
  "hashable r \<longleftrightarrow> list_all (\<lambda>v. 4 \<le> set_bytes v) r"

definition hashRow :: "row \<Rightarrow> ASTNode option \<Rightarrow> u64" where
  "hashRow r cond = fold (\<lambda>v hash. hash * 31 + scast (int_val v)) r 0"

definition evaluateJoinCondition :: "('l, 'r) JoinOperator \<Rightarrow> row \<Rightarrow> row \<Rightarrow> bool" where
  "evaluateJoinCondition j l r = (if jn_condition j = None then True else True)"

definition jn_open :: "'l ExecutorOperator \<Rightarrow> 'r ExecutorOperator \<Rightarrow> ('l, 'r) JoinOperator \<Rightarrow> (StatusCode \<times> ('l, 'r) JoinOperator) outcome" where
  "jn_open L R j =
     and_then (op_open L (jn_left j)) (\<lambda>(st, l).
       let j = j\<lparr>jn_left := l\<rparr> in
       if st \<noteq> OK then Finished (st, j)
       else and_then (op_open R (jn_right j)) (\<lambda>(st, r).
         let j = j\<lparr>jn_right := r\<rparr> in
         if st \<noteq> OK then Finished (st, j)
         else if algorithm j = HASH
         then and_then (returned (load_rows (op_next R) hashable (jn_right j) [] [])) (\<lambda>(rows, r).
           and_then (op_rewind R r) (\<lambda>r.
             Finished (OK, j\<lparr>jn_right := r, right_rows := right_rows j @ rows,
               hash_table := hash_table j @ map (\<lambda>x. (hashRow x (jn_condition j), x)) rows\<rparr>)))
         else Finished (OK, j)))"

text \<open>The inner loop over the rows of the right side, from the current index on.\<close>

fun match_from :: "('l, 'r) JoinOperator \<Rightarrow> row list \<Rightarrow> nat \<Rightarrow> (row \<times> nat) option" where
  "match_from j [] i = None"
| "match_from j (x # xs) i =
     (if evaluateJoinCondition j (current_left_row j) x then Some (x, i + 1) else match_from j xs (i + 1))"

definition fetch_left :: "'l next_fun \<Rightarrow> ('l, 'r) JoinOperator \<Rightarrow> (StatusCode \<times> ('l, 'r) JoinOperator) outcome" where
  "fetch_left nxt j =
     (if current_left_row j \<noteq> [] then Finished (OK, j)
      else and_then (nxt (jn_left j) (current_left_row j)) (\<lambda>(st, lr, l).
        let j = j\<lparr>jn_left := l, current_left_row := lr\<rparr> in
        Finished (if st \<noteq> OK then (st, j) else (OK, j\<lparr>right_index := 0\<rparr>))))"

partial_function (option) jn_loop :: "'l next_fun \<Rightarrow> ('l, 'r) JoinOperator \<Rightarrow> row \<Rightarrow> (StatusCode \<times> row \<times> ('l, 'r) JoinOperator) outcome option" where
  "jn_loop nxt j r =
     (case fetch_left nxt j of
        Hangs \<Rightarrow> Some Hangs | Undef \<Rightarrow> Some Undef
      | Finished (st, j) \<Rightarrow>
          if st \<noteq> OK then Some (Finished (st, r, j))
          else (case match_from j (drop (right_index j) (right_rows j)) (right_index j) of
                  Some (x, i) \<Rightarrow> Some (Finished (OK, current_left_row j @ x, j\<lparr>right_index := i\<rparr>))
                | None \<Rightarrow> jn_loop nxt (j\<lparr>right_index := max (right_index j) (length (right_rows j)), current_left_row := []\<rparr>) r))"

definition jn_next :: "'l ExecutorOperator \<Rightarrow> ('l, 'r) JoinOperator next_fun" where
  "jn_next L j r = returned (jn_loop (op_next L) j r)"

definition jn_rewind :: "'l ExecutorOperator \<Rightarrow> 'r ExecutorOperator \<Rightarrow> ('l, 'r) JoinOperator \<Rightarrow> ('l, 'r) JoinOperator outcome" where
  "jn_rewind L R j = and_then (op_rewind L (jn_left j)) (\<lambda>l. and_then (op_rewind R (jn_right j)) (\<lambda>r.
     Finished (j\<lparr>jn_left := l, jn_right := r, current_left_row := [], right_index := 0\<rparr>)))"

definition jn_operator :: "'l ExecutorOperator \<Rightarrow> 'r ExecutorOperator \<Rightarrow> ('l, 'r) JoinOperator ExecutorOperator" where
  "jn_operator L R = \<lparr>op_open = jn_open L R, op_next = jn_next L,
     op_close = (\<lambda>j. j\<lparr>jn_left := op_close L (jn_left j), jn_right := op_close R (jn_right j)\<rparr>), op_rewind = jn_rewind L R\<rparr>"

definition join_getName :: "('l, 'r) JoinOperator \<Rightarrow> string" where
  "join_getName j = (case algorithm j of NESTED_LOOP \<Rightarrow> ''NestedLoopJoin'' | HASH \<Rightarrow> ''HashJoin'' | MERGE \<Rightarrow> ''MergeJoin'')"

definition join_getDescription :: "('l, 'r) JoinOperator \<Rightarrow> string" where
  "join_getDescription j = join_getName j @
     (case join_type j of J_INNER \<Rightarrow> '' (Inner)'' | J_LEFT \<Rightarrow> '' (Left)'' | J_RIGHT \<Rightarrow> '' (Right)'' | J_FULL \<Rightarrow> '' (Full)'' | _ \<Rightarrow> [])"

subsection \<open>Sort\<close>

text \<open>
  The keys carry no expression, and the comparison of two rows is always a draw. The library's
  sort is an argument.
\<close>

record SortKey =
  key_expr :: "ASTNode option"
  key_ascending :: bool

record 'c SortOperator =
  srt_child :: 'c
  srt_keys :: "SortKey list"
  sorted_rows :: "row list"
  current_index :: nat

fun compareRows :: "SortKey list \<Rightarrow> row \<Rightarrow> row \<Rightarrow> bool" where
  "compareRows [] a b = False"
| "compareRows (key # keys) a b =
     (let cmp = 0 :: int in
      if cmp < 0 then key_ascending key else if cmp > 0 then \<not> key_ascending key else compareRows keys a b)"

definition sortRows :: "((row \<Rightarrow> row \<Rightarrow> bool) \<Rightarrow> row list \<Rightarrow> row list) \<Rightarrow> 'c SortOperator \<Rightarrow> 'c SortOperator" where
  "sortRows std_sort o1 = o1\<lparr>sorted_rows := std_sort (compareRows (srt_keys o1)) (sorted_rows o1)\<rparr>"

definition srt_open :: "((row \<Rightarrow> row \<Rightarrow> bool) \<Rightarrow> row list \<Rightarrow> row list) \<Rightarrow> 'c ExecutorOperator \<Rightarrow> 'c SortOperator \<Rightarrow> (StatusCode \<times> 'c SortOperator) outcome" where
  "srt_open std_sort C o1 =
     and_then (op_open C (srt_child o1)) (\<lambda>(st, c).
       let o1 = o1\<lparr>srt_child := c\<rparr> in
       if st \<noteq> OK then Finished (st, o1)
       else and_then (returned (load_rows (op_next C) (\<lambda>r. True) (srt_child o1) [] [])) (\<lambda>(rows, c).
         let o1 = sortRows std_sort (o1\<lparr>sorted_rows := sorted_rows o1 @ rows\<rparr>)
         in Finished (OK, o1\<lparr>srt_child := op_close C c, current_index := 0\<rparr>)))"

definition srt_next :: "'c SortOperator next_fun" where
  "srt_next o1 r =
     (if current_index o1 \<ge> length (sorted_rows o1) then Finished (NOT_FOUND, r, o1)
      else Finished (OK, sorted_rows o1 ! current_index o1, o1\<lparr>current_index := current_index o1 + 1\<rparr>))"

definition srt_operator :: "((row \<Rightarrow> row \<Rightarrow> bool) \<Rightarrow> row list \<Rightarrow> row list) \<Rightarrow> 'c ExecutorOperator \<Rightarrow> 'c SortOperator ExecutorOperator" where
  "srt_operator std_sort C = \<lparr>op_open = srt_open std_sort C, op_next = srt_next, op_close = (\<lambda>o1. o1),
     op_rewind = (\<lambda>o1. Finished (o1\<lparr>current_index := 0\<rparr>))\<rparr>"

subsection \<open>Limit\<close>

record 'c LimitOperator =
  lmt_child :: 'c
  limit_count :: nat
  offset_count :: nat
  current_row :: nat

definition LimitOperator_new :: "'c \<Rightarrow> nat \<Rightarrow> nat \<Rightarrow> 'c LimitOperator" where
  "LimitOperator_new c n k = \<lparr>lmt_child = c, limit_count = n, offset_count = k, current_row = 0\<rparr>"

fun skip_rows :: "'c next_fun \<Rightarrow> nat \<Rightarrow> 'c \<Rightarrow> row \<Rightarrow> 'c outcome" where
  "skip_rows nxt 0 c r = Finished c"
| "skip_rows nxt (Suc k) c r = and_then (nxt c r) (\<lambda>(st, r', c'). if st \<noteq> OK then Finished c' else skip_rows nxt k c' r')"

definition lmt_open :: "'c ExecutorOperator \<Rightarrow> 'c LimitOperator \<Rightarrow> (StatusCode \<times> 'c LimitOperator) outcome" where
  "lmt_open C o1 =
     and_then (op_open C (lmt_child o1)) (\<lambda>(st, c).
       if st \<noteq> OK then Finished (st, o1\<lparr>lmt_child := c\<rparr>)
       else and_then (skip_rows (op_next C) (offset_count o1) c []) (\<lambda>c. Finished (OK, o1\<lparr>lmt_child := c\<rparr>)))"

definition lmt_next :: "'c ExecutorOperator \<Rightarrow> 'c LimitOperator next_fun" where
  "lmt_next C o1 r =
     (if current_row o1 \<ge> limit_count o1 then Finished (NOT_FOUND, r, o1)
      else and_then (op_next C (lmt_child o1) r) (\<lambda>(st, r, c).
        Finished (st, r, o1\<lparr>lmt_child := c, current_row := (if st = OK then current_row o1 + 1 else current_row o1)\<rparr>)))"

definition lmt_operator :: "'c ExecutorOperator \<Rightarrow> 'c LimitOperator ExecutorOperator" where
  "lmt_operator C = \<lparr>op_open = lmt_open C, op_next = lmt_next C,
     op_close = (\<lambda>o1. o1\<lparr>lmt_child := op_close C (lmt_child o1)\<rparr>),
     op_rewind = (\<lambda>o1. and_then (op_rewind C (lmt_child o1)) (\<lambda>c. Finished (o1\<lparr>lmt_child := c, current_row := 0\<rparr>)))\<rparr>"

section \<open>Running a plan\<close>

text \<open>
  The loop of \<^verbatim>\<open>executeSelect\<close>; \<open>expired n\<close> is what the check of the timeout says after
  \<open>n\<close> rows.
\<close>

partial_function (option) fetch_loop :: "'c next_fun \<Rightarrow> int \<Rightarrow> (nat \<Rightarrow> bool) \<Rightarrow> 'c \<Rightarrow> row \<Rightarrow> row list \<Rightarrow> (row list \<times> 'c) outcome option" where
  "fetch_loop nxt max_rows expired c r results =
     (case nxt c r of
        Hangs \<Rightarrow> Some Hangs | Undef \<Rightarrow> Some Undef
      | Finished (st, r', c') \<Rightarrow>
          if st \<noteq> OK then Some (Finished (results, c'))
          else
            let results = results @ [r'] in
            if max_rows > 0 \<and> int (length results) \<ge> max_rows then Some (Finished (results, c'))
            else if expired (length results) then Some (Finished (results, c'))
            else fetch_loop nxt max_rows expired c' r' results)"

definition run_plan :: "'c ExecutorOperator \<Rightarrow> int \<Rightarrow> (nat \<Rightarrow> bool) \<Rightarrow> 'c \<Rightarrow> row list \<Rightarrow> (StatusCode \<times> row list) outcome" where
  "run_plan C max_rows expired root results =
     and_then (op_open C root) (\<lambda>(st, root).
       if st \<noteq> OK then Finished (st, results)
       else and_then (returned (fetch_loop (op_next C) max_rows expired root [] results)) (\<lambda>(results, root).
         Finished (OK, results)))"

end
