(* ===== verification/ExecutorFacts.thy ===== *)
theory ExecutorFacts
  imports Executor
begin

text \<open>
  What the expressions and operators of the executor compute. The locale \<open>row_source\<close> is the
  contract between an operator and its child: a sequence of rows, possibly endless, that
  \<^verbatim>\<open>next\<close> hands out one by one.
\<close>

section \<open>Types of values\<close>

text \<open>The operators by what they read.\<close>

definition comparisons :: "Operator set" where
  "comparisons = {OP_EQ, OP_NE, OP_LT, OP_LE, OP_GT, OP_GE}"

definition arithmetic :: "Operator set" where
  "arithmetic = {OP_PLUS, OP_MINUS, OP_MULTIPLY, OP_DIVIDE}"

text \<open>The types an expression can have: null where the evaluation gives up.\<close>

fun expr_types :: "ASTNode \<Rightarrow> row \<Rightarrow> DataType set" where
  "expr_types (LiteralNode v) row = {vtype v}"
| "expr_types (ColumnRefNode t c) row = (if row = [] then {NULL_TYPE} else {vtype (hd row)})"
| "expr_types (BinaryExprNode op l r) row =
     (if op \<in> comparisons \<or> op = OP_AND \<or> op = OP_OR then {BOOLEAN}
      else if op = OP_DIVIDE then {INTEGER, NULL_TYPE}
      else if op \<in> arithmetic then {INTEGER} else {NULL_TYPE})"
| "expr_types BareNode row = {}"
| "expr_types _ row = {NULL_TYPE}"

text \<open>
  What is known of the union of the value of an expression without evaluating it: whether the bytes
  of the integer, and a Boolean, can be read.
\<close>

fun int_known :: "ASTNode \<Rightarrow> row \<Rightarrow> bool" where
  "int_known (LiteralNode v) row \<longleftrightarrow> 4 \<le> set_bytes v"
| "int_known (ColumnRefNode t c) row \<longleftrightarrow> row = [] \<or> 4 \<le> set_bytes (hd row)"
| "int_known (BinaryExprNode op l r) row \<longleftrightarrow> op \<notin> comparisons \<and> op \<noteq> OP_AND \<and> op \<noteq> OP_OR"
| "int_known _ row \<longleftrightarrow> True"

definition bool_bits :: "Value \<Rightarrow> bool" where
  "bool_bits v \<longleftrightarrow> 1 \<le> set_bytes v \<and> (ucast (data v) :: u8) \<le> 1"

fun bool_known :: "ASTNode \<Rightarrow> row \<Rightarrow> bool" where
  "bool_known (LiteralNode v) row \<longleftrightarrow> bool_bits v"
| "bool_known (ColumnRefNode t c) row \<longleftrightarrow> row = [] \<or> bool_bits (hd row)"
| "bool_known (BinaryExprNode op l r) row \<longleftrightarrow> op \<notin> arithmetic"
| "bool_known _ row \<longleftrightarrow> True"

text \<open>Expressions in which every operator finds what it reads, and without arithmetic.\<close>

fun well_formed :: "ASTNode \<Rightarrow> row \<Rightarrow> bool" where
  "well_formed (BinaryExprNode op l r) row \<longleftrightarrow>
     op \<notin> arithmetic \<and> well_formed l row \<and> (case r of None \<Rightarrow> True | Some e \<Rightarrow> well_formed e row) \<and>
     (op \<in> comparisons \<longrightarrow> int_known l row \<and> (case r of None \<Rightarrow> True | Some e \<Rightarrow> int_known e row)) \<and>
     (op = OP_AND \<or> op = OP_OR \<longrightarrow> bool_known l row \<and> (case r of None \<Rightarrow> True | Some e \<Rightarrow> bool_known e row))"
| "well_formed BareNode row \<longleftrightarrow> False"
| "well_formed _ row \<longleftrightarrow> True"

lemmas operator_sets = comparisons_def arithmetic_def

lemma bool_bits_bool [simp]: "bool_bits (Value_bool b)"
  by (cases b) (simp_all add: bool_bits_def Value_bool_def)

lemma bool_bits_null [simp]: "bool_bits Value_null"
  by (simp add: bool_bits_def Value_null_def)

lemma set_bytes_null: "set_bytes Value_null = 4"
  by (simp add: Value_null_def)

lemma read_bool_bits: "bool_bits v \<Longrightarrow> read_bool v = Finished (bool_val v)"
  by (simp add: read_bool_def bool_bits_def)

lemma read_int_null [simp]: "read_int Value_null = Finished 0"
  by (simp add: read_int_def Value_null_def int_val_def)

lemma int_result_int: "int_result i = Finished v \<Longrightarrow> \<exists>w. v = Value_int w"
  by (auto simp: int_result_def split: if_splits)

lemma on_ints_Finished: "on_ints l r f = Finished v \<Longrightarrow> \<exists>a b. f a b = Finished v"
  by (auto simp: on_ints_def and_then_Finished)

lemma on_bools_bool: "on_bools l r d = Finished v \<Longrightarrow> \<exists>b. v = Value_bool b"
  by (auto simp: on_bools_def and_then_Finished split: if_splits)

text \<open>The value of an operator: its type, and what can be read of it.\<close>

lemma truth_value:
  "op \<in> comparisons \<union> {OP_AND, OP_OR} \<Longrightarrow> binary_value op l r = Finished v \<Longrightarrow> \<exists>b. v = Value_bool b"
  by (auto simp: operator_sets binary_value_def dest!: on_ints_Finished on_bools_bool)

lemma integer_value:
  "op \<in> arithmetic \<Longrightarrow> binary_value op l r = Finished v \<Longrightarrow> (\<exists>i. v = Value_int i) \<or> op = OP_DIVIDE \<and> v = Value_null"
  by (auto simp: operator_sets binary_value_def and_then_Finished split: if_splits dest!: on_ints_Finished int_result_int)

lemma no_value:
  "op \<notin> comparisons \<union> arithmetic \<union> {OP_AND, OP_OR} \<Longrightarrow> binary_value op l r = Finished v \<Longrightarrow> v = Value_null"
  by (cases op) (simp_all add: operator_sets binary_value_def)

lemma operator_kinds: "comparisons \<inter> arithmetic = {}" "OP_AND \<notin> comparisons \<union> arithmetic" "OP_OR \<notin> comparisons \<union> arithmetic"
  by (auto simp: operator_sets)

lemma binary_value_type:
  assumes "binary_value op l r = Finished v"
  shows "vtype v \<in> expr_types (BinaryExprNode op e f) row"
proof -
  consider "op \<in> comparisons \<union> {OP_AND, OP_OR}" | "op \<in> arithmetic" | "op \<notin> comparisons \<union> arithmetic \<union> {OP_AND, OP_OR}"
    by blast
  then show ?thesis
  proof cases
    case 1
    with truth_value [OF 1 assms] show ?thesis by (auto simp: Value_bool_def)
  next
    case 2
    with operator_kinds integer_value [OF 2 assms] show ?thesis by (auto simp: Value_int_def Value_null_def)
  next
    case 3
    then have "op \<noteq> OP_DIVIDE" by (auto simp: arithmetic_def)
    with 3 no_value [OF 3 assms] show ?thesis by (auto simp: Value_null_def)
  qed
qed

lemma binary_value_known:
  assumes "binary_value op a b = Finished v"
  shows "(op \<notin> comparisons \<union> {OP_AND, OP_OR} \<longrightarrow> 4 \<le> set_bytes v) \<and> (op \<notin> arithmetic \<longrightarrow> bool_bits v)"
proof -
  consider "op \<in> comparisons \<union> {OP_AND, OP_OR}" | "op \<in> arithmetic" | "op \<notin> comparisons \<union> arithmetic \<union> {OP_AND, OP_OR}"
    by blast
  then show ?thesis
  proof cases
    case 1
    with truth_value [OF 1 assms] show ?thesis by auto
  next
    case 2
    with integer_value [OF 2 assms] show ?thesis by (auto simp: Value_int_def Value_null_def)
  next
    case 3
    with no_value [OF 3 assms] show ?thesis by (auto simp: set_bytes_null)
  qed
qed

lemma evaluate_known:
  assumes "evaluateExpression e row = Finished v"
  shows "(int_known e row \<longrightarrow> 4 \<le> set_bytes v) \<and> (bool_known e row \<longrightarrow> bool_bits v)"
proof (cases "(e, row)" rule: evaluateExpression.cases)
  case (3 op l r row)
  then obtain a b where "binary_value op a b = Finished v" using assms by (auto simp: and_then_Finished)
  from binary_value_known [OF this] 3 show ?thesis by simp
next
  case (4 op l row)
  then obtain a where "binary_value op a Value_null = Finished v" using assms by (auto simp: and_then_Finished)
  from binary_value_known [OF this] 4 show ?thesis by simp
qed (use assms in \<open>auto simp: Let_def hd_conv_nth Value_null_def bool_bits_def split: if_splits\<close>)

lemma binary_value_defined:
  assumes "op \<notin> arithmetic" and "op \<in> comparisons \<longrightarrow> 4 \<le> set_bytes a \<and> 4 \<le> set_bytes b"
    and "op = OP_AND \<or> op = OP_OR \<longrightarrow> bool_bits a \<and> bool_bits b"
  shows "\<exists>v. binary_value op a b = Finished v"
  using assms
  by (cases op) (auto simp: binary_value_def operator_sets on_ints_def on_bools_def read_int_def read_bool_bits)

lemma evaluate_well_formed: "well_formed e row \<Longrightarrow> \<exists>v. evaluateExpression e row = Finished v"
proof (induction e row rule: evaluateExpression.induct)
  case (3 op l r row)
  then obtain a b where ab: "evaluateExpression l row = Finished a" "evaluateExpression r row = Finished b" by auto
  have "\<exists>v. binary_value op a b = Finished v"
    using 3(3) evaluate_known [OF ab(1)] evaluate_known [OF ab(2)] by (intro binary_value_defined) auto
  with ab show ?case by simp
next
  case (4 op l row)
  then obtain a where a: "evaluateExpression l row = Finished a" by auto
  have "\<exists>v. binary_value op a Value_null = Finished v"
    using 4(2) evaluate_known [OF a] by (intro binary_value_defined) (auto simp: Value_null_def bool_bits_def)
  with a show ?case by simp
qed (simp_all add: Let_def)

text \<open>
  C38: types of expressions. A value that \<^verbatim>\<open>evaluateExpression\<close> returns has a type of the
  expression: comparisons and connectives are Boolean, arithmetic is integer, a division may be
  null. An expression without arithmetic has a value when every comparison compares values whose
  integer is initialised and every connective joins Booleans; a string literal, for one, leaves the
  union uninitialised, and comparing it has no defined result.
\<close>

theorem evaluateExpression_type:
  "(evaluateExpression e row = Finished v \<longrightarrow> vtype v \<in> expr_types e row) \<and>
   (well_formed e row \<longrightarrow> (\<exists>v. evaluateExpression e row = Finished v)) \<and>
   evaluateExpression (BinaryExprNode OP_EQ (LiteralNode (Value_string s)) (Some e)) row \<notin> range Finished"
proof (intro conjI)
  show "evaluateExpression e row = Finished v \<longrightarrow> vtype v \<in> expr_types e row"
    by (cases "(e, row)" rule: evaluateExpression.cases)
      (auto simp: and_then_Finished Value_null_def hd_conv_nth Let_def split: if_splits dest: binary_value_type)
  show "well_formed e row \<longrightarrow> (\<exists>v. evaluateExpression e row = Finished v)" using evaluate_well_formed by blast
  show "evaluateExpression (BinaryExprNode OP_EQ (LiteralNode (Value_string s)) (Some e)) row \<notin> range Finished"
    by (cases "evaluateExpression e row") (simp_all add: binary_value_def on_ints_def read_int_def Value_string_def image_iff)
qed

theorem evaluateExpression_type_witness:
  "\<exists>v. evaluateExpression (BinaryExprNode OP_LT (ColumnRefNode [] ''a'') (Some (LiteralNode (Value_int 3)))) [Value_int 1] = Finished v \<and>
     vtype v = BOOLEAN"
proof -
  let ?e = "BinaryExprNode OP_LT (ColumnRefNode [] ''a'') (Some (LiteralNode (Value_int 3)))"
  have "well_formed ?e [Value_int 1]" by (simp add: operator_sets Value_int_def)
  then obtain v where "evaluateExpression ?e [Value_int 1] = Finished v"
    using evaluateExpression_type [of ?e "[Value_int 1]"] by blast
  with evaluateExpression_type [of ?e "[Value_int 1]" v] show ?thesis by (auto simp: operator_sets)
qed

section \<open>Integer expressions\<close>

text \<open>The mathematical value, over the integers, with the columns by their names.\<close>

fun math_value :: "ASTNode \<Rightarrow> (string \<Rightarrow> int) \<Rightarrow> int" where
  "math_value (LiteralNode v) \<rho> = sint (int_val v)"
| "math_value (ColumnRefNode t c) \<rho> = \<rho> c"
| "math_value (BinaryExprNode op l (Some r)) \<rho> =
     (case op of OP_PLUS \<Rightarrow> math_value l \<rho> + math_value r \<rho> | OP_MINUS \<Rightarrow> math_value l \<rho> - math_value r \<rho>
      | OP_MULTIPLY \<Rightarrow> math_value l \<rho> * math_value r \<rho> | _ \<Rightarrow> 0)"
| "math_value _ \<rho> = 0"

fun integer_expr :: "ASTNode \<Rightarrow> bool" where
  "integer_expr (LiteralNode v) \<longleftrightarrow> (\<exists>w. v = Value_int w)"
| "integer_expr (ColumnRefNode t c) \<longleftrightarrow> True"
| "integer_expr (BinaryExprNode op l (Some r)) \<longleftrightarrow> op \<in> {OP_PLUS, OP_MINUS, OP_MULTIPLY} \<and> integer_expr l \<and> integer_expr r"
| "integer_expr _ \<longleftrightarrow> False"

fun subexpressions :: "ASTNode \<Rightarrow> ASTNode set" where
  "subexpressions (BinaryExprNode op l (Some r)) = insert (BinaryExprNode op l (Some r)) (subexpressions l \<union> subexpressions r)"
| "subexpressions e = {e}"

fun columns_in :: "ASTNode \<Rightarrow> string set" where
  "columns_in (ColumnRefNode t c) = {c}"
| "columns_in (BinaryExprNode op l (Some r)) = columns_in l \<union> columns_in r"
| "columns_in _ = {}"

definition int32 :: "int \<Rightarrow> bool" where
  "int32 i \<longleftrightarrow> - (2 ^ 31) \<le> i \<and> i < 2 ^ 31"

lemma int_val_of_int [simp]: "int_val (Value_int w) = w"
  unfolding int_val_def Value_int_def by (rule bit_word_eqI) (simp add: bit_simps)

lemma sint_of_int32: "int32 i \<Longrightarrow> sint (word_of_int i :: 32 word) = i"
  using signed_take_bit_int_eq_self [of 31 i] by (simp add: signed_of_int int32_def)

lemma read_int_int [simp]: "read_int (Value_int w) = Finished (sint w)"
  by (simp add: read_int_def) (simp add: Value_int_def)

lemma int_result_int32: "int_result i = (if int32 i then Finished (Value_int (word_of_int i)) else Undef)"
  by (simp add: int_result_def int32_def)

lemma self_subexpression: "e \<in> subexpressions e"
  by (cases e rule: subexpressions.cases) simp_all

lemma evaluate_arith:
  assumes "integer_expr e" and "\<forall>c \<in> columns_in e. \<rho> c = sint w"
  shows "evaluateExpression e (Value_int w # row) =
    (if \<forall>d \<in> subexpressions e. int32 (math_value d \<rho>) then Finished (Value_int (word_of_int (math_value e \<rho>))) else Undef)"
  using assms
proof (induction e rule: integer_expr.induct)
  case (1 v)
  then show ?case using sint_ge [of "int_val v"] sint_lt [of "int_val v"] by (auto simp: int32_def)
next
  case (2 t c)
  then show ?case using sint_ge [of w] sint_lt [of w] by (auto simp: int32_def)
next
  case (3 op l r)
  then have op: "op \<in> {OP_PLUS, OP_MINUS, OP_MULTIPLY}" by simp
  let ?fit = "\<lambda>e. \<forall>d \<in> subexpressions e. int32 (math_value d \<rho>)"
  have il: "evaluateExpression l (Value_int w # row) = (if ?fit l then Finished (Value_int (word_of_int (math_value l \<rho>))) else Undef)"
    and ir: "evaluateExpression r (Value_int w # row) = (if ?fit r then Finished (Value_int (word_of_int (math_value r \<rho>))) else Undef)"
    using 3 by auto
  show ?case
  proof (cases "?fit l \<and> ?fit r")
    case True
    then have "int32 (math_value l \<rho>)" "int32 (math_value r \<rho>)" using self_subexpression by blast+
    with op True il ir show ?thesis by (auto simp: binary_value_def on_ints_def sint_of_int32 int_result_int32)
  next
    case False
    then have "\<not> ?fit (BinaryExprNode op l (Some r))" by auto
    moreover have "evaluateExpression (BinaryExprNode op l (Some r)) (Value_int w # row) = Undef"
    proof (cases "?fit l")
      case True
      with False have "\<not> ?fit r" by blast
      then have "evaluateExpression r (Value_int w # row) = Undef" using ir by (simp only: if_False)
      moreover have "\<exists>a. evaluateExpression l (Value_int w # row) = Finished a" using True il by simp
      ultimately show ?thesis by auto
    next
      case False
      then have "evaluateExpression l (Value_int w # row) = Undef" using il by (simp only: if_False)
      then show ?thesis by simp
    qed
    ultimately show ?thesis by (simp only: if_False)
  qed
qed simp_all

text \<open>
  C39: integer arithmetic. On a row whose first value is an integer, an expression of integer
  literals, columns and the operators plus, minus and times, whose columns all stand for that
  first value, evaluates to its value over the integers when the value of every part fits into 32
  bits, and is undefined when that of some part does not. (The evaluator reads the first value for
  every column; an expression with another column is not covered.)
\<close>

theorem evaluateExpression_arith:
  assumes "integer_expr e" and "\<forall>c \<in> columns_in e. \<rho> c = sint w"
  shows "evaluateExpression e (Value_int w # row) =
    (if \<forall>d \<in> subexpressions e. int32 (math_value d \<rho>) then Finished (Value_int (word_of_int (math_value e \<rho>))) else Undef)"
  using assms by (rule evaluate_arith)

theorem evaluateExpression_arith_witness:
  "evaluateExpression (BinaryExprNode OP_PLUS (ColumnRefNode [] ''b'') (Some (LiteralNode (Value_int 2)))) [Value_int 40] =
   Finished (Value_int 42)"
proof -
  let ?e = "BinaryExprNode OP_PLUS (ColumnRefNode [] ''b'') (Some (LiteralNode (Value_int 2)))"
  have "integer_expr ?e" by auto
  then show ?thesis using evaluateExpression_arith [of ?e "\<lambda>_. 40" 40 "[]"] by (simp add: int32_def)
qed

section \<open>Row sources\<close>

text \<open>A child that hands out a finite list of rows.\<close>

locale list_source =
  fixes C :: "'c ExecutorOperator" and Y :: "'c \<Rightarrow> row list \<Rightarrow> bool"
  assumes next_row: "Y c (x # xs) \<Longrightarrow> \<exists>c'. op_next C c r = Finished (OK, x, c') \<and> Y c' xs"
    and next_end: "Y c [] \<Longrightarrow> \<exists>c'. op_next C c r = Finished (NOT_FOUND, r, c') \<and> Y c' []"
begin

lemma load_rows_all:
  "Y c rs \<Longrightarrow> list_all ok rs \<Longrightarrow> \<exists>c'. load_rows (op_next C) ok c r acc = Some (Finished (acc @ rs, c')) \<and> Y c' []"
proof (induction rs arbitrary: c r acc)
  case Nil
  then obtain c' where "op_next C c r = Finished (NOT_FOUND, r, c')" "Y c' []" using next_end by blast
  then show ?case by (simp add: load_rows.simps [of _ _ c])
next
  case (Cons x rs)
  then obtain c' where "op_next C c r = Finished (OK, x, c')" "Y c' rs" using next_row by blast
  with Cons.IH [of c' x "acc @ [x]"] Cons.prems(2) show ?case by (simp add: load_rows.simps [of _ _ c])
qed

lemma fetch_loop_all:
  "Y c rs \<Longrightarrow> m \<le> 0 \<Longrightarrow> \<exists>c'. fetch_loop (op_next C) m (\<lambda>_. False) c r acc = Some (Finished (acc @ rs, c'))"
proof (induction rs arbitrary: c r acc)
  case Nil
  then obtain c' where "op_next C c r = Finished (NOT_FOUND, r, c')" using next_end by blast
  then show ?case by (simp add: fetch_loop.simps [of _ _ _ c])
next
  case (Cons x rs)
  then obtain c' where "op_next C c r = Finished (OK, x, c')" "Y c' rs" using next_row by blast
  with Cons.IH [of c' x "acc @ [x]"] Cons.prems(2) show ?case by (simp add: fetch_loop.simps [of _ _ _ c])
qed

lemma run_plan_all:
  assumes "op_open C root = Finished (OK, c)" and "Y c rs" and "m \<le> 0"
  shows "run_plan C m (\<lambda>_. False) root [] = Finished (OK, rs)"
  using fetch_loop_all [OF assms(2,3), of "[]" "[]"] assms(1) by (auto simp: run_plan_def returned_def)

end

text \<open>A child that hands out a sequence of rows, which may have no end.\<close>

locale row_source =
  fixes C :: "'c ExecutorOperator" and out :: "'c \<Rightarrow> nat \<Rightarrow> row option" and inv :: "'c \<Rightarrow> bool"
  assumes row: "inv c \<Longrightarrow> out c 0 = Some x \<Longrightarrow>
      \<exists>c'. op_next C c r = Finished (OK, x, c') \<and> inv c' \<and> (\<forall>n. out c' n = out c (Suc n))"
    and eof: "inv c \<Longrightarrow> out c 0 = None \<Longrightarrow>
      \<exists>c'. op_next C c r = Finished (NOT_FOUND, r, c') \<and> inv c' \<and> (\<forall>n. out c' n = None)"
begin

definition yields :: "'c \<Rightarrow> row list \<Rightarrow> bool" where
  "yields c rs \<longleftrightarrow> inv c \<and> (\<forall>n. out c n = (if n < length rs then Some (rs ! n) else None))"

definition endless :: "'c \<Rightarrow> bool" where
  "endless c \<longleftrightarrow> inv c \<and> (\<forall>n. out c n \<noteq> None)"

lemma yields_source: "list_source C yields"
proof
  fix c x xs r assume y: "yields c (x # xs)"
  then have "inv c" "out c 0 = Some x" by (simp_all add: yields_def)
  from row [OF this, of r] obtain c' where "op_next C c r = Finished (OK, x, c')" "inv c'" "\<forall>n. out c' n = out c (Suc n)" by blast
  with y show "\<exists>c'. op_next C c r = Finished (OK, x, c') \<and> yields c' xs" by (auto simp: yields_def)
next
  fix c r assume "yields c []"
  then show "\<exists>c'. op_next C c r = Finished (NOT_FOUND, r, c') \<and> yields c' []" using eof [of c r] by (auto simp: yields_def)
qed

lemma endless_next:
  assumes "endless c"
  shows "\<exists>x c'. op_next C c r = Finished (OK, x, c') \<and> endless c'"
proof -
  obtain x where "out c 0 = Some x" using assms by (auto simp: endless_def)
  then show ?thesis using row [of c x r] assms by (auto simp: endless_def)
qed

lemma load_rows_endless:
  assumes "endless c" and "\<forall>x. ok x"
  shows "load_rows (op_next C) ok c r acc = None"
proof -
  have "\<not> endless c" if "load_rows nxt p c r acc = Some y" "nxt = op_next C" "p = ok" for y nxt p
    using that
  proof (induction rule: load_rows.raw_induct [rotated, consumes 1, case_names step])
    case (step f nxt p c r acc y)
    then show ?case using endless_next [of c r] assms(2) by (fastforce split: outcome.splits prod.splits)
  qed
  with assms show ?thesis by (cases "load_rows (op_next C) ok c r acc") auto
qed

text \<open>The loop of a query ends with the rows, or with the first expired test of the timeout.\<close>

lemma fetch_loop_same:
  assumes "inv c" and "\<forall>j < k. out c j = Some x" and "\<forall>j. 0 < j \<and> j < k \<longrightarrow> \<not> expired (length acc + j)"
    and "0 < k \<and> expired (length acc + k) \<or> out c k = None" and "m \<le> 0"
  shows "\<exists>c'. fetch_loop (op_next C) m expired c r acc = Some (Finished (acc @ replicate k x, c'))"
  using assms
proof (induction k arbitrary: c r acc)
  case 0
  then obtain c' where "op_next C c r = Finished (NOT_FOUND, r, c')" using eof [of c r] by auto
  then show ?case by (simp add: fetch_loop.simps [of _ _ _ c])
next
  case (Suc k)
  then have "out c 0 = Some x" by simp
  from row [OF Suc.prems(1) this, of r] obtain c' where
    c: "op_next C c r = Finished (OK, x, c')" "inv c'" "\<forall>n. out c' n = out c (Suc n)" by blast
  show ?case
  proof (cases "expired (Suc (length acc))")
    case True
    then have "k = 0" using Suc.prems(3) [rule_format, of 1] by (cases k) auto
    with True c(1) Suc.prems(5) show ?thesis by (simp add: fetch_loop.simps [of _ _ _ c])
  next
    case False
    have "\<exists>c''. fetch_loop (op_next C) m expired c' x (acc @ [x]) = Some (Finished ((acc @ [x]) @ replicate k x, c''))"
    proof (rule Suc.IH)
      show "\<forall>j < k. out c' j = Some x" using Suc.prems(2) c(3) by auto
      show "\<forall>j. 0 < j \<and> j < k \<longrightarrow> \<not> expired (length (acc @ [x]) + j)" using Suc.prems(3) [rule_format, of "Suc _"] by auto
      show "0 < k \<and> expired (length (acc @ [x]) + k) \<or> out c' k = None" using Suc.prems(4) c(3) False by (cases k) auto
    qed (use c Suc.prems in auto)
    with False c(1) Suc.prems(5) show ?thesis by (simp add: fetch_loop.simps [of _ _ _ c])
  qed
qed

lemma fetch_loop_endless:
  assumes "endless c" and "\<forall>j > length acc. \<not> expired j" and "m \<le> 0"
  shows "fetch_loop (op_next C) m expired c r acc = None"
proof -
  have "\<not> (endless c \<and> (\<forall>j > length acc. \<not> expired j))"
    if "fetch_loop nxt m' expired' c r acc = Some y" "nxt = op_next C" "m' = m" "expired' = expired" for y nxt m' expired'
    using that
  proof (induction rule: fetch_loop.raw_induct [rotated, consumes 1, case_names step])
    case (step f nxt m' expired' c r acc y)
    show ?case
    proof
      assume e: "endless c \<and> (\<forall>j > length acc. \<not> expired j)"
      then obtain x c' where c: "op_next C c r = Finished (OK, x, c')" "endless c'" using endless_next by blast
      then have "f nxt m' expired' c' x (acc @ [x]) = Some y" using step(2-) e assms(3) by (simp add: Let_def)
      from step(1) [OF this] step(3-) c(2) e show False by simp
    qed
  qed
  with assms show ?thesis by (cases "fetch_loop (op_next C) m expired c r acc") auto
qed

text \<open>The filter passes every row on; the projection replaces the values of a row by nulls.\<close>

lemma flt_next_child: "op_next (flt_operator C) o1 r =
   and_then (op_next C (flt_child o1) r) (\<lambda>(st, r, c). Finished (st, r, o1\<lparr>flt_child := c\<rparr>))"
  by (cases "op_next C (flt_child o1) r")
    (auto simp: flt_operator_def flt_next_def flt_loop.simps [of _ "flt_child o1"] flt_evaluateCondition_def returned_def)

lemma filter_source: "row_source (flt_operator C) (\<lambda>o1. out (flt_child o1)) (\<lambda>o1. inv (flt_child o1))"
proof
  fix o1 :: "'c FilterOperator" and x r assume "inv (flt_child o1)" "out (flt_child o1) 0 = Some x"
  from row [OF this, of r] show "\<exists>o2. op_next (flt_operator C) o1 r = Finished (OK, x, o2) \<and> inv (flt_child o2) \<and>
      (\<forall>n. out (flt_child o2) n = out (flt_child o1) (Suc n))"
    by (auto simp: flt_next_child)
next
  fix o1 :: "'c FilterOperator" and r assume "inv (flt_child o1)" "out (flt_child o1) 0 = None"
  from eof [OF this, of r] show "\<exists>o2. op_next (flt_operator C) o1 r = Finished (NOT_FOUND, r, o2) \<and> inv (flt_child o2) \<and>
      (\<forall>n. out (flt_child o2) n = None)"
    by (auto simp: flt_next_child)
qed

lemma project_source: "row_source (prj_operator C)
    (\<lambda>o1 n. map_option (\<lambda>_. map (\<lambda>_. Value_null) (prj_expressions o1)) (out (prj_child o1) n)) (\<lambda>o1. inv (prj_child o1))"
proof
  fix o1 :: "'c ProjectOperator" and x r assume i: "inv (prj_child o1)"
    and "map_option (\<lambda>_. map (\<lambda>_. Value_null) (prj_expressions o1)) (out (prj_child o1) 0) = Some x"
  then obtain y where y: "out (prj_child o1) 0 = Some y" "x = map (\<lambda>_. Value_null) (prj_expressions o1)" by auto
  from row [OF i y(1), of "[]"] y(2)
  show "\<exists>o2. op_next (prj_operator C) o1 r = Finished (OK, x, o2) \<and> inv (prj_child o2) \<and>
      (\<forall>n. map_option (\<lambda>_. map (\<lambda>_. Value_null) (prj_expressions o2)) (out (prj_child o2) n) =
           map_option (\<lambda>_. map (\<lambda>_. Value_null) (prj_expressions o1)) (out (prj_child o1) (Suc n)))"
    by (auto simp: prj_operator_def prj_next_def prj_evaluateExpression_def)
next
  fix o1 :: "'c ProjectOperator" and r assume i: "inv (prj_child o1)"
    and "map_option (\<lambda>_. map (\<lambda>_. Value_null) (prj_expressions o1)) (out (prj_child o1) 0) = None"
  then have "out (prj_child o1) 0 = None" by simp
  from eof [OF i this, of "[]"]
  show "\<exists>o2. op_next (prj_operator C) o1 r = Finished (NOT_FOUND, r, o2) \<and> inv (prj_child o2) \<and>
      (\<forall>n. map_option (\<lambda>_. map (\<lambda>_. Value_null) (prj_expressions o2)) (out (prj_child o2) n) = None)"
    by (auto simp: prj_operator_def prj_next_def)
qed

lemma limit_source: "row_source (lmt_operator C)
    (\<lambda>o1 n. if current_row o1 + n < limit_count o1 then out (lmt_child o1) n else None) (\<lambda>o1. inv (lmt_child o1))"
proof
  fix o1 :: "'c LimitOperator" and x r assume i: "inv (lmt_child o1)"
    and "(if current_row o1 + 0 < limit_count o1 then out (lmt_child o1) 0 else None) = Some x"
  then have "current_row o1 < limit_count o1" "out (lmt_child o1) 0 = Some x" by (auto split: if_splits)
  with row [OF i this(2), of r]
  show "\<exists>o2. op_next (lmt_operator C) o1 r = Finished (OK, x, o2) \<and> inv (lmt_child o2) \<and>
      (\<forall>n. (if current_row o2 + n < limit_count o2 then out (lmt_child o2) n else None) =
           (if current_row o1 + Suc n < limit_count o1 then out (lmt_child o1) (Suc n) else None))"
    by (auto simp: lmt_operator_def lmt_next_def)
next
  fix o1 :: "'c LimitOperator" and r assume i: "inv (lmt_child o1)"
    and n: "(if current_row o1 + 0 < limit_count o1 then out (lmt_child o1) 0 else None) = None"
  show "\<exists>o2. op_next (lmt_operator C) o1 r = Finished (NOT_FOUND, r, o2) \<and> inv (lmt_child o2) \<and>
      (\<forall>n. (if current_row o2 + n < limit_count o2 then out (lmt_child o2) n else None) = None)"
  proof (cases "current_row o1 < limit_count o1")
    case True
    with n have "out (lmt_child o1) 0 = None" by simp
    from eof [OF i this, of r] True show ?thesis by (auto simp: lmt_operator_def lmt_next_def)
  qed (use i in \<open>auto simp: lmt_operator_def lmt_next_def\<close>)
qed

end

section \<open>The sources of the plans\<close>

text \<open>
  The iterator of a sequential scan stands on page 0 without a page object, then past the end, but
  with a slot that is not the slot of the end.
\<close>

definition scan_inv :: "SeqScanOperator \<Rightarrow> bool" where
  "scan_inv o1 \<longleftrightarrow> it_table (seq_iterator o1) = None \<and> it_page (seq_iterator o1) = None \<and>
     (it_page_id (seq_iterator o1) = 0 \<and> it_slot (seq_iterator o1) = 0 \<or>
      it_page_id (seq_iterator o1) = INVALID_PAGE_ID \<and> it_slot (seq_iterator o1) = 1)"

lemma page_0_valid [simp]: "INVALID_PAGE_ID \<noteq> (0 :: u64)" "(0 :: u64) \<noteq> INVALID_PAGE_ID"
  by (simp_all add: INVALID_PAGE_ID_def)

lemma scan_step:
  assumes "scan_inv o1"
  shows "\<exists>o2. seq_next env bp o1 r = Finished (OK, [], o2) \<and> scan_inv o2"
proof -
  have ne: "\<not> iterator_eq (seq_iterator o1) TableIterator_default"
    using assms by (auto simp: scan_inv_def iterator_eq_def TableIterator_default_def)
  have v: "iterator_value (seq_iterator o1) bp = Some (getRecordId (seq_iterator o1), [])"
    using assms by (simp add: iterator_value_def scan_inv_def)
  obtain it where it: "iterator_next env (seq_iterator o1) bp = Some (it, bp)" "scan_inv (o1\<lparr>seq_iterator := it\<rparr>)"
    using assms by (cases "it_page_id (seq_iterator o1) = 0")
      (auto simp: scan_inv_def iterator_next_def advanceToNextValid.simps page_at_def)
  show ?thesis using ne v it by (simp add: seq_next_def seq_loop.simps [of _ _ o1] returned_def seq_evaluateFilter_def)
qed

interpretation scan: row_source "seq_operator env bp cat" "\<lambda>o1 n. Some []" scan_inv for env bp cat
  using scan_step by unfold_locales (auto simp: seq_operator_def)

interpretation sorted: row_source "srt_operator std_sort C"
  "\<lambda>o1 n. if current_index o1 + n < length (sorted_rows o1) then Some (sorted_rows o1 ! (current_index o1 + n)) else None" "\<lambda>o1. True"
  for std_sort C
  by unfold_locales (auto simp: srt_operator_def srt_next_def split: if_splits)

interpretation sorted_list: list_source "srt_operator std_sort C" "sorted.yields" for std_sort C
  by (rule sorted.yields_source)

lemma scan_endless: "scan_inv o1 \<Longrightarrow> scan.endless o1"
  by (simp add: scan.endless_def)

end
