(* ===== verification/Optimizer.thy ===== *)
theory Optimizer
  imports Ast Catalog
begin

text \<open>
  \<^verbatim>\<open>engine/optimizer.h\<close> and \<^verbatim>\<open>engine/optimizer.cpp\<close>: the plan of a query, the cost of
  a plan, and its textual form. The arithmetic of \<^verbatim>\<open>double\<close> is an argument of the
  definitions: \<open>lit n d\<close> is the double that the literal \<open>n / d\<close> denotes. So is
  \<open>dv\<close>, the member \<^verbatim>\<open>estimateDistinctValues\<close>, which is declared but has no
  definition. \<^verbatim>\<open>clone\<close>, which the syntax tree does not declare, is a copy. Of the fields
  of a plan node those that nothing reads or sets (cost, description, output columns) are left out.
\<close>

section \<open>Costs\<close>

record 'd Doubles =
  lit :: "nat \<Rightarrow> nat \<Rightarrow> 'd"
  of_size :: "nat \<Rightarrow> 'd"
  to_size :: "'d \<Rightarrow> nat"
  dadd :: "'d \<Rightarrow> 'd \<Rightarrow> 'd"
  dsub :: "'d \<Rightarrow> 'd \<Rightarrow> 'd"
  dmul :: "'d \<Rightarrow> 'd \<Rightarrow> 'd"
  ddiv :: "'d \<Rightarrow> 'd \<Rightarrow> 'd"
  dlog :: "'d \<Rightarrow> 'd"
  dless :: "'d \<Rightarrow> 'd \<Rightarrow> bool"
  fixed2 :: "'d \<Rightarrow> string"

record 'd Cost =
  cpu_cost :: 'd
  io_cost :: 'd
  network_cost :: 'd
  total_cost :: 'd
  estimated_rows :: nat

definition Cost_new :: "'d Doubles \<Rightarrow> 'd Cost" where
  "Cost_new F = \<lparr>cpu_cost = lit F 0 1, io_cost = lit F 0 1, network_cost = lit F 0 1, total_cost = lit F 0 1, estimated_rows = 0\<rparr>"

text \<open>Row numbers are \<^verbatim>\<open>size_t\<close>: a product wraps.\<close>

definition size_mult :: "nat \<Rightarrow> nat \<Rightarrow> nat" where
  "size_mult a b = (a * b) mod 2 ^ 64"

definition Cost_plus :: "'d Doubles \<Rightarrow> 'd Cost \<Rightarrow> 'd Cost \<Rightarrow> 'd Cost" where
  "Cost_plus F a b = \<lparr>cpu_cost = dadd F (cpu_cost a) (cpu_cost b), io_cost = dadd F (io_cost a) (io_cost b),
     network_cost = dadd F (network_cost a) (network_cost b), total_cost = dadd F (total_cost a) (total_cost b),
     estimated_rows = (estimated_rows a + estimated_rows b) mod 2 ^ 64\<rparr>"

section \<open>Plans\<close>

datatype OperatorType =
    SEQ_SCAN | INDEX_SCAN | FILTER | PROJECT | JOIN | AGGREGATE | SORT | LIMIT | HASH_JOIN |
    NESTED_LOOP_JOIN | MERGE_JOIN | UNION | INTERSECT | EXCEPT

datatype PlanNode =
  PlanNode (pn_type: OperatorType) (pn_left: "PlanNode option") (pn_right: "PlanNode option")
    (pn_children: "PlanNode list") (pn_table: string) (pn_index: string) (pn_filter: "ASTNode option")
    (pn_order_by: "(string \<times> bool) list") (pn_limit: nat)

definition PlanNode_new :: "OperatorType \<Rightarrow> PlanNode" where
  "PlanNode_new t = PlanNode t None None [] [] [] None [] 0"

record 'd ExecutionPlan =
  plan_root :: "PlanNode option"
  plan_cost :: "'d Cost"

record TableStatistics =
  row_count :: nat
  page_count :: nat
  distinct_values :: "(string \<times> nat) list"

definition TableStatistics_new :: TableStatistics where
  "TableStatistics_new = \<lparr>row_count = 0, page_count = 0, distinct_values = []\<rparr>"

type_synonym statistics_map = "(string \<times> TableStatistics) list"

text \<open>\<^verbatim>\<open>statistics_[table]\<close> of a table without an entry is the default value.\<close>

definition stats_of :: "statistics_map \<Rightarrow> string \<Rightarrow> TableStatistics" where
  "stats_of S t = (case map_of S t of Some s \<Rightarrow> s | None \<Rightarrow> TableStatistics_new)"

section \<open>Estimates\<close>

definition INDEX_SELECTIVITY_THRESHOLD :: "'d Doubles \<Rightarrow> 'd" where
  "INDEX_SELECTIVITY_THRESHOLD F = lit F 2 10"

fun estimateSelectivity :: "'d Doubles \<Rightarrow> (TableStatistics \<Rightarrow> string \<Rightarrow> nat) \<Rightarrow> TableStatistics \<Rightarrow> ASTNode \<Rightarrow> 'd" where
  "estimateSelectivity F dv stats (BinaryExprNode op l r) =
     (let r_sel = (case r of None \<Rightarrow> lit F 1 1 | Some e \<Rightarrow> estimateSelectivity F dv stats e) in
      if op = OP_EQ
      then (case l of ColumnRefNode t c \<Rightarrow>
              if dv stats c > 0 then ddiv F (lit F 1 1) (of_size F (dv stats c)) else lit F 1 10
            | _ \<Rightarrow> lit F 1 10)
      else if op = OP_LIKE then lit F 5 100
      else if op = OP_AND then dmul F (estimateSelectivity F dv stats l) r_sel
      else if op = OP_OR
      then (let l_sel = estimateSelectivity F dv stats l in dsub F (dadd F l_sel r_sel) (dmul F l_sel r_sel))
      else if op \<in> {OP_LT, OP_LE, OP_GT, OP_GE} then lit F 3 10
      else lit F 5 10)"
| "estimateSelectivity F dv stats _ = lit F 5 10"

definition node_selectivity :: "'d Doubles \<Rightarrow> (TableStatistics \<Rightarrow> string \<Rightarrow> nat) \<Rightarrow> statistics_map \<Rightarrow> PlanNode \<Rightarrow> 'd" where
  "node_selectivity F dv S n =
     (case pn_filter n of None \<Rightarrow> lit F 1 1
      | Some e \<Rightarrow> estimateSelectivity F dv (stats_of S (pn_table n)) e)"

text \<open>The cost of one operator, given the costs of its two children.\<close>

definition operator_cost :: "'d Doubles \<Rightarrow> (TableStatistics \<Rightarrow> string \<Rightarrow> nat) \<Rightarrow> statistics_map \<Rightarrow> PlanNode \<Rightarrow>
    'd Cost \<Rightarrow> 'd Cost \<Rightarrow> 'd Cost" where
  "operator_cost F dv S n lc rc =
     (let cost = Cost_new F; stats = stats_of S (pn_table n); sel = node_selectivity F dv S n;
          l_rows = of_size F (estimated_rows lc); r_rows = of_size F (estimated_rows rc);
          product = size_mult (estimated_rows lc) (estimated_rows rc) in
      case pn_type n of
        SEQ_SCAN \<Rightarrow> cost\<lparr>estimated_rows := row_count stats,
          io_cost := dmul F (of_size F (page_count stats)) (lit F 1 1),
          cpu_cost := dmul F (of_size F (row_count stats)) (lit F 1 100)\<rparr>
      | INDEX_SCAN \<Rightarrow> cost\<lparr>estimated_rows := to_size F (dmul F (of_size F (row_count stats)) sel),
          io_cost := dmul F (dmul F (of_size F (page_count stats)) sel) (lit F 1 10),
          cpu_cost := dmul F (dmul F (of_size F (row_count stats)) sel) (lit F 5 100)\<rparr>
      | FILTER \<Rightarrow> cost\<lparr>estimated_rows := to_size F (dmul F l_rows sel), io_cost := io_cost lc,
          cpu_cost := dadd F (cpu_cost lc) (dmul F l_rows (lit F 1 100))\<rparr>
      | JOIN \<Rightarrow> cost
      | NESTED_LOOP_JOIN \<Rightarrow> cost\<lparr>estimated_rows := product,
          io_cost := dadd F (io_cost lc) (dmul F l_rows (io_cost rc)),
          cpu_cost := dadd F (cpu_cost lc) (dmul F l_rows (cpu_cost rc))\<rparr>
      | HASH_JOIN \<Rightarrow> cost\<lparr>estimated_rows := product, io_cost := dadd F (io_cost lc) (io_cost rc),
          cpu_cost := dadd F (dadd F (cpu_cost lc) (cpu_cost rc)) (dmul F l_rows (lit F 1 10))\<rparr>
      | MERGE_JOIN \<Rightarrow> cost\<lparr>estimated_rows := product, io_cost := dadd F (io_cost lc) (io_cost rc),
          cpu_cost := dadd F (dadd F (cpu_cost lc) (cpu_cost rc))
            (dmul F (of_size F ((estimated_rows lc + estimated_rows rc) mod 2 ^ 64)) (lit F 5 100))\<rparr>
      | SORT \<Rightarrow> cost\<lparr>estimated_rows := estimated_rows lc, io_cost := dmul F (io_cost lc) (lit F 2 1),
          cpu_cost := dadd F (cpu_cost lc) (dmul F (dmul F l_rows (dlog F l_rows)) (lit F 1 100))\<rparr>
      | LIMIT \<Rightarrow>
          (let rows = min (estimated_rows lc) (pn_limit n); ratio = ddiv F (of_size F rows) l_rows in
           cost\<lparr>estimated_rows := rows, io_cost := dmul F (io_cost lc) ratio, cpu_cost := dmul F (cpu_cost lc) ratio\<rparr>)
      | _ \<Rightarrow> lc)"

definition with_total :: "'d Doubles \<Rightarrow> 'd Cost \<Rightarrow> 'd Cost" where
  "with_total F c = c\<lparr>total_cost := dadd F (dmul F (io_cost c) (lit F 10 1)) (cpu_cost c)\<rparr>"

fun estimate_node :: "'d Doubles \<Rightarrow> (TableStatistics \<Rightarrow> string \<Rightarrow> nat) \<Rightarrow> statistics_map \<Rightarrow> PlanNode \<Rightarrow> 'd Cost" where
  "estimate_node F dv S (PlanNode ty l r cs t i flt ob lim) =
     (let lc = (case l of None \<Rightarrow> Cost_new F | Some n \<Rightarrow> estimate_node F dv S n);
          rc = (case r of None \<Rightarrow> Cost_new F | Some n \<Rightarrow> estimate_node F dv S n)
      in with_total F (operator_cost F dv S (PlanNode ty l r cs t i flt ob lim) lc rc))"

definition estimateCost :: "'d Doubles \<Rightarrow> (TableStatistics \<Rightarrow> string \<Rightarrow> nat) \<Rightarrow> statistics_map \<Rightarrow> PlanNode option \<Rightarrow> 'd Cost" where
  "estimateCost F dv S n = (case n of None \<Rightarrow> Cost_new F | Some n \<Rightarrow> estimate_node F dv S n)"

section \<open>Choice of an index\<close>

definition shouldUseIndex :: "'d Doubles \<Rightarrow> (TableStatistics \<Rightarrow> string \<Rightarrow> nat) \<Rightarrow> statistics_map \<Rightarrow> string \<Rightarrow> string \<Rightarrow> ASTNode \<Rightarrow> bool" where
  "shouldUseIndex F dv S table column cond =
     dless F (estimateSelectivity F dv (stats_of S table) cond) (INDEX_SELECTIVITY_THRESHOLD F)"

fun containsColumn :: "ASTNode \<Rightarrow> string \<Rightarrow> bool" where
  "containsColumn (ColumnRefNode t c) col = (c = col)"
| "containsColumn (BinaryExprNode op l r) col =
     (containsColumn l col \<or> (case r of None \<Rightarrow> False | Some e \<Rightarrow> containsColumn e col))"
| "containsColumn _ col = False"

definition findUsableIndexes :: "Catalog \<Rightarrow> string \<Rightarrow> ASTNode \<Rightarrow> string list outcome" where
  "findUsableIndexes cat table cond =
     and_then (getTable table cat) (\<lambda>(schema, _).
       Finished (case schema of None \<Rightarrow> []
         | Some s \<Rightarrow> map fst (filter (\<lambda>(col, i). containsColumn cond col) (indexes s))))"

section \<open>Statistics\<close>

definition updateStatistics :: "Catalog \<Rightarrow> string \<Rightarrow> statistics_map \<Rightarrow> statistics_map outcome" where
  "updateStatistics cat table S =
     and_then (getTable table cat) (\<lambda>(schema, _).
       Finished (case schema of None \<Rightarrow> S
         | Some s \<Rightarrow> AList.update table
             \<lparr>row_count = 10000, page_count = 100,
              distinct_values = fold (\<lambda>c m. AList.update (col_name c) 100 m) (columns s) []\<rparr> S))"

fun update_all :: "Catalog \<Rightarrow> string list \<Rightarrow> statistics_map \<Rightarrow> statistics_map outcome" where
  "update_all cat [] S = Finished S"
| "update_all cat (t # ts) S = and_then (updateStatistics cat t S) (update_all cat ts)"

text \<open>
  The constructor takes the list of all tables apart into names and schemas, which the type of that
  list does not allow; it is read as the names the catalog has.
\<close>

definition QueryOptimizer_new :: "Catalog \<Rightarrow> statistics_map outcome" where
  "QueryOptimizer_new cat = and_then (listTables cat) (\<lambda>(names, _). update_all cat names [])"

section \<open>Optimization\<close>

record 'd OptimizationRule =
  rule_name :: string
  rule_enabled :: bool
  rule_apply :: "SelectNode \<Rightarrow> 'd ExecutionPlan option"

definition applyRule_IndexScan :: "SelectNode \<Rightarrow> 'd ExecutionPlan option" where
  "applyRule_IndexScan q = None"

definition applyRule_JoinReordering :: "SelectNode \<Rightarrow> 'd ExecutionPlan option" where
  "applyRule_JoinReordering q = None"

definition applyRule_PredicatePushdown :: "SelectNode \<Rightarrow> 'd ExecutionPlan option" where
  "applyRule_PredicatePushdown q = None"

definition applyRule_ProjectionPushdown :: "SelectNode \<Rightarrow> 'd ExecutionPlan option" where
  "applyRule_ProjectionPushdown q = None"

definition applyRule_SubqueryUnnesting :: "SelectNode \<Rightarrow> 'd ExecutionPlan option" where
  "applyRule_SubqueryUnnesting q = None"

definition applyRule_ViewMerging :: "SelectNode \<Rightarrow> 'd ExecutionPlan option" where
  "applyRule_ViewMerging q = None"

definition rule :: "string \<Rightarrow> (SelectNode \<Rightarrow> 'd ExecutionPlan option) \<Rightarrow> 'd OptimizationRule" where
  "rule n f = \<lparr>rule_name = n, rule_enabled = True, rule_apply = f\<rparr>"

definition initializeRules :: "'d OptimizationRule list" where
  "initializeRules =
     [rule ''index_scan'' applyRule_IndexScan, rule ''join_reordering'' applyRule_JoinReordering,
      rule ''predicate_pushdown'' applyRule_PredicatePushdown,
      rule ''projection_pushdown'' applyRule_ProjectionPushdown,
      rule ''subquery_unnesting'' applyRule_SubqueryUnnesting, rule ''view_merging'' applyRule_ViewMerging]"

definition scan_node :: "string \<Rightarrow> ASTNode option \<Rightarrow> PlanNode" where
  "scan_node t flt = PlanNode SEQ_SCAN None None [] t [] flt [] 0"

text \<open>The source of the first table; the other tables of the list are not looked at.\<close>

definition choose_source :: "'d Doubles \<Rightarrow> (TableStatistics \<Rightarrow> string \<Rightarrow> nat) \<Rightarrow> statistics_map \<Rightarrow> Catalog \<Rightarrow> string \<Rightarrow>
    ASTNode option \<Rightarrow> PlanNode outcome" where
  "choose_source F dv S cat table where_clause =
     (case where_clause of None \<Rightarrow> Finished (scan_node table None)
      | Some cond \<Rightarrow> and_then (findUsableIndexes cat table cond) (\<lambda>idx.
          Finished (if idx \<noteq> [] \<and> shouldUseIndex F dv S table (hd idx) cond
            then PlanNode INDEX_SCAN None None [] table (hd idx) (Some cond) [] 0
            else scan_node table (Some cond))))"

definition plan_joins :: "JoinClause list \<Rightarrow> PlanNode option \<Rightarrow> PlanNode option" where
  "plan_joins js src = fold (\<lambda>_ left. Some (PlanNode JOIN left None [] [] [] None [] 0)) js src"

definition plan_sort :: "(ASTNode \<times> bool) list option \<Rightarrow> PlanNode \<Rightarrow> PlanNode" where
  "plan_sort ob n = (case ob of None \<Rightarrow> n
     | Some items \<Rightarrow> PlanNode SORT (Some n) None [] [] [] None (map (\<lambda>(e, asc). ([], asc)) items) 0)"

definition plan_limit :: "LimitNode option \<Rightarrow> PlanNode \<Rightarrow> PlanNode" where
  "plan_limit l n = (case l of None \<Rightarrow> n
     | Some l \<Rightarrow> if lim_limit l > 0 then PlanNode LIMIT (Some n) None [] [] [] None [] (nat (lim_limit l)) else n)"

definition logicalOptimization :: "'d Doubles \<Rightarrow> (TableStatistics \<Rightarrow> string \<Rightarrow> nat) \<Rightarrow> statistics_map \<Rightarrow> Catalog \<Rightarrow>
    SelectNode \<Rightarrow> 'd ExecutionPlan outcome" where
  "logicalOptimization F dv S cat q =
     and_then (case from_tables q of [] \<Rightarrow> Finished None
       | TableRef table alias sub # _ \<Rightarrow>
           and_then (choose_source F dv S cat table (sel_where q)) (\<lambda>n. Finished (Some n))) (\<lambda>src.
     let project = PlanNode PROJECT (plan_joins (sel_joins q) src) None [] [] [] None [] 0;
         root = plan_limit (sel_limit q) (plan_sort (order_by q) project)
     in Finished \<lparr>plan_root = Some root, plan_cost = estimateCost F dv S (Some root)\<rparr>)"

text \<open>The algorithm of a join is chosen before its children are converted.\<close>

definition join_algorithm :: "'d Cost \<Rightarrow> 'd Cost \<Rightarrow> OperatorType" where
  "join_algorithm lc rc =
     (if estimated_rows lc < 100 \<or> estimated_rows rc < 100 then NESTED_LOOP_JOIN
      else if size_mult (estimated_rows lc) (estimated_rows rc) < 1000000 then HASH_JOIN else MERGE_JOIN)"

fun convert :: "'d Doubles \<Rightarrow> (TableStatistics \<Rightarrow> string \<Rightarrow> nat) \<Rightarrow> statistics_map \<Rightarrow> PlanNode \<Rightarrow> PlanNode" where
  "convert F dv S (PlanNode ty l r cs t i flt ob lim) =
     PlanNode (if ty = JOIN then join_algorithm (estimateCost F dv S l) (estimateCost F dv S r) else ty)
       (map_option (convert F dv S) l) (map_option (convert F dv S) r) (map (convert F dv S) cs) t i flt ob lim"

definition physicalOptimization :: "'d Doubles \<Rightarrow> (TableStatistics \<Rightarrow> string \<Rightarrow> nat) \<Rightarrow> statistics_map \<Rightarrow>
    'd ExecutionPlan \<Rightarrow> 'd ExecutionPlan" where
  "physicalOptimization F dv S p = p\<lparr>plan_root := map_option (convert F dv S) (plan_root p)\<rparr>"

definition generateAlternatives :: "SelectNode option \<Rightarrow> 'd ExecutionPlan list" where
  "generateAlternatives q = []"

definition costBasedOptimization :: "'d Doubles \<Rightarrow> (TableStatistics \<Rightarrow> string \<Rightarrow> nat) \<Rightarrow> statistics_map \<Rightarrow>
    'd ExecutionPlan \<Rightarrow> 'd ExecutionPlan" where
  "costBasedOptimization F dv S p =
     fold (\<lambda>alt best.
       let alt = alt\<lparr>plan_cost := estimateCost F dv S (plan_root alt)\<rparr> in
       if dless F (total_cost (plan_cost alt)) (total_cost (plan_cost best)) then alt else best)
     (generateAlternatives None) p"

definition try_rules :: "'d Doubles \<Rightarrow> SelectNode \<Rightarrow> 'd OptimizationRule list \<Rightarrow> 'd ExecutionPlan \<Rightarrow> 'd ExecutionPlan" where
  "try_rules F q rules p =
     fold (\<lambda>ru p. if \<not> rule_enabled ru then p
       else (case rule_apply ru q of None \<Rightarrow> p
         | Some alt \<Rightarrow> if dless F (total_cost (plan_cost alt)) (total_cost (plan_cost p)) then alt else p)) rules p"

datatype ExecutionMode = MODE_NORMAL | MODE_EXPLAIN | MODE_EXPLAIN_ANALYZE | MODE_PROFILE | MODE_DEBUG

text \<open>The levels \<^verbatim>\<open>O0\<close> to \<^verbatim>\<open>O3\<close> are their numbers.\<close>

definition optimize :: "'d Doubles \<Rightarrow> (TableStatistics \<Rightarrow> string \<Rightarrow> nat) \<Rightarrow> statistics_map \<Rightarrow> Catalog \<Rightarrow>
    ExecutionMode \<Rightarrow> nat \<Rightarrow> SelectNode \<Rightarrow> 'd ExecutionPlan outcome" where
  "optimize F dv S cat mode level q =
     (if mode = MODE_EXPLAIN then logicalOptimization F dv S cat q
      else and_then (logicalOptimization F dv S cat q) (\<lambda>p.
        let p = (if level \<ge> 1 then try_rules F q initializeRules p else p);
            p = physicalOptimization F dv S p
        in Finished (if level \<ge> 2 then costBasedOptimization F dv S p else p)))"

section \<open>Printing a plan\<close>

definition order_text :: "(string \<times> bool) list \<Rightarrow> string" where
  "order_text ob = concat (map (\<lambda>i. (if i > 0 then '', '' else []) @ fst (ob ! i) @ (if snd (ob ! i) then '' ASC'' else '' DESC''))
     [0..<length ob])"

definition operator_text :: "PlanNode \<Rightarrow> string" where
  "operator_text n =
     (case pn_type n of
        SEQ_SCAN \<Rightarrow> ''Seq Scan on '' @ pn_table n
      | INDEX_SCAN \<Rightarrow> ''Index Scan using '' @ pn_index n @ '' on '' @ pn_table n
      | FILTER \<Rightarrow> ''Filter'' | PROJECT \<Rightarrow> ''Project'' | JOIN \<Rightarrow> ''Join'' | HASH_JOIN \<Rightarrow> ''Hash Join''
      | NESTED_LOOP_JOIN \<Rightarrow> ''Nested Loop Join'' | MERGE_JOIN \<Rightarrow> ''Merge Join''
      | SORT \<Rightarrow> ''Sort'' @ (if pn_order_by n = [] then [] else '' ('' @ order_text (pn_order_by n) @ '')'')
      | LIMIT \<Rightarrow> ''Limit ('' @ dec_nat (pn_limit n) @ '')''
      | AGGREGATE \<Rightarrow> ''Aggregate'' | UNION \<Rightarrow> [] | INTERSECT \<Rightarrow> [] | EXCEPT \<Rightarrow> [])"

fun printNode :: "(PlanNode \<Rightarrow> string) \<Rightarrow> nat \<Rightarrow> PlanNode \<Rightarrow> string" where
  "printNode note depth (PlanNode ty l r cs t i flt ob lim) =
     replicate (depth * 2) CHR '' '' @ operator_text (PlanNode ty l r cs t i flt ob lim) @
     note (PlanNode ty l r cs t i flt ob lim) @ ''\<newline>'' @
     (case l of None \<Rightarrow> [] | Some n \<Rightarrow> printNode note (depth + 1) n) @
     (case r of None \<Rightarrow> [] | Some n \<Rightarrow> printNode note (depth + 1) n) @
     concat (map (printNode note (depth + 1)) cs)"

definition cost_note :: "'d Doubles \<Rightarrow> (TableStatistics \<Rightarrow> string \<Rightarrow> nat) \<Rightarrow> statistics_map \<Rightarrow> bool \<Rightarrow> PlanNode \<Rightarrow> string" where
  "cost_note F dv S analyze n =
     (if \<not> analyze then []
      else let cost = estimate_node F dv S n in
        ''  (cost='' @ fixed2 F (total_cost cost) @ '' rows='' @ dec_nat (estimated_rows cost) @ '')'')"

definition explainPlan :: "'d Doubles \<Rightarrow> (TableStatistics \<Rightarrow> string \<Rightarrow> nat) \<Rightarrow> statistics_map \<Rightarrow> 'd ExecutionPlan \<Rightarrow> bool \<Rightarrow> string" where
  "explainPlan F dv S p analyze =
     (case plan_root p of None \<Rightarrow> [] | Some n \<Rightarrow> printNode (cost_note F dv S analyze) 0 n) @
     (if analyze then ''\<newline>Total cost: '' @ fixed2 F (total_cost (plan_cost p)) @ ''\<newline>'' else [])"

end
