(* ===== verification/QueryExecutor.thy ===== *)
theory QueryExecutor
  imports Executor Optimizer TransactionManager ParserFacts
begin

text \<open>
  \<^verbatim>\<open>engine/query_executor.cpp\<close>: from a statement to its effect. A plan is built into a tree
  of operators and run; the other statements change the table or the catalog; each statement runs in
  a transaction of its own. A table call that does not return is counted as undefined. Counters and
  profiling are left out.

  Some calls of the file match no declaration: \<^verbatim>\<open>addModifiedPage\<close> is called without its
  number (the argument \<open>pg_lsn\<close>), and \<^verbatim>\<open>createTable\<close> and \<^verbatim>\<open>createIndex\<close> with
  other arguments than the catalog has. \<^verbatim>\<open>BTree<Value, RecordId>\<close> is not among the
  instances that \<^verbatim>\<open>index/btree.cpp\<close> compiles. The two catalog
  calls and the three operations of such a tree are arguments of the model.
\<close>

section \<open>The operators of a plan\<close>

text \<open>The objects behind the pointers to \<^verbatim>\<open>ExecutorOperator\<close>, with the fields of each class.\<close>

datatype OpNode =
    SeqNode SeqScanOperator
  | IdxNode IndexScanOperator
  | FltNode "OpNode option" "ASTNode option"
  | PrjNode "OpNode option" "ASTNode list" "string list"
  | JnNode "OpNode option" "OpNode option" "ASTNode option" JoinType JoinAlgorithm row "row list" nat "(u64 \<times> row) list"
  | SrtNode "OpNode option" "SortKey list" "row list" nat
  | LmtNode "OpNode option" nat nat nat

definition of_flt :: "OpNode option FilterOperator \<Rightarrow> OpNode" where
  "of_flt o1 = FltNode (flt_child o1) (flt_condition o1)"

definition of_prj :: "OpNode option ProjectOperator \<Rightarrow> OpNode" where
  "of_prj o1 = PrjNode (prj_child o1) (prj_expressions o1) (prj_aliases o1)"

definition of_jn :: "(OpNode option, OpNode option) JoinOperator \<Rightarrow> OpNode" where
  "of_jn j = JnNode (jn_left j) (jn_right j) (jn_condition j) (join_type j) (algorithm j) (current_left_row j)
     (right_rows j) (right_index j) (hash_table j)"

definition of_srt :: "OpNode option SortOperator \<Rightarrow> OpNode" where
  "of_srt o1 = SrtNode (srt_child o1) (srt_keys o1) (sorted_rows o1) (current_index o1)"

definition of_lmt :: "OpNode option LimitOperator \<Rightarrow> OpNode" where
  "of_lmt o1 = LmtNode (lmt_child o1) (limit_count o1) (offset_count o1) (current_row o1)"

text \<open>A virtual call: the function of the class of the object, with \<open>C\<close> for its children.\<close>

type_synonym std_sort = "(row \<Rightarrow> row \<Rightarrow> bool) \<Rightarrow> row list \<Rightarrow> row list"

record plan_env =
  pe_sort :: std_sort
  pe_env :: Env
  pe_pool :: BufferPool
  pe_catalog :: Catalog

definition keep_open :: "('o \<Rightarrow> OpNode) \<Rightarrow> (StatusCode \<times> 'o) outcome \<Rightarrow> (StatusCode \<times> OpNode option) outcome" where
  "keep_open f m = and_then m (\<lambda>(st, o1). Finished (st, Some (f o1)))"

definition keep_next :: "('o \<Rightarrow> OpNode) \<Rightarrow> (StatusCode \<times> row \<times> 'o) outcome \<Rightarrow> (StatusCode \<times> row \<times> OpNode option) outcome" where
  "keep_next f m = and_then m (\<lambda>(st, r, o1). Finished (st, r, Some (f o1)))"

definition keep_rewind :: "('o \<Rightarrow> OpNode) \<Rightarrow> 'o outcome \<Rightarrow> OpNode option outcome" where
  "keep_rewind f m = and_then m (\<lambda>o1. Finished (Some (f o1)))"

fun node_open :: "plan_env \<Rightarrow> OpNode option ExecutorOperator \<Rightarrow> OpNode option \<Rightarrow> (StatusCode \<times> OpNode option) outcome" where
  "node_open E C None = Undef"
| "node_open E C (Some (SeqNode o1)) = keep_open SeqNode (op_open (seq_operator (pe_env E) (pe_pool E) (pe_catalog E)) o1)"
| "node_open E C (Some (IdxNode o1)) = keep_open IdxNode (op_open (idx_operator (pe_catalog E)) o1)"
| "node_open E C (Some (FltNode c e)) = keep_open of_flt (op_open (flt_operator C) \<lparr>flt_child = c, flt_condition = e\<rparr>)"
| "node_open E C (Some (PrjNode c es as)) =
     keep_open of_prj (op_open (prj_operator C) \<lparr>prj_child = c, prj_expressions = es, prj_aliases = as\<rparr>)"
| "node_open E C (Some (JnNode l r e ty alg cl rr i h)) =
     keep_open of_jn (op_open (jn_operator C C) \<lparr>jn_left = l, jn_right = r, jn_condition = e, join_type = ty,
       algorithm = alg, current_left_row = cl, right_rows = rr, right_index = i, hash_table = h\<rparr>)"
| "node_open E C (Some (SrtNode c ks rs i)) =
     keep_open of_srt (op_open (srt_operator (pe_sort E) C) \<lparr>srt_child = c, srt_keys = ks, sorted_rows = rs, current_index = i\<rparr>)"
| "node_open E C (Some (LmtNode c n k i)) =
     keep_open of_lmt (op_open (lmt_operator C) \<lparr>lmt_child = c, limit_count = n, offset_count = k, current_row = i\<rparr>)"

fun node_next :: "plan_env \<Rightarrow> OpNode option ExecutorOperator \<Rightarrow> OpNode option next_fun" where
  "node_next E C None r = Undef"
| "node_next E C (Some (SeqNode o1)) r = keep_next SeqNode (op_next (seq_operator (pe_env E) (pe_pool E) (pe_catalog E)) o1 r)"
| "node_next E C (Some (IdxNode o1)) r = keep_next IdxNode (op_next (idx_operator (pe_catalog E)) o1 r)"
| "node_next E C (Some (FltNode c e)) r = keep_next of_flt (op_next (flt_operator C) \<lparr>flt_child = c, flt_condition = e\<rparr> r)"
| "node_next E C (Some (PrjNode c es as)) r =
     keep_next of_prj (op_next (prj_operator C) \<lparr>prj_child = c, prj_expressions = es, prj_aliases = as\<rparr> r)"
| "node_next E C (Some (JnNode l r e ty alg cl rr i h)) rw =
     keep_next of_jn (op_next (jn_operator C C) \<lparr>jn_left = l, jn_right = r, jn_condition = e, join_type = ty,
       algorithm = alg, current_left_row = cl, right_rows = rr, right_index = i, hash_table = h\<rparr> rw)"
| "node_next E C (Some (SrtNode c ks rs i)) r =
     keep_next of_srt (op_next (srt_operator (pe_sort E) C) \<lparr>srt_child = c, srt_keys = ks, sorted_rows = rs, current_index = i\<rparr> r)"
| "node_next E C (Some (LmtNode c n k i)) r =
     keep_next of_lmt (op_next (lmt_operator C) \<lparr>lmt_child = c, limit_count = n, offset_count = k, current_row = i\<rparr> r)"

fun node_rewind :: "plan_env \<Rightarrow> OpNode option ExecutorOperator \<Rightarrow> OpNode option \<Rightarrow> OpNode option outcome" where
  "node_rewind E C None = Undef"
| "node_rewind E C (Some (SeqNode o1)) = keep_rewind SeqNode (op_rewind (seq_operator (pe_env E) (pe_pool E) (pe_catalog E)) o1)"
| "node_rewind E C (Some (IdxNode o1)) = keep_rewind IdxNode (op_rewind (idx_operator (pe_catalog E)) o1)"
| "node_rewind E C (Some (FltNode c e)) = keep_rewind of_flt (op_rewind (flt_operator C) \<lparr>flt_child = c, flt_condition = e\<rparr>)"
| "node_rewind E C (Some (PrjNode c es as)) =
     keep_rewind of_prj (op_rewind (prj_operator C) \<lparr>prj_child = c, prj_expressions = es, prj_aliases = as\<rparr>)"
| "node_rewind E C (Some (JnNode l r e ty alg cl rr i h)) =
     keep_rewind of_jn (op_rewind (jn_operator C C) \<lparr>jn_left = l, jn_right = r, jn_condition = e, join_type = ty,
       algorithm = alg, current_left_row = cl, right_rows = rr, right_index = i, hash_table = h\<rparr>)"
| "node_rewind E C (Some (SrtNode c ks rs i)) =
     keep_rewind of_srt (op_rewind (srt_operator (pe_sort E) C) \<lparr>srt_child = c, srt_keys = ks, sorted_rows = rs, current_index = i\<rparr>)"
| "node_rewind E C (Some (LmtNode c n k i)) =
     keep_rewind of_lmt (op_rewind (lmt_operator C) \<lparr>lmt_child = c, limit_count = n, offset_count = k, current_row = i\<rparr>)"

text \<open>Closing stops the profilers and nothing else.\<close>

primrec plan_operator :: "plan_env \<Rightarrow> nat \<Rightarrow> OpNode option ExecutorOperator" where
  "plan_operator E 0 = \<lparr>op_open = (\<lambda>_. Undef), op_next = (\<lambda>_ _. Undef), op_close = (\<lambda>n. n), op_rewind = (\<lambda>_. Undef)\<rparr>"
| "plan_operator E (Suc d) = \<lparr>op_open = node_open E (plan_operator E d), op_next = node_next E (plan_operator E d),
     op_close = (\<lambda>n. n), op_rewind = node_rewind E (plan_operator E d)\<rparr>"

fun op_height :: "OpNode \<Rightarrow> nat" where
  "op_height (SeqNode o1) = 1"
| "op_height (IdxNode o1) = 1"
| "op_height (FltNode c e) = 1 + (case c of None \<Rightarrow> 0 | Some n \<Rightarrow> op_height n)"
| "op_height (PrjNode c es as) = 1 + (case c of None \<Rightarrow> 0 | Some n \<Rightarrow> op_height n)"
| "op_height (JnNode l r e ty alg cl rr i h) =
     1 + max (case l of None \<Rightarrow> 0 | Some n \<Rightarrow> op_height n) (case r of None \<Rightarrow> 0 | Some n \<Rightarrow> op_height n)"
| "op_height (SrtNode c ks rs i) = 1 + (case c of None \<Rightarrow> 0 | Some n \<Rightarrow> op_height n)"
| "op_height (LmtNode c n k i) = 1 + (case c of None \<Rightarrow> 0 | Some n \<Rightarrow> op_height n)"

section \<open>Building a plan\<close>

definition join_node :: "OpNode option \<Rightarrow> OpNode option \<Rightarrow> JoinAlgorithm \<Rightarrow> OpNode" where
  "join_node l r alg = of_jn (JoinOperator_new l r None J_INNER alg)"

fun buildPlan :: "PlanNode option \<Rightarrow> OpNode option outcome" where
  "buildPlan None = Finished None"
| "buildPlan (Some (PlanNode ty l r cs t i flt ob lim)) =
     (case ty of
        SEQ_SCAN \<Rightarrow> Finished (Some (SeqNode (SeqScanOperator_new t flt)))
      | INDEX_SCAN \<Rightarrow> Finished (Some (IdxNode \<lparr>idx_table_name = t, idx_index_name = i, idx_filter = flt\<rparr>))
      | FILTER \<Rightarrow> and_then (buildPlan l) (\<lambda>c.
          case flt of None \<Rightarrow> Undef | Some e \<Rightarrow> Finished (Some (FltNode c (Some e))))
      | PROJECT \<Rightarrow> and_then (buildPlan l) (\<lambda>c. Finished (Some (PrjNode c [] [])))
      | SORT \<Rightarrow> and_then (buildPlan l) (\<lambda>c.
          Finished (Some (SrtNode c (map (\<lambda>(col, asc). \<lparr>key_expr = None, key_ascending = asc\<rparr>) ob) [] 0)))
      | LIMIT \<Rightarrow> and_then (buildPlan l) (\<lambda>c. Finished (Some (of_lmt (LimitOperator_new c lim 0))))
      | HASH_JOIN \<Rightarrow> and_then (buildPlan l) (\<lambda>a. and_then (buildPlan r) (\<lambda>b. Finished (Some (join_node a b HASH))))
      | NESTED_LOOP_JOIN \<Rightarrow> and_then (buildPlan l) (\<lambda>a. and_then (buildPlan r) (\<lambda>b. Finished (Some (join_node a b NESTED_LOOP))))
      | MERGE_JOIN \<Rightarrow> and_then (buildPlan l) (\<lambda>a. and_then (buildPlan r) (\<lambda>b. Finished (Some (join_node a b MERGE))))
      | JOIN \<Rightarrow> and_then (buildPlan l) (\<lambda>a. and_then (buildPlan r) (\<lambda>b. Finished (Some (join_node a b MERGE))))
      | _ \<Rightarrow> Finished None)"

section \<open>Queries\<close>

text \<open>
  The mode of the context. \<open>expired\<close> answers the test of the timeout; \<open>F\<close> and \<open>dv\<close>
  are the arithmetic and the missing member of the optimizer.
\<close>

definition executeSelect :: "'d Doubles \<Rightarrow> (TableStatistics \<Rightarrow> string \<Rightarrow> nat) \<Rightarrow> plan_env \<Rightarrow> ExecutionMode \<Rightarrow> nat \<Rightarrow> int \<Rightarrow>
    (nat \<Rightarrow> bool) \<Rightarrow> SelectNode \<Rightarrow> row list \<Rightarrow> (StatusCode \<times> row list) outcome" where
  "executeSelect F dv E mode level max_rows expired q results =
     and_then (QueryOptimizer_new (pe_catalog E)) (\<lambda>S.
     and_then (optimize F dv S (pe_catalog E) mode level q) (\<lambda>plan.
       if mode = MODE_EXPLAIN then Finished (OK, results @ [[Value_string (explainPlan F dv S plan False)]])
       else and_then (buildPlan (plan_root plan)) (\<lambda>root.
         case root of None \<Rightarrow> Finished (ERROR, results)
         | Some n \<Rightarrow> and_then (run_plan (plan_operator E (op_height n)) max_rows expired root results) (\<lambda>(st, results).
             Finished (st, if st = OK \<and> mode = MODE_EXPLAIN_ANALYZE
               then [[Value_string (explainPlan F dv S plan True)]] else results)))))"

section \<open>Changing a table\<close>

text \<open>The pool and the transactions are in the transaction manager.\<close>

definition table_call :: "'a option \<Rightarrow> 'a outcome" where
  "table_call x = (case x of None \<Rightarrow> Undef | Some y \<Rightarrow> Finished y)"

definition qe_getTable :: "Env \<Rightarrow> string \<Rightarrow> Catalog \<Rightarrow> TransactionManager \<Rightarrow> (Table option \<times> TransactionManager) outcome" where
  "qe_getTable env name cat tm =
     and_then (getTable name cat) (\<lambda>(schema, _).
       case schema of None \<Rightarrow> Finished (None, tm)
       | Some s \<Rightarrow> and_then (table_call (Table_new env s (tm_pool tm))) (\<lambda>(t, bp).
           Finished (Some t, tm\<lparr>tm_pool := bp\<rparr>)))"

definition getIndex :: "string \<Rightarrow> string \<Rightarrow> Catalog \<Rightarrow> IndexId outcome" where
  "getIndex table col cat =
     and_then (getTable table cat) (\<lambda>(schema, _).
       Finished (case schema of None \<Rightarrow> 0
         | Some s \<Rightarrow> (case map_of (indexes s) col of Some i \<Rightarrow> i | None \<Rightarrow> 0)))"

definition note_page :: "u32 \<Rightarrow> RecordId \<Rightarrow> TransactionId option \<Rightarrow> TransactionManager \<Rightarrow> TransactionManager outcome" where
  "note_page pg_lsn rid tx tm =
     (case tx of None \<Rightarrow> Undef
      | Some i \<Rightarrow> (case tm_object tm i of None \<Rightarrow> Undef
          | Some t \<Rightarrow> Finished (tm_store i (addModifiedPage (drop_bit 32 rid) pg_lsn t) tm)))"

fun evaluate_all :: "ASTNode list \<Rightarrow> row \<Rightarrow> Value list outcome" where
  "evaluate_all [] r = Finished []"
| "evaluate_all (e # es) r = and_then (evaluateExpression e r) (\<lambda>v. and_then (evaluate_all es r) (\<lambda>vs. Finished (v # vs)))"

fun insert_rows :: "Env \<Rightarrow> u32 \<Rightarrow> ASTNode list list \<Rightarrow> Table \<Rightarrow> TransactionId option \<Rightarrow> TransactionManager \<Rightarrow>
    (StatusCode \<times> TransactionManager) outcome" where
  "insert_rows env pg_lsn [] t tx tm = Finished (OK, tm)"
| "insert_rows env pg_lsn (es # rows) t tx tm =
     and_then (evaluate_all es []) (\<lambda>values.
     and_then (table_call (table_insertRecord env t values (tm_pool tm))) (\<lambda>(st, rid, t, bp).
       let tm = tm\<lparr>tm_pool := bp\<rparr> in
       if st \<noteq> OK then Finished (st, tm)
       else (case rid of None \<Rightarrow> Undef
             | Some rid \<Rightarrow> and_then (note_page pg_lsn rid tx tm) (insert_rows env pg_lsn rows t tx))))"

definition executeInsert :: "Env \<Rightarrow> u32 \<Rightarrow> Catalog \<Rightarrow> string \<Rightarrow> ASTNode list list \<Rightarrow> TransactionId option \<Rightarrow> TransactionManager \<Rightarrow>
    (StatusCode \<times> TransactionManager) outcome" where
  "executeInsert env pg_lsn cat name rows tx tm =
     and_then (qe_getTable env name cat tm) (\<lambda>(t, tm).
       case t of None \<Rightarrow> Finished (NOT_FOUND, tm) | Some t \<Rightarrow> insert_rows env pg_lsn rows t tx tm)"

text \<open>A row is skipped when the value of the condition reads as false.\<close>

definition where_matches :: "ASTNode option \<Rightarrow> row \<Rightarrow> bool outcome" where
  "where_matches w r = (case w of None \<Rightarrow> Finished True
     | Some e \<Rightarrow> and_then (evaluateExpression e r) read_bool)"

text \<open>A column that the table does not have is the first one.\<close>

definition assign_index :: "TableSchema \<Rightarrow> string \<Rightarrow> nat" where
  "assign_index s col = (case filter (\<lambda>i. col_name (columns s ! i) = col) [0..<length (columns s)] of [] \<Rightarrow> 0 | i # _ \<Rightarrow> i)"

fun apply_assignments :: "TableSchema \<Rightarrow> (string \<times> ASTNode) list \<Rightarrow> row \<Rightarrow> row \<Rightarrow> row outcome" where
  "apply_assignments s [] r new_row = Finished new_row"
| "apply_assignments s ((col, e) # as) r new_row =
     and_then (evaluateExpression e r) (\<lambda>v.
       if assign_index s col < length new_row then apply_assignments s as r (new_row[assign_index s col := v]) else Undef)"

definition update_row :: "Env \<Rightarrow> u32 \<Rightarrow> (string \<times> ASTNode) list \<Rightarrow> ASTNode option \<Rightarrow> Table \<Rightarrow> TableIterator \<Rightarrow> TransactionId option \<Rightarrow>
    TransactionManager \<Rightarrow> (StatusCode \<times> TransactionManager) outcome" where
  "update_row env pg_lsn as w t it tx tm =
     and_then (table_call (iterator_value it (tm_pool tm))) (\<lambda>(rid, r).
     and_then (where_matches w r) (\<lambda>matches.
       if \<not> matches then Finished (OK, tm)
       else and_then (apply_assignments (schema t) as r r) (\<lambda>new_row.
         and_then (table_call (table_updateRecord env t rid new_row (tm_pool tm))) (\<lambda>(st, bp).
           let tm = tm\<lparr>tm_pool := bp\<rparr> in
           if st \<noteq> OK then Finished (st, tm)
           else and_then (note_page pg_lsn rid tx tm) (\<lambda>tm. Finished (OK, tm))))))"

partial_function (option) update_loop :: "Env \<Rightarrow> u32 \<Rightarrow> (string \<times> ASTNode) list \<Rightarrow> ASTNode option \<Rightarrow> Table \<Rightarrow> TableIterator \<Rightarrow>
    TransactionId option \<Rightarrow> TransactionManager \<Rightarrow> (StatusCode \<times> TransactionManager) outcome option" where
  "update_loop env pg_lsn as w t it tx tm =
     (if iterator_eq it (table_end t) then Some (Finished (OK, tm))
      else (case update_row env pg_lsn as w t it tx tm of
          Hangs \<Rightarrow> Some Hangs | Undef \<Rightarrow> Some Undef
        | Finished (st, tm) \<Rightarrow>
            if st \<noteq> OK then Some (Finished (st, tm))
            else (case iterator_next env it (tm_pool tm) of None \<Rightarrow> Some Undef
                  | Some (it, bp) \<Rightarrow> update_loop env pg_lsn as w t it tx (tm\<lparr>tm_pool := bp\<rparr>))))"

definition executeUpdate :: "Env \<Rightarrow> u32 \<Rightarrow> Catalog \<Rightarrow> string \<Rightarrow> (string \<times> ASTNode) list \<Rightarrow> ASTNode option \<Rightarrow> TransactionId option \<Rightarrow>
    TransactionManager \<Rightarrow> (StatusCode \<times> TransactionManager) outcome" where
  "executeUpdate env pg_lsn cat name as w tx tm =
     and_then (qe_getTable env name cat tm) (\<lambda>(t, tm).
       case t of None \<Rightarrow> Finished (NOT_FOUND, tm)
       | Some t \<Rightarrow> and_then (table_call (table_begin env t (tm_pool tm))) (\<lambda>(it, bp).
           returned (update_loop env pg_lsn as w t it tx (tm\<lparr>tm_pool := bp\<rparr>))))"

definition delete_row :: "Env \<Rightarrow> u32 \<Rightarrow> ASTNode option \<Rightarrow> Table \<Rightarrow> TableIterator \<Rightarrow> TransactionId option \<Rightarrow>
    TransactionManager \<Rightarrow> (StatusCode \<times> Table \<times> TransactionManager) outcome" where
  "delete_row env pg_lsn w t it tx tm =
     and_then (table_call (iterator_value it (tm_pool tm))) (\<lambda>(rid, r).
     and_then (where_matches w r) (\<lambda>matches.
       if \<not> matches then Finished (OK, t, tm)
       else and_then (table_call (table_deleteRecord env t rid (tm_pool tm))) (\<lambda>(st, t, bp).
         let tm = tm\<lparr>tm_pool := bp\<rparr> in
         if st \<noteq> OK then Finished (st, t, tm)
         else and_then (note_page pg_lsn rid tx tm) (\<lambda>tm. Finished (OK, t, tm)))))"

partial_function (option) delete_loop :: "Env \<Rightarrow> u32 \<Rightarrow> ASTNode option \<Rightarrow> Table \<Rightarrow> TableIterator \<Rightarrow>
    TransactionId option \<Rightarrow> TransactionManager \<Rightarrow> (StatusCode \<times> TransactionManager) outcome option" where
  "delete_loop env pg_lsn w t it tx tm =
     (if iterator_eq it (table_end t) then Some (Finished (OK, tm))
      else (case delete_row env pg_lsn w t it tx tm of
          Hangs \<Rightarrow> Some Hangs | Undef \<Rightarrow> Some Undef
        | Finished (st, t, tm) \<Rightarrow>
            if st \<noteq> OK then Some (Finished (st, tm))
            else (case iterator_next env it (tm_pool tm) of None \<Rightarrow> Some Undef
                  | Some (it, bp) \<Rightarrow> delete_loop env pg_lsn w t it tx (tm\<lparr>tm_pool := bp\<rparr>))))"

definition executeDelete :: "Env \<Rightarrow> u32 \<Rightarrow> Catalog \<Rightarrow> string \<Rightarrow> ASTNode option \<Rightarrow> TransactionId option \<Rightarrow>
    TransactionManager \<Rightarrow> (StatusCode \<times> TransactionManager) outcome" where
  "executeDelete env pg_lsn cat name w tx tm =
     and_then (qe_getTable env name cat tm) (\<lambda>(t, tm).
       case t of None \<Rightarrow> Finished (NOT_FOUND, tm)
       | Some t \<Rightarrow> and_then (table_call (table_begin env t (tm_pool tm))) (\<lambda>(it, bp).
           returned (delete_loop env pg_lsn w t it tx (tm\<lparr>tm_pool := bp\<rparr>))))"

section \<open>Changing the catalog\<close>

fun columns_of :: "ColumnId \<Rightarrow> ColumnDef list \<Rightarrow> ColumnSchema list" where
  "columns_of i [] = []"
| "columns_of i (d # ds) =
     ColumnSchema_default\<lparr>col_id := i, col_name := cd_name d, col_type := cd_type d, col_length := word_of_int (cd_length d),
       nullable := cd_nullable d, is_primary_key := cd_primary_key d\<rparr> # columns_of (i + 1) ds"

definition primary_key_of :: "ColumnDef list \<Rightarrow> ColumnId list" where
  "primary_key_of ds = map of_nat (filter (\<lambda>i. cd_primary_key (ds ! i)) [0..<length ds])"

text \<open>The calls that no definition answers; \<open>'t\<close> is the type of the tree objects.\<close>

record 't catalog_calls =
  call_createTable :: "string \<Rightarrow> ColumnSchema list \<Rightarrow> Catalog \<Rightarrow> Catalog outcome"
  call_createIndex :: "string \<Rightarrow> string \<Rightarrow> Catalog \<Rightarrow> Catalog outcome"
  call_treeNew :: "IndexId \<Rightarrow> BufferPool \<Rightarrow> ('t \<times> BufferPool) outcome"
  call_treeInsert :: "Value \<Rightarrow> RecordId \<Rightarrow> 't \<Rightarrow> BufferPool \<Rightarrow> ('t \<times> BufferPool) outcome"
  call_treeDelete :: "'t \<Rightarrow> BufferPool \<Rightarrow> BufferPool outcome"

definition executeCreateTable :: "'t catalog_calls \<Rightarrow> string \<Rightarrow> ColumnDef list \<Rightarrow> Catalog \<Rightarrow> (StatusCode \<times> Catalog) outcome" where
  "executeCreateTable K name ds cat =
     (let (i, cat) = getNextTableId cat; cols = columns_of 0 ds; pk = primary_key_of ds in
      and_then (call_createTable K name cols cat) (\<lambda>cat.
        if pk = [] then Finished (OK, cat)
        else if unat (hd pk) < length cols
        then and_then (call_createIndex K name (col_name (cols ! unat (hd pk))) cat) (\<lambda>cat. Finished (OK, cat))
        else Undef))"

text \<open>
  The loop that fills a new index: the value of column \<open>i\<close> of every row goes into the tree, which
  is deleted at the end of the block.
\<close>

partial_function (option) fill_loop :: "'t catalog_calls \<Rightarrow> Env \<Rightarrow> Table \<Rightarrow> nat \<Rightarrow> TableIterator \<Rightarrow> 't \<Rightarrow> BufferPool \<Rightarrow>
    ('t \<times> BufferPool) outcome option" where
  "fill_loop K env t i it tree bp =
     (if iterator_eq it (table_end t) then Some (Finished (tree, bp))
      else (case iterator_value it bp of None \<Rightarrow> Some Undef
        | Some (rid, r) \<Rightarrow>
            if i < length r
            then (case call_treeInsert K (r ! i) rid tree bp of
                Hangs \<Rightarrow> Some Hangs | Undef \<Rightarrow> Some Undef
              | Finished (tree, bp) \<Rightarrow>
                  (case iterator_next env it bp of None \<Rightarrow> Some Undef
                   | Some (it, bp) \<Rightarrow> fill_loop K env t i it tree bp))
            else Some Undef))"

text \<open>The schema is read through the pointer from before, after the catalog has changed.\<close>

definition executeCreateIndex :: "'t catalog_calls \<Rightarrow> Env \<Rightarrow> string \<Rightarrow> string list \<Rightarrow> Catalog \<Rightarrow> TransactionManager \<Rightarrow>
    (StatusCode \<times> Catalog \<times> TransactionManager) outcome" where
  "executeCreateIndex K env table cols cat tm =
     and_then (getTable table cat) (\<lambda>(schema, cat).
       if schema = None then Finished (NOT_FOUND, cat, tm)
       else if cols = [] then Undef
       else and_then (call_createIndex K table (hd cols) cat) (\<lambda>cat.
         and_then (qe_getTable env table cat tm) (\<lambda>(t, tm).
         and_then (getIndex table (hd cols) cat) (\<lambda>index_id.
         and_then (call_treeNew K index_id (tm_pool tm)) (\<lambda>(tree, bp).
           case t of None \<Rightarrow> Undef
           | Some t \<Rightarrow>
               and_then (table_call (table_begin env t bp)) (\<lambda>(it, bp).
               and_then (case map_of (tables cat) table of None \<Rightarrow> Undef
                 | Some s \<Rightarrow> returned (fill_loop K env t (assign_index s (hd cols)) it tree bp)) (\<lambda>(tree, bp).
               and_then (call_treeDelete K tree bp) (\<lambda>bp. Finished (OK, cat, tm\<lparr>tm_pool := bp\<rparr>)))))))))"

definition executeDropTable :: "dir_ops \<Rightarrow> string \<Rightarrow> Catalog \<Rightarrow> (StatusCode ret \<times> Catalog) outcome" where
  "executeDropTable fs name cat =
     and_then (dropTable fs name cat) (\<lambda>(st, cat).
       Finished (case st of ret.Throws \<Rightarrow> ret.Throws | ret.Returns _ \<Rightarrow> ret.Returns OK, cat))"

section \<open>Statements\<close>

text \<open>The surroundings of the executor.\<close>

record ('d, 't) exec_env =
  xe_doubles :: "'d Doubles"
  xe_distinct :: "TableStatistics \<Rightarrow> string \<Rightarrow> nat"
  xe_sort :: std_sort
  xe_env :: Env
  xe_fs :: dir_ops
  xe_calls :: "'t catalog_calls"
  xe_level :: nat
  xe_expired :: "nat \<Rightarrow> bool"
  xe_lsn :: u32
  xe_begin :: "64 word"
  xe_end :: "64 word"

type_synonym executed = "(StatusCode ret \<times> row list \<times> Catalog \<times> TransactionManager) outcome"

definition with_table :: "row list \<Rightarrow> Catalog \<Rightarrow> (StatusCode \<times> TransactionManager) outcome \<Rightarrow> executed" where
  "with_table results cat m = and_then m (\<lambda>(st, tm). Finished (ret.Returns st, results, cat, tm))"

text \<open>The column list and the query of an insert are not looked at.\<close>

fun run_statement :: "('d, 't) exec_env \<Rightarrow> Statement \<Rightarrow> row list \<Rightarrow> Catalog \<Rightarrow> TransactionId option \<Rightarrow> TransactionManager \<Rightarrow> executed" where
  "run_statement X (Select q) results cat tx tm =
     and_then (executeSelect (xe_doubles X) (xe_distinct X)
         \<lparr>pe_sort = xe_sort X, pe_env = xe_env X, pe_pool = tm_pool tm, pe_catalog = cat\<rparr>
         MODE_NORMAL (xe_level X) (- 1) (xe_expired X) q results)
       (\<lambda>(st, results). Finished (ret.Returns st, results, cat, tm))"
| "run_statement X (Insert t cols rows sel) results cat tx tm =
     with_table results cat (executeInsert (xe_env X) (xe_lsn X) cat t rows tx tm)"
| "run_statement X (Update t as w) results cat tx tm =
     with_table results cat (executeUpdate (xe_env X) (xe_lsn X) cat t as w tx tm)"
| "run_statement X (Delete t w) results cat tx tm =
     with_table results cat (executeDelete (xe_env X) (xe_lsn X) cat t w tx tm)"
| "run_statement X (CreateTable t ds ks) results cat tx tm =
     and_then (executeCreateTable (xe_calls X) t ds cat) (\<lambda>(st, cat). Finished (ret.Returns st, results, cat, tm))"
| "run_statement X (CreateIndex n t cols u) results cat tx tm =
     and_then (executeCreateIndex (xe_calls X) (xe_env X) t cols cat tm) (\<lambda>(st, cat, tm). Finished (ret.Returns st, results, cat, tm))"
| "run_statement X (DropTable t ie) results cat tx tm =
     and_then (executeDropTable (xe_fs X) t cat) (\<lambda>(st, cat). Finished (st, results, cat, tm))"
| "run_statement X (Begin n b) results cat tx tm = Finished (ret.Returns OK, results, cat, tm)"
| "run_statement X (Commit n b) results cat tx tm = Finished (ret.Returns OK, results, cat, tm)"
| "run_statement X (Rollback n b) results cat tx tm = Finished (ret.Returns OK, results, cat, tm)"

definition execute :: "('d, 't) exec_env \<Rightarrow> Statement \<Rightarrow> row list \<Rightarrow> Catalog \<Rightarrow> TransactionManager \<Rightarrow> executed" where
  "execute X q results cat tm =
     and_then (tx_begin (xe_begin X) REPEATABLE_READ READ_WRITE_ACCESS tm) (\<lambda>(tx, tm).
     and_then (run_statement X q results cat tx tm) (\<lambda>(st, results, cat, tm).
       case st of ret.Throws \<Rightarrow> Finished (ret.Throws, results, cat, tm)
       | ret.Returns st \<Rightarrow>
           and_then (if st = OK then commit (xe_env X) (xe_end X) tx tm else abort (xe_end X) tx tm) (\<lambda>(_, tm).
             Finished (ret.Returns st, results, cat, tm))))"

text \<open>More fuel than there are tokens: the parser does not run out of it.\<close>

definition execute_sql :: "('d, 't) exec_env \<Rightarrow> string \<Rightarrow> row list \<Rightarrow> Catalog \<Rightarrow> TransactionManager \<Rightarrow>
    (StatusCode \<times> row list \<times> Catalog \<times> TransactionManager) outcome" where
  "execute_sql X sql results cat tm =
     (case parse (Suc (length (tokens (Lexer_new sql)))) sql Parser_new of
        Parsed q _ \<Rightarrow> and_then (execute X q results cat tm) (\<lambda>(st, results, cat, tm).
          Finished (case st of ret.Returns st \<Rightarrow> st | ret.Throws \<Rightarrow> ERROR, results, cat, tm))
      | parse.Throws _ _ \<Rightarrow> Finished (ERROR, results, cat, tm)
      | Undefined \<Rightarrow> Undef | Loops \<Rightarrow> Hangs | Out_of_fuel \<Rightarrow> Hangs)"

text \<open>The mode that it computes is not given to the context: the statement is run.\<close>

definition explain :: "('d, 't) exec_env \<Rightarrow> string \<Rightarrow> bool \<Rightarrow> Catalog \<Rightarrow> TransactionManager \<Rightarrow> (string \<times> Catalog \<times> TransactionManager) outcome" where
  "explain X sql analyze cat tm =
     and_then (execute_sql X sql [] cat tm) (\<lambda>(st, results, cat, tm).
       Finished (if results \<noteq> [] \<and> hd results \<noteq> [] then str_val (hd (hd results)) else [], cat, tm))"

end
