(* ===== verification/QueryFacts.thy ===== *)
theory QueryFacts
  imports ExecutorFacts QueryExecutor
begin

text \<open>
  What a statement does: the plans the optimizer makes, the rows a query returns, and what becomes of
  the transaction of a statement.
\<close>

section \<open>The plans of the optimizer\<close>

lemma getTable_unlocked:
  "rw_mutex cat = Unlocked \<Longrightarrow> \<exists>c. getTable n cat = Finished (map_of (tables cat) n, c)"
  by (auto simp: getTable_def locked_def lock_shared_def unlock_def split: option.split)

lemma update_all_unlocked: "rw_mutex cat = Unlocked \<Longrightarrow> \<exists>S'. update_all cat ns S = Finished S'"
proof (induction ns arbitrary: S)
  case (Cons n ns)
  then show ?case using getTable_unlocked [OF Cons.prems, of n] by (auto simp: updateStatistics_def)
qed simp

lemma QueryOptimizer_unlocked: "rw_mutex cat = Unlocked \<Longrightarrow> \<exists>S. QueryOptimizer_new cat = Finished S"
  using update_all_unlocked [of cat "map fst (tables cat)" "[]"]
  by (simp add: QueryOptimizer_new_def listTables_def locked_def lock_shared_def unlock_def)

text \<open>Every join becomes a nested loop, because its right side is missing.\<close>

definition loop_joins :: "JoinClause list \<Rightarrow> PlanNode option \<Rightarrow> PlanNode option" where
  "loop_joins js src = fold (\<lambda>_ left. Some (PlanNode NESTED_LOOP_JOIN left None [] [] [] None [] 0)) js src"

lemma convert_joins: "map_option (convert F dv S) (plan_joins js src) = loop_joins js (map_option (convert F dv S) src)"
  by (induction js arbitrary: src)
    (simp_all add: plan_joins_def loop_joins_def estimateCost_def join_algorithm_def Cost_new_def)

lemma convert_limit: "convert F dv S (plan_limit l n) = plan_limit l (convert F dv S n)"
  by (simp add: plan_limit_def split: option.split)

lemma convert_sort: "convert F dv S (plan_sort ob n) = plan_sort ob (convert F dv S n)"
  by (simp add: plan_sort_def split: option.split)

lemma try_rules_none: "try_rules F q initializeRules p = p"
  by (simp add: try_rules_def initializeRules_def rule_def applyRule_IndexScan_def applyRule_JoinReordering_def
      applyRule_PredicatePushdown_def applyRule_ProjectionPushdown_def applyRule_SubqueryUnnesting_def applyRule_ViewMerging_def)

text \<open>The source of a query that names a table.\<close>

definition uses_index :: "'d Doubles \<Rightarrow> (TableStatistics \<Rightarrow> string \<Rightarrow> nat) \<Rightarrow> statistics_map \<Rightarrow> Catalog \<Rightarrow> string \<Rightarrow> ASTNode option \<Rightarrow> bool" where
  "uses_index F dv S cat t w = (case (w, map_of (tables cat) t) of
     (Some e, Some s) \<Rightarrow> (\<exists>(col, i) \<in> set (indexes s). containsColumn e col) \<and>
       dless F (estimateSelectivity F dv (stats_of S t) e) (lit F 2 10)
   | _ \<Rightarrow> False)"

definition index_node :: "string \<Rightarrow> string \<Rightarrow> ASTNode option \<Rightarrow> PlanNode" where
  "index_node t i w = PlanNode INDEX_SCAN None None [] t i w [] 0"

lemma choose_source_eq:
  assumes "rw_mutex cat = Unlocked"
  shows "\<exists>i. choose_source F dv S cat t w = Finished (if uses_index F dv S cat t w then index_node t i w else scan_node t w)"
proof (cases w)
  case (Some e)
  obtain c where g: "getTable t cat = Finished (map_of (tables cat) t, c)" using getTable_unlocked [OF assms] by blast
  show ?thesis
  proof (cases "map_of (tables cat) t")
    case (Some s)
    have "(filter (\<lambda>(col, i). containsColumn e col) (indexes s) \<noteq> []) \<longleftrightarrow> (\<exists>(col, i) \<in> set (indexes s). containsColumn e col)"
      by (auto simp: filter_empty_conv)
    then show ?thesis using g Some \<open>w = Some e\<close>
      by (auto simp: choose_source_def findUsableIndexes_def uses_index_def shouldUseIndex_def
          INDEX_SELECTIVITY_THRESHOLD_def index_node_def)
  qed (use g Some in \<open>auto simp: choose_source_def findUsableIndexes_def uses_index_def\<close>)
qed (simp add: choose_source_def uses_index_def)

definition project_node :: "PlanNode option \<Rightarrow> PlanNode" where
  "project_node l = PlanNode PROJECT l None [] [] [] None [] 0"

text \<open>
  The plan of a query. Whatever the level of optimization, the plan is a scan of the first
  table, a nested loop without a right side for each join, the projection, the sort and the limit,
  in this order; the rules and the search by cost change nothing.
\<close>

lemma optimize_spec:
  assumes "mode \<noteq> MODE_EXPLAIN" and "rw_mutex cat = Unlocked"
  shows "\<exists>i p. optimize F dv S cat mode level q = Finished p \<and>
    plan_root p = Some (plan_limit (sel_limit q) (plan_sort (order_by q) (project_node (loop_joins (sel_joins q)
      (case from_tables q of [] \<Rightarrow> None
       | TableRef t a sub # _ \<Rightarrow> Some (if uses_index F dv S cat t (sel_where q) then index_node t i (sel_where q)
                                      else scan_node t (sel_where q)))))))"
proof -
  define src where "src = (case from_tables q of [] \<Rightarrow> Finished None
     | TableRef table alias sub # _ \<Rightarrow> and_then (choose_source F dv S cat table (sel_where q)) (\<lambda>n. Finished (Some n)))"
  obtain i where src: "src = Finished (case from_tables q of [] \<Rightarrow> None
       | TableRef t a sub # _ \<Rightarrow> Some (if uses_index F dv S cat t (sel_where q) then index_node t i (sel_where q)
                                      else scan_node t (sel_where q)))" (is "_ = Finished ?n")
  proof (cases "from_tables q")
    case (Cons x xs)
    then obtain t a sub where "from_tables q = TableRef t a sub # xs" by (cases x) auto
    with choose_source_eq [OF assms(2), of F dv S t "sel_where q"] that show thesis by (auto simp: src_def)
  qed (use that in \<open>simp add: src_def\<close>)
  have "map_option (convert F dv S) ?n = ?n"
    by (simp add: index_node_def scan_node_def split: list.split TableRef.split)
  then show ?thesis using assms(1) src unfolding src_def
    by (simp add: optimize_def logicalOptimization_def Let_def try_rules_none costBasedOptimization_def generateAlternatives_def
        physicalOptimization_def convert_limit convert_sort convert_joins project_node_def exI [of _ i])
qed

section \<open>Running a plan\<close>

text \<open>Projections without expressions over an opened sequential scan.\<close>

fun empties :: "nat \<Rightarrow> OpNode option \<Rightarrow> bool" where
  "empties (Suc d) (Some (SeqNode o1)) \<longleftrightarrow> scan_inv o1"
| "empties (Suc d) (Some (PrjNode c es as)) \<longleftrightarrow> es = [] \<and> empties d c"
| "empties _ _ \<longleftrightarrow> False"

lemma empties_next:
  "empties d n \<Longrightarrow> \<exists>n'. op_next (plan_operator E d) n r = Finished (OK, [], n') \<and> empties d n'"
proof (induction d n arbitrary: r rule: empties.induct)
  case (1 d o1)
  then show ?case using scan_step [of o1 "pe_env E" "pe_pool E" r] by (auto simp: seq_operator_def keep_next_def)
next
  case (2 d c es as)
  then obtain c' where "op_next (plan_operator E d) c [] = Finished (OK, [], c')" "empties d c'" by fastforce
  with 2 show ?case by (auto simp: keep_next_def prj_operator_def prj_next_def of_prj_def)
qed simp_all

interpretation plan: row_source "plan_operator E d" "\<lambda>n m. Some []" "empties d" for E d
  using empties_next by unfold_locales auto

text \<open>What a plan does when it is opened and asked for rows.\<close>

datatype behaviour = Missing | Breaks | Stuck | Unusable | Empties nat

definition hgt :: "OpNode option \<Rightarrow> nat" where
  "hgt n = (case n of None \<Rightarrow> 0 | Some n \<Rightarrow> op_height n)"

fun behaves :: "plan_env \<Rightarrow> OpNode option \<Rightarrow> behaviour \<Rightarrow> bool" where
  "behaves E n Missing \<longleftrightarrow> (\<exists>n'. op_open (plan_operator E (hgt n)) n = Finished (NOT_FOUND, n'))"
| "behaves E n Breaks \<longleftrightarrow> op_open (plan_operator E (hgt n)) n = Undef"
| "behaves E n Stuck \<longleftrightarrow> op_open (plan_operator E (hgt n)) n = Hangs"
| "behaves E n Unusable \<longleftrightarrow> (\<exists>n'. op_open (plan_operator E (hgt n)) n = Finished (OK, n') \<and>
     (\<forall>r. op_next (plan_operator E (hgt n)) n' r = Undef))"
| "behaves E n (Empties m) \<longleftrightarrow> (\<exists>n'. op_open (plan_operator E (hgt n)) n = Finished (OK, n') \<and>
     (if m = 0 then empties (hgt n) n' else \<exists>c. n' = Some (LmtNode c m 0 0) \<and> empties (hgt n - 1) c))"

lemma hgt_simps [simp]:
  "hgt None = 0" "hgt (Some (SeqNode o1)) = 1" "hgt (Some (IdxNode o2)) = 1"
  "hgt (Some (PrjNode c es as)) = Suc (hgt c)" "hgt (Some (SrtNode c ks rs i)) = Suc (hgt c)"
  "hgt (Some (LmtNode c m k j)) = Suc (hgt c)"
  "hgt (Some (JnNode c None e ty alg cl rr i h)) = Suc (hgt c)"
  by (simp_all add: hgt_def)

lemma open_null: "op_open (plan_operator E d) None = Undef"
  by (cases d) simp_all

lemma open_project: "op_open (plan_operator E (Suc d)) (Some (PrjNode c es as)) =
  and_then (op_open (plan_operator E d) c) (\<lambda>(st, c). Finished (st, Some (PrjNode c es as)))"
  by (cases "op_open (plan_operator E d) c") (auto simp: keep_open_def prj_operator_def open_child_def of_prj_def)

lemma open_limit: "op_open (plan_operator E (Suc d)) (Some (LmtNode c m 0 i)) =
  and_then (op_open (plan_operator E d) c) (\<lambda>(st, c). Finished (st, Some (LmtNode c m 0 i)))"
  by (cases "op_open (plan_operator E d) c") (auto simp: keep_open_def lmt_operator_def lmt_open_def of_lmt_def)

lemma seq_open_new:
  assumes "rw_mutex (pe_catalog E) = Unlocked" and "map_of (tables (pe_catalog E)) t = Some s"
  shows "\<exists>o1. op_open (plan_operator E (Suc d)) (Some (SeqNode (SeqScanOperator_new t w))) = Finished (OK, Some (SeqNode o1)) \<and> scan_inv o1"
  using getTable_unlocked [OF assms(1), of t] assms(2)
  by (auto simp: keep_open_def seq_operator_def seq_open_def SeqScanOperator_new_def TableIterator_new_def loadCurrentPage_def
      of_option_def scan_inv_def)

lemma seq_open_missing:
  assumes "rw_mutex (pe_catalog E) = Unlocked" and "map_of (tables (pe_catalog E)) t = None"
  shows "behaves E (Some (SeqNode (SeqScanOperator_new t w))) Missing"
  using getTable_unlocked [OF assms(1), of t] assms(2)
  by (auto simp: keep_open_def seq_operator_def seq_open_def SeqScanOperator_new_def)

lemma idx_unusable:
  assumes "rw_mutex (pe_catalog E) = Unlocked" and "map_of (tables (pe_catalog E)) t = Some s"
  shows "behaves E (Some (IdxNode \<lparr>idx_table_name = t, idx_index_name = i, idx_filter = w\<rparr>)) Unusable"
proof -
  obtain c where c: "getTable t (pe_catalog E) = Finished (Some s, c)" using getTable_unlocked [OF assms(1), of t] assms(2) by auto
  then have "rw_mutex c = Unlocked" by (auto simp: getTable_def locked_def lock_shared_def unlock_def and_then_Finished)
  then have "\<exists>x. getIndexId i c = Finished x" by (simp add: getIndexId_def locked_def lock_shared_def)
  with c show ?thesis by (auto simp: keep_open_def keep_next_def idx_operator_def idx_open_def idx_next_def)
qed

lemma next_project: "op_next (plan_operator E (Suc d)) (Some (PrjNode c es as)) r =
  and_then (op_next (plan_operator E d) c []) (\<lambda>(st, cr, c).
    Finished (st, if st \<noteq> OK then r else map (\<lambda>_. Value_null) es, Some (PrjNode c es as)))"
  by (cases "op_next (plan_operator E d) c []")
    (auto simp: keep_next_def prj_operator_def prj_next_def of_prj_def prj_evaluateExpression_def)

lemma next_limit: "op_next (plan_operator E (Suc d)) (Some (LmtNode c m k i)) r =
  (if i \<ge> m then Finished (NOT_FOUND, r, Some (LmtNode c m k i))
   else and_then (op_next (plan_operator E d) c r) (\<lambda>(st, r, c).
     Finished (st, r, Some (LmtNode c m k (if st = OK then i + 1 else i)))))"
  by (cases "op_next (plan_operator E d) c r")
    (auto simp: keep_next_def lmt_operator_def lmt_next_def of_lmt_def)

lemma project_behaves:
  assumes "behaves E c k" and "k \<in> {Missing, Breaks, Stuck, Unusable, Empties 0}"
  shows "behaves E (Some (PrjNode c [] as)) k"
  using assms by (cases k) (auto simp del: plan_operator.simps simp: open_project next_project)

lemma limit_behaves:
  assumes "behaves E c k" and "k \<in> {Missing, Breaks, Stuck, Unusable, Empties 0}" and "m > 0"
  shows "behaves E (Some (LmtNode c m 0 0)) (if k = Empties 0 then Empties m else k)"
  using assms by (cases k) (auto simp del: plan_operator.simps simp: open_limit next_limit)

lemma sort_behaves:
  assumes "behaves E c k" and "k \<in> {Missing, Breaks, Stuck, Unusable, Empties 0}"
  shows "behaves E (Some (SrtNode c ks [] 0)) (case k of Empties _ \<Rightarrow> Stuck | Unusable \<Rightarrow> Breaks | _ \<Rightarrow> k)"
proof -
  have "load_rows (op_next (plan_operator E (hgt c))) (\<lambda>r. True) n [] [] = Some Undef"
    if "\<forall>r. op_next (plan_operator E (hgt c)) n r = Undef" for n
    using that by (subst load_rows.simps) simp
  moreover have "load_rows (op_next (plan_operator E (hgt c))) (\<lambda>r. True) n [] [] = None" if "empties (hgt c) n" for n
    using that plan.load_rows_endless by (simp add: plan.endless_def)
  ultimately show ?thesis using assms
    by (cases k) (auto simp: keep_open_def srt_operator_def srt_open_def returned_def Let_def)
qed

lemma join_behaves:
  assumes "behaves E c k" and "k \<in> {Missing, Breaks, Unusable, Empties 0}"
  shows "behaves E (Some (join_node c None alg)) (if k = Missing then Missing else Breaks)"
  using assms by (cases k) (auto simp: keep_open_def jn_operator_def jn_open_def join_node_def of_jn_def
      JoinOperator_new_def open_null Let_def)

interpretation limited: row_source "plan_operator E (Suc d)"
  "\<lambda>n j. case n of Some (LmtNode c m k i) \<Rightarrow> if i + j < m then Some [] else None | _ \<Rightarrow> None"
  "\<lambda>n. \<exists>c m k i. n = Some (LmtNode c m k i) \<and> empties d c" for E d
proof
  fix n r and x :: row assume "\<exists>c m k i. n = Some (LmtNode c m k i) \<and> empties d c"
    and x: "(case n of Some (LmtNode c m k i) \<Rightarrow> if i + 0 < m then Some [] else None | _ \<Rightarrow> None) = Some x"
  then obtain c m k i where n: "n = Some (LmtNode c m k i)" "empties d c" by blast
  with x empties_next [of d c E r]
  show "\<exists>n'. op_next (plan_operator E (Suc d)) n r = Finished (OK, x, n') \<and>
      (\<exists>c m k i. n' = Some (LmtNode c m k i) \<and> empties d c) \<and>
      (\<forall>j. (case n' of Some (LmtNode c m k i) \<Rightarrow> if i + j < m then Some [] else None | _ \<Rightarrow> None) =
           (case n of Some (LmtNode c m k i) \<Rightarrow> if i + Suc j < m then Some [] else None | _ \<Rightarrow> None))"
    by (auto simp del: plan_operator.simps simp: next_limit split: if_splits)
next
  fix n r assume "\<exists>c m k i. n = Some (LmtNode c m k i) \<and> empties d c"
    and "(case n of Some (LmtNode c m k i) \<Rightarrow> if i + 0 < m then Some [] else None | _ \<Rightarrow> None) = None"
  then show "\<exists>n'. op_next (plan_operator E (Suc d)) n r = Finished (NOT_FOUND, r, n') \<and>
      (\<exists>c m k i. n' = Some (LmtNode c m k i) \<and> empties d c) \<and>
      (\<forall>j. (case n' of Some (LmtNode c m k i) \<Rightarrow> if i + j < m then Some [] else None | _ \<Rightarrow> None) = None)"
    by (auto simp del: plan_operator.simps simp: next_limit split: if_splits)
qed

text \<open>
  How many empty rows a query collects: the limit (0 for none) or the first row at which the timeout
  has expired.
\<close>

definition stops :: "(nat \<Rightarrow> bool) \<Rightarrow> nat \<Rightarrow> nat \<Rightarrow> bool" where
  "stops expired m k \<longleftrightarrow> 0 < k \<and> (expired k \<or> k = m)"

definition empty_rows :: "(nat \<Rightarrow> bool) \<Rightarrow> nat \<Rightarrow> (StatusCode \<times> row list) outcome" where
  "empty_rows expired m = (if \<exists>k. stops expired m k then Finished (OK, replicate (LEAST k. stops expired m k) []) else Hangs)"

lemma run_empties:
  assumes "behaves E n (Empties m)"
  shows "run_plan (plan_operator E (hgt n)) (- 1) expired n [] = empty_rows expired m"
proof -
  obtain n' where o: "op_open (plan_operator E (hgt n)) n = Finished (OK, n')"
    and n': "if m = 0 then empties (hgt n) n' else \<exists>c. n' = Some (LmtNode c m 0 0) \<and> empties (hgt n - 1) c"
    using assms by auto
  let ?f = "fetch_loop (op_next (plan_operator E (hgt n))) (- 1) expired n' [] []"
  have "hgt n \<noteq> 0" using o by (intro notI) simp
  then have h: "hgt n = Suc (hgt n - 1)" by simp
  have run: "run_plan (plan_operator E (hgt n)) (- 1) expired n [] = and_then (returned ?f) (\<lambda>(rows, c). Finished (OK, rows))"
    using o by (simp add: run_plan_def)
  have some: "\<exists>c. ?f = Some (Finished (replicate k [], c))" if k: "stops expired m k" and least: "\<forall>j < k. \<not> stops expired m j" for k
  proof (cases "m = 0")
    case True
    with n' k least show ?thesis using plan.fetch_loop_same [of "hgt n" n' k "[]" expired "[]" "- 1" E "[]"]
      by (auto simp: stops_def)
  next
    case False
    then have "k \<le> m" using least by (auto simp: stops_def not_less [symmetric])
    moreover have "\<forall>j. 0 < j \<and> j < k \<longrightarrow> \<not> expired j" using least by (auto simp: stops_def)
    moreover obtain c where "n' = Some (LmtNode c m 0 0)" "empties (hgt n - 1) c" using False n' by auto
    ultimately show ?thesis
      using limited.fetch_loop_same [where d = "hgt n - 1" and c = n' and k = k and x = "[]" and expired = expired and acc = "[]" and m = "- 1" and E = E and r = "[]"] k h
      by (auto simp: stops_def)
  qed
  have none: "?f = None" if "\<not> (\<exists>k. stops expired m k)"
  proof -
    have no: "\<not> stops expired m j" for j using that by blast
    have "m = 0" using no [of m] by (simp add: stops_def)
    moreover have "\<forall>j > 0. \<not> expired j" using no unfolding stops_def by blast
    ultimately show ?thesis using n' plan.fetch_loop_endless [of "hgt n" n' "[]" expired "- 1" E "[]"] by (simp add: plan.endless_def)
  qed
  show ?thesis
  proof (cases "\<exists>k. stops expired m k")
    case True
    obtain c where "?f = Some (Finished (replicate (LEAST k. stops expired m k) [], c))"
      using some [OF LeastI_ex [OF True]] not_less_Least by blast
    with run True show ?thesis by (simp add: empty_rows_def returned_def)
  qed (use none run in \<open>simp add: empty_rows_def returned_def\<close>)
qed

text \<open>The plan of a query as operators, and how it behaves.\<close>

definition source_behaviour :: "plan_env \<Rightarrow> string \<Rightarrow> bool \<Rightarrow> behaviour" where
  "source_behaviour E t idx =
     (if map_of (tables (pe_catalog E)) t = None then Missing else if idx then Unusable else Empties 0)"

lemma build_joins:
  assumes "buildPlan src = Finished n" and "behaves E n k" and "k \<in> {Missing, Breaks, Unusable, Empties 0}"
  shows "\<exists>n'. buildPlan (loop_joins js src) = Finished n' \<and>
    behaves E n' (if js = [] \<or> k = Missing then k else Breaks)"
  using assms
proof (induction js arbitrary: src n k)
  case (Cons j js)
  have b: "buildPlan (Some (PlanNode NESTED_LOOP_JOIN src None [] [] [] None [] 0)) = Finished (Some (join_node n None NESTED_LOOP))"
    using Cons.prems(1) by simp
  have "\<exists>n'. buildPlan (loop_joins js (Some (PlanNode NESTED_LOOP_JOIN src None [] [] [] None [] 0))) = Finished n' \<and>
    behaves E n' (if js = [] \<or> (if k = Missing then Missing else Breaks) = Missing then (if k = Missing then Missing else Breaks) else Breaks)"
    by (rule Cons.IH [OF b join_behaves [OF Cons.prems(2,3)]]) simp
  then show ?case by (auto simp: loop_joins_def split: if_splits)
qed (auto simp: loop_joins_def)

lemma build_source:
  assumes "rw_mutex (pe_catalog E) = Unlocked" and "idx \<Longrightarrow> map_of (tables (pe_catalog E)) t \<noteq> None"
  shows "\<exists>n. buildPlan (Some (if idx then index_node t i w else scan_node t w)) = Finished n \<and>
    behaves E n (source_behaviour E t idx)"
  using assms seq_open_missing [OF assms(1), of t w] seq_open_new [OF assms(1), of t _ 0 w] idx_unusable [OF assms(1), of t _ i w]
  by (cases "map_of (tables (pe_catalog E)) t")
    (auto simp: index_node_def scan_node_def source_behaviour_def simp del: behaves.simps(1,4))

lemma build_project:
  assumes "buildPlan l = Finished c" and "behaves E c k" and "k \<in> {Missing, Breaks, Unusable, Empties 0}"
  shows "\<exists>n. buildPlan (Some (project_node l)) = Finished (Some n) \<and> behaves E (Some n) k"
  using assms(1) project_behaves [OF assms(2)] assms(3) by (auto simp: project_node_def)

lemma build_sort:
  assumes "buildPlan (Some p) = Finished (Some c)" and "behaves E (Some c) k" and "k \<in> {Missing, Breaks, Unusable, Empties 0}"
  shows "\<exists>n. buildPlan (Some (plan_sort ob p)) = Finished (Some n) \<and>
    behaves E (Some n) (if ob = None then k else case k of Empties _ \<Rightarrow> Stuck | Unusable \<Rightarrow> Breaks | _ \<Rightarrow> k)"
proof (cases ob)
  case (Some items)
  show ?thesis using Some assms(1) sort_behaves [OF assms(2)] assms(3) by (auto simp: plan_sort_def)
qed (use assms in \<open>auto simp: plan_sort_def\<close>)

lemma build_limit:
  assumes "buildPlan (Some p) = Finished (Some c)" and "behaves E (Some c) k" and "k \<in> {Missing, Breaks, Stuck, Unusable, Empties 0}"
  shows "\<exists>n. buildPlan (Some (plan_limit l p)) = Finished (Some n) \<and>
    behaves E (Some n) (if k = Empties 0 then Empties (case l of None \<Rightarrow> 0 | Some l \<Rightarrow> nat (lim_limit l)) else k)"
proof (cases "\<exists>x. l = Some x \<and> lim_limit x > 0")
  case True
  then obtain x where x: "l = Some x" "0 < nat (lim_limit x)" by auto
  show ?thesis using x assms(1) limit_behaves [OF assms(2,3) x(2)]
    by (auto simp: plan_limit_def of_lmt_def LimitOperator_new_def)
next
  case False
  then have "(case l of None \<Rightarrow> 0 | Some l \<Rightarrow> nat (lim_limit l)) = 0" "plan_limit l p = p"
    by (auto simp: plan_limit_def split: option.split)
  with assms show ?thesis by auto
qed

lemma run_behaves:
  assumes "behaves E (Some n) k"
  shows "run_plan (plan_operator E (op_height n)) (- 1) expired (Some n) [] =
    (case k of Missing \<Rightarrow> Finished (NOT_FOUND, []) | Breaks \<Rightarrow> Undef | Stuck \<Rightarrow> Hangs | Unusable \<Rightarrow> Undef
     | Empties m \<Rightarrow> empty_rows expired m)"
proof -
  have h: "hgt (Some n) = op_height n" by (simp add: hgt_def)
  show ?thesis
  proof (cases k)
    case (Empties m)
    with run_empties [of E "Some n" m expired] assms show ?thesis by (simp add: h)
  qed (use assms in \<open>auto simp: run_plan_def h returned_def fetch_loop.simps\<close>)
qed

definition first_table :: "SelectNode \<Rightarrow> string option" where
  "first_table q = (case from_tables q of [] \<Rightarrow> None | TableRef t a sub # _ \<Rightarrow> Some t)"

text \<open>The outcome of a query, from its clauses.\<close>

definition select_outcome :: "(nat \<Rightarrow> bool) \<Rightarrow> Catalog \<Rightarrow> (string \<Rightarrow> bool) \<Rightarrow> SelectNode \<Rightarrow> (StatusCode \<times> row list) outcome" where
  "select_outcome expired cat idx q =
     (case first_table q of None \<Rightarrow> Undef
      | Some t \<Rightarrow>
          if map_of (tables cat) t = None then Finished (NOT_FOUND, [])
          else if sel_joins q \<noteq> [] \<or> idx t then Undef
          else if order_by q \<noteq> None then Hangs
          else empty_rows expired (case sel_limit q of None \<Rightarrow> 0 | Some l \<Rightarrow> nat (lim_limit l)))"

lemma uses_index_known: "uses_index F dv S cat t w \<Longrightarrow> map_of (tables cat) t \<noteq> None"
  by (auto simp: uses_index_def split: option.splits)

lemma build_query:
  assumes "rw_mutex (pe_catalog E) = Unlocked"
    and src: "src = (case from_tables q of [] \<Rightarrow> None
       | TableRef t a sub # _ \<Rightarrow> Some (if idx t then index_node t i (sel_where q) else scan_node t (sel_where q)))"
    and idx: "\<And>t. idx t \<Longrightarrow> map_of (tables (pe_catalog E)) t \<noteq> None"
  shows "\<exists>n. buildPlan (Some (plan_limit (sel_limit q) (plan_sort (order_by q) (project_node (loop_joins (sel_joins q) src))))) = Finished (Some n) \<and>
    run_plan (plan_operator E (op_height n)) (- 1) expired (Some n) [] = select_outcome expired (pe_catalog E) idx q"
proof -
  define k0 where "k0 = (case first_table q of None \<Rightarrow> Breaks | Some t \<Rightarrow> source_behaviour E t (idx t))"
  have k0: "k0 \<in> {Missing, Breaks, Unusable, Empties 0}"
    by (simp add: k0_def source_behaviour_def split: option.split)
  have "\<exists>c. buildPlan src = Finished c \<and> behaves E c k0"
  proof (cases "from_tables q")
    case (Cons x xs)
    then obtain t a sub where "from_tables q = TableRef t a sub # xs" by (cases x) auto
    with build_source [OF assms(1) idx, of "idx t" t i "sel_where q"] show ?thesis by (auto simp: src k0_def first_table_def)
  qed (simp add: src k0_def first_table_def)
  then obtain c where c: "buildPlan src = Finished c" "behaves E c k0" by blast
  define k1 where "k1 = (if sel_joins q = [] \<or> k0 = Missing then k0 else Breaks)"
  have k1: "k1 \<in> {Missing, Breaks, Unusable, Empties 0}" using k0 by (auto simp: k1_def)
  obtain n1 where "buildPlan (loop_joins (sel_joins q) src) = Finished n1" "behaves E n1 k1"
    using build_joins [OF c k0, of "sel_joins q"] by (auto simp: k1_def)
  from build_project [OF this k1] obtain n2 where
    n2: "buildPlan (Some (project_node (loop_joins (sel_joins q) src))) = Finished (Some n2)" "behaves E (Some n2) k1" by blast
  define k2 where "k2 = (if order_by q = None then k1 else case k1 of Empties _ \<Rightarrow> Stuck | Unusable \<Rightarrow> Breaks | _ \<Rightarrow> k1)"
  have k2: "k2 \<in> {Missing, Breaks, Stuck, Unusable, Empties 0}" using k1 by (auto simp: k2_def)
  from build_sort [OF n2 k1, of "order_by q"] obtain n3 where
    n3: "buildPlan (Some (plan_sort (order_by q) (project_node (loop_joins (sel_joins q) src)))) = Finished (Some n3)"
      "behaves E (Some n3) k2" by (auto simp: k2_def)
  define k3 where "k3 = (if k2 = Empties 0 then Empties (case sel_limit q of None \<Rightarrow> 0 | Some l \<Rightarrow> nat (lim_limit l)) else k2)"
  obtain n where n: "buildPlan (Some (plan_limit (sel_limit q) (plan_sort (order_by q) (project_node (loop_joins (sel_joins q) src))))) = Finished (Some n)"
      "behaves E (Some n) k3"
    using build_limit [OF n3 k2, of "sel_limit q"] by (auto simp: k3_def)
  have "run_plan (plan_operator E (op_height n)) (- 1) expired (Some n) [] = select_outcome expired (pe_catalog E) idx q"
    unfolding run_behaves [OF n(2)]
    by (auto simp: select_outcome_def k3_def k2_def k1_def k0_def source_behaviour_def split: option.split)
  with n(1) show ?thesis by blast
qed

text \<open>
  C6: the outcome of a query. Whatever the tables hold and whatever the select list, the condition, the
  grouping and the offset are, a query of \<^verbatim>\<open>executeSelect\<close> is undefined without a table, with a
  join and with a usable index, answers \<^verbatim>\<open>NOT_FOUND\<close> for an unknown table, does not return with
  an \<^verbatim>\<open>ORDER BY\<close>, and otherwise collects empty rows until the limit or the timeout.
\<close>

theorem executeSelect_outcome:
  assumes "rw_mutex (pe_catalog E) = Unlocked"
  shows "\<exists>S. QueryOptimizer_new (pe_catalog E) = Finished S \<and>
    executeSelect F dv E MODE_NORMAL level (- 1) expired q [] =
      select_outcome expired (pe_catalog E) (\<lambda>t. uses_index F dv S (pe_catalog E) t (sel_where q)) q"
proof -
  obtain S where S: "QueryOptimizer_new (pe_catalog E) = Finished S" using QueryOptimizer_unlocked [OF assms] by blast
  obtain i p where p: "optimize F dv S (pe_catalog E) MODE_NORMAL level q = Finished p"
    "plan_root p = Some (plan_limit (sel_limit q) (plan_sort (order_by q) (project_node (loop_joins (sel_joins q)
      (case from_tables q of [] \<Rightarrow> None
       | TableRef t a sub # _ \<Rightarrow> Some (if uses_index F dv S (pe_catalog E) t (sel_where q) then index_node t i (sel_where q)
                                      else scan_node t (sel_where q)))))))"
    using optimize_spec [OF _ assms, of MODE_NORMAL F dv S level q] by auto
  let ?idx = "\<lambda>t. uses_index F dv S (pe_catalog E) t (sel_where q)"
  obtain n where n: "buildPlan (plan_root p) = Finished (Some n)"
    "run_plan (plan_operator E (op_height n)) (- 1) expired (Some n) [] = select_outcome expired (pe_catalog E) ?idx q"
    using build_query [OF assms refl, of ?idx q i expired] uses_index_known unfolding p(2) by blast
  have "executeSelect F dv E MODE_NORMAL level (- 1) expired q [] = select_outcome expired (pe_catalog E) ?idx q"
    using S p(1) n by (cases "select_outcome expired (pe_catalog E) ?idx q") (auto simp: executeSelect_def)
  with S show ?thesis by blast
qed

section \<open>The transaction of a statement\<close>

text \<open>A statement changes pages and the record of the pages it has changed.\<close>

definition kept :: "TransactionManager \<Rightarrow> TransactionManager \<Rightarrow> bool" where
  "kept s s' \<longleftrightarrow> tm_inv s' \<and> keys_of (active_transactions s') = keys_of (active_transactions s)"

lemma kept_refl: "tm_inv s \<Longrightarrow> kept s s"
  by (simp add: kept_def)

lemma kept_pool [simp]: "kept s (s'\<lparr>tm_pool := bp\<rparr>) = kept s s'"
  by (simp add: kept_def)

lemma kept_inv: "kept s s' \<Longrightarrow> tm_inv s'"
  by (simp add: kept_def)

lemma keys_update_known: "k \<in> set (keys_of m) \<Longrightarrow> keys_of (AList.update k v m) = keys_of m"
  by (induction m) auto

lemma note_page_kept:
  assumes "kept s0 s" and "i \<in> set (keys_of (active_transactions s0))" and "note_page n rid (Some i) s = Finished s'"
  shows "kept s0 s'"
proof -
  have i: "i \<in> set (keys_of (active_transactions s))" using assms(1,2) by (simp add: kept_def)
  then obtain t where t: "map_of (active_transactions s) i = Some t"
    by (metis map_of_eq_None_iff not_None_eq set_map)
  then have s': "s' = tm_store i (addModifiedPage (drop_bit 32 rid) n t) s" using assms(3) by (auto simp: note_page_def tm_object_def)
  have inv: "tm_inv s" using assms(1) by (rule kept_inv)
  have "tm_inv s'" unfolding s'
    using tm_inv_store [OF inv t] tm_inv_active(1,2) [OF inv t] by (simp add: addModifiedPage_def)
  then show ?thesis using assms(1) i t by (simp add: kept_def s' tm_store_def keys_update_known)
qed

lemma note_page_pool:
  assumes "note_page n rid (Some i) (s\<lparr>tm_pool := bp\<rparr>) = Finished s'" and "kept s0 s" and "i \<in> set (keys_of (active_transactions s0))"
  shows "kept s0 s'"
  using note_page_kept [OF _ assms(3,1)] assms(2) by simp

lemma insert_rows_kept:
  assumes "kept s0 s" and "i \<in> set (keys_of (active_transactions s0))" and "insert_rows env n rows t (Some i) s = Finished (st, s')"
  shows "kept s0 s'"
  using assms(1,3)
proof (induction rows arbitrary: t s)
  case (Cons es rows)
  then show ?case
    by (auto simp: and_then_Finished Let_def split: if_splits option.splits dest!: note_page_pool [OF _ Cons.prems(1) assms(2)])
qed simp

lemma qe_getTable_kept: "kept s0 s \<Longrightarrow> qe_getTable env name cat s = Finished (t, s') \<Longrightarrow> kept s0 s'"
  by (auto simp: qe_getTable_def and_then_Finished split: option.splits)

lemma update_row_kept:
  assumes "kept s0 s" and "i \<in> set (keys_of (active_transactions s0))" and "update_row env n as w t it (Some i) s = Finished (st, s')"
  shows "kept s0 s'"
  using assms(1,3)
  by (auto simp: update_row_def and_then_Finished Let_def split: if_splits dest!: note_page_pool [OF _ assms(1,2)])

lemma delete_row_kept:
  assumes "kept s0 s" and "i \<in> set (keys_of (active_transactions s0))" and "delete_row env n w t it (Some i) s = Finished (st, t', s')"
  shows "kept s0 s'"
  using assms(1,3)
  by (auto simp: delete_row_def and_then_Finished Let_def split: if_splits dest!: note_page_pool [OF _ assms(1,2)])

lemma update_loop_kept:
  assumes "update_loop env n as w t it (Some i) (s\<lparr>tm_pool := bp\<rparr>) = Some (Finished (st, s'))" and "kept s0 s" and "i \<in> set (keys_of (active_transactions s0))"
  shows "kept s0 s'"
proof -
  have "kept s0 s'" if "update_loop env n as w t it p s = Some y" "y = Finished (st, s')" "p = Some i" "kept s0 s" for y p s
    using that
  proof (induction rule: update_loop.raw_induct [rotated, consumes 1, case_names step])
    case (step f env n as w t it p s y)
    then show ?case using update_row_kept [OF _ assms(3)]
      by (fastforce split: if_splits outcome.splits prod.splits option.splits)
  qed
  from this [OF assms(1)] assms(2) show ?thesis by simp
qed

lemma delete_loop_kept:
  assumes "delete_loop env n w t it (Some i) (s\<lparr>tm_pool := bp\<rparr>) = Some (Finished (st, s'))" and "kept s0 s" and "i \<in> set (keys_of (active_transactions s0))"
  shows "kept s0 s'"
proof -
  have "kept s0 s'" if "delete_loop env n w t it p s = Some y" "y = Finished (st, s')" "p = Some i" "kept s0 s" for y p s
    using that
  proof (induction rule: delete_loop.raw_induct [rotated, consumes 1, case_names step])
    case (step f env n w t it p s y)
    then show ?case using delete_row_kept [OF _ assms(3)]
      by (fastforce split: if_splits outcome.splits prod.splits option.splits)
  qed
  from this [OF assms(1)] assms(2) show ?thesis by simp
qed

lemma returned_Finished: "returned x = Finished y \<longleftrightarrow> x = Some (Finished y)"
  by (auto simp: returned_def split: option.splits)

text \<open>Changes of pages only.\<close>

definition pages_only :: "TransactionManager \<Rightarrow> TransactionManager \<Rightarrow> bool" where
  "pages_only s s' \<longleftrightarrow> s'\<lparr>tm_pool := tm_pool s\<rparr> = s"

lemma pages_only_refl [simp]: "pages_only s s"
  by (simp add: pages_only_def)

lemma pages_only_pool [simp]: "pages_only s (s'\<lparr>tm_pool := bp\<rparr>) \<longleftrightarrow> pages_only s s'"
  by (simp add: pages_only_def)

lemma pages_only_update: "pages_only s s' \<Longrightarrow> s' = s\<lparr>tm_pool := tm_pool s'\<rparr>"
  unfolding pages_only_def by (metis (no_types) TransactionManager.surjective TransactionManager.update_convs(1))

lemma pages_only_trans: "pages_only s s' \<Longrightarrow> pages_only s' s'' \<Longrightarrow> pages_only s s''"
  by (metis pages_only_update pages_only_pool pages_only_refl)

lemma pages_only_step: "pages_only s s' \<Longrightarrow> pages_only (s'\<lparr>tm_pool := bp\<rparr>) s'' \<Longrightarrow> pages_only s s''"
  using pages_only_trans [of s "s'\<lparr>tm_pool := bp\<rparr>" s''] by simp

lemma qe_getTable_pages: "qe_getTable env name cat s = Finished (t, s') \<Longrightarrow> pages_only s s'"
  by (auto simp: qe_getTable_def and_then_Finished split: option.splits)

lemma create_index_pages: "executeCreateIndex K env t cols cat s = Finished (st, cat', s') \<Longrightarrow> pages_only s s'"
  by (auto simp: executeCreateIndex_def and_then_Finished split: if_splits option.splits dest!: qe_getTable_pages)

lemma kept_pages: "pages_only s s' \<Longrightarrow> kept s0 s \<Longrightarrow> kept s0 s'"
  by (metis pages_only_update kept_pool)

lemma run_statement_kept:
  assumes "kept s0 s" and "i \<in> set (keys_of (active_transactions s0))"
    and "run_statement X q rs cat (Some i) s = Finished (st, rs', cat', s')"
  shows "kept s0 s'"
proof (cases q)
  case (Insert t cols rows sel)
  then show ?thesis using assms
    by (auto simp: with_table_def executeInsert_def and_then_Finished split: option.splits
        dest!: qe_getTable_kept [OF assms(1)] dest: insert_rows_kept [OF _ assms(2)])
next
  case (Update t as w)
  then show ?thesis using assms
    by (auto simp: with_table_def executeUpdate_def and_then_Finished returned_Finished split: option.splits
        dest!: qe_getTable_kept [OF assms(1)] dest: update_loop_kept [OF _ _ assms(2)])
next
  case (Delete t w)
  then show ?thesis using assms
    by (auto simp: with_table_def executeDelete_def and_then_Finished returned_Finished split: option.splits
        dest!: qe_getTable_kept [OF assms(1)] dest: delete_loop_kept [OF _ _ assms(2)])
next
  case (CreateIndex n t cols u)
  then show ?thesis using assms
    by (auto simp: and_then_Finished dest!: create_index_pages intro: kept_pages)
qed (use assms(1,3) in \<open>auto simp: and_then_Finished executeCreateTable_def executeDropTable_def split_beta\<close>)

text \<open>Without a transaction a statement that returns has changed pages only.\<close>

lemma note_page_none [simp]: "note_page n rid None s = Undef"
  by (simp add: note_page_def)

lemma insert_rows_none: "insert_rows env n rows t None s = Finished (st, s') \<Longrightarrow> pages_only s s'"
  by (cases rows) (auto simp: and_then_Finished Let_def split: if_splits option.splits)

lemma update_row_none: "pages_only s0 s \<Longrightarrow> update_row env n as w t it None s = Finished (st, s') \<Longrightarrow> pages_only s0 s'"
  by (auto simp: update_row_def and_then_Finished Let_def split: if_splits)

lemma delete_row_none: "pages_only s0 s \<Longrightarrow> delete_row env n w t it None s = Finished (st, t', s') \<Longrightarrow> pages_only s0 s'"
  by (auto simp: delete_row_def and_then_Finished Let_def split: if_splits)

lemma update_loop_none:
  assumes "update_loop env n as w t it None s = Some (Finished (st, s'))"
  shows "pages_only s s'"
proof -
  have "pages_only s0 s'" if "update_loop env n as w t it p s = Some y" "y = Finished (st, s')" "p = None" "pages_only s0 s" for y p s s0
    using that
  proof (induction rule: update_loop.raw_induct [rotated, consumes 1, case_names step])
    case (step f env n as w t it p s y)
    then show ?case using update_row_none
      by (fastforce split: if_splits outcome.splits prod.splits option.splits)
  qed
  from this [OF assms] show ?thesis by simp
qed

lemma delete_loop_none:
  assumes "delete_loop env n w t it None s = Some (Finished (st, s'))"
  shows "pages_only s s'"
proof -
  have "pages_only s0 s'" if "delete_loop env n w t it p s = Some y" "y = Finished (st, s')" "p = None" "pages_only s0 s" for y p s s0
    using that
  proof (induction rule: delete_loop.raw_induct [rotated, consumes 1, case_names step])
    case (step f env n w t it p s y)
    then show ?case using delete_row_none
      by (fastforce split: if_splits outcome.splits prod.splits option.splits)
  qed
  from this [OF assms] show ?thesis by simp
qed

lemma run_statement_none:
  assumes "run_statement X q rs cat None s = Finished (st, rs', cat', s')"
  shows "pages_only s s'"
proof (cases q)
  case (Insert t cols rows sel)
  then show ?thesis using assms
    by (auto simp: with_table_def executeInsert_def and_then_Finished split: option.splits
        dest!: qe_getTable_pages insert_rows_none intro: pages_only_trans)
next
  case (Update t as w)
  then show ?thesis using assms
    by (auto simp: with_table_def executeUpdate_def and_then_Finished returned_Finished split: option.splits
        dest!: qe_getTable_pages update_loop_none intro: pages_only_step)
next
  case (Delete t w)
  then show ?thesis using assms
    by (auto simp: with_table_def executeDelete_def and_then_Finished returned_Finished split: option.splits
        dest!: qe_getTable_pages delete_loop_none intro: pages_only_step)
next
  case (CreateIndex n t cols u)
  then show ?thesis using assms by (auto simp: and_then_Finished dest!: create_index_pages)
qed (use assms in \<open>auto simp: and_then_Finished executeCreateTable_def executeDropTable_def split_beta\<close>)

lemma keys_delete: "keys_of (AList.delete k m) = filter (\<lambda>x. x \<noteq> k) (keys_of m)"
  by (induction m) auto

lemma keys_update_new: "k \<notin> set (keys_of m) \<Longrightarrow> keys_of (AList.update k v m) = keys_of m @ [k]"
  by (induction m) auto

lemma begin_keys:
  assumes "tm_inv s" and "next_tx_id s \<noteq> - 1" and "length (active_transactions s) < max_transactions s"
  obtains s1 where "tx_begin now lvl m s = Finished (Some (next_tx_id s), s1)" and "tm_inv s1"
    and "keys_of (active_transactions s1) = keys_of (active_transactions s) @ [next_tx_id s]"
    and "next_tx_id s \<notin> set (keys_of (active_transactions s))"
  using assms(1)
proof (cases rule: tx_begin_result [where now = now and lvl = lvl and m = m])
  case (started t l st)
  have "next_tx_id s \<notin> set (keys_of (active_transactions s))"
    using assms(1) by (fastforce simp: tm_inv_def list_all_iff active_ok_def)
  with started(2) tm_inv_begin [OF assms(1) started(2) assms(2)] that show thesis by (simp add: keys_update_new)
qed (use assms(3) in simp)

lemma kept_object:
  assumes "kept s0 s" and "i \<in> set (keys_of (active_transactions s0))"
  obtains t where "map_of (active_transactions s) i = Some t" and "tm_object s i = Some t" and "tx_state t = ACTIVE"
proof -
  have "i \<in> set (keys_of (active_transactions s))" using assms by (simp add: kept_def)
  then obtain t where t: "map_of (active_transactions s) i = Some t" by (metis map_of_eq_None_iff not_None_eq set_map)
  with tm_inv_active(2) [OF kept_inv [OF assms(1)] t] that show thesis by (simp add: tm_object_def)
qed

lemma commit_kept:
  assumes "kept s0 s" and "i \<in> set (keys_of (active_transactions s0))" and "commit env now (Some i) s = Finished (st, s')"
  shows "tm_inv s' \<and> keys_of (active_transactions s') = filter (\<lambda>x. x \<noteq> i) (keys_of (active_transactions s0)) \<and>
    (\<exists>t. map_of (completed_transactions s') i = Some t \<and> tx_state t = COMMITTED)"
proof -
  note inv = kept_inv [OF assms(1)]
  obtain t where t: "map_of (active_transactions s) i = Some t" by (rule kept_object [OF assms(1,2)])
  obtain s2 n l t' where c: "commit env now (Some i) s = (if map_of (completed_transactions s2) i = None then Undef else Finished (OK, s2))"
    and t': "t' = t\<lparr>last_lsn := n, tx_state := COMMITTED\<rparr>"
    and s2: "s2 = s\<lparr>tm_pool := fold (flushPage env) (keys_of (modified_pages t)) (tm_pool s), tm_log := l,
           active_transactions := AList.delete i (active_transactions s),
           completed_transactions := archived i t' (completed_transactions s),
           tm_stats := (tm_stats s)\<lparr>committed_count := committed_count (tm_stats s) + 1,
             active_count := active_count (tm_stats s) - 1\<rparr>, tm_mutex := False\<rparr>"
    by (rule commit_active [OF inv t])
  have s': "s' = s2" "map_of (completed_transactions s2) i \<noteq> None" using c assms(3) by (auto split: if_splits)
  have "map_of (archived i t' (completed_transactions s)) i \<noteq> None" using s'(2) by (simp add: s2)
  then have "map_of (archived i t' (completed_transactions s)) i = Some t'"
    by (auto simp: archived_def Let_def map_of_delete split: if_splits)
  then show ?thesis using tm_inv_commit [OF inv assms(3)] assms(1) by (simp add: s' s2 keys_delete kept_def t')
qed

lemma execute_begun:
  assumes "tm_inv s" and "next_tx_id s \<noteq> - 1" and "length (active_transactions s) < max_transactions s"
  obtains s1 where "tx_begin (xe_begin X) REPEATABLE_READ READ_WRITE_ACCESS s = Finished (Some (next_tx_id s), s1)"
    and "keys_of (active_transactions s1) = keys_of (active_transactions s) @ [next_tx_id s]"
    and "next_tx_id s \<notin> set (keys_of (active_transactions s))"
    and "\<And>st rs' cat' s2. run_statement X q rs cat (Some (next_tx_id s)) s1 = Finished (st, rs', cat', s2) \<Longrightarrow> kept s1 s2"
proof (rule begin_keys [OF assms(1-3), of "xe_begin X" REPEATABLE_READ READ_WRITE_ACCESS])
  fix s1 assume s1: "tx_begin (xe_begin X) REPEATABLE_READ READ_WRITE_ACCESS s = Finished (Some (next_tx_id s), s1)" "tm_inv s1"
    "keys_of (active_transactions s1) = keys_of (active_transactions s) @ [next_tx_id s]"
    "next_tx_id s \<notin> set (keys_of (active_transactions s))"
  then have "next_tx_id s \<in> set (keys_of (active_transactions s1))" by simp
  with run_statement_kept [OF kept_refl [OF s1(2)] this] that [OF s1(1,3,4)] show thesis by blast
qed

lemma execute_in_transaction:
  assumes "tm_inv s" and "next_tx_id s \<noteq> - 1" and "length (active_transactions s) < max_transactions s"
    and "execute X q rs cat s = Finished (ret.Returns st, rs', cat', s')"
  shows "st = OK \<and> tm_inv s' \<and> keys_of (active_transactions s') = keys_of (active_transactions s) \<and>
    (\<exists>t. map_of (completed_transactions s') (next_tx_id s) = Some t \<and> tx_state t = COMMITTED)"
proof (rule execute_begun [OF assms(1-3), of X q rs cat])
  fix s1 assume s1: "tx_begin (xe_begin X) REPEATABLE_READ READ_WRITE_ACCESS s = Finished (Some (next_tx_id s), s1)"
    "keys_of (active_transactions s1) = keys_of (active_transactions s) @ [next_tx_id s]"
    "next_tx_id s \<notin> set (keys_of (active_transactions s))"
    "\<And>st rs' cat' s2. run_statement X q rs cat (Some (next_tx_id s)) s1 = Finished (st, rs', cat', s2) \<Longrightarrow> kept s1 s2"
  have i: "next_tx_id s \<in> set (keys_of (active_transactions s1))" using s1(2) by simp
  obtain s2 st' where s2: "run_statement X q rs cat (Some (next_tx_id s)) s1 = Finished (ret.Returns st, rs', cat', s2)"
    "(if st = OK then commit (xe_env X) (xe_end X) (Some (next_tx_id s)) s2 else abort (xe_end X) (Some (next_tx_id s)) s2) = Finished (st', s')"
    using assms(4) s1(1) by (auto simp: execute_def and_then_Finished split: ret.splits) (metis ret.exhaust)+
  note k = s1(4) [OF s2(1)]
  have "st = OK"
  proof (rule ccontr)
    assume "st \<noteq> OK"
    moreover obtain t where "tm_object s2 (next_tx_id s) = Some t" "tx_state t = ACTIVE" by (rule kept_object [OF k i])
    ultimately show False using s2(2) abort_active by simp
  qed
  moreover have "filter (\<lambda>x. x \<noteq> next_tx_id s) (keys_of (active_transactions s1)) = keys_of (active_transactions s)"
    using s1(2,3) by (simp del: set_map) (metis (mono_tags, lifting) filter_True)
  ultimately show ?thesis using commit_kept [OF k i] s2(2) by (auto simp: list.set_map)
qed

lemma execute_at_limit:
  assumes "tm_inv s" and "\<not> length (active_transactions s) < max_transactions s"
  shows "execute X q rs cat s = run_statement X q rs cat None s"
proof -
  have b: "tx_begin (xe_begin X) REPEATABLE_READ READ_WRITE_ACCESS s = Finished (None, s)"
    using assms(1) by (cases rule: tx_begin_result [where now = "xe_begin X" and lvl = REPEATABLE_READ and m = READ_WRITE_ACCESS])
      (use assms(2) in simp_all)
  have e: "(if st = OK then commit (xe_env X) (xe_end X) None s2 else abort (xe_end X) None s2) = Finished (ERROR, s2)" for st s2
    by (simp add: commit_def abort_def)
  show ?thesis
    by (cases "run_statement X q rs cat None s") (auto simp: execute_def b e split: prod.splits ret.splits)
qed

lemma execute_failing:
  assumes "tm_inv s" and "next_tx_id s \<noteq> - 1" and "length (active_transactions s) < max_transactions s"
  shows "\<exists>s1. tx_begin (xe_begin X) REPEATABLE_READ READ_WRITE_ACCESS s = Finished (Some (next_tx_id s), s1) \<and>
    (\<forall>st rs' cat' s2. run_statement X q rs cat (Some (next_tx_id s)) s1 = Finished (ret.Returns st, rs', cat', s2) \<and> st \<noteq> OK \<longrightarrow>
       execute X q rs cat s = Hangs) \<and>
    (\<forall>rs' cat' s'. execute X q rs cat s = Finished (ret.Throws, rs', cat', s') \<longrightarrow>
       next_tx_id s \<in> set (keys_of (active_transactions s')))"
proof (rule execute_begun [OF assms, of X q rs cat])
  fix s1 assume s1: "tx_begin (xe_begin X) REPEATABLE_READ READ_WRITE_ACCESS s = Finished (Some (next_tx_id s), s1)"
    "keys_of (active_transactions s1) = keys_of (active_transactions s) @ [next_tx_id s]"
    "\<And>st rs' cat' s2. run_statement X q rs cat (Some (next_tx_id s)) s1 = Finished (st, rs', cat', s2) \<Longrightarrow> kept s1 s2"
  have i: "next_tx_id s \<in> set (keys_of (active_transactions s1))" using s1(2) by simp
  have "execute X q rs cat s = Hangs"
    if r: "run_statement X q rs cat (Some (next_tx_id s)) s1 = Finished (ret.Returns st, rs', cat', s2)" and "st \<noteq> OK" for st rs' cat' s2
  proof -
    obtain t where "tm_object s2 (next_tx_id s) = Some t" "tx_state t = ACTIVE" by (rule kept_object [OF s1(3) [OF r] i])
    with abort_active r \<open>st \<noteq> OK\<close> s1(1) show ?thesis by (simp add: execute_def)
  qed
  moreover have "next_tx_id s \<in> set (keys_of (active_transactions s'))"
    if "execute X q rs cat s = Finished (ret.Throws, rs', cat', s')" for rs' cat' s'
  proof -
    have "run_statement X q rs cat (Some (next_tx_id s)) s1 = Finished (ret.Throws, rs', cat', s')"
      using that s1(1) by (auto simp: execute_def and_then_Finished split: ret.splits) (metis ret.exhaust)+
    from s1(3) [OF this] i show ?thesis by (simp add: kept_def)
  qed
  ultimately show ?thesis using s1(1) by blast
qed

text \<open>
  C7: a statement that returns has been committed, if it had a transaction. While there is room for
  another transaction, a call of \<^verbatim>\<open>execute\<close> that returns a status returns \<^verbatim>\<open>OK\<close>, whatever
  the statement, \<^verbatim>\<open>ROLLBACK\<close> included; its transaction is kept as committed, the active transactions
  are those from before, and the invariant of the manager holds. At the limit of transactions the
  statement runs without one: its own status is returned, nothing is committed, and of the
  manager only the pages can have changed.
\<close>

theorem execute_commits:
  assumes "tm_inv s" and "next_tx_id s \<noteq> - 1"
    and "execute X q rs cat s = Finished (ret.Returns st, rs', cat', s')"
  shows "if length (active_transactions s) < max_transactions s
    then st = OK \<and> tm_inv s' \<and> keys_of (active_transactions s') = keys_of (active_transactions s) \<and>
      (\<exists>t. map_of (completed_transactions s') (next_tx_id s) = Some t \<and> tx_state t = COMMITTED)
    else run_statement X q rs cat None s = Finished (ret.Returns st, rs', cat', s') \<and> (\<exists>bp. s' = s\<lparr>tm_pool := bp\<rparr>)"
proof (cases "length (active_transactions s) < max_transactions s")
  case True
  with execute_in_transaction [OF assms(1,2) True assms(3)] show ?thesis by simp
next
  case False
  then show ?thesis
    using assms(3) execute_at_limit [OF assms(1) False, of X q rs cat] run_statement_none [THEN pages_only_update]
    by (auto intro!: exI)
qed

text \<open>
  C8: a statement that fails in a transaction never returns: when the statement itself answers with
  an error, \<^verbatim>\<open>execute\<close> aborts the transaction, which does not return. When it throws, the exception
  leaves the transaction among the active ones. At the limit of transactions there is none to
  abort, and the outcome of the statement, an error included, is the outcome of the call.
\<close>

theorem failing_statement_hangs:
  assumes "tm_inv s" and "next_tx_id s \<noteq> - 1"
  shows "if length (active_transactions s) < max_transactions s
    then \<exists>s1. tx_begin (xe_begin X) REPEATABLE_READ READ_WRITE_ACCESS s = Finished (Some (next_tx_id s), s1) \<and>
      (\<forall>st rs' cat' s2. run_statement X q rs cat (Some (next_tx_id s)) s1 = Finished (ret.Returns st, rs', cat', s2) \<and> st \<noteq> OK \<longrightarrow>
         execute X q rs cat s = Hangs) \<and>
      (\<forall>rs' cat' s'. execute X q rs cat s = Finished (ret.Throws, rs', cat', s') \<longrightarrow>
         next_tx_id s \<in> set (keys_of (active_transactions s')))
    else execute X q rs cat s = run_statement X q rs cat None s"
proof (cases "length (active_transactions s) < max_transactions s")
  case True
  with execute_failing [OF assms True] show ?thesis by simp
qed (simp add: execute_at_limit [OF assms(1)])

section \<open>Witnesses\<close>

definition example_doubles :: "nat Doubles" where
  "example_doubles = \<lparr>lit = (\<lambda>n d. n * 100 div d), of_size = (\<lambda>n. n * 100), to_size = (\<lambda>x. x div 100), dadd = (+), dsub = (-),
     dmul = (\<lambda>x y. x * y div 100), ddiv = (\<lambda>x y. x * 100 div y), dlog = (\<lambda>x. x), dless = (<), fixed2 = dec_nat\<rparr>"

definition example_calls :: "unit catalog_calls" where
  "example_calls = \<lparr>call_createTable = (\<lambda>n cols c. Finished c), call_createIndex = (\<lambda>t n c. Finished c),
     call_treeNew = (\<lambda>i bp. Finished ((), bp)), call_treeInsert = (\<lambda>v r t bp. Finished (t, bp)), call_treeDelete = (\<lambda>t bp. Finished bp)\<rparr>"

definition example_exec :: "(nat, unit) exec_env" where
  "example_exec = \<lparr>xe_doubles = example_doubles, xe_distinct = (\<lambda>st c. 100), xe_sort = (\<lambda>f xs. xs), xe_env = example_env,
     xe_fs = \<lparr>create_directories = (\<lambda>d. True), rename_dir = (\<lambda>a b. True), remove_all = (\<lambda>d. True)\<rparr>,
     xe_calls = example_calls, xe_level = 2, xe_expired = (\<lambda>n. False), xe_lsn = 0, xe_begin = 7, xe_end = 9\<rparr>"

lemma example_inv: "tm_inv example_tm" "next_tx_id example_tm \<noteq> - 1"
    "length (active_transactions example_tm) < max_transactions example_tm"
  using tm_reachable_inv [OF tm_reachable.start [of example_env "TransactionManager_new example_pool LogManager_new"]]
  by (simp_all add: example_tm_def TransactionManager_new_def)

lemma commit_room:
  assumes "kept s0 s" and "i \<in> set (keys_of (active_transactions s0))" and "length (completed_transactions s) < MAX_COMPLETED"
  shows "\<exists>s'. commit env now (Some i) s = Finished (OK, s')"
proof -
  note inv = kept_inv [OF assms(1)]
  obtain t where t: "map_of (active_transactions s) i = Some t" by (rule kept_object [OF assms(1,2)])
  obtain s2 t' l where c: "commit env now (Some i) s = (if map_of (completed_transactions s2) i = None then Undef else Finished (OK, s2))"
    and s2: "s2 = s\<lparr>tm_pool := fold (flushPage env) (keys_of (modified_pages t)) (tm_pool s), tm_log := l,
           active_transactions := AList.delete i (active_transactions s),
           completed_transactions := archived i t' (completed_transactions s),
           tm_stats := (tm_stats s)\<lparr>committed_count := committed_count (tm_stats s) + 1,
             active_count := active_count (tm_stats s) - 1\<rparr>, tm_mutex := False\<rparr>"
    by (rule commit_active [OF inv t])
  have "archived i t' (completed_transactions s) = AList.update i t' (completed_transactions s)"
    using assms(3) tm_inv_active(4) [OF inv t] by (simp add: archived_def Let_def length_AList_update)
  with c show ?thesis by (simp add: s2)
qed

lemma example_rollback: "\<exists>s'. execute example_exec (Rollback [] False) [] Catalog_new example_tm = Finished (ret.Returns OK, [], Catalog_new, s')"
proof -
  obtain s1 where s1: "tx_begin 7 REPEATABLE_READ READ_WRITE_ACCESS example_tm = Finished (Some (next_tx_id example_tm), s1)" "tm_inv s1"
    "keys_of (active_transactions s1) = keys_of (active_transactions example_tm) @ [next_tx_id example_tm]"
    by (rule begin_keys [OF example_inv])
  have "completed_transactions s1 = []" using s1(1)
    by (auto simp: tx_begin_def tm_lock_def generateTransactionId_def tm_unlock_def example_tm_def TransactionManager_new_def Let_def case_prod_beta)
  then obtain s' where "commit example_env 9 (Some (next_tx_id example_tm)) s1 = Finished (OK, s')"
    using commit_room [OF kept_refl [OF s1(2)], of "next_tx_id example_tm"] s1(3) by (fastforce simp: MAX_COMPLETED_def)
  with s1(1) show ?thesis by (simp add: execute_def example_exec_def)
qed

theorem execute_commits_witness:
  "\<exists>s' t. execute example_exec (Rollback [] False) [] Catalog_new example_tm = Finished (ret.Returns OK, [], Catalog_new, s') \<and>
     map_of (completed_transactions s') (next_tx_id example_tm) = Some t \<and> tx_state t = COMMITTED"
  using example_rollback execute_commits [OF example_inv(1,2), of example_exec "Rollback [] False" "[]" Catalog_new] example_inv(3)
  by fastforce

theorem failing_statement_hangs_witness:
  "execute example_exec (Delete ''t'' None) [] Catalog_new example_tm = Hangs"
proof -
  have "run_statement example_exec (Delete ''t'' None) [] Catalog_new tx s = Finished (ret.Returns NOT_FOUND, [], Catalog_new, s)" for tx s
    by (simp add: with_table_def executeDelete_def qe_getTable_def getTable_def locked_def lock_shared_def unlock_def Catalog_new_def)
  then show ?thesis
    using failing_statement_hangs [OF example_inv(1,2), of example_exec "Delete ''t'' None" "[]" Catalog_new] example_inv(3)
    by fastforce
qed

definition example_query :: SelectNode where
  "example_query = SelectNode False [ColumnRefNode [] ''a''] [TableRef ''t'' [] None] [] None None None None (Some \<lparr>lim_limit = 2, lim_offset = 0\<rparr>) S_NONE None"

definition example_plan_env :: plan_env where
  "example_plan_env = \<lparr>pe_sort = (\<lambda>f xs. xs), pe_env = example_env, pe_pool = example_pool,
     pe_catalog = Catalog_new\<lparr>tables := [(''t'', TableSchema_default)]\<rparr>\<rparr>"

lemma example_unlocked: "rw_mutex (pe_catalog example_plan_env) = Unlocked"
  by (simp add: example_plan_env_def Catalog_new_def)

theorem executeSelect_outcome_witness:
  "executeSelect example_doubles (\<lambda>st c. 100) example_plan_env MODE_NORMAL 2 (- 1) (\<lambda>n. False) example_query [] = Finished (OK, [[], []])"
proof -
  have "stops (\<lambda>n. False) 2 = (\<lambda>k. k = 2)" by (auto simp: stops_def fun_eq_iff)
  moreover have "(LEAST k. k = (2 :: nat)) = 2" by (rule Least_equality) simp_all
  ultimately have "empty_rows (\<lambda>n. False) 2 = Finished (OK, replicate 2 [])" by (simp add: empty_rows_def)
  then have "empty_rows (\<lambda>n. False) 2 = Finished (OK, [[], []])" by (simp add: numeral_2_eq_2)
  then show ?thesis
    using executeSelect_outcome [OF example_unlocked, of example_doubles "\<lambda>st c. 100" 2 "\<lambda>n. False" example_query]
    by (auto simp: select_outcome_def first_table_def example_query_def example_plan_env_def uses_index_def)
qed

end
