(* ===== verification/Spec2Isabelle.thy ===== *)
theory Spec2Isabelle
  imports Page Records Wal LockManager BTreeNode TransactionManager ParserRoundtrip Utils CatalogFacts QueryFacts
begin

text \<open>
  A verification library for OrangeSQL, a relational database server in C++. The program has a
  storage layer (\<^verbatim>\<open>storage/\<close>: slotted pages, a buffer pool over page files), indexes
  (\<^verbatim>\<open>index/\<close>), transactions (\<^verbatim>\<open>transaction/\<close>: log, write-ahead
  rule, locks, transaction manager), a parser (\<^verbatim>\<open>parser/\<close>) and the layers above
  them (\<^verbatim>\<open>metadata/\<close>, \<^verbatim>\<open>engine/\<close>, \<^verbatim>\<open>cli/\<close>). A statement
  is read by the parser, executed against tables whose pages come from the buffer pool, and its
  changes are logged before a page is written.

  \<^bold>\<open>Theories and sources.\<close>
  \<^item> \<open>Prelude\<close>: identifiers (\<^verbatim>\<open>include/types.h\<close>), little-endian bytes, bounded
    reads and writes of byte buffers, association lists; the collections of simplification rules.
  \<^item> \<open>Status\<close>, \<open>Types\<close>, \<open>StdText\<close>: \<^verbatim>\<open>include/status.h\<close>;
    \<^verbatim>\<open>Value\<close> with its union kept as 64 bits, its operators, and the schemas with
    \<^verbatim>\<open>validateRecord\<close>; the conversions \<^verbatim>\<open>to_string\<close>,
    \<^verbatim>\<open>stoi\<close>, \<^verbatim>\<open>stoll\<close>. Shown: the order laws of values, what
    \<^verbatim>\<open>validateRecord\<close> accepts.
  \<^item> \<open>ValueCodec\<close>, \<open>Page\<close>: \<^verbatim>\<open>storage/page.cpp\<close>. A page is its
    header and its byte array; an access outside the array is the result \<open>None\<close>. Shown: all
    accesses stay inside on well-formed pages, insertion, deletion and lookup agree, pages survive
    serialisation.
  \<^item> \<open>Records\<close>: \<^verbatim>\<open>storage/record.cpp\<close>, the second record format, comparison
    and aggregates.
  \<^item> \<open>FileManager\<close>, \<open>BufferPool\<close>: \<^verbatim>\<open>storage/file_manager.cpp\<close>,
    \<^verbatim>\<open>storage/buffer_pool.cpp\<close>. The disk is a map from file names to bytes; open
    files have a mode and error flags. The locale \<open>page_device\<close> is what the pool needs of the
    files. Shown: pages read back as written, pool and disk together hold every page whatever is
    evicted, capacity, and when fetching returns at all.
  \<^item> \<open>LogManager\<close>, \<open>Wal\<close>: \<^verbatim>\<open>transaction/log_manager.cpp\<close>,
    \<^verbatim>\<open>transaction/wal.cpp\<close>. Shown: numbers without gaps, back links, the stream
    of file and buffer, the write-ahead rule.
  \<^item> \<open>LockManager\<close>: \<^verbatim>\<open>transaction/lock_manager.cpp\<close> as a step relation over
    interleaved calls. Shown: granted locks are compatible, the deadlock search is exact, a
    waiting exclusive request is never granted.
  \<^item> \<open>TransactionManager\<close>: \<^verbatim>\<open>transaction/transaction_manager.cpp\<close> over log,
    locks and pool, with its mutex in the state, so that locking it twice is the outcome
    \<open>Hangs\<close>.
  \<^item> \<open>BTreeNode\<close>: \<^verbatim>\<open>index/btree_node.cpp\<close>. Shown: a leaf refines a finite
    map; what a split keeps and loses.
  \<^item> \<open>Lexer\<close>, \<open>Ast\<close>, \<open>SqlParser\<close>, \<open>ParserFacts\<close>,
    \<open>ParserRoundtrip\<close>: \<^verbatim>\<open>parser/\<close>. Shown: every token makes progress, printed
    tokens are read back, parsing ends, printed expressions are parsed back.
  \<^item> \<open>Utils\<close>: \<^verbatim>\<open>include/utils.h\<close>. Shown: base64 round trip, the checksum table,
    powers of two, string replacement.
  \<^item> \<open>Json\<close>, \<open>Catalog\<close>, \<open>CatalogFacts\<close>:
    \<^verbatim>\<open>metadata/catalog.cpp\<close>, with the JSON library as an argument and its documented
    laws as a hypothesis. Shown: the maps stay consistent under all calls, what dropping, renaming,
    saving and loading keep and lose, the numbers of a sequence.
  \<^item> \<open>Table\<close>: \<^verbatim>\<open>storage/table.cpp\<close> over the buffer pool. Shown: when a scan
    returns, and that a new table takes no record.
  \<^item> \<open>Executor\<close>, \<open>ExecutorFacts\<close>: the expressions and operators of
    \<^verbatim>\<open>engine/query_executor.cpp\<close>. An operator is a record of its virtual functions; the
    locales \<open>list_source\<close> and \<open>row_source\<close> are what an operator needs of its child, and they are
    interpreted on the sequential scan, the sort and the plans. Shown: types and values of
    expressions.
  \<^item> \<open>Optimizer\<close>, \<open>QueryExecutor\<close>, \<open>QueryFacts\<close>:
    \<^verbatim>\<open>engine/optimizer.cpp\<close> and the rest of \<^verbatim>\<open>engine/query_executor.cpp\<close>: from
    the text of a statement over its plan to its effect on tables, catalog and transactions. Shown:
    the plan of a query, the outcome of every query, and what becomes of the transaction of a
    statement.

  \<^bold>\<open>Bounds and fuel.\<close> Machine integers are words of their width. The parser functions take
  fuel, and \<open>parse_returns\<close> shows that more fuel than there are tokens is enough. The eviction
  loops of the pool are partial functions in the option monad; \<open>createNewPage_returns_iff\<close> says
  when they return. So are the loops over tables and operators, for which
  \<open>table_scan_returns_iff\<close> and \<open>executeSelect_outcome\<close> say when they return. A plan is run with its
  height as the bound of the nesting of virtual calls. All other loops are total functions. The depth of the call stack is not
  bounded in the model.

  \<^bold>\<open>Not modelled.\<close> The tree over the nodes of an index and the registry of trees copy the
  memory of node objects. The second description of tables in \<^verbatim>\<open>metadata/schema.cpp\<close> and the
  histograms of \<^verbatim>\<open>metadata/statistics.cpp\<close> are used by no other part. The aggregate operator
  and prepared statements are declared and not defined. The checkpoint thread, console input and
  output, log rotation and archiving, and the directory operations of the file manager are calls of
  the operating system. Time stamps are arguments, and so is the arithmetic of \<^verbatim>\<open>double\<close>.
\<close>

end
